(* ===== verification/Prelude.thy ===== *)
theory Prelude
  imports Main "HOL-Library.Char_ord" "HOL-Library.List_Lexorder"
begin

text \<open>
  Shared vocabulary of the development: the exceptions the Python code raises, the result
  type of a function that may raise, the loop combinators with their invariant rules, and
  generic lemmas on lists and finite maps that several components use.
\<close>

named_theorems res_simps \<open>unfolding rules of the result monad\<close>
named_theorems engine_facts \<open>consequences of a successful regular-expression match\<close>

section \<open>Exceptions and results\<close>

datatype py_error =
    SourceError string
  | KeyError string
  | ValueError string
  | TypeError string
  | IndexError
  | FileNotFound string

type_synonym 'a res = "py_error + 'a"

fun rbind :: "'a res \<Rightarrow> ('a \<Rightarrow> 'b res) \<Rightarrow> 'b res" where
  "rbind (Inl e) f = Inl e"
| "rbind (Inr x) f = f x"

lemma rbind_Inr_iff [res_simps]: "rbind m f = Inr y \<longleftrightarrow> (\<exists>x. m = Inr x \<and> f x = Inr y)"
  by (cases m) auto

lemma rbind_Inl_iff [res_simps]:
  "rbind m f = Inl e \<longleftrightarrow> m = Inl e \<or> (\<exists>x. m = Inr x \<and> f x = Inl e)"
  by (cases m) auto

lemma rbind_cong [fundef_cong]:
  "m = m' \<Longrightarrow> (\<And>x. m' = Inr x \<Longrightarrow> f x = g x) \<Longrightarrow> rbind m f = rbind m' g"
  by (cases m') auto

text \<open>A key that must be present: a Python subscript raises \<open>KeyError\<close> otherwise.\<close>

fun require :: "string \<Rightarrow> 'a option \<Rightarrow> 'a res" where
  "require k None = Inl (KeyError k)"
| "require k (Some x) = Inr x"

lemma require_Inr_iff [res_simps]: "require k m = Inr x \<longleftrightarrow> m = Some x"
  by (cases m) auto

text \<open>A \<open>for\<close> loop whose body may raise: the loop stops at the first exception.\<close>

fun fold_res :: "('a \<Rightarrow> 's \<Rightarrow> 's res) \<Rightarrow> 'a list \<Rightarrow> 's \<Rightarrow> 's res" where
  "fold_res f [] s = Inr s"
| "fold_res f (x # xs) s = rbind (f x s) (fold_res f xs)"

lemma fold_res_append:
  "fold_res f (xs @ ys) s = rbind (fold_res f xs s) (fold_res f ys)"
proof (induction xs arbitrary: s)
  case (Cons x xs)
  then show ?case by (cases "f x s") auto
qed simp

lemma fold_res_invariant:
  assumes "fold_res f xs s = Inr s'" and "P s"
    and "\<And>x t t'. x \<in> set xs \<Longrightarrow> P t \<Longrightarrow> f x t = Inr t' \<Longrightarrow> P t'"
  shows "P s'"
  using assms
proof (induction xs arbitrary: s)
  case (Cons x xs)
  then obtain t where "f x s = Inr t" and "fold_res f xs t = Inr s'"
    by (auto simp: res_simps)
  then show ?case using Cons.IH [of t] Cons.prems by auto
qed auto

text \<open>The same rule for an invariant that also counts the elements already visited.\<close>

lemma fold_res_prefix_invariant:
  assumes "fold_res f xs s = Inr s'" and "P [] s"
    and "\<And>pre x post t t'. xs = pre @ x # post \<Longrightarrow> P pre t \<Longrightarrow> f x t = Inr t' \<Longrightarrow> P (pre @ [x]) t'"
  shows "P xs s'"
proof -
  have "fold_res f ys t = Inr s' \<Longrightarrow> xs = pre @ ys \<Longrightarrow> P pre t \<Longrightarrow> P xs s'" for pre ys t
  proof (induction ys arbitrary: pre t)
    case (Cons y ys)
    then obtain u where u: "f y t = Inr u" "fold_res f ys u = Inr s'"
      by (auto simp: res_simps)
    have "P (pre @ [y]) u" using assms(3) [OF Cons.prems(2,3) u(1)] .
    with Cons.IH [OF u(2), of "pre @ [y]"] Cons.prems(2) show ?case by simp
  qed simp
  from this [of xs s "[]"] assms(1,2) show ?thesis by simp
qed

text \<open>Evaluating a list of computations from left to right.\<close>

fun map_res :: "('a \<Rightarrow> 'b res) \<Rightarrow> 'a list \<Rightarrow> 'b list res" where
  "map_res f [] = Inr []"
| "map_res f (x # xs) = rbind (f x) (\<lambda>y. rbind (map_res f xs) (\<lambda>ys. Inr (y # ys)))"

lemma map_res_length: "map_res f xs = Inr ys \<Longrightarrow> length ys = length xs"
  by (induction xs arbitrary: ys) (auto simp: res_simps)

lemma map_res_in:
  "map_res f xs = Inr ys \<Longrightarrow> y \<in> set ys \<Longrightarrow> \<exists>x \<in> set xs. f x = Inr y"
  by (induction xs arbitrary: ys) (auto simp: res_simps)

section \<open>Options and lists\<close>

fun or_else :: "'a option \<Rightarrow> 'a \<Rightarrow> 'a" where
  "or_else None d = d"
| "or_else (Some x) d = x"

fun filter_map :: "('a \<Rightarrow> 'b option) \<Rightarrow> 'a list \<Rightarrow> 'b list" where
  "filter_map f [] = []"
| "filter_map f (x # xs) = (case f x of None \<Rightarrow> filter_map f xs | Some y \<Rightarrow> y # filter_map f xs)"

lemma set_filter_map: "y \<in> set (filter_map f xs) \<longleftrightarrow> (\<exists>x \<in> set xs. f x = Some y)"
  by (induction xs) (auto split: option.splits)

lemma filter_map_append [simp]: "filter_map f (xs @ ys) = filter_map f xs @ filter_map f ys"
  by (induction xs) (auto split: option.splits)

lemma length_filter_map: "length (filter_map f xs) = length (filter (\<lambda>x. f x \<noteq> None) xs)"
  by (induction xs) (auto split: option.splits)

text \<open>Lookup and update of an insertion-ordered dictionary, as Python's \<open>dict\<close> keeps it.\<close>

fun dict_get :: "('k \<times> 'v) list \<Rightarrow> 'k \<Rightarrow> 'v option" where
  "dict_get [] k = None"
| "dict_get ((k', v) # d) k = (if k' = k then Some v else dict_get d k)"

fun dict_set :: "('k \<times> 'v) list \<Rightarrow> 'k \<Rightarrow> 'v \<Rightarrow> ('k \<times> 'v) list" where
  "dict_set [] k v = [(k, v)]"
| "dict_set ((k', v') # d) k v = (if k' = k then (k', v) # d else (k', v') # dict_set d k v)"

definition dict_setdefault :: "('k \<times> 'v) list \<Rightarrow> 'k \<Rightarrow> 'v \<Rightarrow> ('k \<times> 'v) list" where
  "dict_setdefault d k v = (case dict_get d k of None \<Rightarrow> d @ [(k, v)] | Some _ \<Rightarrow> d)"

lemma dict_get_map_of: "dict_get d k = map_of d k"
  by (induction d) auto

lemma dict_get_set [simp]: "dict_get (dict_set d k v) k' = (if k' = k then Some v else dict_get d k')"
  by (induction d) auto

lemma dict_get_append:
  "dict_get (d @ e) k = (case dict_get d k of None \<Rightarrow> dict_get e k | Some v \<Rightarrow> Some v)"
  by (induction d) auto

lemma dict_get_None_iff: "dict_get d k = None \<longleftrightarrow> k \<notin> fst ` set d"
  by (simp add: dict_get_map_of map_of_eq_None_iff)

lemma dict_get_in: "dict_get d k = Some v \<Longrightarrow> (k, v) \<in> set d"
  by (induction d) (auto split: if_splits)

lemma dict_get_snd: "dict_get d k = Some v \<Longrightarrow> v \<in> set (map snd d)"
  by (drule dict_get_in) force

lemma dict_get_distinct:
  "distinct (map fst d) \<Longrightarrow> (k, v) \<in> set d \<Longrightarrow> dict_get d k = Some v"
  by (simp add: dict_get_map_of)

lemma keys_dict_set: "fst ` set (dict_set d k v) = insert k (fst ` set d)"
proof (induction d)
  case (Cons a d)
  then show ?case by (cases a) (simp add: insert_commute)
qed simp

lemma set_dict_set: "set (dict_set d k v) \<subseteq> insert (k, v) (set d)"
proof (induction d)
  case (Cons a d)
  then show ?case by (cases a) (cases "fst a = k"; auto)
qed simp

lemma distinct_dict_set: "distinct (map fst d) \<Longrightarrow> distinct (map fst (dict_set d k v))"
proof (induction d)
  case (Cons a d)
  then show ?case using keys_dict_set [of d k v] by (cases a) auto
qed simp

lemma dict_set_fresh: "dict_get d k = None \<Longrightarrow> dict_set d k v = d @ [(k, v)]"
  by (induction d) (auto split: if_splits)

lemma dict_get_setdefault:
  "dict_get (dict_setdefault d k v) k' =
     (if k' = k \<and> dict_get d k = None then Some v else dict_get d k')"
  by (auto simp: dict_setdefault_def dict_get_append split: option.splits)

lemma set_setdefault: "set (dict_setdefault d k v) \<subseteq> insert (k, v) (set d)"
  by (auto simp: dict_setdefault_def split: option.splits)

lemma keys_setdefault: "fst ` set (dict_setdefault d k v) = insert k (fst ` set d)"
proof (cases "dict_get d k")
  case None
  then show ?thesis by (simp add: dict_setdefault_def)
next
  case (Some x)
  then have "k \<in> fst ` set d" using dict_get_None_iff [of d k] by simp
  with Some show ?thesis by (simp add: dict_setdefault_def insert_absorb)
qed

lemma distinct_dict_setdefault:
  "distinct (map fst d) \<Longrightarrow> distinct (map fst (dict_setdefault d k v))"
  by (auto simp: dict_setdefault_def dict_get_None_iff split: option.splits)

text \<open>Counting occurrences, as a \<open>dict\<close> of counters that is bumped once per element does.\<close>

definition bump :: "('k \<times> nat) list \<Rightarrow> 'k \<Rightarrow> ('k \<times> nat) list" where
  "bump d k = dict_set d k (Suc (or_else (dict_get d k) 0))"

definition tally :: "('k \<times> nat) list \<Rightarrow> 'k list \<Rightarrow> ('k \<times> nat) list" where
  "tally d ks = foldl bump d ks"

definition dict_total :: "('k \<times> nat) list \<Rightarrow> nat" where
  "dict_total d = sum_list (map snd d)"

lemma dict_total_set:
  "distinct (map fst d) \<Longrightarrow>
     dict_total (dict_set d k v) + or_else (dict_get d k) 0 = dict_total d + v"
  by (induction d) (auto simp: dict_total_def dict_get_None_iff)

lemma bump_total:
  assumes "distinct (map fst d)"
  shows "dict_total (bump d k) = Suc (dict_total d)" and "distinct (map fst (bump d k))"
  using dict_total_set [OF assms, of k "Suc (or_else (dict_get d k) 0)"] distinct_dict_set [OF assms]
  by (auto simp: bump_def)

lemma tally_total:
  assumes "distinct (map fst d)"
  shows "dict_total (tally d ks) = dict_total d + length ks" and "distinct (map fst (tally d ks))"
  using assms
  by (induction ks arbitrary: d) (auto simp: tally_def bump_total)

lemma tally_get:
  "or_else (dict_get (tally d ks) k) 0 = or_else (dict_get d k) 0 + count_list ks k"
  by (induction ks arbitrary: d) (auto simp: tally_def bump_def)

lemma tally_keys: "fst ` set (tally d ks) = fst ` set d \<union> set ks"
  by (induction ks arbitrary: d) (auto simp: tally_def bump_def keys_dict_set)

text \<open>Python's \<open>sorted(set(...))\<close> over strings.\<close>

definition py_sorted :: "('a::linorder) list \<Rightarrow> 'a list" where
  "py_sorted xs = sort (remdups xs)"

lemma py_sorted_set [simp]: "set (py_sorted xs) = set xs"
  by (simp add: py_sorted_def)

lemma py_sorted_sorted: "sorted (py_sorted xs)" and py_sorted_distinct: "distinct (py_sorted xs)"
  by (simp_all add: py_sorted_def)

end
