(* ===== verification/PyStr.thy ===== *)
theory PyStr
  imports Prelude
begin

text \<open>
  The operations of Python's \<open>str\<close> and \<open>int\<close> that the code uses.  A Python string is a
  \<open>string\<close> whose characters are read as the code points 0 to 255 (Latin-1); the character
  classes below are those of Python's Unicode tables restricted to that range.
  \<open>upper\<close> leaves U+00B5 and U+00FF alone, whose upper case lies outside the range.
\<close>

section \<open>Characters\<close>

definition cp :: "char \<Rightarrow> int" where
  "cp c = of_char c"

definition between :: "int \<Rightarrow> int \<Rightarrow> char \<Rightarrow> bool" where
  "between lo hi c \<longleftrightarrow> lo \<le> cp c \<and> cp c \<le> hi"

definition is_space :: "char \<Rightarrow> bool" where
  "is_space c \<longleftrightarrow> between 9 13 c \<or> between 28 32 c \<or> cp c = 133 \<or> cp c = 160"

definition is_digit :: "char \<Rightarrow> bool" where
  "is_digit c \<longleftrightarrow> between 48 57 c"

definition is_upper_ascii :: "char \<Rightarrow> bool" where
  "is_upper_ascii c \<longleftrightarrow> between 65 90 c"

definition is_lower_ascii :: "char \<Rightarrow> bool" where
  "is_lower_ascii c \<longleftrightarrow> between 97 122 c"

definition is_alpha :: "char \<Rightarrow> bool" where
  "is_alpha c \<longleftrightarrow> is_upper_ascii c \<or> is_lower_ascii c \<or> cp c = 170 \<or> cp c = 181 \<or> cp c = 186
     \<or> between 192 214 c \<or> between 216 246 c \<or> between 248 255 c"

text \<open>\<open>str.isalnum\<close> also accepts the superscript digits and the vulgar fractions.\<close>

definition is_alnum :: "char \<Rightarrow> bool" where
  "is_alnum c \<longleftrightarrow> is_alpha c \<or> is_digit c \<or> cp c = 178 \<or> cp c = 179 \<or> cp c = 185 \<or> between 188 190 c"

text \<open>\<open>str.isdigit\<close> of one character: the superscripts count, the fractions do not.\<close>

definition is_digit_ch :: "char \<Rightarrow> bool" where
  "is_digit_ch c \<longleftrightarrow> is_digit c \<or> cp c = 178 \<or> cp c = 179 \<or> cp c = 185"

definition is_word :: "char \<Rightarrow> bool" where
  "is_word c \<longleftrightarrow> is_alnum c \<or> c = CHR ''_''"

definition upper_ch :: "char \<Rightarrow> string" where
  "upper_ch c =
     (if is_lower_ascii c \<or> between 224 246 c \<or> between 248 254 c then [char_of (cp c - 32)]
      else if cp c = 223 then ''SS'' else [c])"

definition lower_ch :: "char \<Rightarrow> char" where
  "lower_ch c =
     (if is_upper_ascii c \<or> between 192 214 c \<or> between 216 222 c then char_of (cp c + 32) else c)"

definition upper :: "string \<Rightarrow> string" where
  "upper s = concat (map upper_ch s)"

definition lower :: "string \<Rightarrow> string" where
  "lower s = map lower_ch s"

lemma cp_bound: "0 \<le> cp c" "cp c < 256"
proof -
  have "cp c = cp c mod 256" by (simp add: cp_def)
  then show "0 \<le> cp c" "cp c < 256" by (simp_all add: pos_mod_sign)
qed

lemma char_of_cp [simp]: "char_of (cp c) = c"
  by (simp add: cp_def)

lemma cp_char_of: "0 \<le> n \<Longrightarrow> n < 256 \<Longrightarrow> cp (char_of n) = n"
  by (simp add: cp_def)

lemma cp_eq_iff: "cp c = cp d \<longleftrightarrow> c = d"
  by (simp add: cp_def)

lemma upper_ch_ascii_upper [simp]:
  "is_upper_ascii c \<or> is_digit c \<or> c = CHR ''_'' \<Longrightarrow> upper_ch c = [c]"
  by (auto simp: upper_ch_def is_upper_ascii_def is_lower_ascii_def is_digit_def between_def cp_def)

lemma upper_ch_ascii_lower:
  "is_lower_ascii c \<Longrightarrow> \<exists>d. upper_ch c = [d] \<and> is_upper_ascii d"
  by (auto simp: upper_ch_def is_lower_ascii_def is_upper_ascii_def between_def cp_def)

lemma upper_Nil [simp]: "upper [] = []" and upper_Cons: "upper (c # s) = upper_ch c @ upper s"
  and upper_append: "upper (s @ t) = upper s @ upper t"
  by (simp_all add: upper_def)

section \<open>Stripping, splitting, joining\<close>

definition lstrip_by :: "(char \<Rightarrow> bool) \<Rightarrow> string \<Rightarrow> string" where
  "lstrip_by P s = dropWhile P s"

definition rstrip_by :: "(char \<Rightarrow> bool) \<Rightarrow> string \<Rightarrow> string" where
  "rstrip_by P s = rev (dropWhile P (rev s))"

definition strip_by :: "(char \<Rightarrow> bool) \<Rightarrow> string \<Rightarrow> string" where
  "strip_by P s = rstrip_by P (lstrip_by P s)"

definition strip :: "string \<Rightarrow> string" where
  "strip s = strip_by is_space s"

definition rstrip :: "string \<Rightarrow> string" where
  "rstrip s = rstrip_by is_space s"

definition in_chars :: "string \<Rightarrow> char \<Rightarrow> bool" where
  "in_chars cs c \<longleftrightarrow> c \<in> set cs"

lemma set_strip_by: "set (strip_by P s) \<subseteq> set s"
  using set_dropWhileD [of _ P "rev (dropWhile P s)"] set_dropWhileD [of _ P s]
  by (auto simp: strip_by_def rstrip_by_def lstrip_by_def)

lemma rstrip_by_last: "rstrip_by P s \<noteq> [] \<Longrightarrow> \<not> P (last (rstrip_by P s))"
  using hd_dropWhile [of P "rev s"] by (auto simp: rstrip_by_def last_rev)

lemma rstrip_by_prefix: "\<exists>t. s = rstrip_by P s @ t \<and> (\<forall>c \<in> set t. P c)"
proof -
  have "rev s = takeWhile P (rev s) @ dropWhile P (rev s)" by simp
  then have "s = rev (dropWhile P (rev s)) @ rev (takeWhile P (rev s))"
    by (metis rev_append rev_rev_ident)
  then show ?thesis
    by (intro exI [of _ "rev (takeWhile P (rev s))"]) (auto simp: rstrip_by_def dest: set_takeWhileD)
qed

lemma strip_by_hd: "strip_by P s \<noteq> [] \<Longrightarrow> \<not> P (hd (strip_by P s))"
proof -
  assume ne: "strip_by P s \<noteq> []"
  obtain t where t: "dropWhile P s = rstrip_by P (dropWhile P s) @ t"
    using rstrip_by_prefix by blast
  with ne have "hd (strip_by P s) = hd (dropWhile P s)"
    by (metis hd_append2 lstrip_by_def strip_by_def)
  moreover have "dropWhile P s \<noteq> []"
    using ne by (metis dropWhile.simps(1) lstrip_by_def rev.simps(1) rstrip_by_def strip_by_def)
  ultimately show ?thesis using hd_dropWhile [of P s] by metis
qed

lemma strip_by_last: "strip_by P s \<noteq> [] \<Longrightarrow> \<not> P (last (strip_by P s))"
  by (simp add: strip_by_def rstrip_by_last)

text \<open>A stripped string is a fixed point, and so is one without the stripped characters.\<close>

lemma strip_by_ends_id:
  assumes "s = [] \<or> (\<not> P (hd s) \<and> \<not> P (last s))"
  shows "strip_by P s = s"
proof (cases "s = []")
  case False
  with assms have "dropWhile P s = s" by (cases s) auto
  moreover have "dropWhile P (rev s) = rev s"
    using assms False by (simp add: dropWhile_eq_self_iff hd_rev)
  ultimately show ?thesis by (simp add: strip_by_def rstrip_by_def lstrip_by_def)
qed (simp add: strip_by_def rstrip_by_def lstrip_by_def)

lemma strip_by_id: "\<forall>c \<in> set s. \<not> P c \<Longrightarrow> strip_by P s = s"
  by (intro strip_by_ends_id) (cases "s = []"; simp)

lemma strip_by_Nil: "strip_by P s = [] \<longleftrightarrow> (\<forall>c \<in> set s. P c)"
proof
  assume "strip_by P s = []"
  then have "\<forall>c \<in> set (dropWhile P s). P c"
    by (simp add: strip_by_def rstrip_by_def lstrip_by_def)
  then have "dropWhile P s = []" using hd_dropWhile [of P s] by (cases "dropWhile P s") auto
  then show "\<forall>c \<in> set s. P c" by simp
next
  assume "\<forall>c \<in> set s. P c"
  then show "strip_by P s = []"
    by (auto simp: strip_by_def rstrip_by_def lstrip_by_def dest: set_dropWhileD)
qed

lemma strip_by_idem [simp]: "strip_by P (strip_by P s) = strip_by P s"
  using strip_by_hd strip_by_last by (intro strip_by_ends_id) blast

lemma strip_idem [simp]: "strip (strip s) = strip s"
  by (simp add: strip_def)

fun starts_with :: "string \<Rightarrow> string \<Rightarrow> bool" where
  "starts_with s [] = True"
| "starts_with [] (p # ps) = False"
| "starts_with (c # s) (p # ps) = (c = p \<and> starts_with s ps)"

lemma starts_with_iff: "starts_with s p \<longleftrightarrow> (\<exists>t. s = p @ t)"
  by (induction s p rule: starts_with.induct) auto

text \<open>\<open>needle in s\<close>.\<close>

fun contains :: "string \<Rightarrow> string \<Rightarrow> bool" where
  "contains [] p = (p = [])"
| "contains (c # s) p = (starts_with (c # s) p \<or> contains s p)"

definition join :: "string \<Rightarrow> string list \<Rightarrow> string" where
  "join sep xs = (case xs of [] \<Rightarrow> [] | y # ys \<Rightarrow> y @ concat (map (\<lambda>z. sep @ z) ys))"

text \<open>\<open>s.split(c)\<close> with a one-character separator.\<close>

fun split_ch :: "char \<Rightarrow> string \<Rightarrow> string list" where
  "split_ch d [] = [[]]"
| "split_ch d (c # s) =
     (if c = d then [] # split_ch d s
      else (case split_ch d s of [] \<Rightarrow> [[c]] | w # ws \<Rightarrow> (c # w) # ws))"

text \<open>\<open>s.splitlines()\<close>: the line boundaries of Python in the Latin-1 range.\<close>

definition is_linebreak :: "char \<Rightarrow> bool" where
  "is_linebreak c \<longleftrightarrow> between 10 13 c \<or> between 28 30 c \<or> cp c = 133"

fun splitlines_from :: "string \<Rightarrow> string \<Rightarrow> string list" where
  "splitlines_from acc [] = (if acc = [] then [] else [rev acc])"
| "splitlines_from acc [c] = (if is_linebreak c then [rev acc] else [rev (c # acc)])"
| "splitlines_from acc (c # d # s) =
     (if cp c = 13 \<and> cp d = 10 then rev acc # splitlines_from [] s
      else if is_linebreak c then rev acc # splitlines_from [] (d # s)
      else splitlines_from (c # acc) (d # s))"

definition splitlines :: "string \<Rightarrow> string list" where
  "splitlines s = splitlines_from [] s"

declare splitlines_from.simps(3) [simp del]

lemma splitlines_from_crlf:
    "cp c = 13 \<and> cp d = 10 \<Longrightarrow> splitlines_from acc (c # d # s) = rev acc # splitlines_from [] s"
  and splitlines_from_break:
    "\<not> (cp c = 13 \<and> cp d = 10) \<Longrightarrow> is_linebreak c \<Longrightarrow>
       splitlines_from acc (c # d # s) = rev acc # splitlines_from [] (d # s)"
  and splitlines_from_plain:
    "\<not> (cp c = 13 \<and> cp d = 10) \<Longrightarrow> \<not> is_linebreak c \<Longrightarrow>
       splitlines_from acc (c # d # s) = splitlines_from (c # acc) (d # s)"
  by (subst splitlines_from.simps(3), auto)+

lemma splitlines_from_no_break:
  "l \<in> set (splitlines_from acc s) \<Longrightarrow> \<forall>c \<in> set acc. \<not> is_linebreak c \<Longrightarrow>
     \<forall>c \<in> set l. \<not> is_linebreak c"
proof (induction acc s arbitrary: l rule: splitlines_from.induct)
  case (1 acc)
  then show ?case by (auto split: if_splits)
next
  case (2 acc c)
  then show ?case by (auto split: if_splits)
next
  case (3 acc c d s)
  consider (crlf) "cp c = 13 \<and> cp d = 10" | (brk) "\<not> (cp c = 13 \<and> cp d = 10)" "is_linebreak c"
    | (plain) "\<not> (cp c = 13 \<and> cp d = 10)" "\<not> is_linebreak c" by blast
  then show ?case
  proof cases
    case crlf
    then have "l = rev acc \<or> l \<in> set (splitlines_from [] s)" 
      using "3.prems"(1) by (simp add: splitlines_from_crlf)
    then show ?thesis using "3.IH"(1) [OF crlf] "3.prems"(2) by auto
  next
    case brk
    then have "l = rev acc \<or> l \<in> set (splitlines_from [] (d # s))" 
      using "3.prems"(1) by (simp add: splitlines_from_break)
    then show ?thesis using "3.IH"(2) [OF brk] "3.prems"(2) by auto
  next
    case plain
    then have "l \<in> set (splitlines_from (c # acc) (d # s))" 
      using "3.prems"(1) by (simp add: splitlines_from_plain)
    then show ?thesis using "3.IH"(3) [OF plain] "3.prems"(2) plain(2) by auto
  qed
qed

lemma splitlines_no_break: "l \<in> set (splitlines s) \<Longrightarrow> c \<in> set l \<Longrightarrow> \<not> is_linebreak c"
  using splitlines_from_no_break [of l "[]" s] by (auto simp: splitlines_def)

text \<open>\<open>s.split(None, 1)\<close>: the first word and the stripped-left remainder.\<close>

definition split_once_ws :: "string \<Rightarrow> string list" where
  "split_once_ws s =
     (let t = dropWhile is_space s in
      if t = [] then []
      else let w = takeWhile (\<lambda>c. \<not> is_space c) t;
               u = dropWhile is_space (dropWhile (\<lambda>c. \<not> is_space c) t)
           in if u = [] then [w] else [w, u])"

text \<open>\<open>s.replace(c, d)\<close> for single characters.\<close>

definition replace_ch :: "char \<Rightarrow> char \<Rightarrow> string \<Rightarrow> string" where
  "replace_ch a b s = map (\<lambda>c. if c = a then b else c) s"

section \<open>Integers\<close>

definition digit_char :: "nat \<Rightarrow> char" where
  "digit_char d = (if d < 10 then char_of (48 + int d) else char_of (55 + int d))"

text \<open>The value of a digit in a base up to 36, either letter case.\<close>

definition digit_value :: "nat \<Rightarrow> char \<Rightarrow> nat option" where
  "digit_value b c =
     (let v = (if is_digit c then cp c - 48
               else if is_upper_ascii c then cp c - 55
               else if is_lower_ascii c then cp c - 87 else int b)
      in if v < int b then Some (nat v) else None)"

text \<open>The digits of a natural number, as an \<open>int\<close>, least significant first.\<close>

function digits_rev :: "nat \<Rightarrow> int \<Rightarrow> nat list" where
  "digits_rev b n =
     (if b < 2 \<or> n < int b then [nat n] else nat (n mod int b) # digits_rev b (n div int b))"
  by pat_completeness auto
termination
proof (relation "measure (\<lambda>(b, n). nat n)")
  fix b :: nat and n :: int
  assume "\<not> (b < 2 \<or> n < int b)"
  then have "n div int b < n" by (intro int_div_less_self) auto
  with \<open>\<not> (b < 2 \<or> n < int b)\<close> show "((b, n div int b), (b, n)) \<in> measure (\<lambda>(b, n). nat n)" by auto
qed auto

declare digits_rev.simps [simp del]

definition digits :: "nat \<Rightarrow> int \<Rightarrow> string" where
  "digits b n = map digit_char (rev (digits_rev b n))"

fun digits_val :: "nat \<Rightarrow> int \<Rightarrow> string \<Rightarrow> int option" where
  "digits_val b acc [] = Some acc"
| "digits_val b acc (c # cs) =
     (if c = CHR ''_'' then
        (case cs of [] \<Rightarrow> None
         | d # _ \<Rightarrow> (if digit_value b d = None then None else digits_val b acc cs))
      else (case digit_value b c of None \<Rightarrow> None | Some v \<Rightarrow> digits_val b (acc * int b + int v) cs))"

definition digits_parse :: "nat \<Rightarrow> string \<Rightarrow> int option" where
  "digits_parse b s =
     (case s of [] \<Rightarrow> None | c # cs \<Rightarrow>
        (case digit_value b c of None \<Rightarrow> None | Some v \<Rightarrow> digits_val b (int v) cs))"

text \<open>
  \<open>int(s, base)\<close> for base 10 and 16: surrounding white space, a sign, the \<open>0x\<close> prefix of
  base 16 and single underscores between digits are accepted; \<open>None\<close> is \<open>ValueError\<close>.
\<close>

definition drop_hex_prefix :: "nat \<Rightarrow> string \<Rightarrow> string" where
  "drop_hex_prefix b s =
     (case s of z # x # r \<Rightarrow>
        (if b = 16 \<and> z = CHR ''0'' \<and> (x = CHR ''x'' \<or> x = CHR ''X'')
         then (case r of [] \<Rightarrow> r | u # r' \<Rightarrow> if u = CHR ''_'' then r' else r) else s)
      | _ \<Rightarrow> s)"

definition py_int :: "nat \<Rightarrow> string \<Rightarrow> int option" where
  "py_int b s =
     (let t = strip s in
      (case t of [] \<Rightarrow> None
       | c # r \<Rightarrow>
          (if c = CHR ''-'' then map_option uminus (digits_parse b (drop_hex_prefix b r))
           else if c = CHR ''+'' then (digits_parse b (drop_hex_prefix b r))
           else (digits_parse b (drop_hex_prefix b t)))))"

definition str_int :: "int \<Rightarrow> string" where
  "str_int n = (if n < 0 then CHR ''-'' # digits 10 (- n) else digits 10 n)"

definition str_nat :: "nat \<Rightarrow> string" where
  "str_nat n = digits 10 (int n)"

definition zfill :: "nat \<Rightarrow> string \<Rightarrow> string" where
  "zfill w s = replicate (w - length s) (CHR ''0'') @ s"

text \<open>\<open>f"{n:08X}"\<close>: the sign takes one of the eight places.\<close>

definition hex08 :: "int \<Rightarrow> string" where
  "hex08 n = (if n < 0 then CHR ''-'' # zfill 7 (digits 16 (- n))
              else zfill 8 (digits 16 n))"

definition fmt_addr :: "int \<Rightarrow> string" where
  "fmt_addr n = ''0x'' @ hex08 n"

text \<open>\<open>repr\<close> of a string and of a list of strings.\<close>

definition hex2 :: "char \<Rightarrow> string" where
  "hex2 c = map lower_ch (zfill 2 (digits 16 (cp c)))"

definition repr_char :: "char \<Rightarrow> char \<Rightarrow> string" where
  "repr_char q c =
     (if c = q \<or> c = CHR 0x5C then [CHR 0x5C, c]
      else if c = CHR 0x0A then [CHR 0x5C, CHR ''n'']
      else if c = CHR 0x0D then [CHR 0x5C, CHR ''r'']
      else if c = CHR 0x09 then [CHR 0x5C, CHR ''t'']
      else if between 32 126 c \<or> between 161 172 c \<or> between 174 255 c then [c]
      else [CHR 0x5C, CHR ''x''] @ hex2 c)"

definition py_repr :: "string \<Rightarrow> string" where
  "py_repr s =
     (let q = (if CHR 0x27 \<in> set s \<and> CHR 0x22 \<notin> set s then CHR 0x22 else CHR 0x27)
      in [q] @ concat (map (repr_char q) s) @ [q])"

definition repr_list :: "string list \<Rightarrow> string" where
  "repr_list xs = ''['' @ join '', '' (map py_repr xs) @ '']''"

lemma cp_digit_char: "d < 36 \<Longrightarrow> cp (digit_char d) = (if d < 10 then 48 else 55) + int d"
  by (simp add: digit_char_def cp_char_of)

lemma digit_value_char:
  assumes "d < b" "b \<le> 36" shows "digit_value b (digit_char d) = Some d"
  using assms
  by (auto simp: digit_value_def is_digit_def is_upper_ascii_def is_lower_ascii_def
      between_def cp_digit_char Let_def)

lemma digit_char_not_underscore: "d < 36 \<Longrightarrow> digit_char d \<noteq> CHR ''_''"
  using digit_value_char [of d 36] by (auto simp: digit_value_def is_digit_def is_upper_ascii_def
      is_lower_ascii_def between_def cp_def)

lemma digits_rev_bound: "2 \<le> b \<Longrightarrow> 0 \<le> n \<Longrightarrow> d \<in> set (digits_rev b n) \<Longrightarrow> d < b"
proof (induction b n rule: digits_rev.induct)
  case (1 b n)
  show ?case
  proof (cases "b < 2 \<or> n < int b")
    case True with "1.prems" show ?thesis by (subst (asm) digits_rev.simps) auto
  next
    case False
    then have "0 \<le> n div int b" "nat (n mod int b) < b"
      using "1.prems"(1) by (auto simp: pos_imp_zdiv_nonneg_iff nat_less_iff)
    with False "1.prems" "1.IH" show ?thesis by (subst (asm) digits_rev.simps) auto
  qed
qed

lemma digits_rev_nonempty [simp]: "digits_rev b n \<noteq> []"
  by (subst digits_rev.simps) auto

lemma digits_rev_value:
  "2 \<le> b \<Longrightarrow> 0 \<le> n \<Longrightarrow> foldr (\<lambda>d a. int d + int b * a) (digits_rev b n) 0 = n"
proof (induction b n rule: digits_rev.induct)
  case (1 b n)
  show ?case
  proof (cases "b < 2 \<or> n < int b")
    case True with "1.prems" show ?thesis by (subst digits_rev.simps) auto
  next
    case False
    then have "0 \<le> n div int b" using "1.prems"(1) by (auto simp: pos_imp_zdiv_nonneg_iff)
    moreover have "0 \<le> n mod int b" using "1.prems"(1) by simp
    ultimately show ?thesis using False "1.prems" "1.IH" by (subst digits_rev.simps) auto
  qed
qed

lemma digits_val_digits:
  assumes "b \<le> 36" "\<forall>d \<in> set ds. d < b"
  shows "digits_val b acc (map digit_char ds) = Some (foldl (\<lambda>a d. a * int b + int d) acc ds)"
  using assms
proof (induction ds arbitrary: acc)
  case (Cons d ds)
  then have "digit_char d \<noteq> CHR ''_''" using digit_char_not_underscore [of d] by auto
  with Cons show ?case by (simp add: digit_value_char)
qed simp

lemma foldl_digits:
  "foldl (\<lambda>a d. a * int b + int d) 0 (rev ds) = foldr (\<lambda>d a. int d + int b * a) ds 0"
  by (simp add: foldl_conv_foldr algebra_simps)

lemma digits_parse_digits:
  assumes "2 \<le> b" "b \<le> 36" "0 \<le> n"
  shows "digits_parse b (replicate k (CHR ''0'') @ digits b n) = Some n"
proof -
  let ?ds = "replicate k 0 @ rev (digits_rev b n)" and ?f = "\<lambda>a d. a * int b + int d"
  have z: "CHR ''0'' = digit_char 0" by code_simp
  have eq: "replicate k (CHR ''0'') @ digits b n = map digit_char ?ds"
    by (simp add: digits_def z map_replicate)
  have bound: "\<forall>d \<in> set ?ds. d < b"
    using assms digits_rev_bound [of b n] by auto
  have ne: "?ds \<noteq> []" by simp
  then obtain d ds where ds: "?ds = d # ds" by (cases ?ds) auto
  have "digits_parse b (map digit_char (d # ds)) = digits_val b (int d) (map digit_char ds)"
    using bound ds assms by (simp add: digits_parse_def digit_value_char)
  also have "\<dots> = Some (foldl ?f 0 (d # ds))"
    using bound ds assms by (simp add: digits_val_digits)
  also have "foldl ?f 0 (d # ds) = foldl ?f 0 ?ds" by (simp add: ds)
  also have "\<dots> = n"
  proof -
    have "foldl ?f 0 (replicate k 0) = 0" by (induction k) auto
    then show ?thesis using assms by (simp add: foldl_digits digits_rev_value)
  qed
  finally show ?thesis by (simp add: eq ds)
qed

section \<open>Parsing what was printed\<close>

definition all_digits :: "nat \<Rightarrow> string \<Rightarrow> bool" where
  "all_digits b s \<longleftrightarrow> s \<noteq> [] \<and> (\<forall>c \<in> set s. digit_value b c \<noteq> None)"

lemma digit_value_kind:
  assumes "digit_value b c \<noteq> None" "b \<le> 36"
  shows "is_digit c \<or> is_upper_ascii c \<or> is_lower_ascii c"
  using assms by (auto simp: digit_value_def Let_def split: if_splits)

lemma digit_value_not_special:
  assumes "digit_value b c \<noteq> None" "b \<le> 36"
  shows "\<not> is_space c" "c \<noteq> CHR ''-''" "c \<noteq> CHR ''+''" "c \<noteq> CHR ''_''"
  using digit_value_kind [OF assms]
  by (auto simp: is_digit_def is_upper_ascii_def is_lower_ascii_def is_space_def between_def cp_def)

lemma digits_val_total:
  assumes "\<forall>c \<in> set s. digit_value b c \<noteq> None" "b \<le> 36"
  shows "\<exists>n. digits_val b acc s = Some n"
  using assms
proof (induction s arbitrary: acc)
  case (Cons c s)
  then obtain v where v: "digit_value b c = Some v" by auto
  have "c \<noteq> CHR ''_''" using digit_value_not_special(4) [of b c] Cons.prems by simp
  with v Cons show ?case by simp
qed simp

lemma digits_val_nonneg: "digits_val b acc s = Some n \<Longrightarrow> 0 \<le> acc \<Longrightarrow> 0 \<le> n"
  by (induction b acc s rule: digits_val.induct) (auto split: if_splits option.splits list.splits)

lemma digits_parse_total:
  assumes "all_digits b s" "b \<le> 36" shows "\<exists>n. digits_parse b s = Some n \<and> 0 \<le> n"
proof -
  obtain c t v where s: "s = c # t" "digit_value b c = Some v"
    using assms(1) by (cases s) (auto simp: all_digits_def)
  then obtain n where "digits_val b (int v) t = Some n"
    using digits_val_total [of t b "int v"] assms by (auto simp: all_digits_def)
  with s digits_val_nonneg [of b "int v" t n] show ?thesis by (simp add: digits_parse_def)
qed

lemma strip_no_space: "\<forall>c \<in> set s. \<not> is_space c \<Longrightarrow> strip s = s"
  by (simp add: strip_def strip_by_id)

lemma hex_x: "digit_value 16 (CHR ''x'') = None" "digit_value 16 (CHR ''X'') = None"
  by code_simp+

lemma py_int_digits:
  assumes d: "all_digits b s" and b: "b = 10 \<or> b = 16"
  shows "py_int b s = digits_parse b s"
proof -
  have b36: "b \<le> 36" using b by auto
  have "\<forall>c \<in> set s. \<not> is_space c"
    using d digit_value_not_special(1) [OF _ b36] by (auto simp: all_digits_def)
  then have st: "strip s = s" by (rule strip_no_space)
  obtain c t where s: "s = c # t" using d by (cases s) (auto simp: all_digits_def)
  have c: "c \<noteq> CHR ''-''" "c \<noteq> CHR ''+''"
    using d s digit_value_not_special(2,3) [OF _ b36] by (auto simp: all_digits_def)
  have "drop_hex_prefix b s = s"
    using d b s hex_x by (auto simp: drop_hex_prefix_def all_digits_def split: list.splits)
  with st s c show ?thesis by (simp add: py_int_def)
qed

lemma py_int_0x:
  assumes d: "all_digits 16 s"
  shows "py_int 16 (''0x'' @ s) = digits_parse 16 s"
proof -
  have sp: "\<forall>c \<in> set s. \<not> is_space c"
    using d digit_value_not_special(1) [of 16] by (auto simp: all_digits_def)
  have "\<not> is_space (CHR ''0'')" "\<not> is_space (CHR ''x'')" by code_simp+
  with sp have st: "strip (''0x'' @ s) = ''0x'' @ s" by (intro strip_no_space) auto
  obtain c t where s: "s = c # t" using d by (cases s) (auto simp: all_digits_def)
  have "c \<noteq> CHR ''_''" using d s digit_value_not_special(4) [of 16 c] by (auto simp: all_digits_def)
  with st s show ?thesis by (simp add: py_int_def drop_hex_prefix_def)
qed

lemma digits_all_digits: "2 \<le> b \<Longrightarrow> b \<le> 36 \<Longrightarrow> 0 \<le> n \<Longrightarrow> all_digits b (digits b n)"
  using digits_rev_bound [of b n] by (auto simp: all_digits_def digits_def digit_value_char)

lemma digits_parse_plain: "2 \<le> b \<Longrightarrow> b \<le> 36 \<Longrightarrow> 0 \<le> n \<Longrightarrow> digits_parse b (digits b n) = Some n"
  using digits_parse_digits [of b n 0] by simp

lemma py_int_str_int: "py_int 10 (str_int n) = Some n"
proof (cases "n < 0")
  case True
  let ?d = "digits 10 (- n)"
  have d: "all_digits 10 ?d" using True by (simp add: digits_all_digits)
  have "\<not> is_space (CHR ''-'')" by code_simp
  then have "\<forall>c \<in> set (CHR ''-'' # ?d). \<not> is_space c"
    using d digit_value_not_special(1) [of 10] by (auto simp: all_digits_def)
  then have "strip (CHR ''-'' # ?d) = CHR ''-'' # ?d" by (rule strip_no_space)
  moreover have "drop_hex_prefix 10 ?d = ?d" by (simp add: drop_hex_prefix_def split: list.splits)
  ultimately show ?thesis using True by (simp add: py_int_def str_int_def digits_parse_plain)
next
  case False
  then show ?thesis
    by (simp add: str_int_def py_int_digits digits_all_digits digits_parse_plain)
qed

lemma py_int_fmt_addr: "0 \<le> n \<Longrightarrow> py_int 16 (fmt_addr n) = Some n"
proof -
  assume n: "0 \<le> n"
  let ?z = "replicate (8 - length (digits 16 n)) (CHR ''0'')"
  have eq: "fmt_addr n = ''0x'' @ (?z @ digits 16 n)"
    using n by (simp add: fmt_addr_def hex08_def zfill_def)
  have z: "digit_value 16 (CHR ''0'') \<noteq> None" by code_simp
  have "all_digits 16 (?z @ digits 16 n)"
    using digits_all_digits [of 16 n] n z by (auto simp: all_digits_def)
  with n show ?thesis by (simp only: eq py_int_0x) (simp add: digits_parse_digits)
qed

lemma py_int_dec_total: "all_digits 10 s \<Longrightarrow> \<exists>n. py_int 10 s = Some n \<and> 0 \<le> n"
  using digits_parse_total [of 10 s] by (auto simp: py_int_digits)

lemma py_int_hex_total: "all_digits 16 s \<Longrightarrow> \<exists>n. py_int 16 (''0x'' @ s) = Some n \<and> 0 \<le> n"
  using digits_parse_total [of 16 s] by (auto simp: py_int_0x simp del: append_Cons)

lemma str_int_inj: "str_int a = str_int b \<longleftrightarrow> a = b"
  using py_int_str_int by (metis option.inject)

lemma fmt_addr_inj: "0 \<le> a \<Longrightarrow> 0 \<le> b \<Longrightarrow> fmt_addr a = fmt_addr b \<longleftrightarrow> a = b"
  using py_int_fmt_addr by (metis option.inject)

lemma all_digits_dec: "s \<noteq> [] \<Longrightarrow> \<forall>c \<in> set s. is_digit c \<Longrightarrow> all_digits 10 s"
  by (auto simp: all_digits_def digit_value_def is_digit_def between_def Let_def less_diff_conv2)

end
