(* ===== verification/Regex.thy ===== *)
theory Regex
  imports PyStr
begin

text \<open>
  The part of Python's \<open>re\<close> module the code uses: an abstract syntax of patterns, a
  backtracking matcher with the priorities of \<open>re\<close> (alternatives from left to right,
  greedy and lazy repetition, captures, look-around), and the functions \<open>match\<close>,
  \<open>fullmatch\<close>, \<open>search\<close>, \<open>finditer\<close>, \<open>sub\<close> and \<open>split\<close> on top of it.

  The matcher works on a stack of items, so it is first order: a position is the pair of
  the text before it (reversed) and the text after it.  It always terminates, and
  \<open>matcher_sound\<close> and \<open>matcher_complete\<close> relate it to a denotational semantics of patterns.
  An iteration of a repetition that consumes nothing fails here; every repetition in the
  code has a body that consumes at least one character.
\<close>

section \<open>Patterns\<close>

datatype citem = Ch char | Rg char char | Dig | Wrd | Spc | NSpc

datatype asrt =
    Bos             \<comment> \<open>\<open>^\<close> without \<open>re.M\<close>\<close>
  | Bol             \<comment> \<open>\<open>^\<close> with \<open>re.M\<close>\<close>
  | Eos             \<comment> \<open>the end that \<open>fullmatch\<close> requires\<close>
  | Dollar          \<comment> \<open>\<open>$\<close> without \<open>re.M\<close>\<close>
  | Eol             \<comment> \<open>\<open>$\<close> with \<open>re.M\<close>\<close>
  | Wb              \<comment> \<open>\<open>\b\<close>\<close>
  | Behind "citem list"  \<comment> \<open>\<open>(?<=[...])\<close> of one character\<close>

datatype re =
    REmpty
  | RCls bool "citem list"     \<comment> \<open>one character, in (or, if \<open>True\<close>, outside) the class\<close>
  | RSeq re re
  | RAlt re re
  | RStar bool re              \<comment> \<open>repetition, greedy if \<open>True\<close>\<close>
  | RGrp string re             \<comment> \<open>a capturing group\<close>
  | RAsrt asrt
  | RLook bool re              \<comment> \<open>\<open>(?=...)\<close>, or \<open>(?!...)\<close> if \<open>False\<close>\<close>

fun citem_ok :: "citem \<Rightarrow> char \<Rightarrow> bool" where
  "citem_ok (Ch d) c = (c = d)"
| "citem_ok (Rg a b) c = between (cp a) (cp b) c"
| "citem_ok Dig c = is_digit c"
| "citem_ok Wrd c = is_word c"
| "citem_ok Spc c = is_space c"
| "citem_ok NSpc c = (\<not> is_space c)"

fun in_items :: "citem list \<Rightarrow> char \<Rightarrow> bool" where
  "in_items [] c = False"
| "in_items (i # is) c = (citem_ok i c \<or> in_items is c)"

definition in_class :: "bool \<Rightarrow> citem list \<Rightarrow> char \<Rightarrow> bool" where
  "in_class neg is c \<longleftrightarrow> in_items is c \<noteq> neg"

text \<open>Derived forms, named after the concrete syntax.\<close>

definition cls :: "citem list \<Rightarrow> re" where "cls is = RCls False is"
definition ncls :: "citem list \<Rightarrow> re" where "ncls is = RCls True is"
definition any :: re where "any = RCls True [Ch (CHR 0x0A)]"

fun seqs :: "re list \<Rightarrow> re" where
  "seqs [] = REmpty"
| "seqs [r] = r"
| "seqs (r # s # rs) = RSeq r (seqs (s # rs))"

fun alts :: "re list \<Rightarrow> re" where
  "alts [] = RCls False []"
| "alts [r] = r"
| "alts (r # s # rs) = RAlt r (alts (s # rs))"

definition lit :: "string \<Rightarrow> re" where "lit s = seqs (map (\<lambda>c. cls [Ch c]) s)"
definition star :: "re \<Rightarrow> re" where "star r = RStar True r"
definition lazy :: "re \<Rightarrow> re" where "lazy r = RStar False r"
definition plus :: "re \<Rightarrow> re" where "plus r = RSeq r (RStar True r)"
definition plus_lazy :: "re \<Rightarrow> re" where "plus_lazy r = RSeq r (RStar False r)"
definition opt :: "re \<Rightarrow> re" where "opt r = RAlt r REmpty"

text \<open>\<open>r{0,n}\<close>, greedy and lazy; \<open>r{m,}\<close> and \<open>r{m,n}\<close>.\<close>

fun upto_n :: "nat \<Rightarrow> re \<Rightarrow> re" where
  "upto_n 0 r = REmpty"
| "upto_n (Suc n) r = RAlt (RSeq r (upto_n n r)) REmpty"

fun upto_n_lazy :: "nat \<Rightarrow> re \<Rightarrow> re" where
  "upto_n_lazy 0 r = REmpty"
| "upto_n_lazy (Suc n) r = RAlt REmpty (RSeq r (upto_n_lazy n r))"

definition at_least :: "nat \<Rightarrow> re \<Rightarrow> re" where
  "at_least m r = seqs (replicate m r @ [RStar True r])"

definition m_to_n :: "nat \<Rightarrow> nat \<Rightarrow> re \<Rightarrow> re" where
  "m_to_n m n r = seqs (replicate m r @ [upto_n (n - m) r])"

text \<open>\<open>re.I\<close>: every literal and every range also in the other letter case.\<close>

definition swap_case :: "char \<Rightarrow> char" where
  "swap_case c = (if is_upper_ascii c then char_of (cp c + 32)
                  else if is_lower_ascii c then char_of (cp c - 32) else c)"

fun nocase_items :: "citem list \<Rightarrow> citem list" where
  "nocase_items [] = []"
| "nocase_items (Ch c # is) = Ch c # Ch (swap_case c) # nocase_items is"
| "nocase_items (Rg a b # is) = Rg a b # Rg (swap_case a) (swap_case b) # nocase_items is"
| "nocase_items (i # is) = i # nocase_items is"

primrec nocase :: "re \<Rightarrow> re" where
  "nocase REmpty = REmpty"
| "nocase (RCls n is) = RCls n (nocase_items is)"
| "nocase (RSeq a b) = RSeq (nocase a) (nocase b)"
| "nocase (RAlt a b) = RAlt (nocase a) (nocase b)"
| "nocase (RStar g r) = RStar g (nocase r)"
| "nocase (RGrp n r) = RGrp n (nocase r)"
| "nocase (RAsrt a) = RAsrt a"
| "nocase (RLook b r) = RLook b (nocase r)"

section \<open>The matcher\<close>

type_synonym caps = "(string \<times> string) list"

datatype item = R re | Cap string string | Chk string

definition word_before :: "string \<Rightarrow> bool" where
  "word_before p = (case p of [] \<Rightarrow> False | c # _ \<Rightarrow> is_word c)"

fun holds :: "asrt \<Rightarrow> string \<Rightarrow> string \<Rightarrow> bool" where
  "holds Bos p s = (p = [])"
| "holds Bol p s = (case p of [] \<Rightarrow> True | c # _ \<Rightarrow> c = CHR 0x0A)"
| "holds Eos p s = (s = [])"
| "holds Dollar p s = (s = [] \<or> s = [CHR 0x0A])"
| "holds Eol p s = (case s of [] \<Rightarrow> True | c # _ \<Rightarrow> c = CHR 0x0A)"
| "holds Wb p s = (word_before p \<noteq> word_before s)"
| "holds (Behind is) p s = (case p of [] \<Rightarrow> False | c # _ \<Rightarrow> in_items is c)"

fun weight :: "re \<Rightarrow> nat \<Rightarrow> nat" where
  "weight REmpty n = 1"
| "weight (RCls b is) n = 1"
| "weight (RSeq a b) n = 1 + weight a n + weight b n"
| "weight (RAlt a b) n = 1 + weight a n + weight b n"
| "weight (RStar g r) n = 1 + (n + 2) * (weight r n + 2)"
| "weight (RGrp g r) n = 2 + weight r n"
| "weight (RAsrt a) n = 1"
| "weight (RLook b r) n = 1 + weight r n"

fun load :: "item list \<Rightarrow> nat \<Rightarrow> nat" where
  "load [] n = 0"
| "load (R r # ks) n = weight r n + load ks n"
| "load (Cap g s # ks) n = 1 + load ks n"
| "load (Chk s # ks) n = 1 + (if s = [] then 0 else load ks (min n (length s - 1)))"

lemma weight_mono: "m \<le> n \<Longrightarrow> weight r m \<le> weight r n"
proof (induction r)
  case (RStar g r)
  then have "(m + 2) * (weight r m + 2) \<le> (n + 2) * (weight r n + 2)"
    by (intro mult_le_mono) auto
  then show ?case by (simp only: weight.simps)
qed (auto intro: add_mono)

lemma weight_pos: "0 < weight r n"
  by (cases r) auto

lemma load_mono: "m \<le> n \<Longrightarrow> load ks m \<le> load ks n"
  by (induction ks n arbitrary: m rule: load.induct) (auto intro: add_mono weight_mono)

fun cap_text :: "string \<Rightarrow> string \<Rightarrow> string" where
  "cap_text s0 s = take (length s0 - length s) s0"

lemma load_star:
  "load (R r # Chk s # R (RStar g r) # ks) (length s) < load (R (RStar g r) # ks) (length s)"
proof (cases s)
  case (Cons x t)
  let ?k = "length t"
  have w: "weight r ?k \<le> weight r (Suc ?k)" and l: "load ks ?k \<le> load ks (Suc ?k)"
    by (auto intro: weight_mono load_mono)
  have "(?k + 2) * (weight r ?k + 2) \<le> (?k + 2) * (weight r (Suc ?k) + 2)"
    using w by (intro mult_le_mono) auto
  moreover have "(Suc ?k + 2) * (weight r (Suc ?k) + 2)
      = (?k + 2) * (weight r (Suc ?k) + 2) + (weight r (Suc ?k) + 2)"
    by simp
  moreover have "load (R r # Chk s # R (RStar g r) # ks) (length s)
      = weight r (Suc ?k) + 2 + (?k + 2) * (weight r ?k + 2) + load ks ?k"
    using Cons by simp
  moreover have "load (R (RStar g r) # ks) (length s)
      = 1 + (Suc ?k + 2) * (weight r (Suc ?k) + 2) + load ks (Suc ?k)"
    using Cons by (simp only: load.simps weight.simps list.size) simp
  ultimately show ?thesis using l by linarith
qed (simp add: weight_pos)

function mt :: "item list \<Rightarrow> string \<Rightarrow> string \<Rightarrow> caps \<Rightarrow> (string \<times> string \<times> caps) option" where
  "mt [] p s c = Some (p, s, c)"
| "mt (R REmpty # ks) p s c = mt ks p s c"
| "mt (R (RCls n is) # ks) p s c =
     (case s of [] \<Rightarrow> None | x # t \<Rightarrow> if in_class n is x then mt ks (x # p) t c else None)"
| "mt (R (RSeq a b) # ks) p s c = mt (R a # R b # ks) p s c"
| "mt (R (RAlt a b) # ks) p s c =
     (case mt (R a # ks) p s c of Some y \<Rightarrow> Some y | None \<Rightarrow> mt (R b # ks) p s c)"
| "mt (R (RStar g r) # ks) p s c =
     (if g then
        (case mt (R r # Chk s # R (RStar g r) # ks) p s c of Some y \<Rightarrow> Some y | None \<Rightarrow> mt ks p s c)
      else
        (case mt ks p s c of Some y \<Rightarrow> Some y | None \<Rightarrow> mt (R r # Chk s # R (RStar g r) # ks) p s c))"
| "mt (R (RGrp g r) # ks) p s c = mt (R r # Cap g s # ks) p s c"
| "mt (R (RAsrt a) # ks) p s c = (if holds a p s then mt ks p s c else None)"
| "mt (R (RLook b r) # ks) p s c =
     (case mt [R r] p s c of
        None \<Rightarrow> if b then None else mt ks p s c
      | Some (_, _, c') \<Rightarrow> if b then mt ks p s c' else None)"
| "mt (Cap g s0 # ks) p s c = mt ks p s ((g, cap_text s0 s) # c)"
| "mt (Chk s0 # ks) p s c = (if length s < length s0 then mt ks p s c else None)"
  by pat_completeness auto

termination
proof (relation "measure (\<lambda>(ks, p, s, c). load ks (length s))")
  fix n "is" ks p s c x and t :: string
  assume "s = x # t"
  then show "((ks, x # p, t, c), (R (RCls n is) # ks, p, s, c)) \<in>
      measure (\<lambda>(ks, p, s, c). load ks (length s))"
    using load_mono [of "length t" "length s" ks] by simp
next
  fix g r ks p c and s :: string
  show "((R r # Chk s # R (RStar g r) # ks, p, s, c), (R (RStar g r) # ks, p, s, c)) \<in>
      measure (\<lambda>(ks, p, s, c). load ks (length s))"
    using load_star [of r s g ks] by simp
  show "((R r # Chk s # R (RStar g r) # ks, p, s, c), (R (RStar g r) # ks, p, s, c)) \<in>
      measure (\<lambda>(ks, p, s, c). load ks (length s))"
    using load_star [of r s g ks] by simp
next
  fix ks p c and s s0 :: string
  assume "length s < length s0"
  then have "s0 \<noteq> []" and "min (length s) (length s0 - 1) = length s" by auto
  then show "((ks, p, s, c), (Chk s0 # ks, p, s, c)) \<in> measure (\<lambda>(ks, p, s, c). load ks (length s))"
    by simp
qed (auto simp: weight_pos)

section \<open>What a pattern denotes\<close>

type_synonym pos = "string \<times> string"

primrec den :: "re \<Rightarrow> pos \<Rightarrow> pos \<Rightarrow> bool" where
  "den REmpty = (=)"
| "den (RCls n is) = (\<lambda>x y. \<exists>c t. snd x = c # t \<and> in_class n is c \<and> y = (c # fst x, t))"
| "den (RSeq a b) = den a OO den b"
| "den (RAlt a b) = (\<lambda>x y. den a x y \<or> den b x y)"
| "den (RStar g r) = (den r)\<^sup>*\<^sup>*"
| "den (RGrp g r) = den r"
| "den (RAsrt a) = (\<lambda>x y. y = x \<and> holds a (fst x) (snd x))"
| "den (RLook b r) = (\<lambda>x y. y = x \<and> b = (\<exists>z. den r x z))"

fun iden :: "item list \<Rightarrow> pos \<Rightarrow> pos \<Rightarrow> bool" where
  "iden [] = (=)"
| "iden (R r # ks) = den r OO iden ks"
| "iden (Cap g s # ks) = iden ks"
| "iden (Chk s # ks) = (\<lambda>x y. length (snd x) < length s \<and> iden ks x y)"

text \<open>A match moves forward over a piece of the text.\<close>

lemma den_moves: "den r x y \<Longrightarrow> \<exists>w. snd x = w @ snd y \<and> fst y = rev w @ fst x"
proof (induction r arbitrary: x y)
  case (RSeq a b)
  then obtain z where "den a x z" "den b z y" by auto
  with RSeq.IH obtain v w where "snd x = v @ snd z" "fst z = rev v @ fst x"
    and "snd z = w @ snd y" "fst y = rev w @ fst z" by meson
  then show ?case by (intro exI [of _ "v @ w"]) simp
next
  case (RStar g r)
  from RStar.prems have "(den r)\<^sup>*\<^sup>* x y" by simp
  then show ?case
  proof (induction rule: converse_rtranclp_induct)
    case (step x z)
    from RStar.IH [OF step.hyps(1)] step.IH obtain v w where
      "snd x = v @ snd z" "fst z = rev v @ fst x" "snd z = w @ snd y" "fst y = rev w @ fst z"
      by blast
    then show ?case by (intro exI [of _ "v @ w"]) simp
  qed simp
qed auto

lemma den_progress: "den r x y \<Longrightarrow> x \<noteq> y \<Longrightarrow> length (snd y) < length (snd x)"
  using den_moves [of r x y] by (cases x; cases y) auto

lemma star_first_move:
  assumes "(den r)\<^sup>*\<^sup>* x z" "x \<noteq> z"
  shows "\<exists>w. den r x w \<and> length (snd w) < length (snd x) \<and> (den r)\<^sup>*\<^sup>* w z"
  using assms
proof (induction rule: converse_rtranclp_induct)
  case (step x w)
  then show ?case using den_progress [OF step.hyps(1)] by (cases "x = w") blast+
qed simp

lemma iden_star:
  "iden (R (RStar g r) # ks) x y \<longleftrightarrow> iden ks x y \<or> iden (R r # Chk (snd x) # R (RStar g r) # ks) x y"
proof
  assume "iden (R (RStar g r) # ks) x y"
  then obtain z where z: "(den r)\<^sup>*\<^sup>* x z" "iden ks z y" by auto
  then show "iden ks x y \<or> iden (R r # Chk (snd x) # R (RStar g r) # ks) x y"
  proof (cases "x = z")
    case False
    with star_first_move [OF z(1)] obtain w where
      "den r x w" "length (snd w) < length (snd x)" "(den r)\<^sup>*\<^sup>* w z" by blast
    with z(2) show ?thesis by (auto simp: relcompp_apply simp del: split_paired_Ex)
  qed (use z in simp)
next
  assume "iden ks x y \<or> iden (R r # Chk (snd x) # R (RStar g r) # ks) x y"
  then show "iden (R (RStar g r) # ks) x y"
    by (auto simp: relcompp_apply simp del: split_paired_Ex intro: converse_rtranclp_into_rtranclp)
qed

text \<open>
  The matcher succeeds exactly when the pattern has a denotation at the position, and then
  returns one of the denoted end positions.
\<close>

definition answers :: "(string \<times> string \<times> caps) option \<Rightarrow> item list \<Rightarrow> pos \<Rightarrow> bool" where
  "answers m ks x = (case m of None \<Rightarrow> \<not> (\<exists>y. iden ks x y) | Some (p', s', _) \<Rightarrow> iden ks x (p', s'))"

lemma answers_choice:
  assumes "answers m ks1 x" "m = None \<Longrightarrow> answers m' ks2 x"
    and "\<And>y. iden ks x y \<longleftrightarrow> iden ks1 x y \<or> iden ks2 x y"
  shows "answers (case m of Some y \<Rightarrow> Some y | None \<Rightarrow> m') ks x"
  using assms by (cases m) (auto simp: answers_def split: option.splits)

lemma answers_same:
  "answers m ks1 x' \<Longrightarrow> (\<And>y. iden ks x y \<longleftrightarrow> iden ks1 x' y) \<Longrightarrow> answers m ks x"
  by (auto simp: answers_def split: option.splits)

lemma mt_answers: "answers (mt ks p s c) ks (p, s)"
proof (induction ks p s c rule: mt.induct)
  case (3 n "is" ks p s c)
  then show ?case by (cases s) (auto simp: answers_def relcompp_apply split: option.splits)
next
  case (4 a b ks p s c)
  then show ?case by (simp, elim answers_same) (simp add: relcompp_assoc)
next
  case (5 a b ks p s c)
  have "iden (R (RAlt a b) # ks) x y \<longleftrightarrow> iden (R a # ks) x y \<or> iden (R b # ks) x y" for x y
    by (auto simp: relcompp_apply simp del: split_paired_Ex)
  with 5 show ?case by (simp only: mt.simps) (intro answers_choice)
next
  case (6 g r ks p s c)
  have st: "iden (R (RStar g r) # ks) (p, s) y \<longleftrightarrow>
      iden ks (p, s) y \<or> iden (R r # Chk s # R (RStar g r) # ks) (p, s) y" for y
    using iden_star [of g r ks "(p, s)" y] by simp
  show ?case
  proof (cases g)
    case True
    have "answers (case mt (R r # Chk s # R (RStar g r) # ks) p s c of
        Some y \<Rightarrow> Some y | None \<Rightarrow> mt ks p s c) (R (RStar g r) # ks) (p, s)"
      by (rule answers_choice [OF "6.IH"(1,2)]) (use True st in blast)+
    with True show ?thesis by simp
  next
    case False
    have "answers (case mt ks p s c of
        Some y \<Rightarrow> Some y | None \<Rightarrow> mt (R r # Chk s # R (RStar g r) # ks) p s c)
        (R (RStar g r) # ks) (p, s)"
      by (rule answers_choice [OF "6.IH"(3,4)]) (use False st in blast)+
    with False show ?thesis by (simp only: mt.simps(6) if_False)
  qed
next
  case (9 b r ks p s c)
  have look: "iden (R (RLook b r) # ks) x y \<longleftrightarrow> b = (\<exists>z. den r x z) \<and> iden ks x y" for x y
    by (auto simp: relcompp_apply)
  have one: "iden [R r] x y = den r x y" for x y by (simp add: OO_eq)
  show ?case
  proof (cases "mt [R r] p s c")
    case None
    with "9.IH"(1) have "\<not> (\<exists>z. den r (p, s) z)" by (simp add: answers_def OO_eq)
    with None "9.IH"(2) look show ?thesis by (cases b) (auto simp: answers_def split: option.splits)
  next
    case (Some t)
    obtain p' s' c' where t: "t = (p', s', c')" by (cases t)
    with "9.IH"(1) Some have "\<exists>z. den r (p, s) z" by (auto simp: answers_def OO_eq)
    with Some t "9.IH"(3) look show ?thesis by (cases b) (auto simp: answers_def split: option.splits)
  qed
qed (auto simp: answers_def relcompp_apply split: option.splits)

lemma matcher_complete: "mt [R r] p s c = None \<longleftrightarrow> \<not> (\<exists>y. den r (p, s) y)"
  using mt_answers [of "[R r]" p s c] by (fastforce simp: answers_def OO_eq split: option.splits)

lemma matcher_sound: "mt [R r] p s c = Some (p', s', c') \<Longrightarrow> den r (p, s) (p', s')"
  using mt_answers [of "[R r]" p s c] by (simp add: answers_def OO_eq)

section \<open>The words of a pattern, and what the captures hold\<close>

text \<open>
  \<open>gen r w\<close>: \<open>w\<close> is built as \<open>r\<close> says, ignoring what the assertions test.
\<close>

primrec gen :: "re \<Rightarrow> string \<Rightarrow> bool" where
  "gen REmpty = (\<lambda>w. w = [])"
| "gen (RCls n is) = (\<lambda>w. \<exists>c. w = [c] \<and> in_class n is c)"
| "gen (RSeq a b) = (\<lambda>w. \<exists>u v. w = u @ v \<and> gen a u \<and> gen b v)"
| "gen (RAlt a b) = (\<lambda>w. gen a w \<or> gen b w)"
| "gen (RStar g r) = (\<lambda>w. \<exists>ws. w = concat ws \<and> (\<forall>x \<in> set ws. gen r x))"
| "gen (RGrp g r) = gen r"
| "gen (RAsrt a) = (\<lambda>w. w = [])"
| "gen (RLook b r) = (\<lambda>w. w = [])"

primrec groups :: "re \<Rightarrow> (string \<times> re) list" where
  "groups REmpty = []"
| "groups (RCls n is) = []"
| "groups (RSeq a b) = groups a @ groups b"
| "groups (RAlt a b) = groups a @ groups b"
| "groups (RStar g r) = groups r"
| "groups (RGrp g r) = (g, r) # groups r"
| "groups (RAsrt a) = []"
| "groups (RLook b r) = groups r"

definition caps_ok :: "re \<Rightarrow> caps \<Rightarrow> bool" where
  "caps_ok r d \<longleftrightarrow> (\<forall>(g, w) \<in> set d. \<exists>b. (g, b) \<in> set (groups r) \<and> gen b w)"

text \<open>The groups that take part in every match.\<close>

primrec must :: "re \<Rightarrow> string \<Rightarrow> bool" where
  "must REmpty g = False"
| "must (RCls n is) g = False"
| "must (RSeq a b) g = (must a g \<or> must b g)"
| "must (RAlt a b) g = (must a g \<and> must b g)"
| "must (RStar gr r) g = False"
| "must (RGrp g' r) g = (g' = g \<or> must r g)"
| "must (RAsrt a) g = False"
| "must (RLook b r) g = False"

definition caps_all :: "re \<Rightarrow> caps \<Rightarrow> bool" where
  "caps_all r d \<longleftrightarrow> (\<forall>g. must r g \<longrightarrow> g \<in> fst ` set d)"

lemma caps_all_simps [simp]:
  "caps_all REmpty d" "caps_all (RCls n is) d" "caps_all (RStar gr r) d" "caps_all (RAsrt a) d"
  "caps_all (RLook b r) d"
  by (simp_all add: caps_all_def)

lemma caps_ok_simps [simp]:
  "caps_ok r []" "caps_ok r (d @ e) \<longleftrightarrow> caps_ok r d \<and> caps_ok r e"
  by (simp_all add: caps_ok_def ball_Un)

lemma caps_ok_mono: "caps_ok r d \<Longrightarrow> set (groups r) \<subseteq> set (groups r') \<Longrightarrow> caps_ok r' d"
  by (fastforce simp: caps_ok_def)

text \<open>
  The step of a pattern at the head of the stack: it takes a word off the text, adds its
  captures and leaves the rest of the stack to go on from there.
\<close>

definition takes :: "re \<Rightarrow> item list \<Rightarrow> string \<Rightarrow> string \<Rightarrow> caps \<Rightarrow> string \<times> string \<times> caps \<Rightarrow> bool" where
  "takes r ks p s c y \<longleftrightarrow> (\<exists>w s1 d. s = w @ s1 \<and> gen r w \<and> caps_ok r d \<and> caps_all r d \<and>
     mt ks (rev w @ p) s1 (d @ c) = Some y)"

lemma takesI:
  "s = w @ s1 \<Longrightarrow> gen r w \<Longrightarrow> caps_ok r d \<Longrightarrow> caps_all r d \<Longrightarrow>
     mt ks (rev w @ p) s1 (d @ c) = Some y \<Longrightarrow> takes r ks p s c y"
  by (auto simp: takes_def)

lemma takesE:
  assumes "takes r ks p s c y"
  obtains w s1 d where "s = w @ s1" "gen r w" "caps_ok r d" "mt ks (rev w @ p) s1 (d @ c) = Some y"
    "caps_all r d"
  using assms by (auto simp: takes_def)

lemma mt_takes_star:
  assumes IH: "\<And>ks p s c y. mt (R r # ks) p s c = Some y \<Longrightarrow> takes r ks p s c y"
    and "mt (R (RStar g r) # ks) p s c = Some y"
  shows "takes (RStar g r) ks p s c y"
  using assms(2)
proof (induction "length s" arbitrary: p s c rule: less_induct)
  case less
  then have "mt ks p s c = Some y \<or> mt (R r # Chk s # R (RStar g r) # ks) p s c = Some y"
    by (auto split: if_splits option.splits)
  then show ?case
  proof
    assume "mt ks p s c = Some y"
    then show ?thesis by (intro takesI [of s "[]" s _ "[]"]) (auto intro: exI [of _ "[]"])
  next
    assume "mt (R r # Chk s # R (RStar g r) # ks) p s c = Some y"
    from IH [OF this] obtain v s1 d where v: "s = v @ s1" "gen r v" "caps_ok r d"
      "mt (Chk s # R (RStar g r) # ks) (rev v @ p) s1 (d @ c) = Some y" by (rule takesE)
    from v(4) have lt: "length s1 < length s"
      and mt1: "mt (R (RStar g r) # ks) (rev v @ p) s1 (d @ c) = Some y"
      by (simp_all del: mt.simps(6) split: if_splits)
    from less.hyps [OF lt mt1] obtain w s2 e where w: "s1 = w @ s2" "gen (RStar g r) w"
      "caps_ok (RStar g r) e" "mt ks (rev w @ rev v @ p) s2 (e @ d @ c) = Some y" by (rule takesE)
    from w(2) obtain ws where "w = concat ws" "\<forall>x \<in> set ws. gen r x" by auto
    with v(2) have "gen (RStar g r) (v @ w)" by (auto intro!: exI [of _ "v # ws"])
    moreover have "caps_ok (RStar g r) (e @ d)" using v(3) w(3) by (auto intro: caps_ok_mono)
    ultimately show ?thesis
      using v(1) w(1,4) by (intro takesI [of s "v @ w" s2 _ "e @ d"]) auto
  qed
qed

lemma mt_takes: "mt (R r # ks) p s c = Some y \<Longrightarrow> takes r ks p s c y"
proof (induction r arbitrary: ks p s c y)
  case REmpty
  then show ?case by (intro takesI [of s "[]" s _ "[]"]) auto
next
  case (RCls n "is")
  then obtain x t where "s = x # t" "in_class n is x" "mt ks (x # p) t c = Some y"
    by (auto split: list.splits if_splits)
  then show ?case by (intro takesI [of s "[x]" t _ "[]"]) auto
next
  case (RSeq a b)
  from RSeq.prems have "mt (R a # R b # ks) p s c = Some y" by simp
  from RSeq.IH(1) [OF this] obtain v s1 d where v: "s = v @ s1" "gen a v" "caps_ok a d"
    "mt (R b # ks) (rev v @ p) s1 (d @ c) = Some y" "caps_all a d" by (rule takesE)
  from RSeq.IH(2) [OF v(4)] obtain w s2 e where w: "s1 = w @ s2" "gen b w" "caps_ok b e"
    "mt ks (rev w @ rev v @ p) s2 (e @ d @ c) = Some y" "caps_all b e" by (rule takesE)
  have "caps_ok (RSeq a b) (e @ d)" using v(3) w(3) by (auto elim: caps_ok_mono)
  moreover have "caps_all (RSeq a b) (e @ d)" using v(5) w(5) by (auto simp: caps_all_def)
  ultimately show ?case using v w by (intro takesI [of s "v @ w" s2 _ "e @ d"]) auto
next
  case (RAlt a b)
  then have "takes a ks p s c y \<or> takes b ks p s c y" by (auto split: option.splits)
  then obtain r w s1 d where "r = a \<or> r = b" and w: "s = w @ s1" "gen r w" "caps_ok r d"
    "mt ks (rev w @ p) s1 (d @ c) = Some y" "caps_all r d"
    by (auto elim!: takesE)
  then have "caps_ok (RAlt a b) d" "caps_all (RAlt a b) d" "gen (RAlt a b) w"
    by (auto simp: caps_all_def elim: caps_ok_mono)
  with w show ?case by (intro takesI [of s w s1 _ d])
next
  case (RStar g r)
  then show ?case by (rule mt_takes_star)
next
  case (RGrp g r)
  from RGrp.prems have "mt (R r # Cap g s # ks) p s c = Some y" by simp
  from RGrp.IH [OF this] obtain w s1 d where w: "s = w @ s1" "gen r w" "caps_ok r d"
    "mt (Cap g s # ks) (rev w @ p) s1 (d @ c) = Some y" "caps_all r d" by (rule takesE)
  from w(4) have "mt ks (rev w @ p) s1 (((g, w) # d) @ c) = Some y" by (simp add: w(1))
  moreover have "caps_ok (RGrp g r) ((g, w) # d)" "caps_all (RGrp g r) ((g, w) # d)"
    using w(2,3,5) by (auto simp: caps_ok_def caps_all_def)
  ultimately show ?case using w(1,2) by (intro takesI [of s w s1 _ "(g, w) # d"]) auto
next
  case (RAsrt a)
  then show ?case by (intro takesI [of s "[]" s _ "[]"]) (auto split: if_splits)
next
  case (RLook b r)
  show ?case
  proof (cases "mt [R r] p s c")
    case None
    with RLook.prems show ?thesis
      by (intro takesI [of s "[]" s _ "[]"]) (auto split: if_splits)
  next
    case (Some t)
    from RLook.IH [OF this] obtain w s1 d where "caps_ok r d" "mt [] (rev w @ p) s1 (d @ c) = Some t"
      by (rule takesE)
    with Some RLook.prems show ?thesis
      by (intro takesI [of s "[]" s _ d]) (auto elim: caps_ok_mono split: if_splits)
  qed
qed

section \<open>The functions of the module\<close>

record re_match =
  m_before :: string    \<comment> \<open>the text before the match\<close>
  m_text :: string      \<comment> \<open>\<open>m.group(0)\<close>\<close>
  m_after :: string     \<comment> \<open>the text after the match\<close>
  m_caps :: caps        \<comment> \<open>the captures, the last one first\<close>

definition match_at :: "re \<Rightarrow> string \<Rightarrow> string \<Rightarrow> re_match option" where
  "match_at r p s =
     (case mt [R r] p s [] of
        None \<Rightarrow> None
      | Some (p', s', c) \<Rightarrow>
          Some \<lparr>m_before = rev p, m_text = cap_text s s', m_after = s', m_caps = c\<rparr>)"

definition re_match_at_start :: "re \<Rightarrow> string \<Rightarrow> re_match option" where
  "re_match_at_start r s = match_at r [] s"

definition re_fullmatch :: "re \<Rightarrow> string \<Rightarrow> re_match option" where
  "re_fullmatch r s = match_at (RSeq r (RAsrt Eos)) [] s"

definition matches :: "re \<Rightarrow> string \<Rightarrow> bool" where
  "matches r s \<longleftrightarrow> re_match_at_start r s \<noteq> None"

definition fullmatches :: "re \<Rightarrow> string \<Rightarrow> bool" where
  "fullmatches r s \<longleftrightarrow> re_fullmatch r s \<noteq> None"

fun search_from :: "re \<Rightarrow> string \<Rightarrow> string \<Rightarrow> re_match option" where
  "search_from r p [] = match_at r p []"
| "search_from r p (c # s) =
     (case match_at r p (c # s) of Some m \<Rightarrow> Some m | None \<Rightarrow> search_from r (c # p) s)"

definition re_search :: "re \<Rightarrow> string \<Rightarrow> re_match option" where
  "re_search r s = search_from r [] s"

definition searches :: "re \<Rightarrow> string \<Rightarrow> bool" where
  "searches r s \<longleftrightarrow> re_search r s \<noteq> None"

definition group :: "re_match \<Rightarrow> string \<Rightarrow> string option" where
  "group m g = dict_get (m_caps m) g"

text \<open>\<open>m.group(g)\<close> where the group took part in the match.\<close>

definition grp :: "re_match \<Rightarrow> string \<Rightarrow> string" where
  "grp m g = or_else (group m g) []"

lemma match_at_takes:
  assumes "match_at r p s = Some m"
  shows "s = m_text m @ m_after m" "gen r (m_text m)" "caps_ok r (m_caps m)" "m_before m = rev p"
    "caps_all r (m_caps m)"
proof -
  from assms obtain p' s' c where mt: "mt [R r] p s [] = Some (p', s', c)"
    and m: "m = \<lparr>m_before = rev p, m_text = cap_text s s', m_after = s', m_caps = c\<rparr>"
    by (auto simp: match_at_def split: option.splits)
  from mt_takes [OF mt] obtain w where "s = w @ s'" "gen r w" "caps_ok r c" "caps_all r c"
    by (rule takesE) auto
  with m show "s = m_text m @ m_after m" "gen r (m_text m)" "caps_ok r (m_caps m)"
    "m_before m = rev p" "caps_all r (m_caps m)" by auto
qed

lemma group_gen:
  assumes "caps_ok r (m_caps m)" "group m g = Some w"
  shows "\<exists>b. (g, b) \<in> set (groups r) \<and> gen b w"
  using assms dict_get_in [of "m_caps m" g w] by (auto simp: group_def caps_ok_def)

lemma group_must:
  assumes "caps_ok r (m_caps m)" "caps_all r (m_caps m)" "must r g"
  obtains b where "(g, b) \<in> set (groups r)" "gen b (grp m g)" "group m g = Some (grp m g)"
proof -
  have "group m g \<noteq> None"
    using assms(2,3) by (simp add: caps_all_def group_def dict_get_None_iff)
  then have "group m g = Some (grp m g)" by (auto simp: grp_def)
  with group_gen [OF assms(1) this] that show ?thesis by blast
qed

lemma re_fullmatch_gen:
  assumes "re_fullmatch r s = Some m"
  shows "gen r s" "caps_ok r (m_caps m)" "m_text m = s" "caps_all r (m_caps m)"
proof -
  from assms have m: "match_at (RSeq r (RAsrt Eos)) [] s = Some m" by (simp add: re_fullmatch_def)
  then obtain p' c where "mt [R (RSeq r (RAsrt Eos))] [] s [] = Some (p', m_after m, c)"
    by (auto simp: match_at_def split: option.splits)
  from matcher_sound [OF this] have "m_after m = []" by (auto simp: relcompp_apply)
  with match_at_takes [OF m] show "gen r s" "m_text m = s" by auto
  from match_at_takes(3,5) [OF m] show "caps_ok r (m_caps m)" "caps_all r (m_caps m)"
    by (auto simp: caps_ok_def caps_all_def)
qed

lemma search_from_takes:
  "search_from r p s = Some m \<Longrightarrow>
     rev p @ s = m_before m @ m_text m @ m_after m \<and> gen r (m_text m) \<and> caps_ok r (m_caps m) \<and>
     caps_all r (m_caps m)"
proof (induction r p s rule: search_from.induct)
  case (1 r p)
  then have "match_at r p [] = Some m" by simp
  from match_at_takes [OF this] show ?case by simp
next
  case (2 r p c s)
  show ?case
  proof (cases "match_at r p (c # s)")
    case None
    with 2 show ?thesis by simp
  next
    case (Some m')
    with 2 have "m' = m" by simp
    with match_at_takes [OF Some] show ?thesis by metis
  qed
qed

lemma re_search_takes:
  assumes "re_search r s = Some m"
  shows "s = m_before m @ m_text m @ m_after m" "gen r (m_text m)" "caps_ok r (m_caps m)"
    "caps_all r (m_caps m)"
  using search_from_takes [of r "[]" s m] assms by (auto simp: re_search_def)

text \<open>
  A pattern without assertions: its words are exactly what it matches, so \<open>fullmatch\<close> decides
  \<open>gen\<close>.
\<close>

primrec plain :: "re \<Rightarrow> bool" where
  "plain REmpty = True"
| "plain (RCls n is) = True"
| "plain (RSeq a b) = (plain a \<and> plain b)"
| "plain (RAlt a b) = (plain a \<and> plain b)"
| "plain (RStar g r) = plain r"
| "plain (RGrp g r) = plain r"
| "plain (RAsrt a) = False"
| "plain (RLook b r) = False"

lemma gen_den: "plain r \<Longrightarrow> gen r w \<Longrightarrow> den r (p, w @ s) (rev w @ p, s)"
proof (induction r arbitrary: w p s)
  case (RSeq a b)
  then obtain u v where w: "w = u @ v" "gen a u" "gen b v" by auto
  with RSeq have "den a (p, u @ (v @ s)) (rev u @ p, v @ s)"
    and "den b (rev u @ p, v @ s) (rev v @ rev u @ p, s)" by auto
  with w show ?case by (auto simp: relcompp_apply)
next
  case (RStar g r)
  then obtain ws where ws: "w = concat ws" "\<forall>x \<in> set ws. gen r x" by auto
  have "(den r)\<^sup>*\<^sup>* (p, concat ws @ s) (rev (concat ws) @ p, s)" using ws(2)
  proof (induction ws arbitrary: p)
    case (Cons x xs)
    have "den r (p, x @ (concat xs @ s)) (rev x @ p, concat xs @ s)"
      using RStar.IH [of x p "concat xs @ s"] RStar.prems(1) Cons.prems by simp
    moreover have "(den r)\<^sup>*\<^sup>* (rev x @ p, concat xs @ s) (rev (concat xs) @ rev x @ p, s)"
      using Cons by simp
    ultimately show ?case by (simp add: converse_rtranclp_into_rtranclp)
  qed simp
  with ws show ?case by simp
qed auto

lemma fullmatches_gen: "plain r \<Longrightarrow> fullmatches r s \<longleftrightarrow> gen r s"
proof
  assume "fullmatches r s"
  then show "gen r s" by (auto simp: fullmatches_def dest: re_fullmatch_gen)
next
  assume r: "plain r" "gen r s"
  then have "den r ([], s) (rev s, [])" using gen_den [of r s "[]" "[]"] by simp
  then have "den (RSeq r (RAsrt Eos)) ([], s) (rev s, [])"
    by (auto simp: relcompp_apply)
  then have "mt [R (RSeq r (RAsrt Eos))] [] s [] \<noteq> None"
    using matcher_complete [of "RSeq r (RAsrt Eos)" "[]" s "[]"] by blast
  then show "fullmatches r s"
    by (auto simp: fullmatches_def re_fullmatch_def match_at_def)
qed

text \<open>The words of the derived forms.\<close>

lemma gen_cls [simp]: "gen (cls is) w \<longleftrightarrow> (\<exists>c. w = [c] \<and> in_items is c)"
  by (auto simp: cls_def in_class_def)

lemma gen_seqs_Cons [simp]: "gen (seqs (r # rs)) w \<longleftrightarrow> (\<exists>u v. w = u @ v \<and> gen r u \<and> gen (seqs rs) v)"
  by (cases rs) auto

lemma gen_alts_Cons [simp]: "gen (alts (r # rs)) w \<longleftrightarrow> gen r w \<or> gen (alts rs) w"
  by (cases rs) (auto simp: in_class_def)

lemma gen_lit [simp]: "gen (lit s) w \<longleftrightarrow> w = s"
  by (induction s arbitrary: w) (auto simp: lit_def)

lemma gen_opt [simp]: "gen (opt r) w \<longleftrightarrow> gen r w \<or> w = []"
  by (auto simp: opt_def)

lemma gen_star_cls [simp]: "gen (star (cls is)) w \<longleftrightarrow> (\<forall>c \<in> set w. in_items is c)"
proof
  assume "\<forall>c \<in> set w. in_items is c"
  then show "gen (star (cls is)) w"
    by (auto simp: star_def intro!: exI [of _ "map (\<lambda>c. [c]) w"])
qed (fastforce simp: star_def)

lemma gen_plus_cls [simp]:
  "gen (plus (cls is)) w \<longleftrightarrow> w \<noteq> [] \<and> (\<forall>c \<in> set w. in_items is c)"
proof -
  have "gen (plus (cls is)) w \<longleftrightarrow> (\<exists>u v. w = u @ v \<and> gen (cls is) u \<and> gen (star (cls is)) v)"
    by (simp add: plus_def star_def)
  also have "\<dots> \<longleftrightarrow> (\<exists>c v. w = c # v \<and> in_items is c \<and> (\<forall>d \<in> set v. in_items is d))"
    unfolding gen_cls gen_star_cls by (rule iffI; elim exE conjE; intro exI conjI; simp)
  also have "\<dots> \<longleftrightarrow> w \<noteq> [] \<and> (\<forall>c \<in> set w. in_items is c)"
    by (cases w) auto
  finally show ?thesis .
qed

text \<open>The groups of the derived forms.\<close>

lemma groups_seqs_Cons: "groups (seqs (r # rs)) = groups r @ groups (seqs rs)"
  by (cases rs) auto

lemma groups_alts_Cons: "groups (alts (r # rs)) = groups r @ groups (alts rs)"
  by (cases rs) auto

lemma must_seqs_Cons: "must (seqs (r # rs)) g \<longleftrightarrow> must r g \<or> must (seqs rs) g"
  by (cases rs) auto

lemma groups_cls [simp]: "groups (cls is) = []" and groups_lit [simp]: "groups (lit s) = []"
proof -
  show "groups (cls is) = []" for "is" by (simp add: cls_def)
  then show "groups (lit s) = []"
    by (induction s) (auto simp: lit_def groups_seqs_Cons)
qed

lemma groups_replicate: "groups r = [] \<Longrightarrow> groups (seqs (replicate n r @ [s])) = groups s"
  by (induction n) (auto simp: groups_seqs_Cons)

lemma groups_upto_n: "groups r = [] \<Longrightarrow> groups (upto_n n r) = []"
  by (induction n) auto

lemma groups_repeat [simp]:
  "groups (star r) = groups r" "groups (plus r) = groups r @ groups r" "groups (lazy r) = groups r"
  "groups (opt r) = groups r" "groups any = []" "groups r = [] \<Longrightarrow> groups (at_least n r) = []"
  "groups r = [] \<Longrightarrow> groups (m_to_n m n r) = []"
  by (simp_all add: star_def plus_def lazy_def opt_def any_def at_least_def m_to_n_def
      groups_replicate groups_upto_n)

lemma plain_derived [simp]:
  "plain (cls is)" "plain (lit s)" "plain (star r) = plain r" "plain (plus r) = plain r"
  "plain (opt r) = plain r"
  "plain (seqs rs) = list_all plain rs" "plain (alts rs) = list_all plain rs"
proof -
  show seqs: "plain (seqs rs) = list_all plain rs" for rs by (induction rs rule: seqs.induct) auto
  show "plain (alts rs) = list_all plain rs" for rs by (induction rs rule: alts.induct) auto
  show "plain (cls is)" by (simp add: cls_def)
  show "plain (lit s)" by (simp add: lit_def seqs list_all_iff cls_def)
qed (simp_all add: star_def plus_def opt_def)

section \<open>Scanning a text\<close>

text \<open>
  \<open>finditer\<close>, \<open>sub\<close> and \<open>split\<close> for patterns whose matches are not empty, which is all the
  code has; an empty match is skipped over by \<open>sub\<close> and \<open>split\<close>.
\<close>

function finditer_from :: "re \<Rightarrow> string \<Rightarrow> string \<Rightarrow> re_match list" where
  "finditer_from r p s =
     (case search_from r p s of
        None \<Rightarrow> []
      | Some m \<Rightarrow>
          (if length (m_after m) < length s then
             m # finditer_from r (rev (m_before m @ m_text m)) (m_after m)
           else [m]))"
  by pat_completeness auto
termination by (relation "measure (\<lambda>(r, p, s). length s)") auto

declare finditer_from.simps [simp del]

definition finditer :: "re \<Rightarrow> string \<Rightarrow> re_match list" where
  "finditer r s = finditer_from r [] s"

function sub_from :: "re \<Rightarrow> string \<Rightarrow> string \<Rightarrow> string \<Rightarrow> string" where
  "sub_from r rep p s =
     (case s of
        [] \<Rightarrow> []
      | c # t \<Rightarrow>
          (case match_at r p s of
             None \<Rightarrow> c # sub_from r rep (c # p) t
           | Some m \<Rightarrow>
               (if length (m_after m) < length s
                then rep @ sub_from r rep (rev (m_text m) @ p) (m_after m)
                else c # sub_from r rep (c # p) t)))"
  by pat_completeness auto
termination by (relation "measure (\<lambda>(r, rep, p, s). length s)") auto

declare sub_from.simps [simp del]

definition re_sub :: "re \<Rightarrow> string \<Rightarrow> string \<Rightarrow> string" where
  "re_sub r rep s = sub_from r rep [] s"

function split_from :: "re \<Rightarrow> string \<Rightarrow> string \<Rightarrow> string \<Rightarrow> string list" where
  "split_from r acc p s =
     (case s of
        [] \<Rightarrow> [rev acc]
      | c # t \<Rightarrow>
          (case match_at r p s of
             None \<Rightarrow> split_from r (c # acc) (c # p) t
           | Some m \<Rightarrow>
               (if length (m_after m) < length s
                then rev acc # split_from r [] (rev (m_text m) @ p) (m_after m)
                else split_from r (c # acc) (c # p) t)))"
  by pat_completeness auto
termination by (relation "measure (\<lambda>(r, acc, p, s). length s)") auto

declare split_from.simps [simp del]

definition re_split :: "re \<Rightarrow> string \<Rightarrow> string list" where
  "re_split r s = split_from r [] [] s"

text \<open>The characters a substitution can leave behind.\<close>

lemma sub_from_set: "set (sub_from r rep p s) \<subseteq> set rep \<union> set s"
proof (induction r rep p s rule: sub_from.induct)
  case (1 r rep p s)
  show ?case
  proof (cases s)
    case Nil
    then show ?thesis by (subst sub_from.simps) simp
  next
    case (Cons c t)
    show ?thesis
    proof (cases "match_at r p s")
      case None
      with Cons "1.IH"(1) show ?thesis by (subst sub_from.simps) auto
    next
      case (Some m)
      have "set (m_after m) \<subseteq> set s" using match_at_takes(1) [OF Some] by (metis Un_upper2 set_append)
      with "1.IH"(2,3) [OF Cons Some] Cons Some show ?thesis
        by (subst sub_from.simps) (cases "length (m_after m) < length s"; auto)
    qed
  qed
qed

lemma re_sub_set: "set (re_sub r rep s) \<subseteq> set rep \<union> set s"
  by (simp add: re_sub_def sub_from_set)

text \<open>Substituting a one-character class removes every character of the class.\<close>

lemma match_at_cls:
  "match_at (RCls n is) p (c # t) =
     (if in_class n is c
      then Some \<lparr>m_before = rev p, m_text = [c], m_after = t, m_caps = []\<rparr> else None)"
  by (simp add: match_at_def)

lemma sub_from_cls: "sub_from (RCls n is) rep p s = concat (map (\<lambda>c. if in_class n is c then rep else [c]) s)"
proof (induction s arbitrary: p)
  case Nil
  then show ?case by (subst sub_from.simps) simp
next
  case (Cons c t)
  then show ?case by (subst sub_from.simps) (simp add: match_at_cls)
qed

lemma re_sub_cls: "re_sub (RCls n is) rep s = concat (map (\<lambda>c. if in_class n is c then rep else [c]) s)"
  by (simp add: re_sub_def sub_from_cls)

text \<open>The pieces of a split are pieces of the text.\<close>

lemma split_from_set:
  "w \<in> set (split_from r acc p s) \<Longrightarrow> set w \<subseteq> set acc \<union> set s"
proof (induction r acc p s rule: split_from.induct)
  case (1 r acc p s)
  show ?case
  proof (cases s)
    case Nil
    with "1.prems" show ?thesis by (subst (asm) split_from.simps) simp
  next
    case (Cons c t)
    show ?thesis
    proof (cases "match_at r p s")
      case None
      with Cons "1.prems" have "w \<in> set (split_from r (c # acc) (c # p) t)"
        by (subst (asm) split_from.simps) simp
      with "1.IH"(1) [OF Cons None] Cons show ?thesis by auto
    next
      case (Some m)
      have sub: "set (m_after m) \<subseteq> set s" using match_at_takes(1) [OF Some] by (metis Un_upper2 set_append)
      from Cons Some "1.prems" consider (keep) "\<not> length (m_after m) < length s"
          "w \<in> set (split_from r (c # acc) (c # p) t)"
        | (cut) "length (m_after m) < length s"
          "w = rev acc \<or> w \<in> set (split_from r [] (rev (m_text m) @ p) (m_after m))"
        by (subst (asm) (2) split_from.simps) (auto split: if_splits)
      then show ?thesis
      proof cases
        case keep
        with "1.IH"(3) [OF Cons Some] Cons show ?thesis by auto
      next
        case cut
        with "1.IH"(2) [OF Cons Some] sub show ?thesis by auto
      qed
    qed
  qed
qed

section \<open>Runs of one class of characters\<close>

text \<open>
  \<open>x{k,}\<close> over a class takes the whole run: the fact behind splitting a table row at two or
  more spaces and behind squeezing repeated underscores.
\<close>

lemma mt_star_cls:
  "mt [R (RStar True (cls is))] p s c =
     Some (rev (takeWhile (in_items is) s) @ p, dropWhile (in_items is) s, c)"
proof (induction s arbitrary: p)
  case Nil
  then show ?case by (simp add: cls_def)
next
  case (Cons x t)
  then show ?case by (simp add: cls_def in_class_def)
qed

lemma mt_run:
  "mt [R (seqs (replicate k (cls is) @ [RStar True (cls is)]))] p s c =
     (if k \<le> length (takeWhile (in_items is) s)
      then Some (rev (takeWhile (in_items is) s) @ p, dropWhile (in_items is) s, c) else None)"
proof (induction k arbitrary: p s)
  case 0
  then show ?case using mt_star_cls [of "is" p s c] by simp
next
  case (Suc k)
  have "seqs (replicate (Suc k) (cls is) @ [RStar True (cls is)]) =
      RSeq (cls is) (seqs (replicate k (cls is) @ [RStar True (cls is)]))"
    by (cases k) auto
  then show ?case
    by (cases s) (simp_all add: cls_def [of "is", symmetric] Suc.IH,
        simp_all add: cls_def in_class_def, simp add: cls_def [symmetric] Suc.IH)
qed

lemma match_at_run:
  "match_at (at_least k (cls is)) p s =
     (if k \<le> length (takeWhile (in_items is) s)
      then Some \<lparr>m_before = rev p, m_text = takeWhile (in_items is) s,
                 m_after = dropWhile (in_items is) s, m_caps = []\<rparr> else None)"
proof -
  have "length s - length (dropWhile (in_items is) s) = length (takeWhile (in_items is) s)"
    by (metis add_diff_cancel_right' length_append takeWhile_dropWhile_id)
  then have "cap_text s (dropWhile (in_items is) s) = takeWhile (in_items is) s"
    by (metis cap_text.simps takeWhile_eq_take)
  then show ?thesis by (simp add: match_at_def at_least_def mt_run del: cap_text.simps)
qed

end
