(* ===== verification/StateModel.thy ===== *)
theory StateModel
  imports Regex
begin

text \<open>
  \<open>tools/state/model.py\<close>: the enumerations, the normalized state entry with its provenance
  and alias, the stable identifier and the C identifiers derived from register names.
  A Python \<open>str\<close>-valued \<open>Enum\<close> is a datatype with its \<open>value\<close> function and the
  constructor-by-value that raises \<open>ValueError\<close>.
\<close>

section \<open>Enumerations\<close>

datatype classification =
    EMITTED_STATE | ARCHITECTURE_DEFINED | ALIAS | NON_STATE_OPERATION | CONDITIONAL_STATE
  | EXPLICIT_EXCLUSION

datatype namespace = ARCH | CPU | DEBUG | CLUSTER | UNDOCUMENTED

datatype access =
    MEMORY_MAPPED | SPECIAL_REG | CORE_REG | SYSREG | CP15 | CSR | FP_SYSREG

definition all_classifications :: "classification list" where
  "all_classifications =
     [EMITTED_STATE, ARCHITECTURE_DEFINED, ALIAS, NON_STATE_OPERATION, CONDITIONAL_STATE,
      EXPLICIT_EXCLUSION]"

definition all_namespaces :: "namespace list" where
  "all_namespaces = [ARCH, CPU, DEBUG, CLUSTER, UNDOCUMENTED]"

definition all_accesses :: "access list" where
  "all_accesses = [MEMORY_MAPPED, SPECIAL_REG, CORE_REG, SYSREG, CP15, CSR, FP_SYSREG]"

fun class_value :: "classification \<Rightarrow> string" where
  "class_value EMITTED_STATE = ''emitted_state''"
| "class_value ARCHITECTURE_DEFINED = ''architecture_defined''"
| "class_value ALIAS = ''alias''"
| "class_value NON_STATE_OPERATION = ''non_state_operation''"
| "class_value CONDITIONAL_STATE = ''conditional_state''"
| "class_value EXPLICIT_EXCLUSION = ''explicit_exclusion''"

fun ns_value :: "namespace \<Rightarrow> string" where
  "ns_value ARCH = ''arch''"
| "ns_value CPU = ''cpu''"
| "ns_value DEBUG = ''debug''"
| "ns_value CLUSTER = ''cluster''"
| "ns_value UNDOCUMENTED = ''undocumented_discovered''"

fun access_value :: "access \<Rightarrow> string" where
  "access_value MEMORY_MAPPED = ''memory_mapped''"
| "access_value SPECIAL_REG = ''special_reg''"
| "access_value CORE_REG = ''core_reg''"
| "access_value SYSREG = ''sysreg''"
| "access_value CP15 = ''cp15''"
| "access_value CSR = ''csr''"
| "access_value FP_SYSREG = ''fp_sysreg''"

text \<open>\<open>Enum(value)\<close>: the member with that value, or \<open>ValueError\<close>.\<close>

fun enum_of :: "('a \<Rightarrow> string) \<Rightarrow> 'a list \<Rightarrow> string \<Rightarrow> 'a res" where
  "enum_of val [] s = Inl (ValueError s)"
| "enum_of val (x # xs) s = (if val x = s then Inr x else enum_of val xs s)"

definition class_of :: "string \<Rightarrow> classification res" where
  "class_of s = enum_of class_value all_classifications s"

definition ns_of :: "string \<Rightarrow> namespace res" where
  "ns_of s = enum_of ns_value all_namespaces s"

definition access_of :: "string \<Rightarrow> access res" where
  "access_of s = enum_of access_value all_accesses s"

locale str_enum =
  fixes val :: "'a \<Rightarrow> string"
    and of_val :: "string \<Rightarrow> 'a res"
    and members :: "'a list"
  assumes of_val_def: "of_val s = enum_of val members s"
    and complete: "x \<in> set members"
    and inj: "val x = val y \<Longrightarrow> x = y"
begin

lemma enum_of_Inr: "enum_of val xs s = Inr x \<Longrightarrow> val x = s"
  by (induction xs) (auto split: if_splits)

lemma enum_of_val: "x \<in> set xs \<Longrightarrow> enum_of val xs (val x) = Inr x"
  by (induction xs) (auto dest: inj)

lemma enum_of_Inl: "enum_of val xs s = Inl e \<Longrightarrow> e = ValueError s \<and> s \<notin> val ` set xs"
  by (induction xs) (auto split: if_splits)

lemma of_val_val: "of_val (val x) = Inr x"
  by (simp add: of_val_def enum_of_val complete)

lemma of_val_Inr_iff: "of_val s = Inr x \<longleftrightarrow> val x = s"
  using enum_of_Inr of_val_val of_val_def by metis

lemma of_val_Inl: "of_val s = Inl e \<longleftrightarrow> e = ValueError s \<and> s \<notin> range val"
proof
  assume "of_val s = Inl e"
  then show "e = ValueError s \<and> s \<notin> range val"
    using enum_of_Inl [of members s e] complete by (auto simp: of_val_def)
next
  assume "e = ValueError s \<and> s \<notin> range val"
  then show "of_val s = Inl e"
    using enum_of_Inl [of members s] enum_of_Inr [of members s] of_val_def
    by (metis UNIV_I image_eqI old.sum.exhaust)
qed

end

interpretation classification_enum: str_enum class_value class_of all_classifications
proof
  show "x \<in> set all_classifications" for x by (cases x) (auto simp: all_classifications_def)
  show "class_value x = class_value y \<Longrightarrow> x = y" for x y by (cases x; cases y) auto
qed (simp add: class_of_def)

interpretation namespace_enum: str_enum ns_value ns_of all_namespaces
proof
  show "x \<in> set all_namespaces" for x by (cases x) (auto simp: all_namespaces_def)
  show "ns_value x = ns_value y \<Longrightarrow> x = y" for x y by (cases x; cases y) auto
qed (simp add: ns_of_def)

interpretation access_enum: str_enum access_value access_of all_accesses
proof
  show "x \<in> set all_accesses" for x by (cases x) (auto simp: all_accesses_def)
  show "access_value x = access_value y \<Longrightarrow> x = y" for x y by (cases x; cases y) auto
qed (simp add: access_of_def)

section \<open>Entries\<close>

record provenance =
  p_document :: string
  p_revision :: string
  p_section :: string
  p_table :: string
  p_row :: string
  p_page :: "nat option"

record alias_view =
  a_target :: string
  a_bit_offset :: int
  a_bit_width :: int

record state_entry =
  canonical_name :: string
  source_id :: string
  architecture :: string
  namespace :: namespace
  classification :: classification
  provenance :: provenance
  width :: "int option"
  access :: "access option"
  encoding :: "string option"
  encoding_kind :: string
  readable :: bool
  writable :: bool
  feature_requirement :: "string option"
  alias_to :: "alias_view option"
  reason :: "string option"
  snapshot :: bool
  derivation :: string
  source_family :: string
  source_release :: string
  debug_regsel :: "int option"
  debug_lsb :: int
  debug_width :: int
  component :: string

text \<open>
  The dataclass defaults: an entry built from the six mandatory fields.
\<close>

definition new_entry ::
  "string \<Rightarrow> string \<Rightarrow> string \<Rightarrow> namespace \<Rightarrow> classification \<Rightarrow> provenance \<Rightarrow> state_entry" where
  "new_entry name sid arch ns cl prov =
     \<lparr>canonical_name = name, source_id = sid, architecture = arch, namespace = ns,
      classification = cl, provenance = prov, width = None, access = None, encoding = None,
      encoding_kind = ''absolute'', readable = True, writable = True,
      feature_requirement = None, alias_to = None, reason = None, snapshot = False,
      derivation = ''table'', source_family = [], source_release = [],
      debug_regsel = None, debug_lsb = 0, debug_width = 32, component = []\<rparr>"

definition state_id :: "state_entry \<Rightarrow> string" where
  "state_id e =
     (let comp = (if component e \<noteq> [] then component e @ '':'' else [])
      in architecture e @ '':'' @ ns_value (namespace e) @ '':'' @ comp @ canonical_name e)"

section \<open>C identifiers\<close>

definition nonident_class :: "citem list" where
  "nonident_class =
     [Rg (CHR ''A'') (CHR ''Z''), Rg (CHR ''a'') (CHR ''z''), Rg (CHR ''0'') (CHR ''9''), Ch (CHR ''_'')]"

definition C_IDENT_RE :: re where "C_IDENT_RE = ncls nonident_class"

definition UNDERSCORES_RE :: re where "UNDERSCORES_RE = at_least 2 (cls [Ch (CHR ''_'')])"

definition c_identifier :: "string \<Rightarrow> string" where
  "c_identifier name =
     (let ident = strip_by (in_chars ''_'') (re_sub C_IDENT_RE ''_'' (strip name));
          ident = re_sub UNDERSCORES_RE ''_'' ident;
          ident = (case ident of [] \<Rightarrow> ident
                   | c # _ \<Rightarrow> if is_digit_ch c then CHR ''_'' # ident else ident)
      in upper ident)"

definition c_name :: "state_entry \<Rightarrow> string" where
  "c_name e =
     (let base = canonical_name e;
          base = (if component e \<noteq> [] \<and> \<not> starts_with (upper base) (upper (component e))
                  then component e @ ''_'' @ base else base)
      in c_identifier base)"

text \<open>The manifest row of an entry: the enumerations as their values, the identifier added.\<close>

record manifest_entry =
  me_name :: string
  me_source_id :: string
  me_architecture :: string
  me_namespace :: string
  me_classification :: string
  me_provenance :: provenance
  me_width :: "int option"
  me_access :: "string option"
  me_encoding :: "string option"
  me_encoding_kind :: string
  me_readable :: bool
  me_writable :: bool
  me_feature_requirement :: "string option"
  me_alias :: "alias_view option"
  me_reason :: "string option"
  me_snapshot :: bool
  me_derivation :: string
  me_source_family :: string
  me_source_release :: string
  me_debug_regsel :: "int option"
  me_debug_lsb :: int
  me_debug_width :: int
  me_component :: string
  me_state_id :: string

definition to_dict :: "state_entry \<Rightarrow> manifest_entry" where
  "to_dict e =
     \<lparr>me_name = canonical_name e, me_source_id = source_id e, me_architecture = architecture e,
      me_namespace = ns_value (namespace e), me_classification = class_value (classification e),
      me_provenance = provenance e, me_width = width e,
      me_access = map_option access_value (access e), me_encoding = encoding e,
      me_encoding_kind = encoding_kind e, me_readable = readable e, me_writable = writable e,
      me_feature_requirement = feature_requirement e, me_alias = alias_to e, me_reason = reason e,
      me_snapshot = snapshot e, me_derivation = derivation e, me_source_family = source_family e,
      me_source_release = source_release e, me_debug_regsel = debug_regsel e,
      me_debug_lsb = debug_lsb e, me_debug_width = debug_width e, me_component = component e,
      me_state_id = state_id e\<rparr>"

section \<open>Identifier lemmas\<close>

text \<open>Squeezing runs of underscores, as a recursion.\<close>

fun squeeze :: "char \<Rightarrow> string \<Rightarrow> string" where
  "squeeze u (c # d # s) =
     (if c = u \<and> d = u then squeeze u (d # s) else c # squeeze u (d # s))"
| "squeeze u s = s"

fun no_double :: "char \<Rightarrow> string \<Rightarrow> bool" where
  "no_double u (c # d # s) = (\<not> (c = u \<and> d = u) \<and> no_double u (d # s))"
| "no_double u s = True"

lemma squeeze_hd: "s \<noteq> [] \<Longrightarrow> squeeze u s \<noteq> [] \<and> hd (squeeze u s) = hd s"
  by (induction u s rule: squeeze.induct) auto

lemma squeeze_last: "last (squeeze u s) = last s"
proof (induction u s rule: squeeze.induct)
  case (1 u c d s)
  then show ?case using squeeze_hd [of "d # s" u] by auto
qed auto

lemma no_double_squeeze: "no_double u (squeeze u s)"
proof (induction u s rule: squeeze.induct)
  case (1 u c d s)
  have "squeeze u (d # s) \<noteq> [] \<and> hd (squeeze u (d # s)) = d" using squeeze_hd [of "d # s" u] by simp
  then obtain t where "squeeze u (d # s) = d # t" by (cases "squeeze u (d # s)") auto
  with 1 show ?case by auto
qed auto

lemma squeeze_id: "no_double u s \<Longrightarrow> squeeze u s = s"
  by (induction u s rule: squeeze.induct) auto

lemma set_squeeze: "set (squeeze u s) \<subseteq> set s"
  by (induction u s rule: squeeze.induct) auto

lemma squeeze_run: "squeeze u (u # replicate n u @ t) = squeeze u (u # t)"
  by (induction n) auto

lemma squeeze_after: "t = [] \<or> hd t \<noteq> u \<Longrightarrow> squeeze u (u # t) = u # squeeze u t"
  by (cases t) auto

lemma squeeze_other: "c \<noteq> u \<Longrightarrow> squeeze u (c # t) = c # squeeze u t"
  by (cases t) auto

lemma in_items_Ch: "in_items [Ch u] = (\<lambda>c. c = u)"
  by (rule ext) simp

lemma sub_from_squeeze: "sub_from (at_least 2 (cls [Ch u])) [u] p s = squeeze u s"
proof (induction "length s" arbitrary: p s rule: less_induct)
  case less
  let ?run = "takeWhile (\<lambda>c. c = u) s" and ?rest = "dropWhile (\<lambda>c. c = u) s"
  have split: "s = ?run @ ?rest" by simp
  have run: "?run = replicate (length ?run) u" by (induction s) auto
  have rest: "?rest = [] \<or> hd ?rest \<noteq> u" using hd_dropWhile [of "\<lambda>c. c = u" s] by blast
  show ?case
  proof (cases s)
    case Nil
    then show ?thesis by (subst sub_from.simps) simp
  next
    case (Cons c t)
    show ?thesis
    proof (cases "2 \<le> length ?run")
      case True
      then obtain n where n: "length ?run = Suc (Suc n)"
        by (metis Suc_1 Suc_le_D Suc_le_mono One_nat_def)
      have "length ?run + length ?rest = length s" by (metis length_append split)
      with n have "length ?rest < length s" by linarith
      then have "sub_from (at_least 2 (cls [Ch u])) [u] p s = u # squeeze u ?rest"
        using less True Cons by (subst sub_from.simps) (simp add: match_at_run in_items_Ch)
      also have "\<dots> = squeeze u (u # ?rest)" using rest by (simp add: squeeze_after)
      also have "\<dots> = squeeze u (u # replicate (Suc n) u @ ?rest)" by (rule squeeze_run [symmetric])
      also have "u # replicate (Suc n) u @ ?rest = s" using split run n by (metis append_Cons replicate_Suc)
      finally show ?thesis .
    next
      case False
      then have "sub_from (at_least 2 (cls [Ch u])) [u] p s = c # squeeze u t"
        using less.hyps [of t "c # p"] Cons
        by (subst sub_from.simps) (simp add: match_at_run in_items_Ch)
      also have "\<dots> = squeeze u s"
      proof (cases "c = u")
        case True
        with False Cons have "t = [] \<or> hd t \<noteq> u" by (cases t) auto
        with True Cons show ?thesis by (simp add: squeeze_after)
      qed (use Cons in \<open>simp add: squeeze_other\<close>)
      finally show ?thesis .
    qed
  qed
qed

lemma re_sub_underscores: "re_sub UNDERSCORES_RE ''_'' s = squeeze (CHR ''_'') s"
  by (simp add: re_sub_def UNDERSCORES_RE_def sub_from_squeeze)

definition ident_char :: "char \<Rightarrow> bool" where
  "ident_char c \<longleftrightarrow> is_upper_ascii c \<or> is_lower_ascii c \<or> is_digit c \<or> c = CHR ''_''"

definition upper_ident_char :: "char \<Rightarrow> bool" where
  "upper_ident_char c \<longleftrightarrow> is_upper_ascii c \<or> is_digit c \<or> c = CHR ''_''"

lemma in_nonident_class: "in_items nonident_class c \<longleftrightarrow> ident_char c"
  by (auto simp: nonident_class_def ident_char_def is_upper_ascii_def is_lower_ascii_def
      is_digit_def between_def cp_def)

lemma re_sub_nonident:
  "re_sub C_IDENT_RE ''_'' s = map (\<lambda>c. if ident_char c then c else CHR ''_'') s"
proof -
  have "concat (map (\<lambda>c. if in_class True nonident_class c then ''_'' else [c]) s)
      = map (\<lambda>c. if ident_char c then c else CHR ''_'') s"
    by (induction s) (auto simp: in_class_def in_nonident_class)
  then show ?thesis by (simp add: C_IDENT_RE_def ncls_def re_sub_cls)
qed

lemma upper_ident: "\<forall>c \<in> set s. ident_char c \<Longrightarrow> \<forall>c \<in> set (upper s). upper_ident_char c"
proof (induction s)
  case (Cons c s)
  have "\<forall>d \<in> set (upper_ch c). upper_ident_char d"
    using Cons.prems upper_ch_ascii_lower [of c]
    by (auto simp: ident_char_def upper_ident_char_def)
  with Cons show ?case by (auto simp: upper_Cons)
qed simp

lemma upper_upper_ident: "\<forall>c \<in> set s. upper_ident_char c \<Longrightarrow> upper s = s"
  by (induction s) (auto simp: upper_Cons upper_ident_char_def)

lemma upper_ident_char_ident: "upper_ident_char c \<Longrightarrow> ident_char c"
  by (auto simp: upper_ident_char_def ident_char_def)

text \<open>On identifier characters \<open>upper\<close> works position by position and fixes \<open>_\<close> and digits.\<close>

definition up1 :: "char \<Rightarrow> char" where
  "up1 c = (if is_lower_ascii c then char_of (cp c - 32) else c)"

lemma upper_map: "\<forall>c \<in> set s. ident_char c \<Longrightarrow> upper s = map up1 s"
proof (induction s)
  case (Cons c s)
  have "upper_ch c = [up1 c]"
    using Cons.prems by (auto simp: ident_char_def up1_def upper_ch_def is_lower_ascii_def
        is_upper_ascii_def is_digit_def between_def cp_def)
  with Cons show ?case by (simp add: upper_Cons)
qed simp

lemma up1_underscore: "up1 c = CHR ''_'' \<longleftrightarrow> c = CHR ''_''"
proof (cases "is_lower_ascii c")
  case True
  then have "97 \<le> cp c" "cp c \<le> 122" and "cp (up1 c) = cp c - 32"
    using cp_char_of [of "cp c - 32"] by (auto simp: is_lower_ascii_def between_def up1_def)
  moreover have "cp (CHR ''_'') = 95" by (simp add: cp_def)
  ultimately show ?thesis by force
qed (simp add: up1_def)

lemma up1_digit: "ident_char c \<Longrightarrow> is_digit_ch (up1 c) = is_digit_ch c"
  by (auto simp: up1_def ident_char_def is_digit_ch_def is_digit_def is_lower_ascii_def
      is_upper_ascii_def between_def cp_def)

lemma no_double_map:
  "(\<And>c. f c = u \<longleftrightarrow> c = u) \<Longrightarrow> no_double u (map f s) = no_double u s"
  by (induction u s rule: no_double.induct) auto

lemma c_identifier_split:
  obtains i where "c_identifier name = upper (case i of [] \<Rightarrow> i
      | c # _ \<Rightarrow> if is_digit_ch c then CHR ''_'' # i else i)"
    and "\<forall>c \<in> set i. ident_char c" "no_double (CHR ''_'') i"
    and "i = [] \<or> (hd i \<noteq> CHR ''_'' \<and> last i \<noteq> CHR ''_'')"
proof -
  let ?clean = "map (\<lambda>c. if ident_char c then c else CHR ''_'') (strip name)"
  let ?s = "strip_by (in_chars ''_'') ?clean"
  let ?i = "squeeze (CHR ''_'') ?s"
  have "\<forall>c \<in> set ?clean. ident_char c" by (auto simp: ident_char_def)
  then have ids: "\<forall>c \<in> set ?s. ident_char c" using set_strip_by [of "in_chars ''_''" ?clean] by blast
  have ends: "?s = [] \<or> (hd ?s \<noteq> CHR ''_'' \<and> last ?s \<noteq> CHR ''_'')"
    using strip_by_hd [of "in_chars ''_''" ?clean] strip_by_last [of "in_chars ''_''" ?clean]
    by (auto simp: in_chars_def)
  have "?i = [] \<or> (hd ?i \<noteq> CHR ''_'' \<and> last ?i \<noteq> CHR ''_'')"
    using ends squeeze_hd [of ?s "CHR ''_''"] squeeze_last [of "CHR ''_''" ?s] by (cases "?s = []") auto
  moreover have "\<forall>c \<in> set ?i. ident_char c" using ids set_squeeze [of "CHR ''_''" ?s] by blast
  moreover have "c_identifier name = upper (case ?i of [] \<Rightarrow> ?i
      | c # _ \<Rightarrow> if is_digit_ch c then CHR ''_'' # ?i else ?i)"
    by (simp add: c_identifier_def re_sub_nonident re_sub_underscores Let_def split: list.split)
  ultimately show ?thesis using that no_double_squeeze by blast
qed

text \<open>
  The C identifier of a register name consists of upper-case letters, digits and
  underscores only, never starts with a digit, never ends in an underscore and never
  contains two underscores in a row, whatever the manual printed.
\<close>

theorem c_identifier_valid:
  "(\<forall>c \<in> set (c_identifier name). upper_ident_char c) \<and> no_double (CHR ''_'') (c_identifier name) \<and>
   (c_identifier name = [] \<or>
     \<not> is_digit (hd (c_identifier name)) \<and> last (c_identifier name) \<noteq> CHR ''_'')"
proof -
  obtain i where eq: "c_identifier name = upper (case i of [] \<Rightarrow> i
      | c # _ \<Rightarrow> if is_digit_ch c then CHR ''_'' # i else i)"
    and ids: "\<forall>c \<in> set i. ident_char c" and nd: "no_double (CHR ''_'') i"
    and ends: "i = [] \<or> (hd i \<noteq> CHR ''_'' \<and> last i \<noteq> CHR ''_'')"
    by (rule c_identifier_split)
  define j where "j = (case i of [] \<Rightarrow> i | c # _ \<Rightarrow> if is_digit_ch c then CHR ''_'' # i else i)"
  have j: "\<forall>c \<in> set j. ident_char c" using ids by (auto simp: j_def ident_char_def split: list.splits)
  have ndj: "no_double (CHR ''_'') j" using nd ends by (cases i) (auto simp: j_def)
  have hdj: "j = [] \<or> (\<not> is_digit_ch (hd j) \<and> last j \<noteq> CHR ''_'')"
    using ends by (cases i) (auto simp: j_def is_digit_ch_def is_digit_def between_def cp_def)
  have map_eq: "c_identifier name = map up1 j" using eq upper_map [OF j] by (simp add: j_def)
  have "\<forall>c \<in> set (map up1 j). upper_ident_char c" using upper_ident [OF j] upper_map [OF j] by simp
  moreover have "no_double (CHR ''_'') (map up1 j)" using ndj by (simp add: no_double_map up1_underscore)
  moreover have "map up1 j = [] \<or> \<not> is_digit (hd (map up1 j)) \<and> last (map up1 j) \<noteq> CHR ''_''"
  proof (cases "j = []")
    case False
    with hdj j have "\<not> is_digit_ch (up1 (hd j))" and "up1 (last j) \<noteq> CHR ''_''"
      using up1_digit [of "hd j"] up1_underscore [of "last j"] by auto
    with False show ?thesis by (simp add: hd_map last_map is_digit_ch_def)
  qed simp
  ultimately show ?thesis by (simp only: map_eq)
qed

theorem c_identifier_valid_witness:
  "c_identifier ''3rd reg-(x)'' = ''_3RD_REG_X'' \<and> \<not> is_digit (hd (c_identifier ''3rd reg-(x)''))"
proof -
  have run: "c_identifier ''3rd reg-(x)'' = ''_3RD_REG_X''" by code_simp
  then have "c_identifier ''3rd reg-(x)'' \<noteq> []" by simp
  with c_identifier_valid [of "''3rd reg-(x)''"] run show ?thesis by blast
qed

text \<open>Names that are already normalised, up to the underscore in front of a digit.\<close>

definition guard_digit :: "string \<Rightarrow> string" where
  "guard_digit s = (case s of [] \<Rightarrow> s | c # _ \<Rightarrow> if is_digit_ch c then CHR ''_'' # s else s)"

definition normal_core :: "string \<Rightarrow> bool" where
  "normal_core k \<longleftrightarrow> (\<forall>c \<in> set k. upper_ident_char c) \<and> no_double (CHR ''_'') k \<and>
     (k = [] \<or> (hd k \<noteq> CHR ''_'' \<and> last k \<noteq> CHR ''_''))"

lemma c_identifier_core:
  assumes k: "normal_core k" and y: "y = k \<or> y = CHR ''_'' # k"
  shows "c_identifier y = upper (guard_digit k)"
proof -
  let ?u = "CHR ''_''"
  have cl: "\<forall>c \<in> set y. ident_char c"
    using k y by (auto simp: normal_core_def ident_char_def upper_ident_char_def)
  then have "\<forall>c \<in> set y. \<not> is_space c"
    by (auto simp: ident_char_def is_space_def is_upper_ascii_def is_lower_ascii_def
        is_digit_def between_def cp_def)
  then have sy: "strip y = y" by (simp add: strip_def strip_by_id)
  have my: "map (\<lambda>c. if ident_char c then c else ?u) y = y" using cl by (simp add: map_idI)
  have "strip_by (in_chars ''_'') k = k"
    using k by (intro strip_by_ends_id) (auto simp: in_chars_def normal_core_def)
  moreover have "strip_by (in_chars ''_'') (?u # k) = strip_by (in_chars ''_'') k"
    by (simp add: strip_by_def lstrip_by_def in_chars_def)
  ultimately have ky: "strip_by (in_chars ''_'') y = k" using y by auto
  have "squeeze ?u k = k" using k by (simp add: normal_core_def squeeze_id)
  then show ?thesis
    by (simp add: c_identifier_def re_sub_nonident re_sub_underscores sy my ky guard_digit_def)
qed

text \<open>
  Making an identifier of an identifier changes nothing: \<open>c_identifier\<close> is idempotent, so
  a name that was already normalised keeps its spelling through a second pass.
\<close>

theorem c_identifier_idempotent: "c_identifier (c_identifier name) = c_identifier name"
proof -
  obtain i where eq: "c_identifier name = upper (guard_digit i)"
    and ids: "\<forall>c \<in> set i. ident_char c" and nd: "no_double (CHR ''_'') i"
    and ends: "i = [] \<or> (hd i \<noteq> CHR ''_'' \<and> last i \<noteq> CHR ''_'')"
    using c_identifier_split [of name] unfolding guard_digit_def by blast
  define k where "k = map up1 i"
  have kup: "\<forall>c \<in> set k. upper_ident_char c"
    using upper_ident [OF ids] upper_map [OF ids] by (simp add: k_def)
  have core: "normal_core k"
    using kup nd ends by (cases "i = []")
      (auto simp: normal_core_def k_def no_double_map up1_underscore hd_map last_map)
  have upper_pre: "upper (guard_digit i) = guard_digit k"
  proof (cases i)
    case (Cons c t)
    have "upper (CHR ''_'' # i) = CHR ''_'' # k" using upper_map [OF ids] by (simp add: upper_Cons k_def)
    with Cons ids upper_map [OF ids] show ?thesis by (simp add: k_def guard_digit_def up1_digit)
  qed (simp add: k_def guard_digit_def)
  have "guard_digit k = k \<or> guard_digit k = CHR ''_'' # k" by (cases k) (auto simp: guard_digit_def)
  then have "c_identifier (guard_digit k) = upper (guard_digit k)" by (rule c_identifier_core [OF core])
  also have "\<dots> = guard_digit k"
    using kup by (intro upper_upper_ident)
      (auto simp: upper_ident_char_def guard_digit_def split: list.splits)
  finally show ?thesis by (simp only: eq upper_pre)
qed

end
