(* ===== verification/ArmPdf.thy ===== *)
theory ArmPdf
  imports StateModel
begin

text \<open>
  \<open>tools/state/armpdf.py\<close>: enumerating every table caption of a manual, deciding on each one,
  capturing the bodies of the kept tables, and expanding the ranges Arm prints for register
  arrays.  The text of the manual is the list of its pages, which \<open>pdftotext\<close> produces: it is
  an argument of \<open>extract_tables\<close>.  A line index of the code is the list of the lines from
  that index on.
\<close>

section \<open>Patterns\<close>

abbreviation space_star :: re where "space_star \<equiv> star (cls [Spc])"
abbreviation space_plus :: re where "space_plus \<equiv> plus (cls [Spc])"
abbreviation digits_plus :: re where "digits_plus \<equiv> plus (cls [Dig])"

definition AZ :: citem where "AZ = Rg (CHR ''A'') (CHR ''Z'')"
definition az :: citem where "az = Rg (CHR ''a'') (CHR ''z'')"
definition d09 :: citem where "d09 = Rg (CHR ''0'') (CHR ''9'')"

definition hex_items :: "citem list" where
  "hex_items = [d09, Rg (CHR ''A'') (CHR ''F''), Rg (CHR ''a'') (CHR ''f'')]"

definition id_head :: "citem list" where "id_head = [AZ, az, Ch (CHR ''_'')]"
definition id_tail :: "citem list" where "id_tail = [AZ, az, d09, Ch (CHR ''_'')]"

text \<open>\<open>0x[0-9A-Fa-f]+\<close> and \<open>[A-Za-z_][A-Za-z0-9_]*\<close>.\<close>

definition HEX :: re where "HEX = seqs [lit ''0x'', plus (cls hex_items)]"
definition IDENT :: re where "IDENT = seqs [cls id_head, star (cls id_tail)]"

definition TABLE_CAPTION_RE :: re where
  "TABLE_CAPTION_RE = seqs
     [RAsrt Bos, space_star, lit ''Table'', space_plus,
      RGrp ''id'' (seqs [opt (cls [AZ]), digits_plus, lit ''-'', digits_plus]),
      space_plus, RGrp ''caption'' (seqs [cls [NSpc], lazy any]), space_star,
      opt (RGrp ''cont'' (lit ''(continued)'')), space_star, RAsrt Dollar]"

definition SECTION_RE :: re where
  "SECTION_RE = seqs
     [RAsrt Bos, upto_n 24 (cls [Spc]),
      RGrp ''num'' (seqs [opt (cls [AZ]), digits_plus,
                         m_to_n 1 3 (seqs [lit ''.'', digits_plus])]),
      at_least 2 (cls [Spc]),
      RGrp ''title'' (seqs [cls [AZ], cls [NSpc], m_to_n 2 70 any]), RAsrt Dollar]"

definition HEADER_TOKENS :: "string list" where
  "HEADER_TOKENS =
     [''Address'', ''Name'', ''Type'', ''Reset'', ''Offset'', ''Register'', ''Description'']"

definition ADDR_RE :: re where
  "ADDR_RE = seqs
     [RAsrt Bos, RGrp ''1'' HEX,
      opt (seqs [space_star, lit ''-'', space_star, RGrp ''2'' HEX]), RAsrt Dollar]"

definition TOC_LINE_RE :: re where
  "TOC_LINE_RE = seqs
     [at_least 4 (lit ''.''), space_star, star (cls [AZ, az, d09, Ch (CHR ''-'')]),
      space_star, RAsrt Dollar]"

definition FURNITURE_RE :: re where
  "FURNITURE_RE = alts
     [seqs [lit ''Copyright'', space_plus, cls [Ch (CHR 0xA9)]],
      lit ''Non-Confidential'',
      seqs [RAsrt Bos, space_star, lit ''ARM'', space_plus, lit ''DDI'', cls [Spc]],
      seqs [RAsrt Bos, space_star, lit ''ID'', seqs (replicate 6 (cls [Dig]))],
      lit ''All rights reserved'']"

definition REGISTER_CAPTION_RE :: re where
  "REGISTER_CAPTION_RE = nocase (alts
     [seqs [RAsrt Wb, alts [lit ''register'', lit ''registers''], RAsrt Wb, star any,
            RAsrt Wb, alts [lit ''summary'', lit ''summaries''], RAsrt Wb],
      seqs [RAsrt Wb, lit ''summary of'', RAsrt Wb, star any, RAsrt Wb, lit ''register'',
            opt (lit ''s''), RAsrt Wb],
      seqs [RAsrt Wb, lit ''register'', opt (lit ''s''), RAsrt Wb, space_star, RAsrt Dollar],
      seqs [RAsrt Wb, alts [lit ''register map'', lit ''register summary''], RAsrt Wb]])"

text \<open>The patterns written inline in the functions.\<close>

definition TWO_SPACES_RE :: re where "TWO_SPACES_RE = at_least 2 (cls [Spc])"

definition LEADERS_RE :: re where
  "LEADERS_RE = seqs [space_star, at_least 2 (lit ''.''), star any, RAsrt Dollar]"

definition PROSE_CAPTION_RE :: re where
  "PROSE_CAPTION_RE = nocase (seqs
     [RAsrt Bos,
      alts [lit ''shows'', lit ''lists'', seqs [lit ''summari'', cls [Ch (CHR ''s''), Ch (CHR ''z'')], lit ''es''],
            lit ''describes'', lit ''gives'', lit ''provides'', lit ''defines'', lit ''on page''],
      RAsrt Wb])"

definition FOOTNOTE_RE :: re where
  "FOOTNOTE_RE = seqs [RAsrt Bos, space_star, cls [az], lit ''.'', space_plus, cls [NSpc]]"

definition DASH_NOTE_RE :: re where
  "DASH_NOTE_RE = seqs [lit ''-'', m_to_n 1 2 (cls [az])]"

definition HEX_NOTE_RE :: re where
  "HEX_NOTE_RE = seqs [RGrp ''1'' HEX, m_to_n 1 2 (cls [az])]"

definition id_1_30 :: re where "id_1_30 = seqs [cls id_head, m_to_n 1 30 (cls id_tail)]"

definition NAME_ROW_RE :: re where
  "NAME_ROW_RE = seqs
     [id_1_30, opt (RGrp ''1'' (seqs [space_star, lit ''-'', space_star, id_1_30]))]"

definition NAME_RANGE_RE :: re where
  "NAME_RANGE_RE = seqs
     [RGrp ''base'' (seqs [cls id_head, lazy (cls id_tail)]), RGrp ''lo'' digits_plus,
      space_star, lit ''-'', space_star,
      RGrp ''base2'' (seqs [cls id_head, lazy (cls id_tail)]), RGrp ''hi'' digits_plus]"

section \<open>Rows and cells\<close>

record pdf_row =
  r_cells :: "(string \<times> string) list"
  r_page :: nat
  r_raw :: string

text \<open>\<open>Row.get(*names)\<close>: the first of the names whose cell is not empty.\<close>

fun row_get :: "pdf_row \<Rightarrow> string list \<Rightarrow> string option" where
  "row_get r [] = None"
| "row_get r (n # ns) =
     (case dict_get (r_cells r) n of
        Some v \<Rightarrow> if v \<noteq> [] then Some v else row_get r ns
      | None \<Rightarrow> row_get r ns)"

record pdf_table =
  table_id :: string
  caption :: string
  t_section :: string
  t_page :: nat
  columns :: "string list"
  rows :: "pdf_row list"
  raw_lines :: "(nat \<times> string) list"
  consumed_lines :: "nat list"
  rejected_rows :: "(nat \<times> string) list"

definition new_table :: "string \<Rightarrow> string \<Rightarrow> string \<Rightarrow> nat \<Rightarrow> pdf_table" where
  "new_table tid cap sec pg =
     \<lparr>table_id = tid, caption = cap, t_section = sec, t_page = pg, columns = [], rows = [],
      raw_lines = [], consumed_lines = [], rejected_rows = []\<rparr>"

definition label :: "pdf_table \<Rightarrow> string" where
  "label t = ''Table '' @ table_id t @ '' '' @ caption t"

record decision =
  d_table_id :: string
  d_caption :: string
  d_section :: string
  d_page :: nat
  d_kept :: bool
  d_reason :: string
  d_row_count :: nat

definition split_cells :: "string \<Rightarrow> string list" where
  "split_cells line = filter (\<lambda>c. c \<noteq> []) (map strip (re_split TWO_SPACES_RE (strip line)))"

definition is_header :: "string \<Rightarrow> bool" where
  "is_header line =
     (let cells = split_cells line
      in if length cells < 2 then False
         else 2 \<le> length (filter (\<lambda>c. c \<in> set HEADER_TOKENS) cells))"

text \<open>\<open>isalpha\<close> of a string: not empty, letters only.\<close>

definition isalpha :: "string \<Rightarrow> bool" where
  "isalpha s \<longleftrightarrow> s \<noteq> [] \<and> list_all is_alpha s"

fun strip_known :: "string \<Rightarrow> string list \<Rightarrow> string option" where
  "strip_known v [] = None"
| "strip_known v (tok # known) =
     (if v = tok then Some v
      else if starts_with v tok \<and> isalpha (drop (length tok) v) \<and> length v - length tok \<le> 2
      then Some tok
      else strip_known v known)"

definition strip_footnote_known :: "string \<Rightarrow> string list \<Rightarrow> string" where
  "strip_footnote_known value known =
     (let v = strip value in
      case strip_known v known of Some t \<Rightarrow> t
      | None \<Rightarrow>
         (if fullmatches DASH_NOTE_RE v then ''-''
          else case re_fullmatch HEX_NOTE_RE v of Some m \<Rightarrow> grp m ''1'' | None \<Rightarrow> v))"

definition strip_footnote :: "string \<Rightarrow> string" where
  "strip_footnote value = strip_footnote_known value []"

definition looks_like_row :: "string \<Rightarrow> bool" where
  "looks_like_row line =
     (let cells = split_cells line in
      case cells of
        first # _ # _ \<Rightarrow>
          (if searches FURNITURE_RE line then False
           else if matches ADDR_RE first then True
           else fullmatches NAME_ROW_RE first)
      | _ \<Rightarrow> False)"

section \<open>Capturing a table body\<close>

definition add_body_line :: "nat \<Rightarrow> string \<Rightarrow> pdf_table \<Rightarrow> pdf_table" where
  "add_body_line page_no line t =
     (let t = t\<lparr>raw_lines := raw_lines t @ [(page_no, rstrip line)]\<rparr>
      in if columns t \<noteq> [] \<and> looks_like_row line then
           let cells = split_cells line;
               k = length (columns t);
               cells = (if k < length cells
                        then take (k - 1) cells @ [join '' '' (drop (k - 1) cells)] else cells);
               mapping = foldl (\<lambda>d (c, v). dict_set d c v) [] (zip (columns t) cells)
           in t\<lparr>rows := rows t @ [\<lparr>r_cells = mapping, r_page = page_no, r_raw = rstrip line\<rparr>]\<rparr>
         else t)"

fun parse_table_body :: "nat \<Rightarrow> string list \<Rightarrow> pdf_table \<Rightarrow> string list \<times> pdf_table" where
  "parse_table_body page_no [] t = ([], t)"
| "parse_table_body page_no (line # lines) t =
     (if strip line = [] then parse_table_body page_no lines t
      else
        (case re_match_at_start TABLE_CAPTION_RE line of
           Some m \<Rightarrow>
             (if grp m ''id'' \<noteq> table_id t then (line # lines, t)
              else parse_table_body page_no lines t)
         | None \<Rightarrow>
             (if matches FOOTNOTE_RE line then (line # lines, t)
              else if searches FURNITURE_RE line \<or> searches TOC_LINE_RE line
                then parse_table_body page_no lines t
              else if columns t = [] \<and> is_header line
                then parse_table_body page_no lines (t\<lparr>columns := split_cells line\<rparr>)
              else parse_table_body page_no lines (add_body_line page_no line t))))"

lemma parse_table_body_length: "length (fst (parse_table_body pg ls t)) \<le> length ls"
proof (induction pg ls t rule: parse_table_body.induct)
  case (2 pg line ls t)
  then show ?case
    by (auto split: option.splits simp: Let_def intro: le_SucI)
qed simp

lemma add_body_line_frame [simp]:
  "table_id (add_body_line pg l t) = table_id t" "caption (add_body_line pg l t) = caption t"
  "t_section (add_body_line pg l t) = t_section t" "columns (add_body_line pg l t) = columns t"
  "consumed_lines (add_body_line pg l t) = consumed_lines t"
  "rejected_rows (add_body_line pg l t) = rejected_rows t"
  by (simp_all add: add_body_line_def Let_def)

lemma parse_table_body_id [simp]: "table_id (snd (parse_table_body pg ls t)) = table_id t"
proof (induction pg ls t rule: parse_table_body.induct)
  case (2 pg line ls t)
  then show ?case by (auto split: option.splits)
qed simp

section \<open>Walking the document\<close>

text \<open>
  What the code reads off a line: the identifier and caption of a table that starts here,
  unless the line belongs to the table of contents or is running prose.
\<close>

definition caption_of :: "string \<Rightarrow> (string \<times> string) option" where
  "caption_of line =
     (case re_match_at_start TABLE_CAPTION_RE line of
        None \<Rightarrow> None
      | Some m \<Rightarrow>
          (let cap = strip (grp m ''caption'') in
           if searches TOC_LINE_RE line then None
           else let cap = strip (re_sub LEADERS_RE [] cap)
                in if matches PROSE_CAPTION_RE cap then None else Some (grp m ''id'', cap)))"

record walk =
  w_tables :: "(string \<times> pdf_table) list"
  w_decisions :: "(string \<times> decision) list"
  w_section :: string

definition keep_table :: "string list option \<Rightarrow> string \<Rightarrow> string \<Rightarrow> bool" where
  "keep_table keep_ids tid cap =
     (case keep_ids of Some ids \<Rightarrow> tid \<in> set ids | None \<Rightarrow> searches REGISTER_CAPTION_RE cap)"

definition decide :: "string \<Rightarrow> string \<Rightarrow> string \<Rightarrow> nat \<Rightarrow> bool \<Rightarrow> decision" where
  "decide tid cap sec pg keep =
     \<lparr>d_table_id = tid, d_caption = cap, d_section = sec, d_page = pg, d_kept = keep,
      d_reason = (if keep then ''register-summary table''
                  else ''caption does not describe a register enumeration''),
      d_row_count = 0\<rparr>"

definition note_section :: "string \<Rightarrow> walk \<Rightarrow> walk" where
  "note_section line w =
     (case re_match_at_start SECTION_RE line of
        Some sm \<Rightarrow>
          (if matches TABLE_CAPTION_RE line then w
           else w\<lparr>w_section := grp sm ''num'' @ '' '' @ strip (grp sm ''title'')\<rparr>)
      | None \<Rightarrow> w)"

definition note_decision :: "string \<Rightarrow> string \<Rightarrow> nat \<Rightarrow> bool \<Rightarrow> walk \<Rightarrow> walk" where
  "note_decision tid cap pg keep w =
     w\<lparr>w_decisions := dict_setdefault (w_decisions w) tid (decide tid cap (w_section w) pg keep)\<rparr>"

definition open_table :: "string \<Rightarrow> string \<Rightarrow> nat \<Rightarrow> walk \<Rightarrow> pdf_table" where
  "open_table tid cap pg w =
     (case dict_get (w_tables w) tid of Some t \<Rightarrow> t | None \<Rightarrow> new_table tid cap (w_section w) pg)"

function walk_page :: "string list option \<Rightarrow> nat \<Rightarrow> string list \<Rightarrow> walk \<Rightarrow> walk" where
  "walk_page keep_ids pg [] w = w"
| "walk_page keep_ids pg (line # lines) w =
     (let w = note_section line w in
      case caption_of line of
        None \<Rightarrow> walk_page keep_ids pg lines w
      | Some (tid, cap) \<Rightarrow>
          (let keep = keep_table keep_ids tid cap;
               w = note_decision tid cap pg keep w
           in if \<not> keep then walk_page keep_ids pg lines w
              else
                (let body = parse_table_body pg lines (open_table tid cap pg w)
                 in walk_page keep_ids pg (fst body)
                      (w\<lparr>w_tables := dict_set (w_tables w) tid (snd body)\<rparr>))))"
  by pat_completeness auto
termination
  by (relation "measure (\<lambda>(k, pg, ls, w). length ls)")
    (auto simp: less_Suc_eq_le parse_table_body_length)

fun walk_pages :: "string list option \<Rightarrow> nat \<Rightarrow> string list \<Rightarrow> walk \<Rightarrow> walk" where
  "walk_pages keep_ids pg [] w = w"
| "walk_pages keep_ids pg (p # ps) w =
     walk_pages keep_ids (Suc pg) ps (walk_page keep_ids pg (splitlines p) w)"

text \<open>\<open>decisions[tid].row_count = len(t.rows)\<close>, which raises if the decision is missing.\<close>

definition count_rows ::
  "(string \<times> pdf_table) \<Rightarrow> (string \<times> decision) list \<Rightarrow> (string \<times> decision) list res" where
  "count_rows = (\<lambda>(tid, t) ds.
     rbind (require tid (dict_get ds tid)) (\<lambda>d.
       Inr (dict_set ds tid (d\<lparr>d_row_count := length (rows t)\<rparr>))))"

definition extract_tables ::
  "string list \<Rightarrow> string list option \<Rightarrow> (pdf_table list \<times> decision list) res" where
  "extract_tables pages keep_ids =
     (let w = walk_pages keep_ids 1 pages \<lparr>w_tables = [], w_decisions = [], w_section = []\<rparr>
      in rbind (fold_res count_rows (w_tables w) (w_decisions w)) (\<lambda>ds.
           Inr (map snd (w_tables w), map snd ds)))"

section \<open>Ranges\<close>

definition int_res :: "nat \<Rightarrow> string \<Rightarrow> int res" where
  "int_res b s = (case py_int b s of Some n \<Rightarrow> Inr n | None \<Rightarrow> Inl (ValueError s))"

text \<open>\<open>[(f"0x{start + k * stride:08X}", f"{base}{lo + k}") for k in range(count)]\<close>.\<close>

definition array_cells :: "int \<Rightarrow> int \<Rightarrow> string \<Rightarrow> int \<Rightarrow> int \<Rightarrow> (string \<times> string) list" where
  "array_cells start stride base lo count =
     map (\<lambda>k. (fmt_addr (start + int k * stride), base @ str_int (lo + int k))) [0..<nat count]"

definition expand_range :: "string \<Rightarrow> string \<Rightarrow> (string \<times> string) list res" where
  "expand_range addr_cell name_cell =
     (case re_match_at_start ADDR_RE (strip addr_cell) of
        None \<Rightarrow> Inr []
      | Some am \<Rightarrow>
          rbind (int_res 16 (grp am ''1'')) (\<lambda>lo.
          rbind (case group am ''2'' of Some h \<Rightarrow> int_res 16 h | None \<Rightarrow> Inr lo) (\<lambda>hi.
          (case re_fullmatch NAME_RANGE_RE (strip name_cell) of
             None \<Rightarrow> Inr (if lo = hi then [(fmt_addr lo, strip name_cell)] else [])
           | Some nm \<Rightarrow>
               (if grp nm ''base'' \<noteq> grp nm ''base2''
                then Inr (if lo = hi then [(fmt_addr lo, strip name_cell)] else [])
                else
                  rbind (int_res 10 (grp nm ''lo'')) (\<lambda>first.
                  rbind (int_res 10 (grp nm ''hi'')) (\<lambda>last.
                  (let count = last - first + 1 in
                   if count \<le> 0 then Inr []
                   else
                     (let span = hi - lo;
                          stride = (if 1 < count then span div (count - 1) else 4)
                      in Inr (array_cells lo stride (grp nm ''base'') first count))))))))))"

section \<open>The walk keeps its bookkeeping\<close>

text \<open>
  What holds between the two dictionaries of the walk: identifiers are keys, every table has a
  decision, and with an explicit keep list a table is open exactly when its decision says kept.
\<close>

definition tables_ok :: "(string \<times> pdf_table) list \<Rightarrow> bool" where
  "tables_ok ts \<longleftrightarrow> distinct (map fst ts) \<and> (\<forall>(tid, t) \<in> set ts. table_id t = tid)"

definition decisions_ok :: "string list option \<Rightarrow> (string \<times> decision) list \<Rightarrow> bool" where
  "decisions_ok keep_ids ds \<longleftrightarrow> distinct (map fst ds) \<and>
     (\<forall>(tid, d) \<in> set ds. d_table_id d = tid \<and> d_row_count d = 0 \<and>
        (\<forall>ids. keep_ids = Some ids \<longrightarrow> d_kept d = (tid \<in> set ids)))"

definition keys_ok :: "string list option \<Rightarrow> string set \<Rightarrow> string set \<Rightarrow> bool" where
  "keys_ok keep_ids T D \<longleftrightarrow> T \<subseteq> D \<and> (\<forall>ids. keep_ids = Some ids \<longrightarrow> T = D \<inter> set ids)"

definition walk_ok :: "string list option \<Rightarrow> walk \<Rightarrow> bool" where
  "walk_ok keep_ids w \<longleftrightarrow> tables_ok (w_tables w) \<and> decisions_ok keep_ids (w_decisions w) \<and>
     keys_ok keep_ids (fst ` set (w_tables w)) (fst ` set (w_decisions w))"

lemma walk_ok_start: "walk_ok keep_ids \<lparr>w_tables = [], w_decisions = [], w_section = []\<rparr>"
  by (simp add: walk_ok_def tables_ok_def decisions_ok_def keys_ok_def)

lemma walk_ok_section [simp]: "walk_ok keep_ids (note_section line w) = walk_ok keep_ids w"
  by (simp add: walk_ok_def note_section_def split: option.split)

lemma note_section_frame [simp]:
  "w_tables (note_section line w) = w_tables w" "w_decisions (note_section line w) = w_decisions w"
  by (simp_all add: note_section_def split: option.split)

lemma decide_simps [simp]:
  "d_table_id (decide tid cap sec pg keep) = tid" "d_row_count (decide tid cap sec pg keep) = 0"
  "d_kept (decide tid cap sec pg keep) = keep"
  by (simp_all add: decide_def)

text \<open>One caption handled: the decision is noted and, if kept, the table captured.\<close>

definition handle_caption ::
  "string list option \<Rightarrow> nat \<Rightarrow> string list \<Rightarrow> string \<Rightarrow> string \<Rightarrow> walk \<Rightarrow> string list \<times> walk" where
  "handle_caption keep_ids pg lines tid cap w =
     (let keep = keep_table keep_ids tid cap; w = note_decision tid cap pg keep w in
      if \<not> keep then (lines, w)
      else let body = parse_table_body pg lines (open_table tid cap pg w)
           in (fst body, w\<lparr>w_tables := dict_set (w_tables w) tid (snd body)\<rparr>))"

lemma walk_page_Cons:
  "walk_page keep_ids pg (line # lines) w =
     (case caption_of line of
        None \<Rightarrow> walk_page keep_ids pg lines (note_section line w)
      | Some (tid, cap) \<Rightarrow>
          (let h = handle_caption keep_ids pg lines tid cap (note_section line w)
           in walk_page keep_ids pg (fst h) (snd h)))"
  by (simp add: handle_caption_def Let_def split: option.split prod.split)

lemma handle_caption_length: "length (fst (handle_caption keep_ids pg ls tid cap w)) \<le> length ls"
  by (simp add: handle_caption_def Let_def parse_table_body_length)

lemma handle_caption_keys:
  "fst ` set (w_decisions (snd (handle_caption keep_ids pg ls tid cap w))) =
     insert tid (fst ` set (w_decisions w))"
  by (simp add: handle_caption_def Let_def note_decision_def keys_setdefault)

lemma open_table_id: "walk_ok keep_ids w \<Longrightarrow> table_id (open_table tid cap pg w) = tid"
  by (auto simp: open_table_def new_table_def walk_ok_def tables_ok_def
      split: option.split dest!: dict_get_in)

lemma decisions_ok_note:
  assumes "decisions_ok keep_ids ds"
  shows "decisions_ok keep_ids
    (dict_setdefault ds tid (decide tid cap sec pg (keep_table keep_ids tid cap)))"
proof -
  let ?d = "decide tid cap sec pg (keep_table keep_ids tid cap)"
  have "d_table_id d = k \<and> d_row_count d = 0 \<and> (\<forall>ids. keep_ids = Some ids \<longrightarrow> d_kept d = (k \<in> set ids))"
    if "(k, d) \<in> set (dict_setdefault ds tid ?d)" for k d
  proof -
    from that set_setdefault [of ds tid ?d] consider "k = tid" "d = ?d" | "(k, d) \<in> set ds" by auto
    then show ?thesis using assms by cases (auto simp: decisions_ok_def keep_table_def)
  qed
  with assms show ?thesis
    unfolding decisions_ok_def by (intro conjI distinct_dict_setdefault) auto
qed

lemma tables_ok_set: "tables_ok ts \<Longrightarrow> table_id t = tid \<Longrightarrow> tables_ok (dict_set ts tid t)"
  using set_dict_set [of ts tid t] unfolding tables_ok_def
  by (intro conjI distinct_dict_set) auto

lemma keys_ok_step:
  assumes "keys_ok keep_ids T D"
  shows "keep_table keep_ids tid cap \<Longrightarrow> keys_ok keep_ids (insert tid T) (insert tid D)"
    and "\<not> keep_table keep_ids tid cap \<Longrightarrow> keys_ok keep_ids T (insert tid D)"
  using assms by (auto simp: keys_ok_def keep_table_def split: option.splits)

lemma handle_caption_ok:
  assumes w: "walk_ok keep_ids w"
  shows "walk_ok keep_ids (snd (handle_caption keep_ids pg ls tid cap w))"
proof (cases "keep_table keep_ids tid cap")
  case True
  let ?w = "note_decision tid cap pg True w"
  let ?t = "snd (parse_table_body pg ls (open_table tid cap pg w))"
  have "open_table tid cap pg ?w = open_table tid cap pg w"
    by (simp add: open_table_def note_decision_def split: option.split)
  then have h: "snd (handle_caption keep_ids pg ls tid cap w) =
      ?w\<lparr>w_tables := dict_set (w_tables w) tid ?t\<rparr>"
    using True by (simp add: handle_caption_def Let_def note_decision_def)
  have "tables_ok (dict_set (w_tables w) tid ?t)"
    using w open_table_id [OF w] by (intro tables_ok_set) (auto simp: walk_ok_def)
  moreover have "decisions_ok keep_ids (w_decisions ?w)"
    using w decisions_ok_note [of keep_ids "w_decisions w" tid cap] True
    by (simp add: walk_ok_def note_decision_def)
  moreover have "keys_ok keep_ids (fst ` set (dict_set (w_tables w) tid ?t)) (fst ` set (w_decisions ?w))"
    using w keys_ok_step(1) True by (simp add: walk_ok_def note_decision_def keys_dict_set keys_setdefault)
  ultimately show ?thesis by (simp add: h walk_ok_def)
next
  case False
  then show ?thesis
    using w decisions_ok_note [of keep_ids "w_decisions w" tid cap "w_section w" pg] keys_ok_step(2)
    by (simp add: handle_caption_def Let_def walk_ok_def note_decision_def keys_setdefault)
qed

lemma walk_page_ok: "walk_ok keep_ids w \<Longrightarrow> walk_ok keep_ids (walk_page keep_ids pg ls w)"
proof (induction "length ls" arbitrary: ls w rule: less_induct)
  case less
  show ?case
  proof (cases ls)
    case (Cons line lines)
    show ?thesis
    proof (cases "caption_of line")
      case None
      with less Cons show ?thesis by (simp del: walk_page.simps add: walk_page_Cons)
    next
      case (Some tc)
      obtain tid cap where tc: "tc = (tid, cap)" by (cases tc)
      let ?h = "handle_caption keep_ids pg lines tid cap (note_section line w)"
      have "walk_ok keep_ids (snd ?h)" using less.prems by (intro handle_caption_ok) simp
      moreover have "length (fst ?h) < length ls"
        using Cons handle_caption_length [of keep_ids pg lines tid cap] by (simp add: less_Suc_eq_le)
      ultimately have "walk_ok keep_ids (walk_page keep_ids pg (fst ?h) (snd ?h))"
        by (intro less.hyps)
      with Some tc Cons show ?thesis by (simp del: walk_page.simps add: walk_page_Cons Let_def)
    qed
  qed (use less.prems in simp)
qed

lemma walk_pages_ok: "walk_ok keep_ids w \<Longrightarrow> walk_ok keep_ids (walk_pages keep_ids pg ps w)"
  by (induction ps arbitrary: pg w) (auto simp: walk_page_ok)

section \<open>Decisions and tables agree\<close>

lemma count_rows_run:
  assumes "fst ` set ts \<subseteq> fst ` set ds"
  shows "\<exists>ds'. fold_res count_rows ts ds = Inr ds' \<and> map fst ds' = map fst ds \<and>
    (\<forall>tid d'. dict_get ds' tid = Some d' \<longrightarrow> (\<exists>d n. dict_get ds tid = Some d \<and> d' = d\<lparr>d_row_count := n\<rparr> \<and>
       (tid \<notin> fst ` set ts \<longrightarrow> n = d_row_count d))) \<and>
    (distinct (map fst ts) \<longrightarrow> (\<forall>(tid, t) \<in> set ts. \<exists>d'. dict_get ds' tid = Some d' \<and> d_row_count d' = length (rows t)))"
  using assms
proof (induction ts arbitrary: ds)
  case Nil
  have "\<And>d. d\<lparr>d_row_count := d_row_count d\<rparr> = d" by simp
  then show ?case by fastforce
next
  case (Cons x ts)
  obtain tid t where x: "x = (tid, t)" by (cases x)
  then obtain d where d: "dict_get ds tid = Some d"
    using Cons.prems dict_get_None_iff [of ds tid] by fastforce
  let ?ds = "dict_set ds tid (d\<lparr>d_row_count := length (rows t)\<rparr>)"
  have keys: "map fst ?ds = map fst ds"
    using d by (induction ds) (auto split: if_splits)
  then have "fst ` set ts \<subseteq> fst ` set ?ds"
    using Cons.prems by (metis image_set insert_subset list.simps(15) image_insert)
  from Cons.IH [OF this] obtain ds' where ds': "fold_res count_rows ts ?ds = Inr ds'"
    "map fst ds' = map fst ?ds"
    and g: "\<And>k d'. dict_get ds' k = Some d' \<Longrightarrow> \<exists>d n. dict_get ?ds k = Some d \<and>
        d' = d\<lparr>d_row_count := n\<rparr> \<and> (k \<notin> fst ` set ts \<longrightarrow> n = d_row_count d)"
    and r: "distinct (map fst ts) \<Longrightarrow> \<forall>(k, t) \<in> set ts. \<exists>d'. dict_get ds' k = Some d' \<and>
        d_row_count d' = length (rows t)" by blast
  have step: "fold_res count_rows (x # ts) ds = Inr ds'"
    using ds'(1) d x by (simp add: count_rows_def)
  have g': "\<exists>e n. dict_get ds k = Some e \<and> d' = e\<lparr>d_row_count := n\<rparr> \<and>
      (k \<notin> fst ` set (x # ts) \<longrightarrow> n = d_row_count e)" if "dict_get ds' k = Some d'" for k d'
    using g [OF that] d x by (cases "k = tid") auto
  have r': "\<exists>d'. dict_get ds' k = Some d' \<and> d_row_count d' = length (rows u)"
    if dist: "distinct (map fst (x # ts))" and "(k, u) \<in> set (x # ts)" for k u
  proof (cases "(k, u) \<in> set ts")
    case True
    with r dist show ?thesis by auto
  next
    case False
    with that x have ku: "k = tid" "u = t" by auto
    have "tid \<in> fst ` set ds'"
      using ds'(2) keys d dict_get_None_iff [of ds tid] by (metis image_set option.distinct(1))
    then obtain d' where d': "dict_get ds' tid = Some d'" using dict_get_None_iff [of ds' tid] by auto
    from g [OF d'] dist x have "d_row_count d' = length (rows t)" by auto
    with d' ku show ?thesis by simp
  qed
  show ?case using step ds'(2) keys g' r' by (intro exI [of _ ds']) auto
qed


lemma extract_run:
  obtains w ds where "walk_ok keep_ids w"
    "w = walk_pages keep_ids 1 pages \<lparr>w_tables = [], w_decisions = [], w_section = []\<rparr>"
    "extract_tables pages keep_ids = Inr (map snd (w_tables w), map snd ds)"
    "map fst ds = map fst (w_decisions w)"
    "\<And>tid d'. dict_get ds tid = Some d' \<Longrightarrow> \<exists>d n. dict_get (w_decisions w) tid = Some d \<and>
       d' = d\<lparr>d_row_count := n\<rparr> \<and> (tid \<notin> fst ` set (w_tables w) \<longrightarrow> n = d_row_count d)"
    "\<forall>(tid, t) \<in> set (w_tables w). \<exists>d'. dict_get ds tid = Some d' \<and> d_row_count d' = length (rows t)"
proof -
  let ?w = "walk_pages keep_ids 1 pages \<lparr>w_tables = [], w_decisions = [], w_section = []\<rparr>"
  have ok: "walk_ok keep_ids ?w" by (intro walk_pages_ok walk_ok_start)
  then have "fst ` set (w_tables ?w) \<subseteq> fst ` set (w_decisions ?w)" "distinct (map fst (w_tables ?w))"
    by (auto simp: walk_ok_def keys_ok_def tables_ok_def)
  with count_rows_run [OF this(1)] that [OF ok refl] show ?thesis
    by (fastforce simp: extract_tables_def Let_def)
qed

text \<open>An entry of the returned decisions, traced back to the decision of the walk.\<close>

lemma final_decision:
  assumes ok: "walk_ok keep_ids w" and keys: "map fst ds = map fst (w_decisions w)"
    and trace: "\<And>tid d'. dict_get ds tid = Some d' \<Longrightarrow> \<exists>d n. dict_get (w_decisions w) tid = Some d \<and>
       d' = d\<lparr>d_row_count := n\<rparr> \<and> (tid \<notin> fst ` set (w_tables w) \<longrightarrow> n = d_row_count d)"
    and entry: "(tid, d) \<in> set ds"
  shows "d_table_id d = tid" "\<And>ids. keep_ids = Some ids \<Longrightarrow> d_kept d = (tid \<in> set ids)"
    "tid \<notin> fst ` set (w_tables w) \<Longrightarrow> d_row_count d = 0"
proof -
  have "distinct (map fst ds)" using ok keys by (simp add: walk_ok_def decisions_ok_def)
  then have "dict_get ds tid = Some d" using entry by (rule dict_get_distinct)
  from trace [OF this] obtain e n where e: "dict_get (w_decisions w) tid = Some e"
    "d = e\<lparr>d_row_count := n\<rparr>" "tid \<notin> fst ` set (w_tables w) \<longrightarrow> n = d_row_count e" by blast
  from dict_get_in [OF e(1)] ok have "d_table_id e = tid" "d_row_count e = 0"
    "\<And>ids. keep_ids = Some ids \<Longrightarrow> d_kept e = (tid \<in> set ids)"
    by (auto simp: walk_ok_def decisions_ok_def)
  with e show "d_table_id d = tid" "\<And>ids. keep_ids = Some ids \<Longrightarrow> d_kept d = (tid \<in> set ids)"
    "tid \<notin> fst ` set (w_tables w) \<Longrightarrow> d_row_count d = 0" by auto
qed

lemma map_key_snd: "\<forall>(k, v) \<in> set d. f v = k \<Longrightarrow> map f (map snd d) = map fst d"
  by (induction d) auto

text \<open>
  C5. Extracting the tables of a manual never raises; no table and no decision is reported
  twice; and the decision of a captured table carries exactly the number of its rows, that of
  every other caption zero.
\<close>

theorem extract_tables_accounts:
  "\<exists>ts ds. extract_tables pages keep_ids = Inr (ts, ds) \<and>
     distinct (map table_id ts) \<and> distinct (map d_table_id ds) \<and>
     (\<forall>t \<in> set ts. \<exists>d \<in> set ds. d_table_id d = table_id t \<and> d_row_count d = length (rows t)) \<and>
     (\<forall>d \<in> set ds. d_table_id d \<notin> table_id ` set ts \<longrightarrow> d_row_count d = 0)"
proof -
  obtain w ds where ok: "walk_ok keep_ids w"
    and ex: "extract_tables pages keep_ids = Inr (map snd (w_tables w), map snd ds)"
    and keys: "map fst ds = map fst (w_decisions w)"
    and trace: "\<And>tid d'. dict_get ds tid = Some d' \<Longrightarrow> \<exists>d n. dict_get (w_decisions w) tid = Some d \<and>
       d' = d\<lparr>d_row_count := n\<rparr> \<and> (tid \<notin> fst ` set (w_tables w) \<longrightarrow> n = d_row_count d)"
    and cnt: "\<forall>(tid, t) \<in> set (w_tables w). \<exists>d'. dict_get ds tid = Some d' \<and>
       d_row_count d' = length (rows t)"
    by (rule extract_run [of keep_ids pages]) blast
  note fin = final_decision [OF ok keys trace]
  have ids: "\<forall>(k, d) \<in> set ds. d_table_id d = k" using fin(1) by auto
  have tids: "map table_id (map snd (w_tables w)) = map fst (w_tables w)"
    using ok by (intro map_key_snd) (auto simp: walk_ok_def tables_ok_def)
  then have timg: "table_id ` set (map snd (w_tables w)) = fst ` set (w_tables w)"
    by (metis image_set)
  have dist: "distinct (map fst (w_tables w))" "distinct (map fst ds)"
    using ok keys by (auto simp: walk_ok_def tables_ok_def decisions_ok_def)
  have rowc: "\<exists>d \<in> set (map snd ds). d_table_id d = table_id t \<and> d_row_count d = length (rows t)"
    if "t \<in> set (map snd (w_tables w))" for t
  proof -
    from that obtain k where k: "(k, t) \<in> set (w_tables w)" by auto
    with cnt obtain d where d: "dict_get ds k = Some d" "d_row_count d = length (rows t)" by auto
    have "table_id t = k" using k ok by (auto simp: walk_ok_def tables_ok_def)
    moreover have "d_table_id d = k" using ids dict_get_in [OF d(1)] by auto
    ultimately show ?thesis using d(2) dict_get_snd [OF d(1)] by auto
  qed
  have zero: "d_row_count d = 0"
    if "d \<in> set (map snd ds)" "d_table_id d \<notin> table_id ` set (map snd (w_tables w))" for d
  proof -
    from that(1) obtain k where "(k, d) \<in> set ds" by auto
    with that(2) fin(1,3) timg show ?thesis by auto
  qed
  have "distinct (map table_id (map snd (w_tables w)))" by (simp only: tids dist)
  moreover have "distinct (map d_table_id (map snd ds))" by (simp only: map_key_snd [OF ids] dist)
  ultimately show ?thesis
    using rowc zero by (intro exI conjI ballI impI) (rule ex)
qed

text \<open>
  With an explicit list of table identifiers, the captured tables are exactly the tables
  whose caption was seen and whose identifier is on the list, and the decisions say so.
\<close>

theorem extract_tables_selects:
  "\<exists>ts ds. extract_tables pages (Some ids) = Inr (ts, ds) \<and>
     table_id ` set ts = d_table_id ` set ds \<inter> set ids \<and>
     table_id ` set ts = d_table_id ` set (filter d_kept ds)"
proof -
  obtain w ds where ok: "walk_ok (Some ids) w"
    and ex: "extract_tables pages (Some ids) = Inr (map snd (w_tables w), map snd ds)"
    and keys: "map fst ds = map fst (w_decisions w)"
    and trace: "\<And>tid d'. dict_get ds tid = Some d' \<Longrightarrow> \<exists>d n. dict_get (w_decisions w) tid = Some d \<and>
       d' = d\<lparr>d_row_count := n\<rparr> \<and> (tid \<notin> fst ` set (w_tables w) \<longrightarrow> n = d_row_count d)"
    by (rule extract_run [of "Some ids" pages]) blast
  note fin = final_decision [OF ok keys trace]
  have "fst ` set ds = fst ` set (w_decisions w)" using keys by (metis image_set)
  moreover have "table_id ` snd ` set (w_tables w) = fst ` set (w_tables w)"
    using ok by (force simp: walk_ok_def tables_ok_def image_image)
  moreover have "d_table_id ` snd ` set ds = fst ` set ds" using fin(1) by (force simp: image_image)
  moreover have "d_table_id ` set (filter d_kept (map snd ds)) = fst ` set ds \<inter> set ids"
    using fin(1,2) by (force simp: image_iff)
  ultimately show ?thesis using ex ok by (auto simp: walk_ok_def keys_ok_def)
qed

section \<open>No caption is lost\<close>

text \<open>A blank line is no caption, so a body capture only steps over captions of its own table.\<close>

lemma caption_not_blank:
  assumes "re_match_at_start TABLE_CAPTION_RE line = Some m"
  shows "strip line \<noteq> []"
proof
  assume "strip line = []"
  then have sp: "\<forall>c \<in> set line. is_space c" by (simp add: strip_def strip_by_Nil)
  from match_at_takes(1,2) [OF assms [unfolded re_match_at_start_def]]
  have "CHR ''T'' \<in> set line" by (auto simp: TABLE_CAPTION_RE_def)
  moreover have "\<not> is_space (CHR ''T'')" by code_simp
  ultimately show False using sp by blast
qed

lemma caption_of_match:
  "caption_of line = Some (tid, cap) \<Longrightarrow>
     \<exists>m. re_match_at_start TABLE_CAPTION_RE line = Some m \<and> tid = grp m ''id''"
  by (auto simp: caption_of_def Let_def split: option.splits if_splits)

lemma parse_table_body_skips:
  assumes "line \<in> set ls" "line \<notin> set (fst (parse_table_body pg ls t))" 
    and "caption_of line = Some (tid, cap)"
  shows "tid = table_id t"
  using assms(1,2)
proof (induction pg ls t rule: parse_table_body.induct)
  case (2 pg l ls t)
  obtain m where m: "re_match_at_start TABLE_CAPTION_RE line = Some m" "tid = grp m ''id''"
    using caption_of_match [OF assms(3)] by blast
  show ?case
  proof (cases "l = line")
    case True
    with m caption_not_blank [OF m(1)] "2.prems" show ?thesis
      by (auto split: if_splits)
  next
    case False
    then show ?thesis using 2 by (auto split: option.splits if_splits)
  qed
qed simp

lemma handle_caption_skips:
  assumes ok: "walk_ok keep_ids w" and "line \<in> set ls" "caption_of line = Some (tid', cap')"
  shows "line \<in> set (fst (handle_caption keep_ids pg ls tid cap w)) \<or> tid' = tid"
proof -
  have "walk_ok keep_ids w \<Longrightarrow> table_id (open_table tid cap pg (note_decision tid cap pg k w)) = tid" for k
    using open_table_id [of keep_ids w tid cap pg]
    by (simp add: open_table_def note_decision_def split: option.splits)
  then show ?thesis
    using assms parse_table_body_skips [of line ls pg _ tid' cap']
    by (fastforce simp: handle_caption_def Let_def)
qed

lemma walk_page_keeps_decisions:
  "fst ` set (w_decisions w) \<subseteq> fst ` set (w_decisions (walk_page keep_ids pg ls w))"
proof (induction "length ls" arbitrary: ls w rule: less_induct)
  case less
  show ?case
  proof (cases ls)
    case (Cons line lines)
    show ?thesis
    proof (cases "caption_of line")
      case None
      with less.hyps [of lines "note_section line w"] Cons show ?thesis
        by (simp del: walk_page.simps add: walk_page_Cons)
    next
      case (Some tc)
      obtain tid cap where tc: "tc = (tid, cap)" by (cases tc)
      let ?h = "handle_caption keep_ids pg lines tid cap (note_section line w)"
      have "length (fst ?h) < length ls"
        using Cons handle_caption_length [of keep_ids pg lines tid cap] by (simp add: less_Suc_eq_le)
      from less.hyps [OF this, of "snd ?h"] have
        "fst ` set (w_decisions w) \<subseteq> fst ` set (w_decisions (walk_page keep_ids pg (fst ?h) (snd ?h)))"
        by (auto simp: handle_caption_keys)
      with Some tc Cons show ?thesis by (simp del: walk_page.simps add: walk_page_Cons Let_def)
    qed
  qed simp
qed

lemma walk_page_decides:
  assumes "walk_ok keep_ids w" "line \<in> set ls" "caption_of line = Some (tid, cap)"
  shows "tid \<in> fst ` set (w_decisions (walk_page keep_ids pg ls w))"
  using assms(1,2)
proof (induction "length ls" arbitrary: ls w rule: less_induct)
  case less
  then obtain l lines where ls: "ls = l # lines" by (cases ls) auto
  show ?case
  proof (cases "caption_of l")
    case None
    with less.prems assms(3) ls have "line \<in> set lines" by auto
    with less.hyps [of lines "note_section l w"] less.prems None ls show ?thesis
      by (simp del: walk_page.simps add: walk_page_Cons)
  next
    case (Some tc)
    obtain k c where tc: "tc = (k, c)" by (cases tc)
    let ?h = "handle_caption keep_ids pg lines k c (note_section l w)"
    have ok: "walk_ok keep_ids (note_section l w)" using less.prems by simp
    have eq: "walk_page keep_ids pg ls w = walk_page keep_ids pg (fst ?h) (snd ?h)"
      using Some tc ls by (simp del: walk_page.simps add: walk_page_Cons Let_def)
    show ?thesis
    proof (cases "tid = k")
      case True
      then have "tid \<in> fst ` set (w_decisions (snd ?h))" by (simp add: handle_caption_keys)
      then show ?thesis unfolding eq using walk_page_keeps_decisions by blast
    next
      case False
      with Some tc assms(3) less.prems(2) ls have "line \<in> set lines" by auto
      with False handle_caption_skips [OF ok _ assms(3)] have "line \<in> set (fst ?h)" by blast
      moreover have "length (fst ?h) < length ls"
        using ls handle_caption_length [of keep_ids pg lines k c] by (simp add: less_Suc_eq_le)
      ultimately show ?thesis unfolding eq using less.hyps handle_caption_ok [OF ok] by blast
    qed
  qed
qed

lemma walk_pages_keeps_decisions:
  "fst ` set (w_decisions w) \<subseteq> fst ` set (w_decisions (walk_pages keep_ids pg ps w))"
proof (induction ps arbitrary: pg w)
  case (Cons p ps)
  show ?case using subset_trans [OF walk_page_keeps_decisions Cons.IH] by simp
qed simp

lemma walk_pages_decides:
  assumes "caption_of line = Some (tid, cap)"
  shows "walk_ok keep_ids w \<Longrightarrow> page \<in> set ps \<Longrightarrow> line \<in> set (splitlines page) \<Longrightarrow>
    tid \<in> fst ` set (w_decisions (walk_pages keep_ids pg ps w))"
proof (induction ps arbitrary: pg w)
  case (Cons p ps)
  show ?case
  proof (cases "page = p")
    case True
    then have "tid \<in> fst ` set (w_decisions (walk_page keep_ids pg (splitlines p) w))"
      using Cons.prems assms by (intro walk_page_decides) auto
    from subsetD [OF walk_pages_keeps_decisions this] show ?thesis by simp
  qed (use Cons walk_page_ok in auto)
qed simp

lemma caption_decided:
  assumes "page \<in> set pages" "line \<in> set (splitlines page)" "caption_of line = Some (tid, cap)"
    and "extract_tables pages keep_ids = Inr (ts, ds)"
  shows "tid \<in> d_table_id ` set ds"
proof -
  obtain w es where ok: "walk_ok keep_ids w"
    and w: "w = walk_pages keep_ids 1 pages \<lparr>w_tables = [], w_decisions = [], w_section = []\<rparr>"
    and ex: "extract_tables pages keep_ids = Inr (map snd (w_tables w), map snd es)"
    and keys: "map fst es = map fst (w_decisions w)"
    and trace: "\<And>tid d'. dict_get es tid = Some d' \<Longrightarrow> \<exists>d n. dict_get (w_decisions w) tid = Some d \<and>
       d' = d\<lparr>d_row_count := n\<rparr> \<and> (tid \<notin> fst ` set (w_tables w) \<longrightarrow> n = d_row_count d)"
    by (rule extract_run [of keep_ids pages]) blast
  have "tid \<in> fst ` set (w_decisions w)"
    unfolding w using assms(1-3) walk_ok_start by (intro walk_pages_decides)
  then have "tid \<in> fst ` set es" using keys by (metis image_set)
  then obtain d where d: "(tid, d) \<in> set es" by auto
  from final_decision(1) [OF ok keys trace d] have "d_table_id d = tid" .
  with d ex assms(4) show ?thesis by force
qed

text \<open>
  C6. Every table caption of the manual gets a decision: whichever page it is on and whether
  the walk meets it itself or while it captures the body of another table, a line that is a
  caption (not an entry of the contents, not running prose) has its identifier in the decisions.
\<close>

theorem every_caption_decided:
  assumes "page \<in> set pages" "line \<in> set (splitlines page)" "caption_of line = Some (tid, cap)"
    and "extract_tables pages keep_ids = Inr (ts, ds)"
  shows "tid \<in> d_table_id ` set ds"
  using assms by (rule caption_decided)
text \<open>A page with two captions, a header, a range row, a footnote and page furniture.\<close>

definition sample_page :: string where
  "sample_page = join [CHR 0x0A]
     [''4.2  NVIC summary'',
      ''Table 4-2 NVIC registers'',
      ''Address  Name  Type'',
      ''0xE000E004  ICTR  RO'',
      ''0xE000E100 - 0xE000E108  NVIC_ISER0 - NVIC_ISER2  RW'',
      ''a. None.'',
      ''Table 4-3 Latency'']"

lemma sample_page_run:
  "\<exists>t d e. extract_tables [sample_page] None = Inr ([t], [d, e]) \<and>
     table_id t = ''4-2'' \<and> length (rows t) = 2 \<and> d_table_id d = ''4-2'' \<and> d_table_id e = ''4-3''"
proof -
  have "map_sum id (\<lambda>(ts, ds). (map (\<lambda>t. (table_id t, length (rows t))) ts, map d_table_id ds))
      (extract_tables [sample_page] None) = Inr ([(''4-2'', 2)], [''4-2'', ''4-3''])" by code_simp
  then show ?thesis
    by (cases "extract_tables [sample_page] None") (auto simp: map_eq_Cons_conv split: prod.splits)
qed

theorem extract_tables_accounts_witness:
  "\<exists>t d e. extract_tables [sample_page] None = Inr ([t], [d, e]) \<and> d_row_count d = 2 \<and> d_row_count e = 0"
proof -
  obtain ts ds where x: "extract_tables [sample_page] None = Inr (ts, ds)"
    "distinct (map table_id ts)" "distinct (map d_table_id ds)"
    "\<forall>t \<in> set ts. \<exists>d \<in> set ds. d_table_id d = table_id t \<and> d_row_count d = length (rows t)"
    "\<forall>d \<in> set ds. d_table_id d \<notin> table_id ` set ts \<longrightarrow> d_row_count d = 0"
    using extract_tables_accounts [of "[sample_page]" None] by blast
  with sample_page_run obtain t d e where "ts = [t]" "ds = [d, e]" "table_id t = ''4-2''"
    "length (rows t) = 2" "d_table_id d = ''4-2''" "d_table_id e = ''4-3''" by auto
  with x show ?thesis by auto
qed

theorem every_caption_decided_witness:
  "\<exists>ts ds. extract_tables [sample_page] None = Inr (ts, ds) \<and> ''4-3'' \<in> d_table_id ` set ds"
proof -
  have c: "caption_of ''Table 4-3 Latency'' = Some (''4-3'', ''Latency'')" by code_simp
  have l: "''Table 4-3 Latency'' \<in> set (splitlines sample_page)" by code_simp
  have p: "sample_page \<in> set [sample_page]" by simp
  obtain ts ds where x: "extract_tables [sample_page] None = Inr (ts, ds)"
    using sample_page_run by blast
  from every_caption_decided [OF p l c x] x show ?thesis by blast
qed
section \<open>Expanding ranges\<close>

lemma hex_item_value: "in_items hex_items c \<Longrightarrow> digit_value 16 c \<noteq> None"
  by (auto simp: hex_items_def d09_def digit_value_def Let_def is_digit_def is_upper_ascii_def
      is_lower_ascii_def between_def cp_def)

lemma HEX_int: "gen HEX w \<Longrightarrow> \<exists>n. py_int 16 w = Some n \<and> 0 \<le> n"
proof -
  assume "gen HEX w"
  then obtain ds where "w = ''0x'' @ ds" "ds \<noteq> []" "\<forall>c \<in> set ds. in_items hex_items c"
    by (auto simp: HEX_def)
  then show ?thesis
    using hex_item_value py_int_hex_total [of ds] by (auto simp: all_digits_def simp del: append_Cons)
qed

lemma digits_plus_int: "gen digits_plus w \<Longrightarrow> \<exists>n. py_int 10 w = Some n \<and> 0 \<le> n"
  using py_int_dec_total all_digits_dec by auto

lemma groups_ADDR_RE: "groups ADDR_RE = [(''1'', HEX), (''2'', HEX)]"
  by (simp add: ADDR_RE_def HEX_def groups_seqs_Cons)

lemma groups_NAME_RANGE_RE:
  "groups NAME_RANGE_RE =
     [(''base'', seqs [cls id_head, lazy (cls id_tail)]), (''lo'', digits_plus),
      (''base2'', seqs [cls id_head, lazy (cls id_tail)]), (''hi'', digits_plus)]"
  by (simp add: NAME_RANGE_RE_def groups_seqs_Cons)

lemma must_addr: "must ADDR_RE ''1''" and must_name: "must NAME_RANGE_RE ''lo''" "must NAME_RANGE_RE ''hi''"
  by (simp_all add: ADDR_RE_def NAME_RANGE_RE_def must_seqs_Cons)

text \<open>The low and the high address of an address cell.\<close>

definition addr_bounds :: "string \<Rightarrow> (int \<times> int) option" where
  "addr_bounds addr_cell =
     (case re_match_at_start ADDR_RE (strip addr_cell) of
        None \<Rightarrow> None
      | Some am \<Rightarrow>
          (case py_int 16 (grp am ''1'') of
             None \<Rightarrow> None
           | Some lo \<Rightarrow>
               (case group am ''2'' of
                  None \<Rightarrow> Some (lo, lo)
                | Some h \<Rightarrow> (case py_int 16 h of None \<Rightarrow> None | Some hi \<Rightarrow> Some (lo, hi)))))"

lemma addr_match:
  assumes "re_match_at_start ADDR_RE s = Some am"
  obtains lo where "py_int 16 (grp am ''1'') = Some lo" "0 \<le> lo"
    and "\<And>h. group am ''2'' = Some h \<Longrightarrow> \<exists>hi. py_int 16 h = Some hi \<and> 0 \<le> hi"
proof -
  note m = match_at_takes [OF assms [unfolded re_match_at_start_def]]
  have "gen HEX (grp am ''1'')"
    using group_must [OF m(3,5) must_addr] by (auto simp: groups_ADDR_RE)
  moreover have "gen HEX h" if "group am ''2'' = Some h" for h
    using group_gen [OF m(3) that] by (auto simp: groups_ADDR_RE)
  ultimately show ?thesis using that HEX_int by meson
qed

lemma addr_bounds_None: "addr_bounds a = None \<longleftrightarrow> re_match_at_start ADDR_RE (strip a) = None"
proof (cases "re_match_at_start ADDR_RE (strip a)")
  case (Some am)
  then obtain lo where "py_int 16 (grp am ''1'') = Some lo"
    and "\<And>h. group am ''2'' = Some h \<Longrightarrow> \<exists>hi. py_int 16 h = Some hi \<and> 0 \<le> hi"
    using addr_match by metis
  with Some show ?thesis by (fastforce simp: addr_bounds_def split: option.splits)
qed (simp add: addr_bounds_def)

lemma addr_bounds_pos: "addr_bounds a = Some (lo, hi) \<Longrightarrow> 0 \<le> lo \<and> 0 \<le> hi"
proof -
  assume ab: "addr_bounds a = Some (lo, hi)"
  then obtain am where am: "re_match_at_start ADDR_RE (strip a) = Some am"
    by (auto simp: addr_bounds_def split: option.splits)
  obtain l where "py_int 16 (grp am ''1'') = Some l" "0 \<le> l"
    and "\<And>h. group am ''2'' = Some h \<Longrightarrow> \<exists>hi. py_int 16 h = Some hi \<and> 0 \<le> hi"
    using addr_match [OF am] by metis
  with ab am show ?thesis by (fastforce simp: addr_bounds_def split: option.splits)
qed

text \<open>The base and the first and final index of a name cell that is a range over one base.\<close>

definition name_range :: "string \<Rightarrow> (string \<times> int \<times> int) option" where
  "name_range name_cell =
     (case re_fullmatch NAME_RANGE_RE (strip name_cell) of
        None \<Rightarrow> None
      | Some nm \<Rightarrow>
          (if grp nm ''base'' \<noteq> grp nm ''base2'' then None
           else (case (py_int 10 (grp nm ''lo''), py_int 10 (grp nm ''hi'')) of
                   (Some a, Some b) \<Rightarrow> Some (grp nm ''base'', a, b) | _ \<Rightarrow> None)))"

lemma name_match:
  assumes "re_fullmatch NAME_RANGE_RE s = Some nm"
  obtains a b where "py_int 10 (grp nm ''lo'') = Some a" "0 \<le> a" "py_int 10 (grp nm ''hi'') = Some b" "0 \<le> b"
proof -
  note m = re_fullmatch_gen [OF assms]
  have "gen digits_plus (grp nm ''lo'')" "gen digits_plus (grp nm ''hi'')"
    using group_must [OF m(2,4) must_name(1)] group_must [OF m(2,4) must_name(2)]
    by (auto simp: groups_NAME_RANGE_RE simp del: gen_plus_cls)
  with that digits_plus_int show ?thesis by meson
qed

text \<open>\<open>expand_range\<close> without its error branches: the conversions cannot fail.\<close>

lemma expand_range_eq:
  "expand_range a n = Inr
     (case addr_bounds a of
        None \<Rightarrow> []
      | Some (lo, hi) \<Rightarrow>
          (case name_range n of
             None \<Rightarrow> (if lo = hi then [(fmt_addr lo, strip n)] else [])
           | Some (base, first, final) \<Rightarrow>
               array_cells lo (if first < final then (hi - lo) div (final - first) else 4) base first
                 (final - first + 1)))"
proof (cases "re_match_at_start ADDR_RE (strip a)")
  case None
  then show ?thesis by (simp add: expand_range_def addr_bounds_def)
next
  case (Some am)
  obtain lo where lo: "py_int 16 (grp am ''1'') = Some lo"
    and h: "\<And>h. group am ''2'' = Some h \<Longrightarrow> \<exists>hi. py_int 16 h = Some hi \<and> 0 \<le> hi"
    using addr_match [OF Some] by metis
  obtain hi where hi: "(case group am ''2'' of Some h \<Rightarrow> int_res 16 h | None \<Rightarrow> Inr lo) = Inr hi"
    using h by (cases "group am ''2''") (auto simp: int_res_def)
  have ab: "addr_bounds a = Some (lo, hi)"
    using Some lo hi h by (auto simp: addr_bounds_def int_res_def split: option.splits)
  show ?thesis
  proof (cases "re_fullmatch NAME_RANGE_RE (strip n)")
    case None
    with Some lo hi ab show ?thesis by (simp add: expand_range_def int_res_def name_range_def)
  next
    case (Some nm)
    obtain x y where "py_int 10 (grp nm ''lo'') = Some x" "py_int 10 (grp nm ''hi'') = Some y"
      using name_match [OF Some] by metis
    with Some \<open>re_match_at_start ADDR_RE (strip a) = Some am\<close> lo hi ab show ?thesis
      by (simp add: expand_range_def int_res_def name_range_def Let_def array_cells_def)
  qed
qed

lemma array_cells_names: "distinct (map snd (array_cells start stride base first count))"
  by (auto simp: array_cells_def distinct_map inj_on_def str_int_inj)

lemma array_step_bounds:
  fixes lo hi :: int
  assumes "lo \<le> hi" "first < final" "int k \<le> final - first"
  shows "lo \<le> lo + int k * ((hi - lo) div (final - first))"
    and "lo + int k * ((hi - lo) div (final - first)) \<le> hi"
proof -
  let ?q = "(hi - lo) div (final - first)"
  have q: "0 \<le> ?q" using assms by (simp add: pos_imp_zdiv_nonneg_iff)
  then show "lo \<le> lo + int k * ?q" by simp
  have "int k * ?q \<le> (final - first) * ?q" using assms q by (intro mult_right_mono) auto
  also have "\<dots> \<le> hi - lo"
    using assms pos_mod_sign [of "final - first" "hi - lo"]
    by (simp add: minus_mod_eq_mult_div [symmetric])
  finally show "lo + int k * ?q \<le> hi" by simp
qed

text \<open>
  Expanding a register-array row never raises and never leaves the address range the row
  prints: every element lies between the two addresses, the first element at the first
  address, and no two elements share a name.
\<close>

theorem expand_range_in_bounds:
  assumes "addr_bounds addr_cell = Some (lo, hi)" "lo \<le> hi"
  shows "\<exists>xs. expand_range addr_cell name_cell = Inr xs \<and> distinct (map snd xs) \<and>
    (xs = [] \<or> fst (hd xs) = fmt_addr lo) \<and>
    (\<forall>(addr, name) \<in> set xs. \<exists>v. py_int 16 addr = Some v \<and> lo \<le> v \<and> v \<le> hi)"
proof -
  have pos: "0 \<le> lo" using addr_bounds_pos [OF assms(1)] by simp
  show ?thesis
  proof (cases "name_range name_cell")
    case None
    with pos assms show ?thesis by (simp add: expand_range_eq py_int_fmt_addr)
  next
    case (Some r)
    obtain base first final where r: "r = (base, first, final)" by (cases r) auto
    let ?st = "if first < final then (hi - lo) div (final - first) else 4"
    let ?xs = "array_cells lo ?st base first (final - first + 1)"
    have "lo \<le> lo + int k * ?st \<and> lo + int k * ?st \<le> hi" if "k < nat (final - first + 1)" for k
      using array_step_bounds [OF assms(2), of first final k] that assms(2)
      by (cases "first < final") auto
    then have "\<forall>(addr, name) \<in> set ?xs. \<exists>v. py_int 16 addr = Some v \<and> lo \<le> v \<and> v \<le> hi"
      using pos by (fastforce simp: array_cells_def py_int_fmt_addr simp del: if_split)
    moreover have "?xs = [] \<or> fst (hd ?xs) = fmt_addr lo"
      by (cases "nat (final - first + 1)") (auto simp: array_cells_def upt_conv_Cons simp del: upt_Suc)
    ultimately show ?thesis
      using Some r assms array_cells_names by (simp add: expand_range_eq del: if_split)
  qed
qed

text \<open>
  A range of \<open>n\<close> equally spaced registers is expanded completely: when the addresses
  are \<open>final - first\<close> strides apart, element \<open>k\<close> is named by its index and sits \<open>k\<close> strides
  after the low address, so the final element is at the high address.
\<close>

theorem expand_range_array:
  assumes "addr_bounds addr_cell = Some (lo, lo + (final - first) * stride)"
    and "name_range name_cell = Some (base, first, final)" "first < final"
  shows "expand_range addr_cell name_cell =
    Inr (map (\<lambda>k. (fmt_addr (lo + int k * stride), base @ str_int (first + int k)))
          [0..<nat (final - first + 1)])"
  using assms by (simp add: expand_range_eq array_cells_def)

theorem expand_range_array_witness:
  "expand_range ''0xE000E100 - 0xE000E108 '' ''NVIC_ISER0 - NVIC_ISER2'' =
     Inr [(''0xE000E100'', ''NVIC_ISER0''), (''0xE000E104'', ''NVIC_ISER1''), (''0xE000E108'', ''NVIC_ISER2'')]"
proof -
  have a: "addr_bounds ''0xE000E100 - 0xE000E108 '' = Some (0xE000E100, 0xE000E100 + (2 - 0) * 4)"
    by code_simp
  have n: "name_range ''NVIC_ISER0 - NVIC_ISER2'' = Some (''NVIC_ISER'', 0, 2)" by code_simp
  show ?thesis
    unfolding expand_range_array [OF a n, simplified] by code_simp
qed

theorem expand_range_in_bounds_witness:
  "\<exists>xs. expand_range ''0xE000E100 - 0xE000E108 '' ''NVIC_ISER0 - NVIC_ISER2'' = Inr xs \<and>
    distinct (map snd xs) \<and> (xs = [] \<or> fst (hd xs) = fmt_addr 0xE000E100) \<and>
    (\<forall>(addr, name) \<in> set xs. \<exists>v. py_int 16 addr = Some v \<and> 0xE000E100 \<le> v \<and> v \<le> 0xE000E108)"
proof -
  have a: "addr_bounds ''0xE000E100 - 0xE000E108 '' = Some (0xE000E100, 0xE000E108)" by code_simp
  show ?thesis by (rule expand_range_in_bounds [OF a]) simp
qed
end
