(* ===== verification/Profiles.thy ===== *)
theory Profiles
  imports ArmPdf
begin

text \<open>
  \<open>tools/state/profiles.py\<close>: one row parser per table shape of the Arm manuals, the check for
  row-like lines that produced no record, and the table of parsers by name.  A parser returns
  the records and the table, in which \<open>parse_addr_name_type_reset\<close> leaves the lines it consumed
  and the rows it rejected.  What every parser promises is the locale \<open>row_parser\<close>; what the
  parsers that validate names promise besides is \<open>ident_parser\<close>.
\<close>

section \<open>Raw records\<close>

record raw_rec =
  rr_name :: "string option"
  rr_address :: "string option"
  rr_access :: string
  rr_reset :: "string option"
  rr_desc :: string
  rr_reserved :: bool
  rr_page :: nat
  rr_row :: "pdf_row option"
  rr_alt :: "string option"
  rr_sysm :: "int option"

definition plain_rec :: "string \<Rightarrow> string option \<Rightarrow> string \<Rightarrow> string option \<Rightarrow> string \<Rightarrow> nat \<Rightarrow> raw_rec" where
  "plain_rec name addr acc rst desc pg =
     \<lparr>rr_name = Some name, rr_address = addr, rr_access = acc, rr_reset = rst, rr_desc = desc,
      rr_reserved = False, rr_page = pg, rr_row = None, rr_alt = None, rr_sysm = None\<rparr>"

definition reserved_rec :: "string \<Rightarrow> string \<Rightarrow> string \<Rightarrow> nat \<Rightarrow> raw_rec" where
  "reserved_rec addr acc desc pg =
     \<lparr>rr_name = None, rr_address = Some addr, rr_access = acc, rr_reset = None, rr_desc = desc,
      rr_reserved = True, rr_page = pg, rr_row = None, rr_alt = None, rr_sysm = None\<rparr>"

text \<open>Python's \<open>s or d\<close> for a string that may be \<open>None\<close>, and its truth value.\<close>

definition py_or :: "string option \<Rightarrow> string \<Rightarrow> string" where
  "py_or s d = (case s of None \<Rightarrow> d | Some t \<Rightarrow> if t = [] then d else t)"

definition truthy :: "string option \<Rightarrow> bool" where
  "truthy s = (case s of None \<Rightarrow> False | Some t \<Rightarrow> t \<noteq> [])"

definition or_str :: "string \<Rightarrow> string \<Rightarrow> string" where
  "or_str s d = (if s = [] then d else s)"

definition ends_with :: "string \<Rightarrow> string \<Rightarrow> bool" where
  "ends_with s t = starts_with (rev s) (rev t)"

section \<open>Patterns\<close>

definition upper_tail :: "citem list" where "upper_tail = [AZ, d09, Ch (CHR ''_'')]"

definition RESERVED_WORDS :: "string list" where "RESERVED_WORDS = [''-'', ''reserved'', ''--'']"

definition FOOTNOTED_NAME_RE :: re where
  "FOOTNOTED_NAME_RE = seqs
     [RGrp ''1'' (seqs [cls [AZ], lazy (cls upper_tail), cls [d09, AZ, Ch (CHR ''_'')]]),
      RGrp ''2'' (cls [az])]"

definition SPLIT_RANGE_RE :: re where
  "SPLIT_RANGE_RE = seqs
     [RAsrt Bos, space_star, RGrp ''1'' HEX, space_star, lit ''-'', at_least 2 (cls [Spc])]"

definition BARE_HEX_RE :: re where "BARE_HEX_RE = seqs [space_star, RGrp ''1'' HEX, space_star]"

definition HEX_START_RE :: re where "HEX_START_RE = seqs [RAsrt Bos, space_star, HEX]"

definition HEX_LINE_RE :: re where
  "HEX_LINE_RE = seqs [RAsrt Bos, space_star, HEX, space_star, RAsrt Dollar]"

definition PLACEHOLDER_RE :: re where
  "PLACEHOLDER_RE = seqs
     [RAsrt Wb, RGrp ''1'' (seqs [cls [AZ], lazy (cls upper_tail)]), RGrp ''2'' digits_plus,
      space_star, lit ''-'', space_star,
      RGrp ''3'' (seqs [cls [AZ], lazy (cls upper_tail)]), RGrp ''4'' digits_plus, RAsrt Wb]"

definition ACCESS_ALT :: re where
  "ACCESS_ALT = alts (map lit
     [''RW or RO'', ''RAZ/WI'', ''RO'', ''RW'', ''WO'', ''RAZ'', ''WI'', ''-''])"

definition ACCESS_CELL :: re where
  "ACCESS_CELL = seqs
     [ACCESS_ALT, opt (seqs [space_plus, alts (map lit [''clear'', ''only'', ''once''])])]"

definition blank_opt :: re where "blank_opt = opt (lit '' '')"

definition ADDR_CELL :: re where
  "ADDR_CELL = seqs
     [HEX, opt (seqs [space_star, lit ''+'', space_star, star (cls [Dig]), cls [az]]),
      opt (seqs [blank_opt, alts [lit ''-'', lit ''to''], blank_opt, opt HEX])]"

definition alnum_tail :: "citem list" where "alnum_tail = [AZ, az, d09, Ch (CHR ''_'')]"

definition NAME_CELL :: re where
  "NAME_CELL = alts
     [lit ''-'',
      seqs [IDENT, opt (lit ''_''), upto_n 2 (seqs [blank_opt, plus (cls alnum_tail)]),
            opt (seqs [lit ''['', digits_plus, lit '':'', digits_plus, lit '']'']),
            opt (seqs [space_star, lit ''-'', space_star,
                       RLook False (seqs [alts (map lit [''RW'', ''RO'', ''WO'', ''RAZ'', ''WI'']), RAsrt Wb]),
                       IDENT])]]"

definition ROW_RE :: re where
  "ROW_RE = seqs
     [RAsrt Bos, space_star, RGrp ''addr'' ADDR_CELL,
      opt (RGrp ''adash'' (seqs [blank_opt, lit ''-'', RLook False (seqs [space_star, lit ''0x''])])),
      at_least 2 (cls [Spc]), RGrp ''name'' NAME_CELL,
      opt (RGrp ''ndash'' (seqs [blank_opt, lit ''-''])),
      opt (seqs [at_least 2 (cls [Spc]), RGrp ''type'' ACCESS_CELL, opt (cls [az])]),
      opt (seqs [at_least 2 (cls [Spc]), RGrp ''rest'' (star any)]), RAsrt Dollar]"

text \<open>The class \<open>[-...]\<close> of the code also has the ellipsis U+2026, outside Latin-1.\<close>

definition RESERVED_RE :: re where
  "RESERVED_RE = seqs
     [RAsrt Bos, space_star, RGrp ''addr'' ADDR_CELL, blank_opt, opt (lit ''-''),
      at_least 2 (cls [Spc]), lit ''-'', at_least 2 (cls [Spc]), lit ''-'', at_least 2 (cls [Spc])]"

definition CONT_RE :: re where
  "CONT_RE = seqs
     [RAsrt Bos, space_star, RGrp ''addr'' HEX, at_least 2 (cls [Spc]), RGrp ''name'' IDENT, RAsrt Wb]"

definition SLICE_RE :: re where
  "SLICE_RE = seqs
     [RAsrt Bos, RGrp ''base'' IDENT, lit ''['', RGrp ''hi'' digits_plus, lit '':'',
      RGrp ''lo'' digits_plus, lit '']'', RAsrt Dollar]"

definition DASH_END_RE :: re where
  "DASH_END_RE = seqs [alts [lit ''-'', lit ''to''], space_star, RAsrt Dollar]"

definition UNDERSCORE_GAP_RE :: re where "UNDERSCORE_GAP_RE = seqs [lit ''_'', space_plus]"

definition ID_NAME_RE :: re where
  "ID_NAME_RE = nocase (seqs
     [RGrp ''1'' (alts [lit ''Peripheral'', lit ''Component'']), space_star, lit ''ID'', space_star,
      RGrp ''2'' digits_plus])"

definition COMMA_RE :: re where "COMMA_RE = seqs [lit '','', space_star]"

definition CORE_NAME_RE :: re where
  "CORE_NAME_RE = seqs
     [RAsrt Bos, RGrp ''1'' IDENT,
      opt (seqs [space_star, lit ''('', RGrp ''2'' (plus (ncls [Ch (CHR '')'')])), lit '')'']), RAsrt Dollar]"

definition bits01 :: re where "bits01 = plus (cls [Ch (CHR ''0''), Ch (CHR ''1'')])"

definition SYSM_RE :: re where
  "SYSM_RE = seqs
     [RGrp ''1'' digits_plus, space_star, lit ''='', space_star, lit ''0b'', bits01, lit '':'', bits01]"

definition ON_READS_RE :: re where
  "ON_READS_RE = seqs
     [lit '','', space_star, lit ''on '', alts [lit ''reads'', lit ''writes''], star any, RAsrt Dollar]"

definition BITS_SUFFIX_RE :: re where "BITS_SUFFIX_RE = lit ''_<bits>''"

definition FP_RE :: re where
  "FP_RE = seqs
     [RAsrt Bos, space_star,
      RGrp ''enc'' (seqs [lit ''0b'', bits01,
                         opt (seqs [space_star, lit ''-'', space_star, lit ''0b'', bits01])]),
      at_least 2 (cls [Spc]), RGrp ''name'' IDENT, at_least 2 (cls [Spc]),
      RGrp ''desc'' (star any), RAsrt Dollar]"

definition ACCESS3 :: re where "ACCESS3 = alts (map lit [''RO'', ''RW'', ''WO''])"

definition OTN_RE :: re where
  "OTN_RE = seqs
     [RAsrt Bos, space_star, RGrp ''off'' HEX, at_least 2 (cls [Spc]), RGrp ''type'' ACCESS3,
      at_least 2 (cls [Spc]), RGrp ''rest'' (plus_lazy any), space_star, RAsrt Dollar]"

definition UPPER_NAME :: re where "UPPER_NAME = seqs [cls [AZ], star (cls upper_tail)]"
definition UPPER_NAME3 :: re where "UPPER_NAME3 = seqs [cls [AZ], at_least 2 (cls upper_tail)]"

definition PAREN_NAME_RE :: re where
  "PAREN_NAME_RE = seqs [lit ''('', RGrp ''1'' UPPER_NAME, lit '')'']"

definition DESCNAME_RE :: re where
  "DESCNAME_RE = seqs
     [RAsrt Bos, space_star, RGrp ''addr'' HEX, at_least 2 (cls [Spc]), RGrp ''type'' ACCESS3,
      at_least 2 (cls [Spc]),
      RGrp ''reset'' (seqs [plus (cls [NSpc]), lazy (seqs [cls [Spc], plus (cls [NSpc])])]),
      at_least 2 (cls [Spc]), RGrp ''desc'' (seqs [cls [NSpc], star any]), RAsrt Dollar]"

definition ON_PAGE_RE :: re where
  "ON_PAGE_RE = seqs
     [lit '','', space_star, RGrp ''1'' UPPER_NAME3, space_plus, lit ''on page'']"

definition LEAD_NAME_RE :: re where "LEAD_NAME_RE = seqs [RGrp ''1'' UPPER_NAME3, RAsrt Wb]"

section \<open>Names\<close>

definition clean_name :: "string \<Rightarrow> string \<Rightarrow> string" where
  "clean_name value desc =
     (let v = strip value in
      case re_fullmatch FOOTNOTED_NAME_RE v of
        None \<Rightarrow> v
      | Some m \<Rightarrow>
          (if grp m ''2'' \<in> {''n'', ''x''} \<and> searches (seqs [RAsrt Wb, lit v, RAsrt Wb]) desc then v
           else grp m ''1''))"

definition is_reserved :: "string \<Rightarrow> string \<Rightarrow> bool" where
  "is_reserved name desc \<longleftrightarrow>
     lower (strip name) \<in> set RESERVED_WORDS \<or> starts_with (lower (strip desc)) ''reserved''"

text \<open>Range rows whose end address wrapped onto one of the next two lines.\<close>

fun first_bare_hex :: "string list \<Rightarrow> string option" where
  "first_bare_hex [] = None"
| "first_bare_hex (l # ls) =
     (case re_fullmatch BARE_HEX_RE l of Some m \<Rightarrow> Some (grp m ''1'') | None \<Rightarrow> first_bare_hex ls)"

fun merge_fixes :: "string list \<Rightarrow> (string \<times> string) list \<Rightarrow> (string \<times> string) list" where
  "merge_fixes [] fixes = fixes"
| "merge_fixes (line # lines) fixes =
     merge_fixes lines
       (case re_match_at_start SPLIT_RANGE_RE line of
          None \<Rightarrow> fixes
        | Some m \<Rightarrow>
            (case first_bare_hex (take 2 lines) of
               None \<Rightarrow> fixes
             | Some e \<Rightarrow> dict_set fixes (grp m ''1'') (grp m ''1'' @ '' - '' @ e)))"

definition merge_split_ranges :: "pdf_table \<Rightarrow> (string \<times> string) list" where
  "merge_split_ranges t = merge_fixes (map snd (raw_lines t)) []"

text \<open>
  The array expansions by the description and by a slice share their last lines: the
  addresses from the address cell, the stride from the span.
\<close>

definition spread :: "string \<Rightarrow> string \<Rightarrow> int \<Rightarrow> int \<Rightarrow> (string \<times> string) list res" where
  "spread base addr_cell lo hi =
     (case re_match_at_start ADDR_RE (strip addr_cell) of
        None \<Rightarrow> Inr []
      | Some am \<Rightarrow>
          rbind (int_res 16 (grp am ''1'')) (\<lambda>start.
          rbind (case group am ''2'' of Some h \<Rightarrow> int_res 16 h | None \<Rightarrow> Inr start) (\<lambda>stop.
          (let count = hi - lo + 1;
               stride = (if 1 < count \<and> start < stop then (stop - start) div (count - 1) else 4)
           in Inr (array_cells start stride base lo count)))))"

definition expand_placeholder :: "string \<Rightarrow> string \<Rightarrow> string \<Rightarrow> (string \<times> string) list res" where
  "expand_placeholder name desc addr_cell =
     (case re_search PLACEHOLDER_RE desc of
        None \<Rightarrow> Inr []
      | Some m \<Rightarrow>
          (if grp m ''1'' \<noteq> grp m ''3'' then Inr []
           else rbind (int_res 10 (grp m ''2'')) (\<lambda>lo.
                rbind (int_res 10 (grp m ''4'')) (\<lambda>hi. spread (grp m ''1'') addr_cell lo hi))))"

definition expand_slice :: "string \<Rightarrow> string \<Rightarrow> (string \<times> string) list res" where
  "expand_slice name addr_cell =
     (case re_match_at_start SLICE_RE (strip name) of
        None \<Rightarrow> Inr []
      | Some m \<Rightarrow>
          rbind (int_res 10 (grp m ''lo'')) (\<lambda>lo.
          rbind (int_res 10 (grp m ''hi'')) (\<lambda>hi. spread (grp m ''base'') addr_cell lo hi)))"

section \<open>The address, name, type, reset parser\<close>

record anr_state =
  a_out :: "raw_rec list"
  a_consumed :: "nat list"
  a_rejected :: "(nat \<times> string) list"

text \<open>The continuation line of a wrapped reserved range, among the next two.\<close>

fun absorb :: "nat \<Rightarrow> string list \<Rightarrow> nat list \<Rightarrow> nat list" where
  "absorb k [] consumed = consumed"
| "absorb k (l # ls) consumed =
     (if matches HEX_START_RE l then List.insert k consumed else absorb (Suc k) ls consumed)"

text \<open>
  The tail of a wrapped row.  The code loops over the next two lines, but every branch of the
  body leaves the loop, so only the line just below counts.
\<close>

definition join_tail ::
  "nat \<Rightarrow> string list \<Rightarrow> string \<Rightarrow> string \<Rightarrow> nat list \<Rightarrow> string \<times> string \<times> nat list" where
  "join_tail i below addr name consumed =
     (case below of
        [] \<Rightarrow> (addr, name, consumed)
      | l # _ \<Rightarrow>
          (case re_match_at_start CONT_RE l of
             Some cm \<Rightarrow>
               (rstrip_by (in_chars ''- to'') addr @ '' - '' @ grp cm ''addr'',
                name @ '' - '' @ grp cm ''name'', List.insert (Suc i) consumed)
           | None \<Rightarrow>
               (if matches HEX_LINE_RE l then
                  (rstrip_by (in_chars ''- to'') addr @ '' - '' @ strip l, name, List.insert (Suc i) consumed)
                else if \<not> matches HEX_START_RE l then (addr, name, consumed)
                else (addr, name, List.insert (Suc i) consumed))))"

definition row_pairs :: "string \<Rightarrow> string \<Rightarrow> string \<Rightarrow> (string \<times> string) list res" where
  "row_pairs name addr desc =
     rbind (if CHR ''['' \<in> set name then expand_slice name addr else Inr []) (\<lambda>pairs.
     rbind (if pairs = [] \<and> CHR ''+'' \<in> set addr
            then Inr [(strip (takeWhile (\<lambda>c. c \<noteq> CHR ''+'') addr), name)] else Inr pairs) (\<lambda>pairs.
     rbind (if pairs = [] \<and> ends_with name ''x'' then expand_placeholder name desc addr
            else Inr pairs) (\<lambda>pairs.
     rbind (if pairs = [] \<and> (CHR ''-'' \<in> set addr \<or> CHR ''-'' \<in> set name) then expand_range addr name
            else Inr pairs) (\<lambda>pairs.
     Inr (if pairs = [] then [(addr, clean_name name desc)] else pairs)))))"

text \<open>One \<open>(address, name)\<close> pair: a record, or a rejection if the name is no identifier.\<close>

definition add_pair ::
  "nat \<Rightarrow> string \<Rightarrow> string \<Rightarrow> string \<Rightarrow> string \<Rightarrow> string \<times> string \<Rightarrow> anr_state \<Rightarrow> anr_state" where
  "add_pair pg line typ rst desc pair st =
     (case pair of (a, n) \<Rightarrow>
        (let n = strip n in
         if \<not> fullmatches IDENT n
         then st\<lparr>a_rejected := a_rejected st @
                  [(pg, take 100 (strip line) @ ''  [rejected name '' @ py_repr n @ '']'')]\<rparr>
         else st\<lparr>a_out := a_out st @ [plain_rec n (Some a) typ (Some rst) desc pg]\<rparr>))"

definition wraps :: "re_match \<Rightarrow> string \<Rightarrow> bool" where
  "wraps m addr \<longleftrightarrow> truthy (group m ''adash'') \<or> searches DASH_END_RE addr"

definition anr_line :: "nat \<Rightarrow> nat \<Rightarrow> string \<Rightarrow> string list \<Rightarrow> anr_state \<Rightarrow> anr_state res" where
  "anr_line i pg line below st =
     (if i \<in> set (a_consumed st) then Inr st
      else
        (case (if contains line ''Reserved'' then re_match_at_start RESERVED_RE line else None) of
           Some rm \<Rightarrow>
             (let addr = grp rm ''addr'';
                  st = (if searches DASH_END_RE addr
                        then st\<lparr>a_consumed := absorb (Suc i) (take 2 below) (a_consumed st)\<rparr> else st)
              in Inr (st\<lparr>a_out := a_out st @ [reserved_rec addr ''-'' ''Reserved'' pg]\<rparr>))
         | None \<Rightarrow>
             (case re_match_at_start ROW_RE line of
                None \<Rightarrow> Inr st
              | Some m \<Rightarrow>
                  (let addr = grp m ''addr''; name = grp m ''name'';
                       typ = strip (py_or (group m ''type'') ''-'');
                       rest = strip (py_or (group m ''rest'') [])
                   in if strip name = ''-'' then
                        (let st = (if wraps m addr
                                   then st\<lparr>a_consumed := absorb (Suc i) (take 2 below) (a_consumed st)\<rparr>
                                   else st)
                         in Inr (st\<lparr>a_out := a_out st @ [reserved_rec addr typ (or_str rest ''Reserved'') pg]\<rparr>))
                      else
                        (let (addr, name, consumed) =
                               (if wraps m addr \<or> truthy (group m ''ndash'')
                                then join_tail i below addr name (a_consumed st)
                                else (addr, name, a_consumed st));
                             name = strip (re_sub UNDERSCORE_GAP_RE ''_'' name);
                             name = (if CHR ''-'' \<notin> set name then re_sub space_plus ''_'' name else name);
                             parts = split_once_ws rest;
                             rst = (case parts of [] \<Rightarrow> [] | p # _ \<Rightarrow> strip_footnote p);
                             desc = (case parts of _ # d # _ \<Rightarrow> strip d | _ \<Rightarrow> [])
                         in rbind (row_pairs name addr desc) (\<lambda>pairs.
                              Inr (fold (add_pair pg line typ rst desc) pairs (st\<lparr>a_consumed := consumed\<rparr>))))))))"

fun anr_lines :: "nat \<Rightarrow> (nat \<times> string) list \<Rightarrow> anr_state \<Rightarrow> anr_state res" where
  "anr_lines i [] st = Inr st"
| "anr_lines i ((pg, line) # below) st =
     rbind (anr_line i pg line (map snd below) st) (anr_lines (Suc i) below)"

type_synonym parser = "pdf_table \<Rightarrow> (raw_rec list \<times> pdf_table) res"

definition parse_addr_name_type_reset :: parser where
  "parse_addr_name_type_reset t =
     rbind (anr_lines 0 (raw_lines t) \<lparr>a_out = [], a_consumed = [], a_rejected = []\<rparr>) (\<lambda>st.
       Inr (a_out st, t\<lparr>consumed_lines := a_consumed st, rejected_rows := a_rejected st\<rparr>))"

text \<open>A row-like line that the parser did not turn into a record.\<close>

definition unparsed_line :: "pdf_table \<Rightarrow> nat \<Rightarrow> string \<Rightarrow> bool" where
  "unparsed_line t i l \<longleftrightarrow>
     i \<notin> set (consumed_lines t) \<and> matches HEX_START_RE l \<and>
     \<not> (matches ROW_RE l \<or> matches RESERVED_RE l) \<and> \<not> fullmatches BARE_HEX_RE l"

definition unparsed_rows :: "pdf_table \<Rightarrow> (nat \<times> string) list" where
  "unparsed_rows t =
     rejected_rows t @
     filter_map (\<lambda>(i, pg, l). if unparsed_line t i l then Some (pg, strip l) else None)
       (enumerate 0 (raw_lines t))"

section \<open>The other parsers\<close>

definition arv_row :: "pdf_row \<Rightarrow> raw_rec option" where
  "arv_row r =
     (let addr = strip (py_or (row_get r [''Address'']) []);
          raw_name = strip (py_or (row_get r [''Register'', ''Name'']) []);
          val = strip_footnote (py_or (row_get r [''Value'']) [])
      in if addr = [] \<or> raw_name = [] then None
         else
           (let name = (case re_search ID_NAME_RE raw_name of
                  Some m \<Rightarrow> (if lower (grp m ''1'') = ''peripheral'' then ''PIDR'' else ''CIDR'') @ grp m ''2''
                | None \<Rightarrow> raw_name)
            in Some ((plain_rec name (Some addr) ''RO'' (Some val) raw_name (r_page r))\<lparr>rr_row := Some r\<rparr>)))"

definition parse_addr_register_value :: parser where
  "parse_addr_register_value t = Inr (filter_map arv_row (rows t), t)"

definition cri_line :: "nat \<times> string \<Rightarrow> (string \<times> string \<times> nat) list \<Rightarrow> (string \<times> string \<times> nat) list" where
  "cri_line pl acc =
     (case pl of (pg, line) \<Rightarrow>
        (let cells = split_cells line in
         case cells of
           [] \<Rightarrow> acc
         | c # cs \<Rightarrow>
             (if c \<in> {''Register'', ''See''} then acc
              else if cs \<noteq> [] then acc @ [(c, last cells, pg)]
              else if acc \<noteq> [] then
                (case last acc of (names, see, p) \<Rightarrow> butlast acc @ [(names @ '' '' @ c, see, p)])
              else acc)))"

definition cri_token :: "string \<Rightarrow> nat \<Rightarrow> string \<Rightarrow> raw_rec option" where
  "cri_token see pg tok =
     (let tok = rstrip_by (in_chars '','') (strip tok) in
      if tok = [] then None
      else
        (case re_match_at_start CORE_NAME_RE tok of
           None \<Rightarrow> None
         | Some m \<Rightarrow> Some ((plain_rec (grp m ''1'') None ''RW'' None see pg)\<lparr>rr_alt := group m ''2''\<rparr>)))"

definition parse_core_register_index :: parser where
  "parse_core_register_index t =
     Inr (concat (map (\<lambda>(names, see, pg). filter_map (cri_token see pg) (re_split COMMA_RE names))
                   (fold cri_line (raw_lines t) [])), t)"

definition sysm_line :: "nat \<times> string \<Rightarrow> raw_rec list res" where
  "sysm_line pl =
     (case pl of (pg, line) \<Rightarrow>
        (case re_search SYSM_RE line of
           None \<Rightarrow> Inr []
         | Some m \<Rightarrow>
             (case split_cells (strip (m_before m)) of
                [] \<Rightarrow> Inr []
              | c # cs \<Rightarrow>
                  (let spec = strip (re_sub ON_READS_RE [] c);
                       spec = strip (re_sub BITS_SUFFIX_RE [] spec)
                   in if \<not> fullmatches IDENT spec then Inr []
                      else rbind (int_res 10 (grp m ''1'')) (\<lambda>n.
                        Inr [(plain_rec (upper spec) None ''RW'' None (case cs of [] \<Rightarrow> [] | d # _ \<Rightarrow> d) pg)
                               \<lparr>rr_sysm := Some n\<rparr>])))))"

text \<open>Keeping the first record of each name.\<close>

fun uniq_names :: "string option list \<Rightarrow> raw_rec list \<Rightarrow> raw_rec list" where
  "uniq_names seen [] = []"
| "uniq_names seen (r # rs) =
     (if rr_name r \<in> set seen then uniq_names seen rs
      else r # uniq_names (rr_name r # seen) rs)"

definition parse_special_register_sysm :: parser where
  "parse_special_register_sysm t =
     rbind (map_res sysm_line (raw_lines t)) (\<lambda>rss. Inr (uniq_names [] (concat rss), t))"

definition fp_line :: "nat \<times> string \<Rightarrow> raw_rec option" where
  "fp_line pl =
     (case pl of (pg, line) \<Rightarrow>
        (case re_match_at_start FP_RE line of
           None \<Rightarrow> None
         | Some m \<Rightarrow>
             (let name = grp m ''name''; desc = strip (grp m ''desc''); enc = grp m ''enc''
              in if is_reserved name desc then Some (reserved_rec enc ''-'' (or_str desc ''Reserved'') pg)
                 else Some (plain_rec name (Some enc) ''RW'' None desc pg))))"

definition parse_fp_common_block :: parser where
  "parse_fp_common_block t = Inr (filter_map fp_line (raw_lines t), t)"

definition otn_line :: "nat \<times> string \<Rightarrow> raw_rec option" where
  "otn_line pl =
     (case pl of (pg, line) \<Rightarrow>
        (case re_match_at_start OTN_RE line of
           None \<Rightarrow> None
         | Some m \<Rightarrow>
             (let rest = grp m ''rest'' in
              case re_search PAREN_NAME_RE rest of
                None \<Rightarrow> None
              | Some nm \<Rightarrow> Some (plain_rec (grp nm ''1'') (Some (grp m ''off'')) (grp m ''type'') None (strip rest) pg))))"

definition parse_offset_type_name :: parser where
  "parse_offset_type_name t = Inr (filter_map otn_line (raw_lines t), t)"

definition ovn_row :: "pdf_row \<Rightarrow> raw_rec option" where
  "ovn_row r =
     (let off = strip (py_or (row_get r [''Offset'']) []);
          name = strip (py_or (row_get r [''Name'']) []);
          val = strip (py_or (row_get r [''Value'']) []);
          desc = strip (py_or (row_get r [''Description'']) [])
      in if name = [] \<or> \<not> fullmatches UPPER_NAME name then None
         else Some ((plain_rec name (Some off) ''RO'' (Some val) desc (r_page r))\<lparr>rr_row := Some r\<rparr>))"

definition parse_offset_value_name :: parser where
  "parse_offset_value_name t = Inr (filter_map ovn_row (rows t), t)"

definition descname_line :: "nat \<times> string \<Rightarrow> raw_rec option" where
  "descname_line pl =
     (case pl of (pg, line) \<Rightarrow>
        (case re_match_at_start DESCNAME_RE line of
           None \<Rightarrow> None
         | Some m \<Rightarrow>
             (let desc = strip (grp m ''desc'') in
              case (case re_search ON_PAGE_RE desc of
                      Some nm \<Rightarrow> Some nm | None \<Rightarrow> re_match_at_start LEAD_NAME_RE desc) of
                None \<Rightarrow> None
              | Some nm \<Rightarrow>
                  Some (plain_rec (grp nm ''1'') (Some (grp m ''addr'')) (grp m ''type'')
                          (Some (grp m ''reset'')) desc pg))))"

definition parse_addr_type_reset_descname :: parser where
  "parse_addr_type_reset_descname t = Inr (filter_map descname_line (raw_lines t), t)"

definition PROFILES :: "(string \<times> parser) list" where
  "PROFILES =
     [(''addr_name_type_reset'', parse_addr_name_type_reset),
      (''addr_register_value'', parse_addr_register_value),
      (''core_register_index'', parse_core_register_index),
      (''special_register_sysm'', parse_special_register_sysm),
      (''fp_common_block'', parse_fp_common_block),
      (''offset_type_name'', parse_offset_type_name),
      (''offset_value_name'', parse_offset_value_name),
      (''addr_type_reset_descname'', parse_addr_type_reset_descname)]"

section \<open>What the patterns capture\<close>

text \<open>Registers' identifiers, as a plain condition on the characters.\<close>

definition is_ident :: "string \<Rightarrow> bool" where
  "is_ident w \<longleftrightarrow> w \<noteq> [] \<and> (\<forall>c \<in> set w. ident_char c) \<and> \<not> is_digit (hd w)"

lemma in_id_tail: "in_items id_tail c \<longleftrightarrow> ident_char c"
  by (auto simp: id_tail_def AZ_def az_def d09_def ident_char_def is_upper_ascii_def is_lower_ascii_def
      is_digit_def between_def cp_def)

lemma in_id_head: "in_items id_head c \<longleftrightarrow> ident_char c \<and> \<not> is_digit c"
  by (auto simp: id_head_def AZ_def az_def ident_char_def is_upper_ascii_def is_lower_ascii_def
      is_digit_def between_def cp_def)

lemma in_upper_tail: "in_items upper_tail c \<longleftrightarrow> upper_ident_char c"
  by (auto simp: upper_tail_def AZ_def d09_def upper_ident_char_def is_upper_ascii_def
      is_digit_def between_def cp_def)

lemma in_AZ: "in_items [AZ] c \<longleftrightarrow> is_upper_ascii c"
  by (simp add: AZ_def is_upper_ascii_def between_def cp_def)

lemma gen_IDENT [simp]: "gen IDENT w \<longleftrightarrow> is_ident w"
proof -
  have "gen IDENT w \<longleftrightarrow> (\<exists>c t. w = c # t \<and> in_items id_head c \<and> (\<forall>d \<in> set t. in_items id_tail d))"
    unfolding IDENT_def seqs.simps gen.simps gen_cls gen_star_cls
    by (rule iffI; elim exE conjE; intro exI conjI; simp)
  also have "\<dots> \<longleftrightarrow> is_ident w"
    by (cases w) (auto simp: is_ident_def in_id_head in_id_tail)
  finally show ?thesis .
qed

lemma fullmatches_IDENT [simp]: "fullmatches IDENT w \<longleftrightarrow> is_ident w"
proof -
  have "plain IDENT" by (simp add: IDENT_def)
  then show ?thesis by (simp add: fullmatches_gen)
qed

lemma upper_not_digit: "is_upper_ascii c \<Longrightarrow> \<not> is_digit c"
  by (auto simp: is_upper_ascii_def is_digit_def between_def)

lemma gen_at_least_cls:
  "gen (at_least k (cls is)) w \<longleftrightarrow> k \<le> length w \<and> (\<forall>c \<in> set w. in_items is c)"
proof (induction k arbitrary: w)
  case 0
  then show ?case using gen_star_cls [of "is" w] by (simp add: at_least_def star_def)
next
  case (Suc k)
  have eq: "seqs (replicate (Suc k) (cls is) @ [RStar True (cls is)]) =
      RSeq (cls is) (seqs (replicate k (cls is) @ [RStar True (cls is)]))"
    by (cases k) auto
  have "gen (at_least (Suc k) (cls is)) w \<longleftrightarrow>
      (\<exists>c v. w = c # v \<and> in_items is c \<and> gen (at_least k (cls is)) v)"
    unfolding at_least_def eq gen.simps gen_cls by (rule iffI; elim exE conjE; intro exI conjI; simp)
  with Suc show ?case by (cases w) auto
qed

lemma upper_start_ident:
  "is_upper_ascii c \<Longrightarrow> \<forall>x \<in> set v. upper_ident_char x \<Longrightarrow> is_ident (c # v)"
  using upper_ident_char_ident by (auto simp: is_ident_def ident_char_def upper_not_digit)

lemma UPPER_NAME_ident: "gen UPPER_NAME w \<Longrightarrow> is_ident w"
  unfolding UPPER_NAME_def seqs.simps gen.simps gen_cls gen_star_cls in_AZ in_upper_tail
  by (elim exE conjE) (simp add: upper_start_ident)

lemma UPPER_NAME3_ident: "gen UPPER_NAME3 w \<Longrightarrow> is_ident w"
  unfolding UPPER_NAME3_def seqs.simps gen.simps gen_cls gen_at_least_cls in_AZ in_upper_tail
  by (elim exE conjE) (simp add: upper_start_ident)

lemma upper_is_ident: "is_ident w \<Longrightarrow> is_ident (upper w)"
proof -
  assume w: "is_ident w"
  then have cs: "\<forall>c \<in> set w. ident_char c" by (simp add: is_ident_def)
  have "\<forall>c \<in> set (upper w). ident_char c"
    using upper_ident [OF cs] upper_ident_char_ident by blast
  moreover have "up1 c = c" if "is_digit (up1 c)" for c
    using that by (auto simp: up1_def is_lower_ascii_def is_digit_def between_def cp_char_of)
  ultimately show ?thesis using w upper_map [OF cs] by (auto simp: is_ident_def hd_map) metis
qed

lemma groups_IDENT [simp]: "groups IDENT = []" and groups_HEX [simp]: "groups HEX = []"
  and groups_UPPER_NAME [simp]: "groups UPPER_NAME = []" "groups UPPER_NAME3 = []"
  by (simp_all add: IDENT_def HEX_def UPPER_NAME_def UPPER_NAME3_def groups_seqs_Cons)

lemma groups_lits [simp]: "groups (alts (map lit ws)) = []"
  by (induction ws) (auto simp: groups_alts_Cons)

text \<open>The text of a group that every match of a pattern sets and that occurs once.\<close>

lemma start_group:
  assumes "re_match_at_start r s = Some m" "must r g" "\<And>b. (g, b) \<in> set (groups r) \<Longrightarrow> b = q"
  shows "gen q (grp m g)" "group m g = Some (grp m g)"
  using group_must [OF match_at_takes(3,5) [OF assms(1) [unfolded re_match_at_start_def]] assms(2)] assms(3)
  by metis+

lemma search_group:
  assumes "re_search r s = Some m" "must r g" "\<And>b. (g, b) \<in> set (groups r) \<Longrightarrow> b = q"
  shows "gen q (grp m g)" "group m g = Some (grp m g)"
  using group_must [OF re_search_takes(3,4) [OF assms(1)] assms(2)] assms(3) by metis+

lemma PLACEHOLDER_groups:
  assumes "re_search PLACEHOLDER_RE s = Some m"
  shows "gen digits_plus (grp m ''2'')" "gen digits_plus (grp m ''4'')"
  using search_group [OF assms, of "''2''"] search_group [OF assms, of "''4''"]
  by (simp_all add: PLACEHOLDER_RE_def groups_seqs_Cons must_seqs_Cons del: gen_plus_cls)

lemma SLICE_groups:
  assumes "re_match_at_start SLICE_RE s = Some m"
  shows "gen digits_plus (grp m ''lo'')" "gen digits_plus (grp m ''hi'')"
  using start_group [OF assms, of "''lo''"] start_group [OF assms, of "''hi''"]
  by (simp_all add: SLICE_RE_def groups_seqs_Cons must_seqs_Cons del: gen_plus_cls)

lemma SYSM_group:
  assumes "re_search SYSM_RE s = Some m"
  shows "gen digits_plus (grp m ''1'')"
  using search_group [OF assms, of "''1''"]
  by (simp add: SYSM_RE_def bits01_def groups_seqs_Cons must_seqs_Cons del: gen_plus_cls)

lemma CORE_NAME_group: "re_match_at_start CORE_NAME_RE s = Some m \<Longrightarrow> is_ident (grp m ''1'')"
  using start_group [of CORE_NAME_RE s m "''1''" IDENT]
  by (simp add: CORE_NAME_RE_def ncls_def groups_seqs_Cons must_seqs_Cons)

lemma FP_group: "re_match_at_start FP_RE s = Some m \<Longrightarrow> is_ident (grp m ''name'')"
  using start_group [of FP_RE s m "''name''" IDENT]
  by (simp add: FP_RE_def bits01_def groups_seqs_Cons must_seqs_Cons)

lemma PAREN_group: "re_search PAREN_NAME_RE s = Some m \<Longrightarrow> is_ident (grp m ''1'')"
  using search_group [of PAREN_NAME_RE s m "''1''" UPPER_NAME] UPPER_NAME_ident
  by (simp add: PAREN_NAME_RE_def groups_seqs_Cons must_seqs_Cons)

lemma ON_PAGE_group: "re_search ON_PAGE_RE s = Some m \<Longrightarrow> is_ident (grp m ''1'')"
  using search_group [of ON_PAGE_RE s m "''1''" UPPER_NAME3] UPPER_NAME3_ident
  by (simp add: ON_PAGE_RE_def groups_seqs_Cons must_seqs_Cons)

lemma LEAD_NAME_group: "re_match_at_start LEAD_NAME_RE s = Some m \<Longrightarrow> is_ident (grp m ''1'')"
  using start_group [of LEAD_NAME_RE s m "''1''" UPPER_NAME3] UPPER_NAME3_ident
  by (simp add: LEAD_NAME_RE_def groups_seqs_Cons must_seqs_Cons)

section \<open>The expansions never raise\<close>

lemma spread_total: "\<exists>xs. spread base a lo hi = Inr xs"
proof (cases "re_match_at_start ADDR_RE (strip a)")
  case (Some am)
  from addr_match [OF Some] obtain l where "py_int 16 (grp am ''1'') = Some l"
    and "\<And>h. group am ''2'' = Some h \<Longrightarrow> \<exists>hi. py_int 16 h = Some hi \<and> 0 \<le> hi" by metis
  with Some show ?thesis
    by (cases "group am ''2''") (fastforce simp: spread_def int_res_def Let_def)+
qed (simp add: spread_def)

lemma expand_placeholder_total: "\<exists>xs. expand_placeholder name desc a = Inr xs"
proof (cases "re_search PLACEHOLDER_RE desc")
  case (Some m)
  from PLACEHOLDER_groups [OF this] obtain x y where
    "py_int 10 (grp m ''2'') = Some x" "py_int 10 (grp m ''4'') = Some y"
    using digits_plus_int by meson
  with Some spread_total show ?thesis by (simp add: expand_placeholder_def int_res_def)
qed (simp add: expand_placeholder_def)

lemma expand_slice_total: "\<exists>xs. expand_slice name a = Inr xs"
proof (cases "re_match_at_start SLICE_RE (strip name)")
  case (Some m)
  from SLICE_groups [OF this] obtain x y where
    "py_int 10 (grp m ''lo'') = Some x" "py_int 10 (grp m ''hi'') = Some y"
    using digits_plus_int by meson
  with Some spread_total show ?thesis by (simp add: expand_slice_def int_res_def)
qed (simp add: expand_slice_def)

lemma rbind_total: "\<exists>x. m = Inr x \<Longrightarrow> (\<And>x. \<exists>y. f x = Inr y) \<Longrightarrow> \<exists>y. rbind m f = Inr y"
  by auto

lemma row_pairs_total: "\<exists>pairs. row_pairs name addr desc = Inr pairs \<and> pairs \<noteq> []"
proof -
  have "\<exists>pairs. row_pairs name addr desc = Inr pairs"
    unfolding row_pairs_def
    by (intro rbind_total) (auto simp: expand_slice_total expand_placeholder_total expand_range_eq)
  then obtain pairs where p: "row_pairs name addr desc = Inr pairs" by blast
  then have "pairs \<noteq> []" by (auto simp: row_pairs_def res_simps split: if_splits)
  with p show ?thesis by blast
qed

section \<open>The contract of a row parser\<close>

definition table_pages :: "pdf_table \<Rightarrow> nat set" where
  "table_pages t = fst ` set (raw_lines t) \<union> r_page ` set (rows t)"

definition rec_ok :: "nat set \<Rightarrow> raw_rec \<Rightarrow> bool" where
  "rec_ok ps r \<longleftrightarrow> rr_page r \<in> ps \<and> rr_reserved r = (rr_name r = None) \<and> rr_name r \<noteq> Some [] \<and>
     (rr_reserved r \<longrightarrow> rr_address r \<noteq> None)"

definition named_ok :: "raw_rec \<Rightarrow> bool" where
  "named_ok r \<longleftrightarrow> (\<forall>n. rr_name r = Some n \<longrightarrow> is_ident n)"

definition same_source :: "pdf_table \<Rightarrow> pdf_table \<Rightarrow> bool" where
  "same_source t' t \<longleftrightarrow> table_id t' = table_id t \<and> caption t' = caption t \<and>
     t_section t' = t_section t \<and> t_page t' = t_page t \<and> columns t' = columns t \<and>
     rows t' = rows t \<and> raw_lines t' = raw_lines t"

text \<open>
  What the importer relies on: a parser never raises, leaves the captured source as it was,
  takes pages from the table, and gives a name, never an empty one, to exactly the records
  that are not reserved.
\<close>

locale row_parser =
  fixes parse :: parser
  assumes total: "\<exists>rs t'. parse t = Inr (rs, t')"
    and frame: "parse t = Inr (rs, t') \<Longrightarrow> same_source t' t"
    and records: "parse t = Inr (rs, t') \<Longrightarrow> r \<in> set rs \<Longrightarrow> rec_ok (table_pages t) r"
begin

lemma reserved_iff: "parse t = Inr (rs, t') \<Longrightarrow> r \<in> set rs \<Longrightarrow> rr_reserved r \<longleftrightarrow> rr_name r = None"
  using records by (auto simp: rec_ok_def)

lemma unreserved_name:
  "parse t = Inr (rs, t') \<Longrightarrow> r \<in> set rs \<Longrightarrow> \<not> rr_reserved r \<Longrightarrow> \<exists>n. rr_name r = Some n \<and> n \<noteq> []"
  using records by (fastforce simp: rec_ok_def)

text \<open>The importer's test for an exclusion is the parser's own flag.\<close>

lemma excluded_iff:
  "parse t = Inr (rs, t') \<Longrightarrow> r \<in> set rs \<Longrightarrow>
     (rr_reserved r \<or> \<not> truthy (rr_name r)) \<longleftrightarrow> rr_reserved r"
  using records by (force simp: rec_ok_def truthy_def split: option.splits)

lemma same_label: "parse t = Inr (rs, t') \<Longrightarrow> label t' = label t"
  using frame by (auto simp: same_source_def label_def)

end

text \<open>A parser that also validates the names.\<close>

locale ident_parser = row_parser +
  assumes names: "parse t = Inr (rs, t') \<Longrightarrow> r \<in> set rs \<Longrightarrow> named_ok r"
begin

lemma unreserved_ident:
  "parse t = Inr (rs, t') \<Longrightarrow> r \<in> set rs \<Longrightarrow> \<not> rr_reserved r \<Longrightarrow>
     \<exists>n. rr_name r = Some n \<and> is_ident n"
  using unreserved_name names by (fastforce simp: named_ok_def)

end

lemma same_source_refl [simp]: "same_source t t"
  by (simp add: same_source_def)

lemma plain_rec_ok [simp]: "rec_ok ps (plain_rec n a ac rs d pg) \<longleftrightarrow> n \<noteq> [] \<and> pg \<in> ps"
  by (auto simp: rec_ok_def plain_rec_def)

lemma plain_rec_updates [simp]:
  "rec_ok ps (r\<lparr>rr_row := w\<rparr>) = rec_ok ps r" "rec_ok ps (r\<lparr>rr_alt := x\<rparr>) = rec_ok ps r"
  "rec_ok ps (r\<lparr>rr_sysm := y\<rparr>) = rec_ok ps r" "named_ok (r\<lparr>rr_row := w\<rparr>) = named_ok r"
  "named_ok (r\<lparr>rr_alt := x\<rparr>) = named_ok r" "named_ok (r\<lparr>rr_sysm := y\<rparr>) = named_ok r"
  by (simp_all add: rec_ok_def named_ok_def)

lemma plain_rec_named [simp]: "named_ok (plain_rec n a ac rs d pg) \<longleftrightarrow> is_ident n"
  by (simp add: named_ok_def plain_rec_def)

lemma reserved_rec_ok [simp]: "rec_ok ps (reserved_rec a ac d pg) \<longleftrightarrow> pg \<in> ps"
  "named_ok (reserved_rec a ac d pg)"
  by (auto simp: rec_ok_def named_ok_def reserved_rec_def)

lemma is_ident_nonempty: "is_ident n \<Longrightarrow> n \<noteq> []"
  by (simp add: is_ident_def)

lemma in_table_pages: "(pg, line) \<in> set (raw_lines t) \<Longrightarrow> pg \<in> table_pages t"
  "r \<in> set (rows t) \<Longrightarrow> r_page r \<in> table_pages t"
  by (force simp: table_pages_def)+

text \<open>A parser that maps lines or rows one by one meets the contract if each record does.\<close>

lemma filter_parser:
  assumes "\<And>t. parse t = Inr (filter_map f (src t), t)"
    and "\<And>t x r. x \<in> set (src t) \<Longrightarrow> f x = Some r \<Longrightarrow> rec_ok (table_pages t) r"
  shows "row_parser parse"
  using assms by unfold_locales (auto simp: set_filter_map)

lemma filter_ident_parser:
  assumes "\<And>t. parse t = Inr (filter_map f (src t), t)"
    and "\<And>t x r. x \<in> set (src t) \<Longrightarrow> f x = Some r \<Longrightarrow> rec_ok (table_pages t) r \<and> named_ok r"
  shows "ident_parser parse"
  using assms by unfold_locales (auto simp: set_filter_map)

lemma fp_line_ok: "(pg, line) \<in> set (raw_lines t) \<Longrightarrow> fp_line (pg, line) = Some r \<Longrightarrow>
    rec_ok (table_pages t) r \<and> named_ok r"
  by (auto simp: fp_line_def Let_def in_table_pages is_ident_nonempty dest!: FP_group
      split: option.splits if_splits)

lemma otn_line_ok: "(pg, line) \<in> set (raw_lines t) \<Longrightarrow> otn_line (pg, line) = Some r \<Longrightarrow>
    rec_ok (table_pages t) r \<and> named_ok r"
  by (auto simp: otn_line_def Let_def in_table_pages is_ident_nonempty dest!: PAREN_group
      split: option.splits if_splits)

lemma descname_line_ok: "(pg, line) \<in> set (raw_lines t) \<Longrightarrow> descname_line (pg, line) = Some r \<Longrightarrow>
    rec_ok (table_pages t) r \<and> named_ok r"
  by (auto simp: descname_line_def Let_def in_table_pages is_ident_nonempty
      dest!: ON_PAGE_group LEAD_NAME_group split: option.splits if_splits)

lemma ovn_row_ok: "r \<in> set (rows t) \<Longrightarrow> ovn_row r = Some x \<Longrightarrow> rec_ok (table_pages t) x \<and> named_ok x"
proof -
  have "is_ident w" if "fullmatches UPPER_NAME w" for w
  proof -
    have "plain UPPER_NAME" by (simp add: UPPER_NAME_def)
    with that show ?thesis by (simp add: fullmatches_gen UPPER_NAME_ident)
  qed
  then show "r \<in> set (rows t) \<Longrightarrow> ovn_row r = Some x \<Longrightarrow> rec_ok (table_pages t) x \<and> named_ok x"
    by (auto simp: ovn_row_def Let_def in_table_pages is_ident_nonempty split: if_splits)
qed

lemma arv_row_ok: "r \<in> set (rows t) \<Longrightarrow> arv_row r = Some x \<Longrightarrow> rec_ok (table_pages t) x"
  by (auto simp: arv_row_def Let_def in_table_pages split: if_splits option.splits)

interpretation fp_common_block: ident_parser parse_fp_common_block
  by (rule filter_ident_parser [OF parse_fp_common_block_def]) (use fp_line_ok in auto)

interpretation offset_type_name: ident_parser parse_offset_type_name
  by (rule filter_ident_parser [OF parse_offset_type_name_def]) (use otn_line_ok in auto)

interpretation offset_value_name: ident_parser parse_offset_value_name
  by (rule filter_ident_parser [OF parse_offset_value_name_def]) (use ovn_row_ok in auto)

interpretation addr_type_reset_descname: ident_parser parse_addr_type_reset_descname
  by (rule filter_ident_parser [OF parse_addr_type_reset_descname_def]) (use descname_line_ok in auto)

interpretation addr_register_value: row_parser parse_addr_register_value
  by (rule filter_parser [OF parse_addr_register_value_def]) (use arv_row_ok in auto)

lemma cri_lines_pages:
  "(names, see, pg) \<in> set (fold cri_line pls acc) \<Longrightarrow>
     pg \<in> fst ` set pls \<union> (\<lambda>(_, _, p). p) ` set acc"
proof (induction pls arbitrary: acc)
  case (Cons pl pls)
  obtain p line where pl: "pl = (p, line)" by (cases pl)
  have "(\<lambda>(_, _, p). p) ` set (cri_line pl acc) \<subseteq> insert p ((\<lambda>(_, _, p). p) ` set acc)"
  proof (cases "acc = []")
    case False
    then have "acc = butlast acc @ [last acc]" by simp
    then show ?thesis
      by (auto simp: pl cri_line_def Let_def split: list.splits prod.splits dest!: in_set_butlastD)
        (metis (no_types, lifting) case_prod_conv False image_eqI last_in_set)+
  qed (auto simp: pl cri_line_def Let_def split: list.splits)
  moreover have "pg \<in> fst ` set pls \<union> (\<lambda>(_, _, p). p) ` set (cri_line pl acc)"
    using Cons.IH [of "cri_line pl acc"] Cons.prems by simp
  ultimately show ?case using pl by auto
qed force

lemma cri_token_ok:
  "cri_token see pg tok = Some r \<Longrightarrow> pg \<in> ps \<Longrightarrow> rec_ok ps r \<and> named_ok r"
  by (auto simp: cri_token_def Let_def is_ident_nonempty dest!: CORE_NAME_group
      split: if_splits option.splits)

interpretation core_register_index: ident_parser parse_core_register_index
proof
  fix t t' rs r assume p: "parse_core_register_index t = Inr (rs, t')"
  then show "same_source t' t" by (simp add: parse_core_register_index_def)
  assume "r \<in> set rs"
  with p obtain names see pg tok where "(names, see, pg) \<in> set (fold cri_line (raw_lines t) [])"
    "cri_token see pg tok = Some r"
    by (auto simp: parse_core_register_index_def set_filter_map)
  moreover from this(1) have "pg \<in> table_pages t" using cri_lines_pages by (fastforce simp: table_pages_def)
  ultimately have "rec_ok (table_pages t) r \<and> named_ok r" using cri_token_ok by blast
  then show "rec_ok (table_pages t) r" and "named_ok r" by auto
qed (simp add: parse_core_register_index_def)

lemma sysm_line_ok: "(pg, line) \<in> set (raw_lines t) \<Longrightarrow>
    \<exists>rs. sysm_line (pg, line) = Inr rs \<and> (\<forall>r \<in> set rs. rec_ok (table_pages t) r \<and> named_ok r)"
proof -
  assume pl: "(pg, line) \<in> set (raw_lines t)"
  have "\<exists>n. py_int 10 (grp m ''1'') = Some n" if "re_search SYSM_RE line = Some m" for m
    using SYSM_group [OF that] digits_plus_int by blast
  with pl show ?thesis
    by (fastforce simp: sysm_line_def Let_def int_res_def in_table_pages is_ident_nonempty
        dest: upper_is_ident split: option.splits list.splits)
qed

lemma map_res_all:
  "(\<And>x. x \<in> set xs \<Longrightarrow> \<exists>y. f x = Inr y \<and> P y) \<Longrightarrow> \<exists>ys. map_res f xs = Inr ys \<and> (\<forall>y \<in> set ys. P y)"
proof (induction xs)
  case (Cons x xs)
  then obtain y ys where "f x = Inr y" "P y" "map_res f xs = Inr ys" "\<forall>y \<in> set ys. P y"
    by (meson list.set_intros)
  then show ?case by simp
qed simp

lemma uniq_names_subset: "set (uniq_names seen rs) \<subseteq> set rs"
  by (induction rs arbitrary: seen) auto

lemma uniq_names_fresh: "r \<in> set (uniq_names seen rs) \<Longrightarrow> rr_name r \<notin> set seen"
proof (induction rs arbitrary: seen)
  case (Cons a rs)
  then show ?case using Cons.IH [of seen] Cons.IH [of "rr_name a # seen"] by (auto split: if_splits)
qed simp

lemma uniq_names_distinct: "distinct (map rr_name (uniq_names seen rs))"
  by (induction rs arbitrary: seen) (auto dest: uniq_names_fresh)

lemma uniq_names_covers: "rr_name ` set (uniq_names seen rs) = rr_name ` set rs - set seen"
  by (induction rs arbitrary: seen) auto

lemma sysm_run:
  obtains rss where "map_res sysm_line (raw_lines t) = Inr rss"
    "parse_special_register_sysm t = Inr (uniq_names [] (concat rss), t)"
    "\<forall>rs \<in> set rss. \<forall>r \<in> set rs. rec_ok (table_pages t) r \<and> named_ok r"
proof -
  have "\<exists>rss. map_res sysm_line (raw_lines t) = Inr rss \<and>
      (\<forall>rs \<in> set rss. \<forall>r \<in> set rs. rec_ok (table_pages t) r \<and> named_ok r)"
    by (rule map_res_all) (use sysm_line_ok in auto)
  with that show ?thesis by (auto simp: parse_special_register_sysm_def)
qed

interpretation special_register_sysm: ident_parser parse_special_register_sysm
proof
  fix t
  show "\<exists>rs t'. parse_special_register_sysm t = Inr (rs, t')" by (rule sysm_run [of t]) blast
  fix t' rs r assume p: "parse_special_register_sysm t = Inr (rs, t')"
  then show "same_source t' t" by (rule_tac sysm_run [of t]) auto
  assume "r \<in> set rs"
  with p have "rec_ok (table_pages t) r \<and> named_ok r"
    by (rule_tac sysm_run [of t]) (use uniq_names_subset in fastforce)
  then show "rec_ok (table_pages t) r" and "named_ok r" by auto
qed

section \<open>Every row is accounted for\<close>

lemma den_seqs_Cons: "den (seqs (r # rs)) = den r OO den (seqs rs)"
  by (cases rs) (auto simp: OO_eq)

lemma matches_den: "matches r s \<longleftrightarrow> (\<exists>y. den r ([], s) y)"
  using matcher_complete [of r "[]" s "[]"]
  by (auto simp: matches_def re_match_at_start_def match_at_def)

text \<open>
  A row whose address or name does not end on its line: a dash stands before the gap, or the
  address cell ends in a dash or \<open>to\<close>.  Only such a row may take the line below as its tail.
\<close>

definition open_row :: "string \<Rightarrow> bool" where
  "open_row l \<longleftrightarrow>
     (\<exists>rm. re_match_at_start RESERVED_RE l = Some rm \<and> searches DASH_END_RE (grp rm ''addr'')) \<or>
     (\<exists>m. re_match_at_start ROW_RE l = Some m \<and> (wraps m (grp m ''addr'') \<or> truthy (group m ''ndash'')))"

text \<open>
  What one line adds: records of its own page, rejections, and at most one consumed line, which
  starts with an address and is one of the two lines below an unfinished row.  A row that was
  not consumed is answered by a record or a rejection, a consumed line by neither.
\<close>

definition taken_below :: "nat \<Rightarrow> string list \<Rightarrow> nat \<Rightarrow> bool" where
  "taken_below i below k \<longleftrightarrow>
     i < k \<and> k \<le> i + 2 \<and> k - Suc i < length below \<and> matches HEX_START_RE (below ! (k - Suc i))"

definition line_step ::
  "nat set \<Rightarrow> nat \<Rightarrow> nat \<Rightarrow> string \<Rightarrow> string list \<Rightarrow> anr_state \<Rightarrow> raw_rec list \<Rightarrow> anr_state \<Rightarrow> bool" where
  "line_step ps i pg line below st blk st' \<longleftrightarrow> a_out st' = a_out st @ blk \<and>
     (\<forall>r \<in> set blk. rec_ok ps r \<and> named_ok r \<and> rr_page r = pg) \<and>
     (\<exists>rj. a_rejected st' = a_rejected st @ rj \<and>
       (if i \<in> set (a_consumed st) then blk = [] \<and> rj = [] \<and> a_consumed st' = a_consumed st
        else (matches ROW_RE line \<longrightarrow> blk \<noteq> [] \<or> rj \<noteq> []) \<and>
          (a_consumed st' = a_consumed st \<or>
           (\<exists>k. a_consumed st' = List.insert k (a_consumed st) \<and> taken_below i below k \<and> open_row line \<and>
              (blk \<noteq> [] \<or> rj \<noteq> [])))))"

lemma plain_rec_page [simp]: "rr_page (plain_rec n a ac rs d pg) = pg"
  and reserved_rec_page [simp]: "rr_page (reserved_rec ad ac d pg) = pg"
  by (simp_all add: plain_rec_def reserved_rec_def)

lemma fold_add_pair:
  assumes "pg \<in> ps"
  shows "\<exists>blk rj. a_out (fold (add_pair pg line typ rst desc) pairs st) = a_out st @ blk \<and>
    a_rejected (fold (add_pair pg line typ rst desc) pairs st) = a_rejected st @ rj \<and>
    a_consumed (fold (add_pair pg line typ rst desc) pairs st) = a_consumed st \<and>
    (\<forall>r \<in> set blk. rec_ok ps r \<and> named_ok r \<and> rr_page r = pg) \<and> length blk + length rj = length pairs"
proof (induction pairs arbitrary: st)
  case (Cons pr pairs)
  let ?u = "add_pair pg line typ rst desc pr st"
  have "\<exists>blk rj. a_out ?u = a_out st @ blk \<and> a_rejected ?u = a_rejected st @ rj \<and> a_consumed ?u = a_consumed st \<and>
      (\<forall>r \<in> set blk. rec_ok ps r \<and> named_ok r \<and> rr_page r = pg) \<and> length blk + length rj = 1"
    using assms by (cases pr) (simp add: add_pair_def Let_def is_ident_nonempty)
  then obtain b r where u: "a_out ?u = a_out st @ b" "a_rejected ?u = a_rejected st @ r"
    "a_consumed ?u = a_consumed st" "\<forall>r \<in> set b. rec_ok ps r \<and> named_ok r \<and> rr_page r = pg"
    "length b + length r = 1" by blast
  from Cons.IH [of ?u] u show ?case by (fastforce intro: exI [of _ "b @ _"] exI [of _ "r @ _"])
qed simp

lemma absorb_cases: "absorb k ls c = c \<or>
    (\<exists>j < length ls. matches HEX_START_RE (ls ! j) \<and> absorb k ls c = List.insert (k + j) c)"
proof (induction k ls c rule: absorb.induct)
  case (2 k l ls c)
  then show ?case by (cases "matches HEX_START_RE l") (fastforce intro: exI [of _ "Suc _"])+
qed simp

lemma absorb_below: "absorb (Suc i) (take 2 below) c = c \<or>
    (\<exists>k. absorb (Suc i) (take 2 below) c = List.insert k c \<and> taken_below i below k)"
  using absorb_cases [of "Suc i" "take 2 below" c] by (fastforce simp: taken_below_def)

lemma hex_start_prefix:
  assumes "matches (seqs (RAsrt Bos # space_star # r # rs)) l" "\<And>x y. den r x y \<Longrightarrow> den HEX x y"
  shows "matches HEX_START_RE l"
  using assms unfolding matches_den HEX_START_RE_def den_seqs_Cons by fastforce

lemma join_tail_cases:
  assumes "join_tail i below addr name c = (addr', name', c')"
  shows "c' = c \<or> (c' = List.insert (Suc i) c \<and> taken_below i below (Suc i))"
proof (cases below)
  case (Cons l ls)
  have "matches HEX_START_RE l" if "re_match_at_start CONT_RE l = Some cm" for cm
    using that by (intro hex_start_prefix [of "RGrp ''addr'' HEX" "[at_least 2 (cls [Spc]), RGrp ''name'' IDENT, RAsrt Wb]"])
      (simp_all only: matches_def CONT_RE_def den.simps, simp)
  moreover have "matches HEX_START_RE l" if "matches HEX_LINE_RE l"
    using that unfolding HEX_LINE_RE_def by (rule hex_start_prefix)
  ultimately show ?thesis using assms Cons
    by (auto simp: join_tail_def taken_below_def split: option.splits if_splits)
qed (use assms in \<open>auto simp: join_tail_def\<close>)

text \<open>A reserved row, whether or not its continuation line is absorbed.\<close>

lemma reserved_step:
  assumes "pg \<in> ps" "i \<notin> set (a_consumed st)" "b \<Longrightarrow> open_row line"
    and "st1 = (if b then st\<lparr>a_consumed := absorb (Suc i) (take 2 below) (a_consumed st)\<rparr> else st)"
  shows "line_step ps i pg line below st [reserved_rec a ac d pg]
    (st1\<lparr>a_out := a_out st1 @ [reserved_rec a ac d pg]\<rparr>)"
  using assms absorb_below [of i below "a_consumed st"] by (auto simp: line_step_def)

lemma row_step:
  assumes "pg \<in> ps" "i \<notin> set (a_consumed st)"
    and c: "c = a_consumed st \<or> c = List.insert k (a_consumed st) \<and> taken_below i below k \<and> open_row line"
  shows "\<exists>st' blk. rbind (row_pairs name addr desc) (\<lambda>pairs.
      Inr (fold (add_pair pg line typ rst desc) pairs (st\<lparr>a_consumed := c\<rparr>))) = Inr st' \<and>
    line_step ps i pg line below st blk st'"
proof -
  obtain pairs where p: "row_pairs name addr desc = Inr pairs" "pairs \<noteq> []"
    using row_pairs_total by blast
  let ?st' = "fold (add_pair pg line typ rst desc) pairs (st\<lparr>a_consumed := c\<rparr>)"
  from fold_add_pair [OF assms(1), of line "typ" rst desc pairs "st\<lparr>a_consumed := c\<rparr>"] obtain blk rj where
    f: "a_out ?st' = a_out st @ blk" "a_rejected ?st' = a_rejected st @ rj" "a_consumed ?st' = c"
      "\<forall>r \<in> set blk. rec_ok ps r \<and> named_ok r \<and> rr_page r = pg" "length blk + length rj = length pairs" by auto
  have "blk \<noteq> [] \<or> rj \<noteq> []" using f(5) p(2) by auto
  then have "line_step ps i pg line below st blk ?st'" using f assms by (auto simp: line_step_def)
  with p(1) show ?thesis by auto
qed

lemma anr_line_step:
  assumes pg: "pg \<in> ps"
  shows "\<exists>st' blk. anr_line i pg line below st = Inr st' \<and> line_step ps i pg line below st blk st'"
proof (cases "i \<in> set (a_consumed st)")
  case True
  then show ?thesis by (intro exI [of _ st] exI [of _ "[]"]) (simp add: anr_line_def line_step_def)
next
  case i: False
  show ?thesis
  proof (cases "if contains line ''Reserved'' then re_match_at_start RESERVED_RE line else None")
    case (Some rm)
    then have "searches DASH_END_RE (grp rm ''addr'') \<Longrightarrow> open_row line"
      by (auto simp: open_row_def split: if_splits)
    from reserved_step [OF pg i this refl] show ?thesis
      using i Some by (simp only: anr_line_def option.case if_False Let_def) blast
  next
    case none: None
    show ?thesis
    proof (cases "re_match_at_start ROW_RE line")
      case None
      with i none show ?thesis
        by (intro exI [of _ st] exI [of _ "[]"]) (simp add: anr_line_def matches_def line_step_def)
    next
      case (Some m)
      show ?thesis
      proof (cases "strip (grp m ''name'') = ''-''")
        case True
        have "wraps m (grp m ''addr'') \<Longrightarrow> open_row line" using Some by (auto simp: open_row_def)
        from reserved_step [OF pg i this refl] show ?thesis using i none Some True
          by (simp only: anr_line_def option.case if_False if_True Let_def simp_thms) blast
      next
        case False
        let ?j = "if wraps m (grp m ''addr'') \<or> truthy (group m ''ndash'')
            then join_tail i below (grp m ''addr'') (grp m ''name'') (a_consumed st)
            else (grp m ''addr'', grp m ''name'', a_consumed st)"
        obtain addr name c where j: "?j = (addr, name, c)" by (cases ?j)
        then have "c = a_consumed st \<or> c = List.insert (Suc i) (a_consumed st) \<and> taken_below i below (Suc i) \<and> open_row line"
          using join_tail_cases [of i below] Some by (auto simp: open_row_def split: if_splits)
        with i none Some False j show ?thesis
          using row_step [OF pg i] by (simp only: anr_line_def option.case if_False Let_def prod.case)
      qed
    qed
  qed
qed

text \<open>
  The lines read so far, each with its block of records.  Unless a row was rejected, the rows
  that were not consumed have a block that is not empty, the consumed lines have none, and
  every consumed line has its own row just above it, unfinished and with records.
\<close>

definition rows_ok :: "(nat \<times> string) list \<Rightarrow> nat \<Rightarrow> nat set \<Rightarrow> raw_rec list list \<Rightarrow> (nat \<Rightarrow> nat) \<Rightarrow> bool" where
  "rows_ok ls n C blks owner \<longleftrightarrow>
     (\<forall>j < n. if j \<in> C then blks ! j = [] else matches ROW_RE (snd (ls ! j)) \<longrightarrow> blks ! j \<noteq> []) \<and>
     inj_on owner C \<and>
     (\<forall>k \<in> C. k < length ls \<and> matches HEX_START_RE (snd (ls ! k)) \<and> owner k < k \<and> k \<le> owner k + 2 \<and>
        owner k < n \<and> open_row (snd (ls ! owner k)) \<and> blks ! owner k \<noteq> [])"

definition anr_inv :: "nat set \<Rightarrow> (nat \<times> string) list \<Rightarrow> nat \<Rightarrow> anr_state \<Rightarrow> bool" where
  "anr_inv ps ls n st \<longleftrightarrow> (\<exists>blks. length blks = n \<and> a_out st = concat blks \<and>
     (\<forall>j < n. \<forall>r \<in> set (blks ! j). rec_ok ps r \<and> named_ok r \<and> rr_page r = fst (ls ! j)) \<and>
     (a_rejected st = [] \<longrightarrow> (\<exists>owner. rows_ok ls n (set (a_consumed st)) blks owner)))"

lemma rows_ok_step:
  assumes "rows_ok ls n (set (a_consumed st)) blks owner" "length blks = n" "n < length ls"
    and "line_step ps n pg (snd (ls ! n)) (map snd (drop (Suc n) ls)) st blk st'" "a_rejected st' = []"
  shows "\<exists>owner'. rows_ok ls (Suc n) (set (a_consumed st')) (blks @ [blk]) owner'"
proof (cases "set (a_consumed st') = set (a_consumed st)")
  case True
  with assms show ?thesis
    by (intro exI [of _ owner])
      (auto simp: rows_ok_def line_step_def nth_append less_Suc_eq split: if_splits)
next
  case False
  then obtain k where k: "set (a_consumed st') = insert k (set (a_consumed st))" "k \<notin> set (a_consumed st)"
    "taken_below n (map snd (drop (Suc n) ls)) k" "open_row (snd (ls ! n))" "n \<notin> set (a_consumed st)" "blk \<noteq> []"
  proof -
    from False have "a_consumed st' \<noteq> a_consumed st" by auto
    with assms(4,5) obtain k where "n \<notin> set (a_consumed st)" "a_consumed st' = List.insert k (a_consumed st)"
      "taken_below n (map snd (drop (Suc n) ls)) k" "open_row (snd (ls ! n))" "blk \<noteq> []"
      by (auto simp: line_step_def split: if_splits)
    moreover from this(2) False have "k \<notin> set (a_consumed st)" by (auto simp: insert_absorb)
    ultimately show thesis using that by simp
  qed
  have kl: "k < length ls" "matches HEX_START_RE (snd (ls ! k))" "n < k" "k \<le> n + 2"
    using k(3) by (auto simp: taken_below_def)
  have own: "\<forall>j \<in> set (a_consumed st). owner j < n" "inj_on owner (set (a_consumed st))"
    using assms(1) by (auto simp: rows_ok_def)
  from own have "n \<notin> owner ` set (a_consumed st)" by auto
  with own(2) have "inj_on (owner(k := n)) (insert k (set (a_consumed st)))"
    using k(2) by (auto simp: inj_on_insert inj_on_fun_updI)
  with assms(1-3) k kl show ?thesis
    by (intro exI [of _ "owner(k := n)"])
      (auto simp: rows_ok_def nth_append less_Suc_eq split: if_splits)
qed

lemma anr_inv_step:
  assumes "anr_inv ps ls n st" "n < length ls"
    and "line_step ps n (fst (ls ! n)) (snd (ls ! n)) (map snd (drop (Suc n) ls)) st blk st'"
  shows "anr_inv ps ls (Suc n) st'"
proof -
  from assms(1) obtain blks where b: "length blks = n" "a_out st = concat blks"
    "\<forall>j < n. \<forall>r \<in> set (blks ! j). rec_ok ps r \<and> named_ok r \<and> rr_page r = fst (ls ! j)"
    "a_rejected st = [] \<longrightarrow> (\<exists>owner. rows_ok ls n (set (a_consumed st)) blks owner)" by (auto simp: anr_inv_def)
  have "a_rejected st' = [] \<longrightarrow> a_rejected st = []" using assms(3) by (auto simp: line_step_def)
  with b(1,4) rows_ok_step [OF _ b(1) assms(2,3)]
  have "a_rejected st' = [] \<longrightarrow> (\<exists>owner. rows_ok ls (Suc n) (set (a_consumed st')) (blks @ [blk]) owner)" by blast
  with b(1-3) assms(3) show ?thesis unfolding anr_inv_def
    by (intro exI [of _ "blks @ [blk]"]) (auto simp: line_step_def nth_append less_Suc_eq)
qed

lemma anr_lines_inv:
  assumes "fst ` set ls \<subseteq> ps"
  shows "n \<le> length ls \<Longrightarrow> anr_inv ps ls n st \<Longrightarrow>
    \<exists>st'. anr_lines n (drop n ls) st = Inr st' \<and> anr_inv ps ls (length ls) st'"
proof (induction "length ls - n" arbitrary: n st)
  case (Suc d)
  then have n: "n < length ls" by simp
  have d: "drop n ls = (fst (ls ! n), snd (ls ! n)) # drop (Suc n) ls"
    using n by (simp add: Cons_nth_drop_Suc)
  have pg: "fst (ls ! n) \<in> ps" using assms n by auto
  from anr_line_step [OF pg] obtain u blk where
    u: "anr_line n (fst (ls ! n)) (snd (ls ! n)) (map snd (drop (Suc n) ls)) st = Inr u"
    "line_step ps n (fst (ls ! n)) (snd (ls ! n)) (map snd (drop (Suc n) ls)) st blk u" by blast
  have "d = length ls - Suc n" "Suc n \<le> length ls" using Suc(2) n by simp_all
  from Suc(1) [OF this anr_inv_step [OF Suc(4) n u(2)]] obtain st' where
    "anr_lines (Suc n) (drop (Suc n) ls) u = Inr st'" "anr_inv ps ls (length ls) st'" by blast
  with u(1) show ?case by (simp only: d anr_lines.simps rbind.simps) blast
qed simp

lemma anr_run:
  obtains st where "parse_addr_name_type_reset t =
      Inr (a_out st, t\<lparr>consumed_lines := a_consumed st, rejected_rows := a_rejected st\<rparr>)"
    "anr_inv (table_pages t) (raw_lines t) (length (raw_lines t)) st"
proof -
  let ?s0 = "\<lparr>a_out = [], a_consumed = [], a_rejected = []\<rparr>"
  have "fst ` set (raw_lines t) \<subseteq> table_pages t" by (auto simp: table_pages_def)
  moreover have "anr_inv (table_pages t) (raw_lines t) 0 ?s0" by (simp add: anr_inv_def rows_ok_def)
  ultimately obtain st where "anr_lines 0 (raw_lines t) ?s0 = Inr st"
    "anr_inv (table_pages t) (raw_lines t) (length (raw_lines t)) st"
    using anr_lines_inv [of "raw_lines t" "table_pages t" 0 ?s0] by auto
  with that show ?thesis by (simp add: parse_addr_name_type_reset_def)
qed

lemma anr_inv_records: "anr_inv ps ls n st \<Longrightarrow> r \<in> set (a_out st) \<Longrightarrow> rec_ok ps r \<and> named_ok r"
  by (clarsimp simp: anr_inv_def) (metis in_set_conv_nth)

interpretation addr_name_type_reset: ident_parser parse_addr_name_type_reset
proof
  fix t
  show "\<exists>rs t'. parse_addr_name_type_reset t = Inr (rs, t')" by (rule anr_run [of t]) blast
  fix t' rs r assume p: "parse_addr_name_type_reset t = Inr (rs, t')"
  then show "same_source t' t" by (rule_tac anr_run [of t]) (auto simp: same_source_def)
  assume "r \<in> set rs"
  with p have "rec_ok (table_pages t) r \<and> named_ok r"
    by (rule_tac anr_run [of t]) (use anr_inv_records in auto)
  then show "rec_ok (table_pages t) r" and "named_ok r" by auto
qed

text \<open>Every parser of the table meets the contract, and all but one validate the names.\<close>

lemma PROFILES_row_parser: "(k, parse) \<in> set PROFILES \<Longrightarrow> row_parser parse"
  unfolding PROFILES_def
  using fp_common_block.row_parser_axioms offset_type_name.row_parser_axioms
    offset_value_name.row_parser_axioms addr_type_reset_descname.row_parser_axioms
    addr_register_value.row_parser_axioms core_register_index.row_parser_axioms
    special_register_sysm.row_parser_axioms addr_name_type_reset.row_parser_axioms
  by auto

lemma PROFILES_ident_parser:
  "(k, parse) \<in> set PROFILES \<Longrightarrow> k \<noteq> ''addr_register_value'' \<Longrightarrow> ident_parser parse"
  unfolding PROFILES_def
  using fp_common_block.ident_parser_axioms offset_type_name.ident_parser_axioms
    offset_value_name.ident_parser_axioms addr_type_reset_descname.ident_parser_axioms
    core_register_index.ident_parser_axioms
    special_register_sysm.ident_parser_axioms addr_name_type_reset.ident_parser_axioms
  by auto

section \<open>A reserved row is a row\<close>








lemma plain_any [simp]: "plain any" and plain_at_least [simp]: "plain r \<Longrightarrow> plain (at_least k r)"
  by (simp_all add: any_def at_least_def list_all_iff)











section \<open>The balance of the parser\<close>


text \<open>Three lines of a trace-macrocell table: a wrapped array row, its tail, and a plain row.\<close>

definition sample_rows :: pdf_table where
  "sample_rows = (new_table ''C1-11'' ''ITM registers'' ''C1.7 ITM'' 9)\<lparr>raw_lines :=
     [(9, ''0xE0000000 -  ITM_STIMx  RW  -  Ports, ITM_STIM0-ITM_STIM1''), (9, ''0xE0000004''),
      (9, ''0xE0000E00  ITM_TER  RW  0x0  Enable'')]\<rparr>"

lemma sample_rows_run:
  "\<exists>rs t'. parse_addr_name_type_reset sample_rows = Inr (rs, t') \<and> unparsed_rows t' = [] \<and>
     map rr_name rs = [Some ''ITM_STIM0'', Some ''ITM_STIM1'', Some ''ITM_TER''] \<and> consumed_lines t' = [1]"
proof -
  have "map_sum id (\<lambda>(rs, t'). (map rr_name rs, unparsed_rows t', consumed_lines t'))
      (parse_addr_name_type_reset sample_rows) =
    Inr ([Some ''ITM_STIM0'', Some ''ITM_STIM1'', Some ''ITM_TER''], [], [1])" by code_simp
  then show ?thesis
    by (cases "parse_addr_name_type_reset sample_rows") (auto split: prod.splits)
qed


text \<open>
  C10. Every parser of the table of profiles meets one contract: it never raises, it leaves the
  captured source of the table untouched, and it marks a record as reserved exactly when the
  record has no name; a named record has a name that is not empty, and its page is a page of
  the table.
\<close>

theorem profiles_contract:
  assumes "(k, parse) \<in> set PROFILES"
  shows "\<exists>rs t'. parse t = Inr (rs, t') \<and> same_source t' t \<and> (\<forall>r \<in> set rs. rec_ok (table_pages t) r)"
  using row_parser.total [OF PROFILES_row_parser [OF assms], of t]
    row_parser.frame [OF PROFILES_row_parser [OF assms]]
    row_parser.records [OF PROFILES_row_parser [OF assms]] by blast

theorem profiles_contract_witness:
  "\<exists>rs t'. parse_fp_common_block sample_rows = Inr (rs, t') \<and> same_source t' sample_rows \<and>
     (\<forall>r \<in> set rs. rec_ok (table_pages sample_rows) r)"
  by (rule profiles_contract [of "''fp_common_block''"]) (simp add: PROFILES_def)

text \<open>
  Every parser but the one for identification values yields C identifiers only: the name of
  each record that is not reserved is a letter or underscore followed by letters, digits and
  underscores.
\<close>

theorem profiles_identifiers:
  assumes "(k, parse) \<in> set PROFILES" "k \<noteq> ''addr_register_value''"
    and "parse t = Inr (rs, t')" "r \<in> set rs" "\<not> rr_reserved r"
  shows "\<exists>n. rr_name r = Some n \<and> is_ident n"
  using ident_parser.unreserved_ident [OF PROFILES_ident_parser [OF assms(1,2)] assms(3-5)] .

theorem profiles_identifiers_witness:
  "\<exists>rs t' r. parse_addr_name_type_reset sample_rows = Inr (rs, t') \<and> r \<in> set rs \<and>
     (\<exists>n. rr_name r = Some n \<and> is_ident n)"
proof -
  obtain rs t' where run: "parse_addr_name_type_reset sample_rows = Inr (rs, t')"
    and names: "map rr_name rs = [Some ''ITM_STIM0'', Some ''ITM_STIM1'', Some ''ITM_TER'']"
    using sample_rows_run by (elim exE conjE) (rule that)
  have "Some ''ITM_TER'' \<in> set (map rr_name rs)" by (simp only: names) simp
  then obtain r where r: "r \<in> set rs" "rr_name r = Some ''ITM_TER''" by auto
  have p: "(''addr_name_type_reset'', parse_addr_name_type_reset) \<in> set PROFILES"
    by (simp add: PROFILES_def)
  have "\<not> rr_reserved r" using addr_name_type_reset.reserved_iff [OF run r(1)] r(2) by simp
  from profiles_identifiers [OF p _ run r(1) this] run r show ?thesis by auto
qed

lemma map_res_concat:
  "map_res f xs = Inr yss \<Longrightarrow> r \<in> set (concat yss) \<longleftrightarrow> (\<exists>l \<in> set xs. \<exists>ys. f l = Inr ys \<and> r \<in> set ys)"
proof (induction xs arbitrary: yss)
  case (Cons x xs)
  then obtain y zs where "yss = y # zs" "f x = Inr y" "map_res f xs = Inr zs" by (auto simp: res_simps)
  with Cons.IH [of zs] show ?case by auto
qed simp

text \<open>
  The parser of the special-register table reports every register once: the names are
  pairwise distinct, and they are exactly the names that the lines of the table carry.
\<close>

theorem sysm_names_once:
  "\<exists>rs. parse_special_register_sysm t = Inr (rs, t) \<and> distinct (map rr_name rs) \<and>
     rr_name ` set rs = {rr_name r |r ls l. l \<in> set (raw_lines t) \<and> sysm_line l = Inr ls \<and> r \<in> set ls}"
proof -
  obtain rss where m: "map_res sysm_line (raw_lines t) = Inr rss"
    and p: "parse_special_register_sysm t = Inr (uniq_names [] (concat rss), t)"
    by (rule sysm_run)
  have "r \<in> set (concat rss) \<longleftrightarrow> (\<exists>ls l. l \<in> set (raw_lines t) \<and> sysm_line l = Inr ls \<and> r \<in> set ls)" for r
    using map_res_concat [OF m, of r] by blast
  then have "rr_name ` set (concat rss) =
      {rr_name r |r ls l. l \<in> set (raw_lines t) \<and> sysm_line l = Inr ls \<and> r \<in> set ls}" by blast
  then show ?thesis
    using p uniq_names_covers [of "[]" "concat rss"] uniq_names_distinct [of "[]" "concat rss"] by simp
qed

text \<open>
  The check for unparsed rows does not see a row that follows a wrapped row whose tail is
  missing: the row is taken for the tail, consumed and dropped.
\<close>

theorem wrapped_row_swallows_next:
  "\<exists>rs t'. parse_addr_name_type_reset (sample_rows\<lparr>raw_lines :=
       [(9, ''0xE0000000 -  ITM_A  RW''), (9, ''0xE0000E00 - 0xE0000E04  TER0 - TER1  RW'')]\<rparr>) = Inr (rs, t') \<and>
     map rr_name rs = [Some ''ITM_A''] \<and> unparsed_rows t' = []"
proof -
  have "map_sum id (\<lambda>(rs, t'). (map rr_name rs, unparsed_rows t'))
      (parse_addr_name_type_reset (sample_rows\<lparr>raw_lines :=
       [(9, ''0xE0000000 -  ITM_A  RW''), (9, ''0xE0000E00 - 0xE0000E04  TER0 - TER1  RW'')]\<rparr>)) =
    Inr ([Some ''ITM_A''], [])" by code_simp
  then show ?thesis by (cases "parse_addr_name_type_reset (sample_rows\<lparr>raw_lines :=
       [(9, ''0xE0000000 -  ITM_A  RW''), (9, ''0xE0000E00 - 0xE0000E04  TER0 - TER1  RW'')]\<rparr>)")
      (auto split: prod.splits)
qed

end
