(* ===== verification/Sources.thy ===== *)
theory Sources
  imports StateModel
begin

text \<open>
  \<open>tools/state/sources.py\<close>: the pinned documents.  The machine (its files, the environment
  variable, the expansion of \<open>~\<close> and the SHA-256 function) is a record that every function
  takes; the lock file is the document \<open>yaml.safe_load\<close> makes of it.  A file content is the
  list of its bytes.
\<close>

section \<open>Paths\<close>

text \<open>A \<open>pathlib\<close> path: whether it is absolute, and its components.\<close>

record ppath =
  is_absolute :: bool
  parts :: "string list"

definition path_of :: "string \<Rightarrow> ppath" where
  "path_of s =
     \<lparr>is_absolute = starts_with s ''/'',
      parts = filter (\<lambda>c. c \<noteq> [] \<and> c \<noteq> ''.'') (split_ch (CHR ''/'') s)\<rparr>"

definition path_name :: "ppath \<Rightarrow> string" where
  "path_name p = (if parts p = [] then [] else last (parts p))"

definition path_join :: "ppath \<Rightarrow> ppath \<Rightarrow> ppath" where
  "path_join a b =
     (if is_absolute b then b else \<lparr>is_absolute = is_absolute a, parts = parts a @ parts b\<rparr>)"

definition path_str :: "ppath \<Rightarrow> string" where
  "path_str p =
     (if is_absolute p then ''/'' @ join ''/'' (parts p)
      else if parts p = [] then ''.'' else join ''/'' (parts p))"

record machine =
  mc_files :: "ppath \<Rightarrow> string option"
  mc_source_dir :: "string option"
  mc_expand :: "ppath \<Rightarrow> ppath"
  mc_sha256 :: "string \<Rightarrow> string"
  mc_root :: ppath

section \<open>Sources\<close>

record source =
  s_key :: string
  s_kind :: string
  s_document :: string
  s_revision :: string
  s_title :: string
  s_architecture :: string
  s_sha256 :: string
  s_path :: string
  s_bytes :: "int option"
  s_pages :: "int option"
  s_product_revision :: "string option"
  s_acquired :: "string option"
  s_redistributable :: bool
  s_url :: "string option"
  s_notes :: "string option"

definition SOURCE_DIR_ENV :: string where "SOURCE_DIR_ENV = ''HW_SPEC_SOURCE_DIR''"

definition candidates :: "machine \<Rightarrow> source \<Rightarrow> ppath list" where
  "candidates mc s =
     (let p = mc_expand mc (path_of (s_path s))
      in (case mc_source_dir mc of
            None \<Rightarrow> []
          | Some dir \<Rightarrow>
              (if dir = [] then []
               else [path_join (mc_expand mc (path_of dir)) (path_of (path_name (path_of (s_path s))))])) @
         [if is_absolute p then p else path_join (mc_root mc) p])"

definition is_file :: "machine \<Rightarrow> ppath \<Rightarrow> bool" where
  "is_file mc p = (mc_files mc p \<noteq> None)"

definition nl :: string where "nl = [CHR 0x0A]"

definition resolve :: "machine \<Rightarrow> source \<Rightarrow> ppath res" where
  "resolve mc s =
     (let cs = candidates mc s in
      case find (is_file mc) cs of
        Some c \<Rightarrow> Inr c
      | None \<Rightarrow> Inl (SourceError
          (''Source '' @ [CHR 0x27] @ s_key s @ [CHR 0x27] @ '' ('' @ s_document s @ '' '' @ s_revision s @
           '') not found.'' @ nl @ ''  Looked in: '' @ join '', '' (map path_str cs) @ nl @
           ''  This is licensed material that is not redistributed with the repo.'' @ nl @
           ''  Obtain a legitimate copy and either place it at the locked path or'' @ nl @
           ''  set '' @ SOURCE_DIR_ENV @ '' to the directory holding it.'')))"

text \<open>Reading a file in chunks, feeding the digest and counting the bytes.\<close>

function chunks :: "nat \<Rightarrow> string \<Rightarrow> string list" where
  "chunks n bs = (if bs = [] \<or> n = 0 then [] else take n bs # chunks n (drop n bs))"
  by pat_completeness auto
termination by (relation "measure (\<lambda>(n, bs). length bs)") auto

declare chunks.simps [simp del]

definition digest_file :: "nat \<Rightarrow> string \<Rightarrow> string \<times> nat" where
  "digest_file n bs =
     foldl (\<lambda>(fed, size) chunk. (fed @ chunk, size + length chunk)) ([], 0) (chunks n bs)"

definition CHUNK :: nat where "CHUNK = 1048576"

definition verify :: "machine \<Rightarrow> source \<Rightarrow> ppath res" where
  "verify mc s =
     rbind (resolve mc s) (\<lambda>path.
     rbind (require (path_str path) (mc_files mc path)) (\<lambda>content.
     (let (fed, size) = digest_file CHUNK content;
          actual = mc_sha256 mc fed
      in if actual \<noteq> s_sha256 s then
           Inl (SourceError
             (''Source '' @ [CHR 0x27] @ s_key s @ [CHR 0x27] @ '' does not match the pin.'' @ nl @
              ''  Document: '' @ s_document s @ '' '' @ s_revision s @ nl @
              ''  Path:     '' @ path_str path @ nl @
              ''  Expected: '' @ s_sha256 s @ nl @
              ''  Actual:   '' @ actual @ nl @
              ''  Refusing to build a state database from an unpinned document.''))
         else if (case s_bytes s of Some b \<Rightarrow> int size \<noteq> b | None \<Rightarrow> False) then
           Inl (SourceError (''Source '' @ [CHR 0x27] @ s_key s @ [CHR 0x27] @ '' size '' @ str_nat size @
             '' != locked '' @ str_int (or_else (s_bytes s) 0) @ ''.''))
         else Inr path)))"

section \<open>The lock\<close>

text \<open>
  An entry of the lock: the fields of \<open>Source\<close> that it gives, and the names of its keys that
  are no field.
\<close>

record raw_source =
  raw_key :: "string option"
  raw_kind :: "string option"
  raw_document :: "string option"
  raw_revision :: "string option"
  raw_title :: "string option"
  raw_architecture :: "string option"
  raw_sha256 :: "string option"
  raw_path :: "string option"
  raw_bytes :: "int option"
  raw_pages :: "int option"
  raw_product_revision :: "string option"
  raw_acquired :: "string option"
  raw_redistributable :: "bool option"
  raw_url :: "string option"
  raw_notes :: "string option"
  raw_unknown :: "string list"

record lock_doc =
  lk_version :: "int option"
  lk_sources :: "(string \<times> raw_source) list"

definition SUPPORTED_LOCK_SCHEMA_VERSIONS :: "int list" where
  "SUPPORTED_LOCK_SCHEMA_VERSIONS = [1]"

text \<open>A mandatory argument of the constructor: \<open>TypeError\<close> if it is missing.\<close>

definition argument :: "string \<Rightarrow> 'a option \<Rightarrow> 'a res" where
  "argument k v = (case v of Some x \<Rightarrow> Inr x | None \<Rightarrow> Inl (TypeError k))"

text \<open>\<open>Source(key=key, **raw)\<close>: also a \<open>TypeError\<close> if the entry itself has a \<open>key\<close>.\<close>

definition make_source :: "string \<Rightarrow> raw_source \<Rightarrow> source res" where
  "make_source key raw =
     (if raw_key raw \<noteq> None then Inl (TypeError ''key'')
      else
        rbind (argument ''kind'' (raw_kind raw)) (\<lambda>kind.
        rbind (argument ''document'' (raw_document raw)) (\<lambda>document.
        rbind (argument ''revision'' (raw_revision raw)) (\<lambda>revision.
        rbind (argument ''title'' (raw_title raw)) (\<lambda>title.
        rbind (argument ''architecture'' (raw_architecture raw)) (\<lambda>arch.
        rbind (argument ''sha256'' (raw_sha256 raw)) (\<lambda>sha256.
        rbind (argument ''path'' (raw_path raw)) (\<lambda>path.
          Inr \<lparr>s_key = key, s_kind = kind, s_document = document, s_revision = revision,
               s_title = title, s_architecture = arch, s_sha256 = sha256, s_path = path,
               s_bytes = raw_bytes raw, s_pages = raw_pages raw,
               s_product_revision = raw_product_revision raw, s_acquired = raw_acquired raw,
               s_redistributable = or_else (raw_redistributable raw) False,
               s_url = raw_url raw, s_notes = raw_notes raw\<rparr>))))))))"

definition add_source :: "string \<times> raw_source \<Rightarrow> (string \<times> source) list \<Rightarrow> (string \<times> source) list res" where
  "add_source kr srcs =
     (case kr of (key, raw) \<Rightarrow>
        (if raw_unknown raw \<noteq> [] then
           Inl (SourceError (''Source '' @ [CHR 0x27] @ key @ [CHR 0x27] @ '' has unknown keys: '' @
             repr_list (py_sorted (raw_unknown raw))))
         else rbind (make_source key raw) (\<lambda>s. Inr (dict_set srcs key s))))"

definition load_sources :: "string \<Rightarrow> lock_doc option \<Rightarrow> (string \<times> source) list res" where
  "load_sources lock_path lock =
     (case lock of
        None \<Rightarrow> Inl (SourceError (''No source lock at '' @ lock_path @ ''.''))
      | Some data \<Rightarrow>
          (if \<not> (case lk_version data of None \<Rightarrow> False
                | Some v \<Rightarrow> v \<in> set SUPPORTED_LOCK_SCHEMA_VERSIONS)
           then Inl (SourceError
             (''Source lock schema version '' @
              (case lk_version data of None \<Rightarrow> ''None'' | Some v \<Rightarrow> str_int v) @
              '' is not supported by this importer (known: [1]).'' @ nl @
              ''  The importer has not been reviewed for this version. Review it '' @
              ''rather than generating a possibly incomplete state table.''))
           else
             rbind (fold_res add_source (lk_sources data) []) (\<lambda>srcs.
               if srcs = [] then Inl (SourceError (''Source lock '' @ lock_path @ '' pins no sources.'')) else Inr srcs)))"

definition get_source :: "string \<Rightarrow> lock_doc option \<Rightarrow> string \<Rightarrow> source res" where
  "get_source lock_path lock key =
     rbind (load_sources lock_path lock) (\<lambda>srcs.
       case dict_get srcs key of
         None \<Rightarrow> Inl (SourceError (''No source pinned under key '' @ [CHR 0x27] @ key @ [CHR 0x27] @
           ''. Pinned: '' @ repr_list (py_sorted (map fst srcs))))
       | Some s \<Rightarrow> Inr s)"

section \<open>What a verified path is\<close>

lemma digest_file_fold:
  "0 < n \<Longrightarrow> foldl (\<lambda>(fed, size) chunk. (fed @ chunk, size + length chunk)) (f, k) (chunks n bs) =
     (f @ bs, k + length bs)"
proof (induction n bs arbitrary: f k rule: chunks.induct)
  case (1 n bs)
  show ?case
  proof (cases "bs = []")
    case True
    then show ?thesis by (subst chunks.simps) simp
  next
    case False
    with "1.prems" have "foldl (\<lambda>(fed, size) chunk. (fed @ chunk, size + length chunk)) (f, k) (chunks n bs) =
        foldl (\<lambda>(fed, size) chunk. (fed @ chunk, size + length chunk))
          (f @ take n bs, k + length (take n bs)) (chunks n (drop n bs))"
      by (subst chunks.simps) simp
    also have "\<dots> = (f @ bs, k + length bs)"
      using "1.IH" "1.prems" False by simp
    finally show ?thesis .
  qed
qed

lemma digest_file_whole: "0 < n \<Longrightarrow> digest_file n bs = (bs, length bs)"
  using digest_file_fold [of n "[]" 0 bs] by (simp add: digest_file_def)

lemma resolve_Inr: "resolve mc s = Inr p \<longleftrightarrow> find (is_file mc) (candidates mc s) = Some p"
  by (simp add: resolve_def Let_def split: option.split)

lemma verify_Inr:
  "verify mc s = Inr p \<longleftrightarrow> resolve mc s = Inr p \<and> (\<exists>content. mc_files mc p = Some content \<and>
     mc_sha256 mc content = s_sha256 s \<and> s_bytes s \<in> {None, Some (int (length content))})"
proof -
  have d: "digest_file CHUNK c = (c, length c)" for c by (rule digest_file_whole) (simp add: CHUNK_def)
  show ?thesis by (cases "s_bytes s") (auto simp: verify_def res_simps d Let_def split: if_splits)
qed

text \<open>
  C11. A document is accepted exactly when the first existing candidate path holds the pinned
  bytes: the SHA-256 of its whole content, read chunk by chunk, is the one in the lock, and
  its size is the locked one if the lock gives a size.
\<close>

theorem verify_iff:
  "verify mc s = Inr p \<longleftrightarrow>
     find (\<lambda>c. mc_files mc c \<noteq> None) (candidates mc s) = Some p \<and>
     (\<exists>content. mc_files mc p = Some content \<and> mc_sha256 mc content = s_sha256 s \<and>
        s_bytes s \<in> {None, Some (int (length content))})"
proof -
  have f: "is_file mc = (\<lambda>c. mc_files mc c \<noteq> None)" by (rule ext) (simp add: is_file_def)
  show ?thesis by (simp only: verify_Inr resolve_Inr f)
qed

text \<open>
  The override directory wins: when it holds a file of the document's name, that file is
  the one checked, and a mismatch there is an error even if the locked path holds the right
  bytes.
\<close>

theorem verify_override_first:
  assumes "mc_source_dir mc = Some dir" "dir \<noteq> []"
    and "q = path_join (mc_expand mc (path_of dir)) (path_of (path_name (path_of (s_path s))))"
    and "mc_files mc q = Some content"
    and "mc_sha256 mc content \<noteq> s_sha256 s"
  shows "resolve mc s = Inr q \<and> (\<exists>msg. verify mc s = Inl (SourceError msg))"
proof -
  have d: "digest_file CHUNK c = (c, length c)" for c by (rule digest_file_whole) (simp add: CHUNK_def)
  have c: "candidates mc s = q # tl (candidates mc s)"
    using assms(1-3) by (simp add: candidates_def Let_def)
  have "is_file mc q" using assms(4) by (simp add: is_file_def)
  with c have "find (is_file mc) (candidates mc s) = Some q" by (metis find.simps(2))
  then have r: "resolve mc s = Inr q" by (simp add: resolve_Inr)
  with assms(4,5) show ?thesis by (simp add: verify_def d Let_def)
qed

text \<open>A machine with a wrong copy in the override directory and the right one at the locked path.\<close>

definition sample_source :: source where
  "sample_source = \<lparr>s_key = ''m4'', s_kind = ''pdf'', s_document = ''DDI0403'', s_revision = ''E.e'',
     s_title = ''ARMv7-M'', s_architecture = ''armv7m'', s_sha256 = ''PDF'', s_path = ''docs/m.pdf'',
     s_bytes = Some 7, s_pages = None, s_product_revision = None, s_acquired = None,
     s_redistributable = False, s_url = None, s_notes = None\<rparr>"

definition sample_machine :: "string option \<Rightarrow> machine" where
  "sample_machine dir = \<lparr>mc_files = (\<lambda>p. if p = path_of ''/repo/docs/m.pdf'' then Some ''PDF-1.4''
       else if p = path_of ''/ci/m.pdf'' then Some ''HTML'' else None),
     mc_source_dir = dir, mc_expand = id, mc_sha256 = take 3, mc_root = path_of ''/repo''\<rparr>"

theorem verify_override_first_witness:
  "resolve (sample_machine (Some ''/ci'')) sample_source = Inr (path_of ''/ci/m.pdf'') \<and>
   verify (sample_machine None) sample_source = Inr (path_of ''/repo/docs/m.pdf'') \<and>
   (\<exists>msg. verify (sample_machine (Some ''/ci'')) sample_source = Inl (SourceError msg))"
proof -
  have 1: "mc_source_dir (sample_machine (Some ''/ci'')) = Some ''/ci''" by (simp add: sample_machine_def)
  have 2: "path_of ''/ci/m.pdf'' = path_join (mc_expand (sample_machine (Some ''/ci'')) (path_of ''/ci''))
      (path_of (path_name (path_of (s_path sample_source))))" by (simp add: sample_machine_def) code_simp
  have 3: "mc_files (sample_machine (Some ''/ci'')) (path_of ''/ci/m.pdf'') = Some ''HTML''" by code_simp
  have 4: "mc_sha256 (sample_machine (Some ''/ci'')) ''HTML'' \<noteq> s_sha256 sample_source" by code_simp
  have "verify (sample_machine None) sample_source = Inr (path_of ''/repo/docs/m.pdf'')" 
    unfolding verify_Inr by (intro conjI exI [of _ "''PDF-1.4''"]) code_simp+
  with verify_override_first [OF 1 _ 2 3 4] show ?thesis by simp
qed

section \<open>What a loaded lock is\<close>

lemma argument_Inr [res_simps]: "argument k v = Inr x \<longleftrightarrow> v = Some x"
  by (simp add: argument_def split: option.split)

lemma add_source_Inr:
  "add_source (key, raw) srcs = Inr srcs' \<longleftrightarrow>
     raw_unknown raw = [] \<and> (\<exists>s. make_source key raw = Inr s \<and> srcs' = dict_set srcs key s)"
  by (auto simp: add_source_def res_simps)

lemma make_source_key: "make_source key raw = Inr s \<Longrightarrow> s_key s = key"
  by (auto simp: make_source_def res_simps split: if_splits)

lemma load_fold:
  "fold_res add_source es srcs = Inr srcs' \<Longrightarrow> distinct (map fst es) \<Longrightarrow>
     (\<forall>(key, raw) \<in> set es. raw_unknown raw = [] \<and> (\<exists>s. make_source key raw = Inr s \<and> dict_get srcs' key = Some s)) \<and>
     (\<forall>k. k \<notin> fst ` set es \<longrightarrow> dict_get srcs' k = dict_get srcs k)"
proof (induction es arbitrary: srcs)
  case (Cons e es)
  obtain key raw where e: "e = (key, raw)" by (cases e)
  with Cons.prems(1) obtain s where s: "raw_unknown raw = []" "make_source key raw = Inr s"
    "fold_res add_source es (dict_set srcs key s) = Inr srcs'"
    by (auto simp: res_simps add_source_Inr)
  from Cons.IH [OF s(3)] Cons.prems(2) e have
    IH: "\<forall>(key, raw) \<in> set es. raw_unknown raw = [] \<and> (\<exists>s. make_source key raw = Inr s \<and> dict_get srcs' key = Some s)"
    "\<forall>k. k \<notin> fst ` set es \<longrightarrow> dict_get srcs' k = dict_get (dict_set srcs key s) k" by auto
  moreover have "key \<notin> fst ` set es" using Cons.prems(2) e by simp
  ultimately show ?case using s(1,2) e by auto
qed simp

text \<open>
  A lock that loads has the supported schema version and pins something; no entry has a key
  the code does not know; and asking for a pinned key gives the source its entry describes,
  under its own key.
\<close>

theorem get_source_sound:
  assumes "get_source lock_path (Some data) key = Inr s" "distinct (map fst (lk_sources data))"
  shows "lk_version data = Some 1 \<and> s_key s = key \<and>
    (\<exists>raw. (key, raw) \<in> set (lk_sources data) \<and> make_source key raw = Inr s \<and> raw_unknown raw = [])"
proof -
  obtain srcs where ld: "load_sources lock_path (Some data) = Inr srcs" and g: "dict_get srcs key = Some s"
    using assms(1) by (auto simp: get_source_def res_simps split: option.splits)
  have ver: "lk_version data = Some 1"
    and f: "fold_res add_source (lk_sources data) [] = Inr srcs"
    using ld by (auto simp: load_sources_def SUPPORTED_LOCK_SCHEMA_VERSIONS_def res_simps
        split: if_splits option.splits)
  note all = load_fold [OF f assms(2)]
  have "key \<in> fst ` set (lk_sources data)" using all g by (cases "key \<in> fst ` set (lk_sources data)") auto
  then obtain raw where raw: "(key, raw) \<in> set (lk_sources data)" by auto
  with all g have m: "make_source key raw = Inr s" and u: "raw_unknown raw = []" by auto
  from m u raw ver make_source_key [OF m] show ?thesis by blast
qed

definition sample_lock :: lock_doc where
  "sample_lock = \<lparr>lk_version = Some 1, lk_sources = [(''m4'', \<lparr>raw_key = None, raw_kind = Some ''pdf'',
     raw_document = Some ''DDI0403'', raw_revision = Some ''E.e'', raw_title = Some ''ARMv7-M'',
     raw_architecture = Some ''armv7m'', raw_sha256 = Some ''PDF'', raw_path = Some ''docs/m.pdf'',
     raw_bytes = Some 7, raw_pages = None, raw_product_revision = None, raw_acquired = None,
     raw_redistributable = None, raw_url = None, raw_notes = None, raw_unknown = []\<rparr>)]\<rparr>"

theorem get_source_sound_witness:
  "get_source ''lock.yaml'' (Some sample_lock) ''m4'' = Inr sample_source \<and>
   (\<exists>raw. (''m4'', raw) \<in> set (lk_sources sample_lock) \<and> make_source ''m4'' raw = Inr sample_source)"
proof -
  have g: "get_source ''lock.yaml'' (Some sample_lock) ''m4'' = Inr sample_source" by code_simp
  have d: "distinct (map fst (lk_sources sample_lock))" by (simp add: sample_lock_def)
  from get_source_sound [OF g d] g show ?thesis by blast
qed

end
