(* ===== verification/Importer.thy ===== *)
theory Importer
  imports Profiles Sources
begin

text \<open>
  \<open>tools/state/importer.py\<close>: from the reviewed rules of a target, its pinned document and the
  row parsers to the list of state entries with its report.  The YAML rule files are records
  with one optional field per key the code reads; the text of the document, which
  \<open>pdftotext\<close> produces, is a function of the verified path.
\<close>

section \<open>Rule files\<close>

record rule =
  ru_keep :: bool
  ru_profile :: "string option"
  ru_namespace :: "string option"
  ru_caption :: "string option"
  ru_feature :: "string option"
  ru_classification :: "string option"
  ru_classification_reason :: "string option"
  ru_component :: "string option"

record rules_doc =
  rd_source :: "string option"
  rd_architecture :: "string option"
  rd_tables :: "(string \<times> rule) list option"
  rd_crosscheck :: "string list option"

text \<open>
  One register of the classification rules.  \<open>ov_requires\<close> tells an absent key from a null
  one, and \<open>ov_other\<close> says that the entry has keys which are not read here.
\<close>

record override =
  ov_class :: "string option"
  ov_reason :: "string option"
  ov_requires :: "string option option"
  ov_alias_of :: "string option"
  ov_bit_offset :: "int option"
  ov_bit_width :: "int option"
  ov_declare :: bool
  ov_section :: "string option"
  ov_table :: "string option"
  ov_address :: "string option"
  ov_other :: bool

definition empty_override :: override where
  "empty_override =
     \<lparr>ov_class = None, ov_reason = None, ov_requires = None, ov_alias_of = None,
      ov_bit_offset = None, ov_bit_width = None, ov_declare = False, ov_section = None,
      ov_table = None, ov_address = None, ov_other = False\<rparr>"

record access_path =
  ap_regsel :: "int option"
  ap_lsb :: "int option"
  ap_width :: "int option"

record register_file =
  rf_class :: "string option"
  rf_count :: "int option"
  rf_name_format :: "string option"
  rf_alias_format :: "string option"
  rf_alias_stride :: "int option"
  rf_width :: "int option"
  rf_regsel_base :: "int option"
  rf_access :: "string option"
  rf_requires :: "string option"
  rf_reason :: "string option"
  rf_section :: "string option"
  rf_table :: "string option"

text \<open>Everything an import reads: the four rule files, the lock, the machine, the text.\<close>

record import_env =
  ie_target :: string
  ie_rules :: "rules_doc option"
  ie_overrides :: "(string \<times> override) list"
  ie_paths :: "(string \<times> access_path) list"
  ie_files :: "(string \<times> register_file) list"
  ie_lock_path :: string
  ie_lock :: "lock_doc option"
  ie_machine :: machine
  ie_pages :: "ppath \<Rightarrow> string list"
  ie_arch_names :: "string list"
  ie_arch_addrs :: "(string \<times> string) list"

section \<open>Tables of the module\<close>

definition PROFILE_ENCODING_KIND :: "(string \<times> string) list" where
  "PROFILE_ENCODING_KIND =
     [(''offset_type_name'', ''offset''), (''offset_value_name'', ''offset''),
      (''core_register_index'', ''core''), (''special_register_sysm'', ''sysm''),
      (''fp_common_block'', ''fp_sysreg'')]"

definition PROFILE_ACCESS :: "(string \<times> access) list" where
  "PROFILE_ACCESS =
     [(''addr_name_type_reset'', MEMORY_MAPPED), (''addr_register_value'', MEMORY_MAPPED),
      (''offset_type_name'', MEMORY_MAPPED), (''offset_value_name'', MEMORY_MAPPED),
      (''core_register_index'', CORE_REG), (''special_register_sysm'', SPECIAL_REG),
      (''fp_common_block'', FP_SYSREG), (''addr_type_reset_descname'', MEMORY_MAPPED)]"

definition INDEX_NAME_RE :: re where
  "INDEX_NAME_RE = seqs
     [RAsrt Bos, at_least 2 (cls [Spc]),
      RGrp ''name'' (seqs [cls [AZ], m_to_n 1 30 (cls alnum_tail)]), at_least 2 (cls [Spc]), cls [NSpc]]"

definition INDEX_HEADINGS :: "string list" where
  "INDEX_HEADINGS = [''Register'', ''Registera'', ''See'', ''Notes'', ''Description'', ''Table'']"

definition index_name :: "string \<Rightarrow> string option" where
  "index_name line =
     (case re_match_at_start INDEX_NAME_RE line of
        None \<Rightarrow> None
      | Some m \<Rightarrow> (if grp m ''name'' \<in> set INDEX_HEADINGS then None else Some (grp m ''name'')))"

definition index_names :: "pdf_table \<Rightarrow> string list" where
  "index_names t = remdups (filter_map (\<lambda>(pg, line). index_name line) (raw_lines t))"

definition access_flags :: "string \<Rightarrow> bool \<times> bool" where
  "access_flags ty =
     (let t = upper ty in
      if t = ''WO'' then (False, True)
      else if t \<in> {''RO'', ''RAZ''} then (True, False)
      else if t = ''WI'' then (False, True)
      else (True, True))"

text \<open>\<open>fmt % n\<close> for a format with one \<open>%d\<close>, which is what the rule files hold.\<close>

fun percent :: "string \<Rightarrow> int list \<Rightarrow> string res" where
  "percent [] args = (if args = [] then Inr [] else Inl (TypeError ''not all arguments converted''))"
| "percent [c] args =
     (if c = CHR ''%'' then Inl (ValueError ''incomplete format'')
      else rbind (percent [] args) (\<lambda>r. Inr (c # r)))"
| "percent (c # d # cs) args =
     (if c = CHR ''%'' then
        (if d = CHR ''%'' then rbind (percent cs args) (\<lambda>r. Inr (d # r))
         else if d \<in> {CHR ''d'', CHR ''i'', CHR ''s''} then
           (case args of
              [] \<Rightarrow> Inl (TypeError ''not enough arguments for format string'')
            | n # ns \<Rightarrow> rbind (percent cs ns) (\<lambda>r. Inr (str_int n @ r)))
         else Inl (ValueError ''unsupported format character''))
      else rbind (percent (d # cs) args) (\<lambda>r. Inr (c # r)))"

section \<open>One record\<close>

record ctx =
  cx_arch :: string
  cx_document :: string
  cx_revision :: string
  cx_overrides :: "(string \<times> override) list"
  cx_paths :: "(string \<times> access_path) list"
  cx_arch_names :: "string list"
  cx_arch_addrs :: "(string \<times> string) list"

definition source_family_of :: "ctx \<Rightarrow> string" where
  "source_family_of cx = (if cx_document cx = ''DDI0489'' then ''ARM_TRM'' else ''ARM_ARM'')"

definition release_of :: "ctx \<Rightarrow> string" where
  "release_of cx = cx_document cx @ '' '' @ cx_revision cx"

definition opt_str :: "string option \<Rightarrow> string" where
  "opt_str s = (case s of None \<Rightarrow> ''None'' | Some t \<Rightarrow> t)"

definition record_prov :: "ctx \<Rightarrow> rule \<Rightarrow> pdf_table \<Rightarrow> raw_rec \<Rightarrow> provenance" where
  "record_prov cx rule t r =
     \<lparr>p_document = cx_document cx, p_revision = cx_revision cx,
      p_section = or_str (t_section t) (or_else (ru_caption rule) []),
      p_table = label t, p_row = py_or (rr_name r) (py_or (rr_address r) ''reserved''),
      p_page = Some (rr_page r)\<rparr>"

definition reserved_entry :: "ctx \<Rightarrow> string \<Rightarrow> rule \<Rightarrow> access \<Rightarrow> pdf_table \<Rightarrow> raw_rec \<Rightarrow> state_entry" where
  "reserved_entry cx tid rule acc t r =
     (new_entry (''RESERVED_'' @ opt_str (rr_address r)) (tid @ '':'' @ opt_str (rr_address r))
        (cx_arch cx) ARCH EXPLICIT_EXCLUSION (record_prov cx rule t r))
     \<lparr>access := Some acc, encoding := rr_address r,
      reason := Some (or_str (take 160 (strip (or_str (rr_desc r) ''Reserved'')))
                        ''Reserved address range; not an architectural state element''),
      source_family := source_family_of cx, source_release := release_of cx\<rparr>"

text \<open>The namespace and first classification: \<open>auto\<close> asks the architecture manifest.\<close>

definition auto_class :: "ctx \<Rightarrow> string \<Rightarrow> raw_rec \<Rightarrow> namespace \<times> classification \<times> string option" where
  "auto_class cx name r =
     (let addr = upper (strip (py_or (rr_address r) []));
          arch_alias = dict_get (cx_arch_addrs cx) addr
      in if name \<in> set (cx_arch_names cx) then
           (ARCH, ARCHITECTURE_DEFINED,
            Some (''Defined by the ARMv7-M architecture; accounted for in the '' @ ''architecture manifest''))
         else if truthy arch_alias then
           (ARCH, ARCHITECTURE_DEFINED,
            Some (''Architectural register '' @ opt_str arch_alias @ '' at '' @ addr @ '', named '' @
                  name @ '' by this TRM''))
         else (CPU, EMITTED_STATE, None))"

definition first_class :: "ctx \<Rightarrow> rule \<Rightarrow> string \<Rightarrow> raw_rec \<Rightarrow> (namespace \<times> classification \<times> string option) res" where
  "first_class cx rule name r =
     rbind (require ''namespace'' (ru_namespace rule)) (\<lambda>ns_raw.
       if ns_raw = ''auto'' then Inr (auto_class cx name r)
       else rbind (ns_of ns_raw) (\<lambda>ns. Inr (ns, EMITTED_STATE, None)))"

text \<open>The override of a name, if it has one that is not empty.\<close>

definition override_of :: "ctx \<Rightarrow> string \<Rightarrow> override option" where
  "override_of cx name =
     (case dict_get (cx_overrides cx) name of
        None \<Rightarrow> None
      | Some ov \<Rightarrow> if ov = empty_override then None else Some ov)"

definition classify ::
  "ctx \<Rightarrow> rule \<Rightarrow> string \<Rightarrow> raw_rec \<Rightarrow> (namespace \<times> classification \<times> string option \<times> string option) res" where
  "classify cx rule name r =
     rbind (first_class cx rule name r) (\<lambda>(ns, cl, why).
     rbind (if truthy (ru_classification rule)
            then rbind (class_of (opt_str (ru_classification rule))) (\<lambda>c. Inr (c, ru_classification_reason rule))
            else Inr (cl, why)) (\<lambda>(cl, why).
     rbind (case override_of cx name of
              None \<Rightarrow> Inr (cl, why, ru_feature rule)
            | Some ov \<Rightarrow>
                rbind (require ''class'' (ov_class ov)) (\<lambda>s.
                rbind (class_of s) (\<lambda>c.
                Inr (c, ov_reason ov, or_else (ov_requires ov) (ru_feature rule))))) (\<lambda>(cl, why, feature).
     Inr (ns, if cl = EMITTED_STATE \<and> truthy feature then CONDITIONAL_STATE else cl, why, feature))))"

definition override_alias :: "override \<Rightarrow> alias_view option" where
  "override_alias ov =
     (if truthy (ov_alias_of ov)
      then Some \<lparr>a_target = opt_str (ov_alias_of ov), a_bit_offset = or_else (ov_bit_offset ov) 0,
                 a_bit_width = or_else (ov_bit_width ov) 32\<rparr>
      else None)"

definition record_encoding :: "raw_rec \<Rightarrow> string option" where
  "record_encoding r =
     (if truthy (rr_address r) then rr_address r
      else case rr_sysm r of None \<Rightarrow> None | Some n \<Rightarrow> Some (''SYSm='' @ str_int n))"

definition in_snapshot :: "classification \<Rightarrow> bool \<Rightarrow> namespace \<Rightarrow> bool" where
  "in_snapshot cl rd ns \<longleftrightarrow> cl \<in> {EMITTED_STATE, CONDITIONAL_STATE} \<and> rd \<and> ns \<in> {ARCH, CPU}"

definition record_entry ::
  "ctx \<Rightarrow> string \<Rightarrow> string \<Rightarrow> rule \<Rightarrow> access \<Rightarrow> pdf_table \<Rightarrow> string \<Rightarrow> raw_rec \<Rightarrow> state_entry res" where
  "record_entry cx tid profile rule acc t name r =
     rbind (classify cx rule name r) (\<lambda>(ns, cl, why, feature).
       (let (rd, wr) = access_flags (rr_access r);
            path = dict_get (cx_paths cx) name
        in Inr ((new_entry name (tid @ '':'' @ name) (cx_arch cx) ns cl (record_prov cx rule t r))
          \<lparr>width := Some 32, access := Some acc, encoding := record_encoding r,
           readable := rd, writable := wr, feature_requirement := feature,
           alias_to := (case override_of cx name of None \<Rightarrow> None | Some ov \<Rightarrow> override_alias ov),
           reason := why, snapshot := in_snapshot cl rd ns,
           source_family := source_family_of cx, component := or_else (ru_component rule) [],
           debug_regsel := (case path of None \<Rightarrow> None | Some p \<Rightarrow> ap_regsel p),
           debug_lsb := (case path of None \<Rightarrow> 0 | Some p \<Rightarrow> or_else (ap_lsb p) 0),
           debug_width := (case path of None \<Rightarrow> 32 | Some p \<Rightarrow> or_else (ap_width p) 32),
           encoding_kind := or_else (dict_get PROFILE_ENCODING_KIND profile) ''absolute'',
           derivation := ''table'', source_release := release_of cx\<rparr>)))"

definition duplicate_entry :: "string \<Rightarrow> string \<Rightarrow> state_entry \<Rightarrow> state_entry \<Rightarrow> state_entry" where
  "duplicate_entry tid name first e =
     e\<lparr>classification := ALIAS, alias_to := Some \<lparr>a_target = name, a_bit_offset = 0, a_bit_width = 32\<rparr>,
       source_id := tid @ '':'' @ name @ '':dup'',
       reason := Some (''Also listed in '' @ p_table (provenance first))\<rparr>"

section \<open>One table\<close>

record stats =
  st_rows :: nat
  st_emitted :: nat
  st_conditional :: nat
  st_alias :: nat
  st_architecture_defined :: nat
  st_excluded :: nat
  st_operation :: nat

fun bump_stat :: "classification \<Rightarrow> stats \<Rightarrow> stats" where
  "bump_stat EMITTED_STATE s = s\<lparr>st_emitted := Suc (st_emitted s)\<rparr>"
| "bump_stat CONDITIONAL_STATE s = s\<lparr>st_conditional := Suc (st_conditional s)\<rparr>"
| "bump_stat ALIAS s = s\<lparr>st_alias := Suc (st_alias s)\<rparr>"
| "bump_stat ARCHITECTURE_DEFINED s = s\<lparr>st_architecture_defined := Suc (st_architecture_defined s)\<rparr>"
| "bump_stat EXPLICIT_EXCLUSION s = s\<lparr>st_excluded := Suc (st_excluded s)\<rparr>"
| "bump_stat NON_STATE_OPERATION s = s\<lparr>st_operation := Suc (st_operation s)\<rparr>"

record table_report =
  tr_table :: string
  tr_id :: string
  tr_profile :: string
  tr_stats :: stats

record imp =
  i_entries :: "state_entry list"
  i_seen :: "(string \<times> state_entry) list"
  i_stats :: stats
  i_tables :: "table_report list"
  i_records :: nat

definition import_record ::
  "ctx \<Rightarrow> string \<Rightarrow> string \<Rightarrow> rule \<Rightarrow> pdf_table \<Rightarrow> raw_rec \<Rightarrow> imp \<Rightarrow> imp res" where
  "import_record cx tid profile rule t r st =
     rbind (require profile (dict_get PROFILE_ACCESS profile)) (\<lambda>acc.
       if rr_reserved r \<or> \<not> truthy (rr_name r) then
         Inr (st\<lparr>i_entries := i_entries st @ [reserved_entry cx tid rule acc t r],
                 i_stats := bump_stat EXPLICIT_EXCLUSION (i_stats st)\<rparr>)
       else
         (let name = opt_str (rr_name r) in
          rbind (record_entry cx tid profile rule acc t name r) (\<lambda>e.
            (case dict_get (i_seen st) (state_id e) of
               Some first \<Rightarrow>
                 Inr (st\<lparr>i_entries := i_entries st @ [duplicate_entry tid name first e],
                         i_stats := bump_stat ALIAS (i_stats st)\<rparr>)
             | None \<Rightarrow>
                 Inr (st\<lparr>i_seen := dict_set (i_seen st) (state_id e) e,
                         i_entries := i_entries st @ [e],
                         i_stats := bump_stat (classification e) (i_stats st)\<rparr>)))))"

definition leftover_msg :: "string \<Rightarrow> pdf_table \<Rightarrow> (nat \<times> string) list \<Rightarrow> string" where
  "leftover_msg target t leftover =
     target @ '': '' @ str_nat (length leftover) @ '' row(s) of '' @ label t @ '' look like table rows '' @
     ''but produced no record. A silently dropped row is exactly what this '' @
     ''pipeline exists to prevent.'' @ nl @ ''  '' @
     join (nl @ ''  '') (map (\<lambda>(pg, ln). ''p'' @ str_nat pg @ '': '' @ take 100 ln) (take 5 leftover))"

definition import_table ::
  "string \<Rightarrow> ctx \<Rightarrow> (string \<times> rule) list \<Rightarrow> (string \<times> pdf_table) list \<Rightarrow> string \<Rightarrow> imp \<Rightarrow> imp res" where
  "import_table target cx rules by_id tid st =
     rbind (require tid (dict_get rules tid)) (\<lambda>rule.
       (case dict_get by_id tid of
          None \<Rightarrow> Inl (SourceError (target @ '': Table '' @ tid @
                    '' is marked keep but was not found in the document.''))
        | Some t \<Rightarrow>
            rbind (require ''profile'' (ru_profile rule)) (\<lambda>profile.
            rbind (require profile (dict_get PROFILES profile)) (\<lambda>parse.
            rbind (parse t) (\<lambda>(records, t).
              if profile = ''addr_name_type_reset'' \<and> unparsed_rows t \<noteq> []
              then Inl (SourceError (leftover_msg target t (unparsed_rows t)))
              else
                rbind (fold_res (import_record cx tid profile rule t) records
                  (st\<lparr>i_stats := \<lparr>st_rows = length records, st_emitted = 0, st_conditional = 0, st_alias = 0,
                                 st_architecture_defined = 0, st_excluded = 0, st_operation = 0\<rparr>\<rparr>)) (\<lambda>st.
                Inr (st\<lparr>i_tables := i_tables st @ [\<lparr>tr_table = label t, tr_id = tid, tr_profile = profile,
                                                  tr_stats = i_stats st\<rparr>],
                        i_records := i_records st + st_rows (i_stats st)\<rparr>)))))))"

section \<open>Declared registers and register files\<close>

definition import_declared :: "ctx \<Rightarrow> string \<times> override \<Rightarrow> imp \<Rightarrow> imp res" where
  "import_declared cx nov st =
     (case nov of (name, ov) \<Rightarrow>
        (if \<not> ov_declare ov \<or> dict_get (i_seen st) name \<noteq> None then Inr st
         else
           rbind (require ''class'' (ov_class ov)) (\<lambda>s.
           rbind (class_of s) (\<lambda>cl.
           (let prov = \<lparr>p_document = cx_document cx, p_revision = cx_revision cx,
                       p_section = or_else (ov_section ov) [], p_table = or_else (ov_table ov) [],
                       p_row = name, p_page = None\<rparr>;
                e = (new_entry name (''declared:'' @ name) (cx_arch cx) ARCH cl prov)
                  \<lparr>width := Some (or_else (ov_bit_width ov) 32), access := Some MEMORY_MAPPED,
                   encoding := ov_address ov, reason := ov_reason ov, alias_to := override_alias ov,
                   snapshot := False, derivation := ''declared'', source_family := ''ARM_ARM'',
                   source_release := release_of cx\<rparr>
            in Inr (st\<lparr>i_seen := dict_set (i_seen st) name e, i_entries := i_entries st @ [e]\<rparr>))))))"

definition import_file_element ::
  "ctx \<Rightarrow> string \<Rightarrow> register_file \<Rightarrow> classification \<Rightarrow> int \<Rightarrow> imp \<Rightarrow> imp res" where
  "import_file_element cx fkey spec cl n st =
     rbind (require ''name_format'' (rf_name_format spec)) (\<lambda>fmt.
     rbind (percent fmt [n]) (\<lambda>name.
       if dict_get (i_seen st) name \<noteq> None then Inr st
       else
         rbind (if truthy (rf_alias_format spec)
                then rbind (percent (opt_str (rf_alias_format spec)) [n * or_else (rf_alias_stride spec) 1]) (\<lambda>tgt.
                  Inr (Some \<lparr>a_target = tgt, a_bit_offset = 0, a_bit_width = or_else (rf_width spec) 32\<rparr>))
                else Inr None) (\<lambda>al.
         rbind (access_of (or_else (rf_access spec) ''core_reg'')) (\<lambda>acc.
         (let prov = \<lparr>p_document = cx_document cx, p_revision = cx_revision cx,
                     p_section = or_else (rf_section spec) [], p_table = or_else (rf_table spec) [],
                     p_row = name, p_page = None\<rparr>;
              e = (new_entry name (fkey @ '':'' @ name) (cx_arch cx) ARCH cl prov)
                \<lparr>width := Some (or_else (rf_width spec) 32), access := Some acc, encoding := None,
                 encoding_kind := ''core'', feature_requirement := rf_requires spec, alias_to := al,
                 reason := rf_reason spec,
                 debug_regsel := map_option (\<lambda>b. b + n) (rf_regsel_base spec),
                 debug_lsb := 0, debug_width := min (or_else (rf_width spec) 32) 32,
                 component := ''FPREGS'', snapshot := (cl = CONDITIONAL_STATE),
                 derivation := ''register_file'', source_family := ''ARM_ARM'',
                 source_release := release_of cx\<rparr>
          in Inr (st\<lparr>i_seen := dict_set (i_seen st) name e, i_entries := i_entries st @ [e]\<rparr>))))))"

definition import_register_file :: "ctx \<Rightarrow> string \<times> register_file \<Rightarrow> imp \<Rightarrow> imp res" where
  "import_register_file cx kf st =
     (case kf of (fkey, spec) \<Rightarrow>
        rbind (require ''class'' (rf_class spec)) (\<lambda>s.
        rbind (class_of s) (\<lambda>cl.
        rbind (require ''count'' (rf_count spec)) (\<lambda>count.
          fold_res (import_file_element cx fkey spec cl) (map int [0..<nat count]) st))))"

section \<open>The report\<close>

record cross_report =
  cr_caption :: string
  cr_index_entries :: nat
  cr_present :: nat
  cr_missing :: "string list"

record import_report =
  ir_target :: string
  ir_architecture :: string
  ir_document :: string
  ir_revision :: string
  ir_source_records :: nat
  ir_counts :: "(string \<times> nat) list"
  ir_tables :: "table_report list"
  ir_crosscheck :: "(string \<times> cross_report) list"
  ir_unclassified :: "string list"

definition ARRAY_SUFFIX_RE :: re where
  "ARRAY_SUFFIX_RE = seqs [alts [cls [Ch (CHR ''n''), Ch (CHR ''x'')], digits_plus], RAsrt Dollar]"

definition norm_name :: "string \<Rightarrow> string" where
  "norm_name n = re_sub ARRAY_SUFFIX_RE [] n"

definition imported_names :: "state_entry list \<Rightarrow> string list" where
  "imported_names es =
     remdups (map canonical_name (filter (\<lambda>e. classification e \<noteq> EXPLICIT_EXCLUSION) es))"

definition missing_names :: "string list \<Rightarrow> string list \<Rightarrow> string list" where
  "missing_names idx imported =
     (let norm_imported = map norm_name imported @ imported
      in py_sorted (filter (\<lambda>n. n \<notin> set imported \<and> norm_name n \<notin> set norm_imported) idx))"

definition crosscheck :: "string list \<Rightarrow> (string \<times> pdf_table) list \<Rightarrow> string list \<Rightarrow> (string \<times> cross_report) list" where
  "crosscheck ids by_id imported =
     filter_map (\<lambda>tid.
       case dict_get by_id tid of
         None \<Rightarrow> None
       | Some t \<Rightarrow>
           (let idx = index_names t; missing = missing_names idx imported
            in Some (tid, \<lparr>cr_caption = label t, cr_index_entries = length idx,
                          cr_present = length idx - length missing, cr_missing = missing\<rparr>)))
       (py_sorted ids)"

definition zero_counts :: "(string \<times> nat) list" where
  "zero_counts = map (\<lambda>c. (class_value c, 0)) all_classifications"

definition count_classes :: "state_entry list \<Rightarrow> (string \<times> nat) list" where
  "count_classes es = tally zero_counts (map (\<lambda>e. class_value (classification e)) es)"

definition needs_reason :: "state_entry \<Rightarrow> bool" where
  "needs_reason e \<longleftrightarrow>
     classification e \<in> {NON_STATE_OPERATION, EXPLICIT_EXCLUSION} \<and> \<not> truthy (reason e)"

definition unclassified_lines :: "state_entry list \<Rightarrow> string list" where
  "unclassified_lines es =
     map (\<lambda>e. canonical_name e @ '': exclusion without a reason'') (filter needs_reason es)"

section \<open>The import\<close>

definition load_rules :: "import_env \<Rightarrow> rules_doc res" where
  "load_rules ie =
     (case ie_rules ie of
        None \<Rightarrow> Inl (SourceError (''No table rules at '' @ path_str (mc_root (ie_machine ie)) @ ''/spec/rules/'' @
                  ie_target ie @ ''.tables.yaml. Run tools/state_tables.py --seed.''))
      | Some d \<Rightarrow> Inr d)"

definition undecided_tables :: "decision list \<Rightarrow> (string \<times> rule) list \<Rightarrow> string list" where
  "undecided_tables ds rules =
     filter (\<lambda>tid. tid \<notin> fst ` set rules) (remdups (map d_table_id ds))"

definition kept_ids :: "(string \<times> rule) list \<Rightarrow> string list" where
  "kept_ids rules = map fst (filter (\<lambda>(tid, r). ru_keep r) rules)"

definition start_imp :: imp where
  "start_imp =
     \<lparr>i_entries = [], i_seen = [], i_stats = \<lparr>st_rows = 0, st_emitted = 0, st_conditional = 0,
      st_alias = 0, st_architecture_defined = 0, st_excluded = 0, st_operation = 0\<rparr>,
      i_tables = [], i_records = 0\<rparr>"

text \<open>The three loops that build the entries: tables, declared registers, register files.\<close>

definition import_entries ::
  "import_env \<Rightarrow> ctx \<Rightarrow> (string \<times> rule) list \<Rightarrow> (string \<times> pdf_table) list \<Rightarrow> imp res" where
  "import_entries ie cx rules by_id =
     rbind (fold_res (import_table (ie_target ie) cx rules by_id) (py_sorted (kept_ids rules)) start_imp) (\<lambda>st.
     rbind (fold_res (import_declared cx) (ie_overrides ie) st) (\<lambda>st.
     fold_res (import_register_file cx) (ie_files ie) st))"

definition finish_import ::
  "import_env \<Rightarrow> ctx \<Rightarrow> string list \<Rightarrow> (string \<times> pdf_table) list \<Rightarrow> imp \<Rightarrow> (state_entry list \<times> import_report) res" where
  "finish_import ie cx crosscheck_ids by_id st =
     (let es = i_entries st;
          counts = count_classes es;
          report = \<lparr>ir_target = ie_target ie, ir_architecture = cx_arch cx, ir_document = cx_document cx,
                    ir_revision = cx_revision cx, ir_source_records = i_records st, ir_counts = counts,
                    ir_tables = i_tables st,
                    ir_crosscheck = crosscheck crosscheck_ids by_id (imported_names es),
                    ir_unclassified = unclassified_lines es\<rparr>;
          total = dict_total counts
      in if total \<noteq> length es
         then Inl (SourceError (ie_target ie @ '': classification totals '' @ str_nat total @ '' != '' @
                str_nat (length es) @ '' entries''))
         else Inr (es, report))"

text \<open>The import once the document is known to be the pinned one.\<close>

definition import_verified ::
  "import_env \<Rightarrow> rules_doc \<Rightarrow> source \<Rightarrow> ppath \<Rightarrow> (state_entry list \<times> import_report) res" where
  "import_verified ie doc src path =
     rbind (require ''tables'' (rd_tables doc)) (\<lambda>rules.
     (let crosscheck_ids = or_else (rd_crosscheck doc) [] in
      rbind (extract_tables (ie_pages ie path) (Some (kept_ids rules @ crosscheck_ids))) (\<lambda>(tables, decisions).
      (let by_id = map (\<lambda>t. (table_id t, t)) tables;
           undecided = undecided_tables decisions rules
       in if undecided \<noteq> [] then
            Inl (SourceError (ie_target ie @ '': '' @ str_nat (length undecided) @ '' table(s) in '' @
              s_document src @ '' '' @ s_revision src @ '' have no reviewed decision: '' @
              repr_list (take 8 (py_sorted undecided)) @ ''. Re-run tools/state_tables.py --seed.''))
          else
            rbind (require ''architecture'' (rd_architecture doc)) (\<lambda>arch.
            (let cx = \<lparr>cx_arch = arch, cx_document = s_document src, cx_revision = s_revision src,
                       cx_overrides = ie_overrides ie, cx_paths = ie_paths ie,
                       cx_arch_names = ie_arch_names ie, cx_arch_addrs = ie_arch_addrs ie\<rparr>
             in rbind (import_entries ie cx rules by_id) (\<lambda>st.
                finish_import ie cx crosscheck_ids by_id st)))))))"

definition import_target :: "import_env \<Rightarrow> (state_entry list \<times> import_report) res" where
  "import_target ie =
     rbind (load_rules ie) (\<lambda>doc.
     rbind (require ''source'' (rd_source doc)) (\<lambda>key.
     rbind (get_source (ie_lock_path ie) (ie_lock ie) key) (\<lambda>src.
     rbind (verify (ie_machine ie) src) (\<lambda>path.
     import_verified ie doc src path))))"

record manifest =
  mf_schema_version :: int
  mf_target :: string
  mf_architecture :: string
  mf_document :: string
  mf_revision :: string
  mf_generated_by :: string
  mf_entries :: "manifest_entry list"

definition make_manifest :: "string \<Rightarrow> state_entry list \<Rightarrow> import_report \<Rightarrow> manifest" where
  "make_manifest target es report =
     \<lparr>mf_schema_version = 1, mf_target = target, mf_architecture = ir_architecture report,
      mf_document = ir_document report, mf_revision = ir_revision report,
      mf_generated_by = ''tools/state_import.py - do not edit by hand'', mf_entries = map to_dict es\<rparr>"

section \<open>What one record adds\<close>

definition stat_total :: "stats \<Rightarrow> nat" where
  "stat_total s = st_emitted s + st_conditional s + st_alias s + st_architecture_defined s +
     st_excluded s + st_operation s"

lemma bump_stat_total [simp]:
  "stat_total (bump_stat c s) = Suc (stat_total s)" "st_rows (bump_stat c s) = st_rows s"
  by (cases c; simp add: stat_total_def)+

declare bump_stat.simps [simp del]

text \<open>
  What holds of every entry by the way it was made.  An entry that is not an alias is in the
  snapshot exactly if a table made it and it is emitted or conditional, readable and
  architectural or of the processor, or a register file made it and it is conditional; the
  condition is written out here, not taken from the code.  Emitted state from a table or a
  declaration needs no feature, and every entry says which of the three loops made it.
  The aliases that stand for repeated rows keep the snapshot flag of the row: \<open>flag_at\<close>.
\<close>

definition snap_ok :: "state_entry \<Rightarrow> bool" where
  "snap_ok e \<longleftrightarrow> derivation e \<in> {''table'', ''declared'', ''register_file''} \<and> (classification e = ALIAS \<or>
     (snapshot e \<longleftrightarrow>
        derivation e = ''table'' \<and> (classification e = EMITTED_STATE \<or> classification e = CONDITIONAL_STATE) \<and>
          readable e \<and> (namespace e = ARCH \<or> namespace e = CPU) \<or>
        derivation e = ''register_file'' \<and> classification e = CONDITIONAL_STATE))"

text \<open>An alias in the snapshot repeats an earlier row of the same state identifier.\<close>

definition row_ids :: "state_entry list \<Rightarrow> string set" where
  "row_ids es = state_id ` set (filter (\<lambda>e. derivation e = ''table'') es)"

lemma row_ids_snoc [simp]:
  "row_ids (es @ [e]) = (if derivation e = ''table'' then insert (state_id e) (row_ids es) else row_ids es)"
  by (simp add: row_ids_def)

lemma row_ids_take: "i < length es \<Longrightarrow> k \<in> row_ids (take i es) \<Longrightarrow>
    \<exists>j < i. derivation (es ! j) = ''table'' \<and> state_id (es ! j) = k"
  by (auto simp: row_ids_def in_set_conv_nth)

definition flag_at :: "state_entry list \<Rightarrow> state_entry \<Rightarrow> bool" where
  "flag_at pre e \<longleftrightarrow> classification e = ALIAS \<and> snapshot e \<longrightarrow>
     derivation e = ''table'' \<and> readable e \<and> (namespace e = ARCH \<or> namespace e = CPU) \<and>
     state_id e \<in> row_ids pre"

definition flags_ok :: "state_entry list \<Rightarrow> bool" where
  "flags_ok es \<longleftrightarrow> (\<forall>i < length es. flag_at (take i es) (es ! i))"

definition feature_ok :: "state_entry \<Rightarrow> bool" where
  "feature_ok e \<longleftrightarrow> classification e \<noteq> EMITTED_STATE \<or> derivation e = ''register_file'' \<or>
     \<not> truthy (feature_requirement e)"

text \<open>The entry that stands for a record of a table.\<close>

definition entry_for :: "string \<Rightarrow> string \<Rightarrow> string \<Rightarrow> pdf_table \<Rightarrow> raw_rec \<Rightarrow> state_entry \<Rightarrow> bool" where
  "entry_for arch document revision t r e \<longleftrightarrow>
     canonical_name e = (if rr_reserved r \<or> \<not> truthy (rr_name r)
       then ''RESERVED_'' @ opt_str (rr_address r) else opt_str (rr_name r)) \<and>
     p_table (provenance e) = label t \<and> p_page (provenance e) = Some (rr_page r) \<and>
     p_document (provenance e) = document \<and> p_revision (provenance e) = revision \<and>
     p_row (provenance e) = py_or (rr_name r) (py_or (rr_address r) ''reserved'') \<and>
     encoding e = (if truthy (rr_address r) \<or> rr_reserved r \<or> \<not> truthy (rr_name r) then rr_address r
       else map_option (\<lambda>n. ''SYSm='' @ str_int n) (rr_sysm r)) \<and>
     derivation e = ''table'' \<and> architecture e = arch"

abbreviation entry_in :: "ctx \<Rightarrow> pdf_table \<Rightarrow> raw_rec \<Rightarrow> state_entry \<Rightarrow> bool" where
  "entry_in cx \<equiv> entry_for (cx_arch cx) (cx_document cx) (cx_revision cx)"

lemma new_entry_simps [simp]:
  "canonical_name (new_entry n s a ns c p) = n" "source_id (new_entry n s a ns c p) = s"
  "architecture (new_entry n s a ns c p) = a" "namespace (new_entry n s a ns c p) = ns"
  "classification (new_entry n s a ns c p) = c" "provenance (new_entry n s a ns c p) = p"
  "readable (new_entry n s a ns c p) = True" "snapshot (new_entry n s a ns c p) = False"
  "derivation (new_entry n s a ns c p) = ''table''" "feature_requirement (new_entry n s a ns c p) = None"
  "component (new_entry n s a ns c p) = []"
  by (simp_all add: new_entry_def)

lemma classify_feature:
  "classify cx rule name r = Inr (ns, cl, why, feature) \<Longrightarrow> cl \<noteq> EMITTED_STATE \<or> \<not> truthy feature"
  by (auto simp: classify_def res_simps split: if_splits)

lemma record_entry_ok:
  assumes "record_entry cx tid profile rule acc t name r = Inr e"
  shows "snap_ok e" "feature_ok e" "canonical_name e = name" "provenance e = record_prov cx rule t r"
    "derivation e = ''table''" "architecture e = cx_arch cx" "encoding e = record_encoding r"
    "flag_at pre e"
proof -
  obtain ns cl why feature where c: "classify cx rule name r = Inr (ns, cl, why, feature)"
    using assms by (auto simp: record_entry_def res_simps)
  obtain rd wr where f: "access_flags (rr_access r) = (rd, wr)" by (cases "access_flags (rr_access r)")
  have e: "snapshot e = in_snapshot cl rd ns" "classification e = cl" "readable e = rd" "namespace e = ns"
    "feature_requirement e = feature" "derivation e = ''table''" "canonical_name e = name"
    "provenance e = record_prov cx rule t r" "architecture e = cx_arch cx" "encoding e = record_encoding r"
    using assms c f by (auto simp: record_entry_def Let_def)
  with classify_feature [OF c] show "snap_ok e" "feature_ok e" "canonical_name e = name"
    "provenance e = record_prov cx rule t r" "derivation e = ''table''" "architecture e = cx_arch cx"
    "encoding e = record_encoding r" "flag_at pre e"
    by (auto simp: snap_ok_def feature_ok_def flag_at_def in_snapshot_def)
qed

lemma record_prov_simps [simp]:
  "p_table (record_prov cx rule t r) = label t" "p_page (record_prov cx rule t r) = Some (rr_page r)"
  "p_document (record_prov cx rule t r) = cx_document cx" "p_revision (record_prov cx rule t r) = cx_revision cx"
  "p_row (record_prov cx rule t r) = py_or (rr_name r) (py_or (rr_address r) ''reserved'')"
  by (simp_all add: record_prov_def)

lemma reserved_entry_ok [simp]:
  "snap_ok (reserved_entry cx tid rule acc t r)" "feature_ok (reserved_entry cx tid rule acc t r)"
  "classification (reserved_entry cx tid rule acc t r) = EXPLICIT_EXCLUSION"
  "canonical_name (reserved_entry cx tid rule acc t r) = ''RESERVED_'' @ opt_str (rr_address r)"
  "provenance (reserved_entry cx tid rule acc t r) = record_prov cx rule t r"
  "derivation (reserved_entry cx tid rule acc t r) = ''table''"
  "architecture (reserved_entry cx tid rule acc t r) = cx_arch cx"
  "encoding (reserved_entry cx tid rule acc t r) = rr_address r"
  by (simp_all add: reserved_entry_def snap_ok_def feature_ok_def)

lemma duplicate_entry_simps [simp]:
  "snap_ok (duplicate_entry tid name f e) = (derivation e \<in> {''table'', ''declared'', ''register_file''})"
  "feature_ok (duplicate_entry tid name f e)"
  "classification (duplicate_entry tid name f e) = ALIAS"
  "canonical_name (duplicate_entry tid name f e) = canonical_name e"
  "provenance (duplicate_entry tid name f e) = provenance e"
  "derivation (duplicate_entry tid name f e) = derivation e"
  "architecture (duplicate_entry tid name f e) = architecture e"
  "state_id (duplicate_entry tid name f e) = state_id e"
  "encoding (duplicate_entry tid name f e) = encoding e"
  by (simp_all add: duplicate_entry_def snap_ok_def feature_ok_def state_id_def)

text \<open>The entries of the final state identifiers: neither aliases nor exclusions.\<close>

definition live :: "state_entry \<Rightarrow> bool" where
  "live e \<longleftrightarrow> derivation e = ''table'' \<and> classification e \<notin> {ALIAS, EXPLICIT_EXCLUSION}"

definition seen_ok :: "imp \<Rightarrow> bool" where
  "seen_ok st \<longleftrightarrow> distinct (map state_id (filter live (i_entries st))) \<and>
     (\<forall>e \<in> set (i_entries st). live e \<longrightarrow> dict_get (i_seen st) (state_id e) \<noteq> None)"

lemma seen_ok_skip:
  "seen_ok st \<Longrightarrow> \<not> live e \<Longrightarrow> seen_ok (st\<lparr>i_entries := i_entries st @ [e], i_stats := s\<rparr>)"
  by (auto simp: seen_ok_def)

lemma seen_ok_new:
  assumes "seen_ok st" "dict_get (i_seen st) (state_id e) = None"
  shows "seen_ok (st\<lparr>i_seen := dict_set (i_seen st) (state_id e) e, i_entries := i_entries st @ [e], i_stats := s\<rparr>)"
  using assms by (auto simp: seen_ok_def)

definition adds :: "imp \<Rightarrow> state_entry list \<Rightarrow> imp \<Rightarrow> bool" where
  "adds st es st' \<longleftrightarrow> i_entries st' = i_entries st @ es \<and>
     (\<forall>e \<in> set es. snap_ok e \<and> feature_ok e) \<and> (seen_ok st \<longrightarrow> seen_ok st')"

definition adds_rows :: "imp \<Rightarrow> state_entry list \<Rightarrow> imp \<Rightarrow> bool" where
  "adds_rows st es st' \<longleftrightarrow> adds st es st' \<and>
     stat_total (i_stats st') = stat_total (i_stats st) + length es \<and>
     st_rows (i_stats st') = st_rows (i_stats st) \<and> i_tables st' = i_tables st \<and> i_records st' = i_records st"

lemma import_record_adds:
  assumes "import_record cx tid profile rule t r st = Inr st'"
  shows "\<exists>e. adds_rows st [e] st' \<and> entry_in cx t r e"
proof (cases "rr_reserved r \<or> \<not> truthy (rr_name r)")
  case True
  with assms obtain acc where
    "st' = st\<lparr>i_entries := i_entries st @ [reserved_entry cx tid rule acc t r],
              i_stats := bump_stat EXPLICIT_EXCLUSION (i_stats st)\<rparr>"
    by (auto simp: import_record_def res_simps)
  moreover have "\<not> live (reserved_entry cx tid rule acc t r)" by (simp add: live_def)
  ultimately show ?thesis using True seen_ok_skip
    by (intro exI [of _ "reserved_entry cx tid rule acc t r"]) (auto simp: adds_rows_def adds_def entry_for_def record_encoding_def
        split: option.splits)
next
  case False
  let ?n = "opt_str (rr_name r)"
  from False assms obtain acc e where e: "record_entry cx tid profile rule acc t ?n r = Inr e"
    and st': "(case dict_get (i_seen st) (state_id e) of
       Some f \<Rightarrow> Inr (st\<lparr>i_entries := i_entries st @ [duplicate_entry tid ?n f e],
                       i_stats := bump_stat ALIAS (i_stats st)\<rparr>)
     | None \<Rightarrow> Inr (st\<lparr>i_seen := dict_set (i_seen st) (state_id e) e, i_entries := i_entries st @ [e],
                      i_stats := bump_stat (classification e) (i_stats st)\<rparr>)) = (Inr st' :: imp res)"
    by (auto simp: import_record_def res_simps Let_def)
  note ok = record_entry_ok [OF e]
  show ?thesis
  proof (cases "dict_get (i_seen st) (state_id e)")
    case None
    with st' ok seen_ok_new [of st e] False show ?thesis
      by (intro exI [of _ e]) (auto simp: adds_rows_def adds_def entry_for_def record_encoding_def
        split: option.splits)
  next
    case (Some f)
    have "\<not> live (duplicate_entry tid ?n f e)" by (simp add: live_def)
    with Some st' ok seen_ok_skip [of st] False show ?thesis
      by (intro exI [of _ "duplicate_entry tid ?n f e"]) (auto simp: adds_rows_def adds_def entry_for_def record_encoding_def
        split: option.splits)
  qed
qed

lemma adds_trans: "adds s es t \<Longrightarrow> adds t fs u \<Longrightarrow> adds s (es @ fs) u"
  by (auto simp: adds_def)

lemma adds_rows_trans: "adds_rows s es t \<Longrightarrow> adds_rows t fs u \<Longrightarrow> adds_rows s (es @ fs) u"
  using adds_trans [of s es t fs u] by (auto simp: adds_rows_def)

lemma import_records_add:
  assumes "fold_res (import_record cx tid profile rule t) rs st = Inr st'"
  shows "\<exists>es. adds_rows st es st' \<and> list_all2 (entry_in cx t) rs es"
  using assms
proof (induction rs arbitrary: st)
  case Nil
  then show ?case by (intro exI [of _ "[]"]) (auto simp: adds_rows_def adds_def)
next
  case (Cons r rs)
  then obtain u where u: "import_record cx tid profile rule t r st = Inr u"
    "fold_res (import_record cx tid profile rule t) rs u = Inr st'" by (auto simp: res_simps)
  from import_record_adds [OF u(1)] obtain e where e: "adds_rows st [e] u" "entry_in cx t r e" by blast
  from Cons.IH [OF u(2)] obtain es where es: "adds_rows u es st'" "list_all2 (entry_in cx t) rs es" by blast
  from adds_rows_trans [OF e(1) es(1)] e(2) es(2) show ?case by (intro exI [of _ "e # es"]) auto
qed

section \<open>What one table adds\<close>

text \<open>The state between tables: every source record has its entry, and the reports balance.\<close>

definition balanced :: "imp \<Rightarrow> bool" where
  "balanced st \<longleftrightarrow> length (filter (\<lambda>e. derivation e = ''table'') (i_entries st)) = i_records st \<and>
     i_records st = sum_list (map (\<lambda>tr. st_rows (tr_stats tr)) (i_tables st)) \<and>
     (\<forall>tr \<in> set (i_tables st). st_rows (tr_stats tr) = stat_total (tr_stats tr))"

text \<open>The records of a kept table: what its parser made of the captured text.\<close>

definition table_records ::
  "(string \<times> rule) list \<Rightarrow> (string \<times> pdf_table) list \<Rightarrow> string \<Rightarrow> pdf_table \<Rightarrow> raw_rec list \<Rightarrow> bool" where
  "table_records rules by_id tid t' rs \<longleftrightarrow>
     (\<exists>rule t profile parse. dict_get rules tid = Some rule \<and> dict_get by_id tid = Some t \<and>
        ru_profile rule = Some profile \<and> dict_get PROFILES profile = Some parse \<and>
        parse t = Inr (rs, t') \<and> (profile = ''addr_name_type_reset'' \<longrightarrow> unparsed_rows t' = []))"

lemma import_table_adds:
  assumes "import_table target cx rules by_id tid st = Inr st'"
  shows "\<exists>t' rs es. table_records rules by_id tid t' rs \<and> list_all2 (entry_in cx t') rs es \<and>
    adds st es st' \<and> (balanced st \<longrightarrow> balanced st')"
proof -
  from assms obtain rule t profile parse rs t' u where
    a: "dict_get rules tid = Some rule" "dict_get by_id tid = Some t" "ru_profile rule = Some profile"
      "dict_get PROFILES profile = Some parse" "parse t = Inr (rs, t')"
      "\<not> (profile = ''addr_name_type_reset'' \<and> unparsed_rows t' \<noteq> [])"
    and u: "fold_res (import_record cx tid profile rule t') rs (st\<lparr>i_stats := \<lparr>st_rows = length rs,
        st_emitted = 0, st_conditional = 0, st_alias = 0, st_architecture_defined = 0, st_excluded = 0,
        st_operation = 0\<rparr>\<rparr>) = Inr u"
    and st': "st' = u\<lparr>i_tables := i_tables u @ [\<lparr>tr_table = label t', tr_id = tid, tr_profile = profile,
        tr_stats = i_stats u\<rparr>], i_records := i_records u + st_rows (i_stats u)\<rparr>"
    by (auto simp: import_table_def res_simps split: option.splits if_splits)
  from import_records_add [OF u] obtain es where es: "list_all2 (entry_in cx t') rs es"
    and ad: "adds_rows (st\<lparr>i_stats := \<lparr>st_rows = length rs, st_emitted = 0, st_conditional = 0, st_alias = 0,
        st_architecture_defined = 0, st_excluded = 0, st_operation = 0\<rparr>\<rparr>) es u" by blast
  have len: "length es = length rs" using es by (simp add: list_all2_lengthD)
  have der: "filter (\<lambda>e. derivation e = ''table'') es = es"
    using es by (auto simp: filter_id_conv list_all2_conv_all_nth in_set_conv_nth entry_for_def)
  have so: "seen_ok (x\<lparr>i_stats := s\<rparr>) = seen_ok x" "seen_ok (x\<lparr>i_tables := y, i_records := n\<rparr>) = seen_ok x"
    for x s y n by (simp_all add: seen_ok_def)
  have "adds st es st'" using ad by (auto simp: adds_rows_def adds_def st' so)
  moreover have "balanced st \<longrightarrow> balanced st'"
    using ad len der by (auto simp: balanced_def adds_rows_def adds_def st' stat_total_def)
  ultimately show ?thesis using a es by (auto simp: table_records_def)
qed

section \<open>The three loops\<close>

lemma import_declared_adds:
  assumes "import_declared cx nov st = Inr st'"
  shows "\<exists>es. adds st es st' \<and> (balanced st \<longrightarrow> balanced st') \<and> (\<forall>e \<in> set es. derivation e = ''declared'')"
proof (cases "i_entries st' = i_entries st")
  case True
  then have "st' = st" using assms by (auto simp: import_declared_def res_simps Let_def split: prod.splits if_splits)
  then show ?thesis by (intro exI [of _ "[]"]) (simp add: adds_def)
next
  case False
  obtain name ov where n: "nov = (name, ov)" by (cases nov)
  with assms False obtain e where e: "st' = st\<lparr>i_seen := dict_set (i_seen st) name e, i_entries := i_entries st @ [e]\<rparr>"
    "derivation e = ''declared''" "snapshot e = False" "feature_requirement e = None"
    by (auto simp: import_declared_def res_simps Let_def split: if_splits)
  have "seen_ok st \<longrightarrow> seen_ok st'" using e by (auto simp: seen_ok_def live_def)
  with e show ?thesis
    by (intro exI [of _ "[e]"]) (auto simp: adds_def balanced_def snap_ok_def feature_ok_def truthy_def)
qed

lemma import_file_element_adds:
  assumes "import_file_element cx fkey spec cl n st = Inr st'"
  shows "\<exists>es. adds st es st' \<and> (balanced st \<longrightarrow> balanced st') \<and> (\<forall>e \<in> set es. derivation e = ''register_file'')"
proof (cases "i_entries st' = i_entries st")
  case True
  then have "st' = st" using assms by (auto simp: import_file_element_def res_simps Let_def split: if_splits)
  then show ?thesis by (intro exI [of _ "[]"]) (simp add: adds_def)
next
  case False
  with assms obtain name e where e: "st' = st\<lparr>i_seen := dict_set (i_seen st) name e, i_entries := i_entries st @ [e]\<rparr>"
    "derivation e = ''register_file''" "snapshot e = (cl = CONDITIONAL_STATE)" "classification e = cl"
    by (auto simp: import_file_element_def res_simps Let_def split: if_splits)
  have "seen_ok st \<longrightarrow> seen_ok st'" using e by (auto simp: seen_ok_def live_def)
  with e show ?thesis
    by (intro exI [of _ "[e]"]) (auto simp: adds_def balanced_def snap_ok_def feature_ok_def)
qed

text \<open>A loop whose every step adds a block of entries.\<close>

lemma adds_nil: "adds st [] st"
  by (simp add: adds_def)

lemma fold_adds:
  assumes "fold_res f xs st = Inr st'"
    and "\<And>x s s'. x \<in> set xs \<Longrightarrow> f x s = Inr s' \<Longrightarrow>
      \<exists>es. adds s es s' \<and> (balanced s \<longrightarrow> balanced s') \<and> (\<forall>e \<in> set es. P e)"
  shows "\<exists>es. adds st es st' \<and> (balanced st \<longrightarrow> balanced st') \<and> (\<forall>e \<in> set es. P e)"
  using assms
proof (induction xs arbitrary: st)
  case Nil
  then show ?case using adds_nil by (intro exI [of _ "[]"]) auto
next
  case (Cons x xs)
  then obtain u where u: "f x st = Inr u" "fold_res f xs u = Inr st'" by (auto simp: res_simps)
  obtain es where es: "adds st es u" "balanced st \<longrightarrow> balanced u" "\<forall>e \<in> set es. P e"
    using Cons.prems(2) [OF _ u(1)] by auto
  obtain fs where fs: "adds u fs st'" "balanced u \<longrightarrow> balanced st'" "\<forall>e \<in> set fs. P e"
    using Cons.IH [OF u(2)] Cons.prems(2) by (metis list.set_intros(2))
  from adds_trans [OF es(1) fs(1)] es fs show ?case by (intro exI [of _ "es @ fs"]) auto
qed

lemma import_register_file_adds:
  assumes "import_register_file cx kf st = Inr st'"
  shows "\<exists>es. adds st es st' \<and> (balanced st \<longrightarrow> balanced st') \<and> (\<forall>e \<in> set es. derivation e = ''register_file'')"
proof -
  obtain fkey spec where kf: "kf = (fkey, spec)" by (cases kf)
  with assms obtain cl ns where "fold_res (import_file_element cx fkey spec cl) ns st = Inr st'"
    by (auto simp: import_register_file_def res_simps)
  then show ?thesis by (rule fold_adds) (rule import_file_element_adds)
qed

text \<open>The blocks of entries of the elements of a loop, in order.\<close>

lemma fold_blocks:
  assumes "fold_res f xs st = Inr st'"
    and "\<And>x s s'. f x s = Inr s' \<Longrightarrow> \<exists>es. adds s es s' \<and> Q x es"
  shows "\<exists>blocks. i_entries st' = i_entries st @ concat blocks \<and> list_all2 Q xs blocks"
  using assms(1)
proof (induction xs arbitrary: st)
  case (Cons x xs)
  then obtain u where u: "f x st = Inr u" "fold_res f xs u = Inr st'" by (auto simp: res_simps)
  obtain es where es: "i_entries u = i_entries st @ es" "Q x es"
    using assms(2) [OF u(1)] by (auto simp: adds_def)
  with Cons.IH [OF u(2)] show ?case by (fastforce intro: exI [of _ "es # _"])
qed simp

lemma start_imp_ok: "seen_ok start_imp" "balanced start_imp" "i_entries start_imp = []"
  by (simp_all add: seen_ok_def balanced_def start_imp_def)

lemma import_entries_ok:
  assumes "import_entries ie cx rules by_id = Inr st"
  shows "seen_ok st \<and> balanced st \<and> (\<forall>e \<in> set (i_entries st). snap_ok e \<and> feature_ok e)"
proof -
  from assms obtain a b where
    a: "fold_res (import_table (ie_target ie) cx rules by_id) (py_sorted (kept_ids rules)) start_imp = Inr a"
    and b: "fold_res (import_declared cx) (ie_overrides ie) a = Inr b"
    and c: "fold_res (import_register_file cx) (ie_files ie) b = Inr st"
    by (auto simp: import_entries_def res_simps)
  have "\<exists>es. adds start_imp es a \<and> (balanced start_imp \<longrightarrow> balanced a) \<and> (\<forall>e \<in> set es. True)"
    using a by (rule fold_adds) (use import_table_adds in blast)
  moreover have "\<exists>es. adds a es b \<and> (balanced a \<longrightarrow> balanced b) \<and> (\<forall>e \<in> set es. derivation e = ''declared'')"
    using b by (rule fold_adds) (rule import_declared_adds)
  moreover have "\<exists>es. adds b es st \<and> (balanced b \<longrightarrow> balanced st) \<and> (\<forall>e \<in> set es. derivation e = ''register_file'')"
    using c by (rule fold_adds) (rule import_register_file_adds)
  ultimately show ?thesis using start_imp_ok by (auto simp: adds_def)
qed

text \<open>
  What a kept table must contribute: the rule and the captured table of its identifier, the
  parser of the rule's profile, the records that parser makes of the captured text, and one
  entry for each of them.
\<close>

definition table_block ::
  "string \<Rightarrow> source \<Rightarrow> (string \<times> rule) list \<Rightarrow> pdf_table list \<Rightarrow> string \<Rightarrow> state_entry list \<Rightarrow> bool" where
  "table_block arch src rules tables tid blk \<longleftrightarrow>
     (\<exists>rule profile parse. dict_get rules tid = Some rule \<and> ru_profile rule = Some profile \<and>
        dict_get PROFILES profile = Some parse \<and>
        (\<exists>t \<in> set tables. table_id t = tid \<and>
          (\<exists>rs t'. parse t = Inr (rs, t') \<and>
             (profile = ''addr_name_type_reset'' \<longrightarrow> unparsed_rows t' = []) \<and>
             list_all2 (entry_for arch (s_document src) (s_revision src) t) rs blk)))"

lemma entry_for_label: "label t' = label t \<Longrightarrow> entry_for a d r t' = entry_for a d r t"
  by (simp add: entry_for_def fun_eq_iff)

lemma table_records_block:
  assumes "table_records rules (map (\<lambda>t. (table_id t, t)) tables) tid t' rs" "list_all2 (entry_in cx t') rs blk"
    and "cx_document cx = s_document src" "cx_revision cx = s_revision src"
  shows "table_block (cx_arch cx) src rules tables tid blk"
proof -
  from assms(1) obtain rule t profile parse where
    a: "dict_get rules tid = Some rule" "dict_get (map (\<lambda>t. (table_id t, t)) tables) tid = Some t"
      "ru_profile rule = Some profile" "dict_get PROFILES profile = Some parse" "parse t = Inr (rs, t')"
      "profile = ''addr_name_type_reset'' \<longrightarrow> unparsed_rows t' = []" by (auto simp: table_records_def)
  have t: "t \<in> set tables" "table_id t = tid" using dict_get_in [OF a(2)] by auto
  have "label t' = label t"
    by (rule row_parser.same_label [OF PROFILES_row_parser [OF dict_get_in [OF a(4)]] a(5)])
  then have "list_all2 (entry_for (cx_arch cx) (s_document src) (s_revision src) t) rs blk"
    using assms(2-4) by (simp add: entry_for_label [of t' t])
  with a t show ?thesis unfolding table_block_def by blast
qed

lemma import_entries_blocks:
  assumes "import_entries ie cx rules (map (\<lambda>t. (table_id t, t)) tables) = Inr st"
    and cx: "cx_document cx = s_document src" "cx_revision cx = s_revision src"
  shows "\<exists>blocks rest. i_entries st = concat blocks @ rest \<and>
    list_all2 (table_block (cx_arch cx) src rules tables) (py_sorted (kept_ids rules)) blocks \<and>
    (\<forall>e \<in> set rest. derivation e \<noteq> ''table'')"
proof -
  let ?by = "map (\<lambda>t. (table_id t, t)) tables"
  from assms obtain a b where
    a: "fold_res (import_table (ie_target ie) cx rules ?by) (py_sorted (kept_ids rules)) start_imp = Inr a"
    and b: "fold_res (import_declared cx) (ie_overrides ie) a = Inr b"
    and c: "fold_res (import_register_file cx) (ie_files ie) b = Inr st"
    by (auto simp: import_entries_def res_simps)
  have "\<exists>blocks. i_entries a = i_entries start_imp @ concat blocks \<and>
      list_all2 (table_block (cx_arch cx) src rules tables) (py_sorted (kept_ids rules)) blocks"
  proof (rule fold_blocks [OF a])
    fix tid s s'
    assume "import_table (ie_target ie) cx rules ?by tid s = Inr s'"
    from import_table_adds [OF this] obtain t' rs es where "table_records rules ?by tid t' rs"
      "list_all2 (entry_in cx t') rs es" "adds s es s'" by blast
    with table_records_block [OF _ _ cx] show "\<exists>es. adds s es s' \<and> table_block (cx_arch cx) src rules tables tid es"
      by blast
  qed
  moreover have "\<exists>es. adds a es b \<and> (balanced a \<longrightarrow> balanced b) \<and> (\<forall>e \<in> set es. derivation e = ''declared'')"
    using b by (rule fold_adds) (rule import_declared_adds)
  moreover have "\<exists>es. adds b es st \<and> (balanced b \<longrightarrow> balanced st) \<and> (\<forall>e \<in> set es. derivation e = ''register_file'')"
    using c by (rule fold_adds) (rule import_register_file_adds)
  ultimately obtain blocks es fs where
    "i_entries a = concat blocks" "i_entries st = i_entries a @ es @ fs"
    "list_all2 (table_block (cx_arch cx) src rules tables) (py_sorted (kept_ids rules)) blocks"
    "\<forall>e \<in> set es. derivation e = ''declared''" "\<forall>e \<in> set fs. derivation e = ''register_file''"
    using start_imp_ok(3) by (auto simp: adds_def)
  then show ?thesis by (intro exI [of _ blocks] exI [of _ "es @ fs"]) auto
qed

section \<open>The snapshot flags of repeated rows\<close>

lemma flags_ok_snoc [simp]: "flags_ok (es @ [e]) \<longleftrightarrow> flags_ok es \<and> flag_at es e"
  by (auto simp: flags_ok_def nth_append less_Suc_eq)

definition seen_rows :: "imp \<Rightarrow> bool" where
  "seen_rows st \<longleftrightarrow> flags_ok (i_entries st) \<and> (\<forall>k f. dict_get (i_seen st) k = Some f \<longrightarrow>
     k \<in> row_ids (i_entries st))"

lemma seen_rows_updates [simp]:
  "seen_rows (st\<lparr>i_stats := s\<rparr>) = seen_rows st"
  "seen_rows (st\<lparr>i_tables := ts, i_records := n\<rparr>) = seen_rows st"
  by (simp_all add: seen_rows_def)

lemma duplicate_flag:
  assumes "record_entry cx tid profile rule acc t name r = Inr e"
    and "state_id e \<in> row_ids pre"
  shows "flag_at pre (duplicate_entry tid name f e)"
proof -
  obtain ns cl why feature where "classify cx rule name r = Inr (ns, cl, why, feature)"
    using assms by (auto simp: record_entry_def res_simps)
  with assms(1) have "snapshot e \<longrightarrow> derivation e = ''table'' \<and> readable e \<and> (namespace e = ARCH \<or> namespace e = CPU)"
    by (auto simp: record_entry_def Let_def in_snapshot_def split: prod.splits)
  then have "snapshot (duplicate_entry tid name f e) \<longrightarrow> derivation (duplicate_entry tid name f e) = ''table'' \<and>
      readable (duplicate_entry tid name f e) \<and>
      (namespace (duplicate_entry tid name f e) = ARCH \<or> namespace (duplicate_entry tid name f e) = CPU)"
    by (simp add: duplicate_entry_def)
  with assms(2) show ?thesis by (simp only: flag_at_def duplicate_entry_simps simp_thms)
qed

lemma import_record_seen_rows:
  assumes "import_record cx tid profile rule t r st = Inr st'" "seen_rows st"
  shows "seen_rows st'"
proof (cases "rr_reserved r \<or> \<not> truthy (rr_name r)")
  case True
  with assms show ?thesis by (auto simp: import_record_def res_simps seen_rows_def flag_at_def)
next
  case False
  let ?n = "opt_str (rr_name r)"
  from False assms(1) obtain acc e where e: "record_entry cx tid profile rule acc t ?n r = Inr e"
    and st': "(case dict_get (i_seen st) (state_id e) of
       Some f \<Rightarrow> Inr (st\<lparr>i_entries := i_entries st @ [duplicate_entry tid ?n f e],
                       i_stats := bump_stat ALIAS (i_stats st)\<rparr>)
     | None \<Rightarrow> Inr (st\<lparr>i_seen := dict_set (i_seen st) (state_id e) e, i_entries := i_entries st @ [e],
                      i_stats := bump_stat (classification e) (i_stats st)\<rparr>)) = (Inr st' :: imp res)"
    by (auto simp: import_record_def res_simps Let_def)
  from st' assms(2) record_entry_ok(5,8) [OF e] duplicate_flag [OF e] show ?thesis
    by (cases "dict_get (i_seen st) (state_id e)") (auto simp: seen_rows_def split: if_splits)
qed

lemma import_table_seen_rows:
  assumes "import_table target cx rules by_id tid st = Inr st'" "seen_rows st"
  shows "seen_rows st'"
proof -
  from assms(1) obtain profile rule t' rs u where
    u: "fold_res (import_record cx tid profile rule t') rs (st\<lparr>i_stats := \<lparr>st_rows = length rs,
        st_emitted = 0, st_conditional = 0, st_alias = 0, st_architecture_defined = 0, st_excluded = 0,
        st_operation = 0\<rparr>\<rparr>) = Inr u"
    and st': "st' = u\<lparr>i_tables := i_tables u @ [\<lparr>tr_table = label t', tr_id = tid, tr_profile = profile,
        tr_stats = i_stats u\<rparr>], i_records := i_records u + st_rows (i_stats u)\<rparr>"
    by (auto simp: import_table_def res_simps split: option.splits if_splits)
  have "seen_rows u" using u by (rule fold_res_invariant) (use assms(2) import_record_seen_rows in auto)
  then show ?thesis by (simp add: st')
qed

lemma import_declared_flags: "import_declared cx nov st = Inr st' \<Longrightarrow> flags_ok (i_entries st) \<Longrightarrow> flags_ok (i_entries st')"
  by (auto simp: import_declared_def res_simps Let_def flag_at_def split: prod.splits if_splits)

lemma import_file_element_flags:
  "import_file_element cx fkey spec cl n st = Inr st' \<Longrightarrow> flags_ok (i_entries st) \<Longrightarrow> flags_ok (i_entries st')"
  by (auto simp: import_file_element_def res_simps Let_def flag_at_def split: if_splits)

lemma import_register_file_flags:
  assumes "import_register_file cx kf st = Inr st'" "flags_ok (i_entries st)"
  shows "flags_ok (i_entries st')"
proof -
  obtain fkey spec where kf: "kf = (fkey, spec)" by (cases kf)
  with assms(1) obtain cl ns where "fold_res (import_file_element cx fkey spec cl) ns st = Inr st'"
    by (auto simp: import_register_file_def res_simps)
  then show ?thesis
    by (rule fold_res_invariant [where P = "\<lambda>s. flags_ok (i_entries s)"])
      (use assms(2) import_file_element_flags in auto)
qed

lemma import_entries_flags:
  assumes "import_entries ie cx rules by_id = Inr st"
  shows "flags_ok (i_entries st)"
proof -
  from assms obtain a b where
    a: "fold_res (import_table (ie_target ie) cx rules by_id) (py_sorted (kept_ids rules)) start_imp = Inr a"
    and b: "fold_res (import_declared cx) (ie_overrides ie) a = Inr b"
    and c: "fold_res (import_register_file cx) (ie_files ie) b = Inr st"
    by (auto simp: import_entries_def res_simps)
  have "seen_rows start_imp" by (simp add: seen_rows_def start_imp_def flags_ok_def)
  then have "seen_rows a"
    using fold_res_invariant [OF a, of seen_rows] import_table_seen_rows by blast
  then have "flags_ok (i_entries a)" by (simp add: seen_rows_def)
  then have "flags_ok (i_entries b)"
    using fold_res_invariant [OF b, of "\<lambda>s. flags_ok (i_entries s)"] import_declared_flags by blast
  then show ?thesis
    using fold_res_invariant [OF c, of "\<lambda>s. flags_ok (i_entries s)"] import_register_file_flags by blast
qed

section \<open>The counts\<close>

lemma class_value_inj: "inj class_value"
  by (rule injI) (rule classification_enum.inj)

lemma zero_counts_ok: "distinct (map fst zero_counts)" "dict_total zero_counts = 0"
  "fst ` set zero_counts = range class_value" "dict_get zero_counts (class_value c) = Some 0"
proof -
  have "UNIV = set all_classifications" using classification_enum.complete by blast
  then show "fst ` set zero_counts = range class_value" by (auto simp: zero_counts_def image_image)
  show "distinct (map fst zero_counts)" "dict_total zero_counts = 0" by code_simp+
  show "dict_get zero_counts (class_value c) = Some 0"
    by (cases c) (simp_all add: zero_counts_def all_classifications_def)
qed

lemma count_classes_total: "dict_total (count_classes es) = length es"
  using tally_total(1) [OF zero_counts_ok(1)] zero_counts_ok(2) by (simp add: count_classes_def)

lemma count_classes_get:
  "or_else (dict_get (count_classes es) (class_value c)) 0 = length (filter (\<lambda>e. classification e = c) es)"
proof -
  have "count_list (map (\<lambda>e. class_value (classification e)) es) (class_value c) =
      length (filter (\<lambda>e. classification e = c) es)"
    using classification_enum.inj by (induction es) auto
  with tally_get [of zero_counts "map (\<lambda>e. class_value (classification e)) es" "class_value c"]
    zero_counts_ok(4) show ?thesis by (simp add: count_classes_def)
qed

text \<open>The last check of the importer never fires.\<close>

lemma finish_import_total:
  "\<exists>rep. finish_import ie cx ids by_id st = Inr (i_entries st, rep) \<and>
     ir_counts rep = count_classes (i_entries st) \<and> ir_source_records rep = i_records st \<and>
     ir_tables rep = i_tables st \<and> ir_unclassified rep = unclassified_lines (i_entries st) \<and>
     ir_document rep = cx_document cx \<and> ir_revision rep = cx_revision cx \<and> ir_architecture rep = cx_arch cx \<and>
     ir_crosscheck rep = crosscheck ids by_id (imported_names (i_entries st))"
  by (simp add: finish_import_def Let_def count_classes_total)

text \<open>A successful import, taken apart.\<close>

lemma import_run:
  assumes "import_target ie = Inr (es, rep)"
  obtains doc key src path rules tables ds cx st where
    "ie_rules ie = Some doc" "rd_source doc = Some key"
    "get_source (ie_lock_path ie) (ie_lock ie) key = Inr src" "verify (ie_machine ie) src = Inr path"
    "rd_tables doc = Some rules"
    "extract_tables (ie_pages ie path) (Some (kept_ids rules @ or_else (rd_crosscheck doc) [])) = Inr (tables, ds)"
    "undecided_tables ds rules = []" "cx_document cx = s_document src" "cx_revision cx = s_revision src"
    "rd_architecture doc = Some (cx_arch cx)"
    "import_entries ie cx rules (map (\<lambda>t. (table_id t, t)) tables) = Inr st"
    "finish_import ie cx (or_else (rd_crosscheck doc) []) (map (\<lambda>t. (table_id t, t)) tables) st = Inr (es, rep)"
proof -
  from assms obtain doc key src path rules tables ds arch where
    a: "ie_rules ie = Some doc" "rd_source doc = Some key"
    "get_source (ie_lock_path ie) (ie_lock ie) key = Inr src" "verify (ie_machine ie) src = Inr path"
    "rd_tables doc = Some rules"
    "extract_tables (ie_pages ie path) (Some (kept_ids rules @ or_else (rd_crosscheck doc) [])) = Inr (tables, ds)"
    "undecided_tables ds rules = []" "rd_architecture doc = Some arch"
    and r: "rbind (import_entries ie \<lparr>cx_arch = arch, cx_document = s_document src, cx_revision = s_revision src,
        cx_overrides = ie_overrides ie, cx_paths = ie_paths ie, cx_arch_names = ie_arch_names ie,
        cx_arch_addrs = ie_arch_addrs ie\<rparr> rules (map (\<lambda>t. (table_id t, t)) tables)) (\<lambda>st.
      finish_import ie \<lparr>cx_arch = arch, cx_document = s_document src, cx_revision = s_revision src,
        cx_overrides = ie_overrides ie, cx_paths = ie_paths ie, cx_arch_names = ie_arch_names ie,
        cx_arch_addrs = ie_arch_addrs ie\<rparr> (or_else (rd_crosscheck doc) []) (map (\<lambda>t. (table_id t, t)) tables) st)
      = Inr (es, rep)"
    by (auto simp: import_target_def import_verified_def load_rules_def res_simps Let_def split: option.splits if_splits)
  from r show ?thesis unfolding rbind_Inr_iff by (elim exE conjE) (rule that [OF a(1-7) _ _ _], simp_all add: a)
qed

section \<open>A small import, evaluated\<close>

text \<open>
  One page with two tables, of which one is kept: a processor table with two rows, one of them
  also declared in the classification rules, and a register file of two elements.
\<close>

definition import_page :: string where
  "import_page = join [CHR 0x0A]
     [''Table 4-2 NVIC registers'', ''0xE000E004  ICTR  RO  0x1  Type'', ''0xE000E008  ACTLR  RW  0x0  Aux'',
      ''0xE000E00C  -  -  -  Reserved'', ''Table 4-3 Latency'']"

definition plain_rule :: rule where
  "plain_rule = \<lparr>ru_keep = False, ru_profile = None, ru_namespace = None, ru_caption = None,
     ru_feature = None, ru_classification = None, ru_classification_reason = None, ru_component = None\<rparr>"

definition import_sample :: import_env where
  "import_sample = \<lparr>ie_target = ''m'',
     ie_rules = Some \<lparr>rd_source = Some ''m4'', rd_architecture = Some ''ARMv7-M'',
       rd_tables = Some [(''4-2'', plain_rule\<lparr>ru_keep := True, ru_profile := Some ''addr_name_type_reset'',
                            ru_namespace := Some ''arch''\<rparr>), (''4-3'', plain_rule)],
       rd_crosscheck = None\<rparr>,
     ie_overrides = [(''ICTR'', empty_override\<lparr>ov_class := Some ''emitted_state'', ov_declare := True\<rparr>)],
     ie_paths = [(''ACTLR'', \<lparr>ap_regsel = Some 3, ap_lsb = None, ap_width = None\<rparr>)],
     ie_files = [(''fp'', \<lparr>rf_class = Some ''conditional_state'', rf_count = Some 2, rf_name_format = Some ''S%d'',
       rf_alias_format = None, rf_alias_stride = None, rf_width = None, rf_regsel_base = Some 64,
       rf_access = None, rf_requires = Some ''FP'', rf_reason = None, rf_section = None, rf_table = None\<rparr>)],
     ie_lock_path = ''lock.yaml'', ie_lock = Some sample_lock, ie_machine = sample_machine None,
     ie_pages = (\<lambda>_. [import_page]), ie_arch_names = [], ie_arch_addrs = []\<rparr>"

lemma import_sample_source: "get_source ''lock.yaml'' (Some sample_lock) ''m4'' = Inr sample_source"
  by code_simp

lemma import_sample_verify: "verify (sample_machine None) sample_source = Inr (path_of ''/repo/docs/m.pdf'')"
  unfolding verify_Inr by (intro conjI exI [of _ "''PDF-1.4''"]) code_simp+

lemma import_sample_eval:
  "map_sum id (\<lambda>(es, rep). (map (\<lambda>e. (canonical_name e, state_id e, classification e, snapshot e)) es,
       ir_source_records rep, ir_counts rep))
     (import_verified import_sample (case ie_rules import_sample of Some d \<Rightarrow> d) sample_source
       (path_of ''/repo/docs/m.pdf'')) =
   Inr ([(''ICTR'', ''ARMv7-M:arch:ICTR'', EMITTED_STATE, True),
         (''ACTLR'', ''ARMv7-M:arch:ACTLR'', EMITTED_STATE, True),
         (''RESERVED_0xE000E00C'', ''ARMv7-M:arch:RESERVED_0xE000E00C'', EXPLICIT_EXCLUSION, False),
         (''ICTR'', ''ARMv7-M:arch:ICTR'', EMITTED_STATE, False),
         (''S0'', ''ARMv7-M:arch:FPREGS:S0'', CONDITIONAL_STATE, True),
         (''S1'', ''ARMv7-M:arch:FPREGS:S1'', CONDITIONAL_STATE, True)], 3,
        [(''emitted_state'', 3), (''architecture_defined'', 0), (''alias'', 0), (''non_state_operation'', 0),
         (''conditional_state'', 2), (''explicit_exclusion'', 1)])"
  by code_simp

lemma import_sample_run:
  "\<exists>es rep. import_target import_sample = Inr (es, rep) \<and>
     map (\<lambda>e. (canonical_name e, state_id e, classification e, snapshot e)) es =
       [(''ICTR'', ''ARMv7-M:arch:ICTR'', EMITTED_STATE, True),
        (''ACTLR'', ''ARMv7-M:arch:ACTLR'', EMITTED_STATE, True),
        (''RESERVED_0xE000E00C'', ''ARMv7-M:arch:RESERVED_0xE000E00C'', EXPLICIT_EXCLUSION, False),
        (''ICTR'', ''ARMv7-M:arch:ICTR'', EMITTED_STATE, False),
        (''S0'', ''ARMv7-M:arch:FPREGS:S0'', CONDITIONAL_STATE, True),
        (''S1'', ''ARMv7-M:arch:FPREGS:S1'', CONDITIONAL_STATE, True)] \<and>
     ir_source_records rep = 3"
proof -
  obtain doc where doc: "ie_rules import_sample = Some doc" "rd_source doc = Some ''m4''"
    by (simp add: import_sample_def)
  have t: "import_target import_sample = import_verified import_sample doc sample_source (path_of ''/repo/docs/m.pdf'')"
  proof -
    have "ie_lock_path import_sample = ''lock.yaml''" "ie_lock import_sample = Some sample_lock"
      "ie_machine import_sample = sample_machine None" by (simp_all add: import_sample_def)
    with doc import_sample_source import_sample_verify show ?thesis
      by (simp add: import_target_def load_rules_def)
  qed
  show ?thesis using import_sample_eval [unfolded doc(1) option.case]
    by (cases "import_verified import_sample doc sample_source (path_of ''/repo/docs/m.pdf'')")
      (auto simp only: t map_sum.simps id_apply split: prod.splits; simp add: t split: prod.splits)+
qed

lemma finish_import_facts:
  assumes "finish_import ie cx ids by_id st = Inr (es, rep)"
  shows "es = i_entries st" "ir_counts rep = count_classes (i_entries st)" "ir_source_records rep = i_records st"
    "ir_tables rep = i_tables st" "ir_unclassified rep = unclassified_lines (i_entries st)"
    "ir_document rep = cx_document cx" "ir_revision rep = cx_revision cx" "ir_architecture rep = cx_arch cx"
    "ir_crosscheck rep = crosscheck ids by_id (imported_names (i_entries st))"
  using assms by (auto simp: finish_import_def Let_def count_classes_total)

section \<open>What an import guarantees\<close>

text \<open>
  C2. The books balance: the number of source records in the report is the number of entries
  that come from tables and the sum of the rows of the table reports, and in every table
  report the rows are exactly the emitted, conditional, alias, architecture-defined, excluded
  and operation rows together.
\<close>

theorem import_balances:
  assumes "import_target ie = Inr (es, rep)"
  shows "ir_source_records rep = length (filter (\<lambda>e. derivation e = ''table'') es) \<and>
    ir_source_records rep = sum_list (map (\<lambda>tr. st_rows (tr_stats tr)) (ir_tables rep)) \<and>
    (\<forall>tr \<in> set (ir_tables rep). st_rows (tr_stats tr) = stat_total (tr_stats tr))"
proof (rule import_run [OF assms])
  fix doc key src path rules tables ds cx st
  assume run: "import_entries ie cx rules (map (\<lambda>t. (table_id t, t)) tables) = Inr st"
    and fin: "finish_import ie cx (or_else (rd_crosscheck doc) []) (map (\<lambda>t. (table_id t, t)) tables) st = Inr (es, rep)"
  show ?thesis using import_entries_ok [OF run] by (simp add: balanced_def finish_import_facts [OF fin])
qed

theorem import_balances_witness:
  "\<exists>es rep. import_target import_sample = Inr (es, rep) \<and> ir_source_records rep = 3 \<and>
     length (filter (\<lambda>e. derivation e = ''table'') es) = 3"
proof -
  obtain es rep where run: "import_target import_sample = Inr (es, rep)" and n: "ir_source_records rep = 3"
    using import_sample_run by blast
  from import_balances [OF run] run n show ?thesis by auto
qed

text \<open>
  The classification counts of the report are right and complete: they add up to the number
  of entries, and the count of each classification is the number of its entries.\<close>

theorem import_counts:
  assumes "import_target ie = Inr (es, rep)"
  shows "dict_total (ir_counts rep) = length es \<and>
    or_else (dict_get (ir_counts rep) (class_value c)) 0 = length (filter (\<lambda>e. classification e = c) es)"
proof (rule import_run [OF assms])
  fix doc key src path rules tables ds cx st
  assume fin: "finish_import ie cx (or_else (rd_crosscheck doc) []) (map (\<lambda>t. (table_id t, t)) tables) st = Inr (es, rep)"
  show ?thesis by (simp add: finish_import_facts [OF fin] count_classes_total count_classes_get)
qed

theorem import_counts_witness:
  "\<exists>es rep. import_target import_sample = Inr (es, rep) \<and> dict_total (ir_counts rep) = 6 \<and>
     or_else (dict_get (ir_counts rep) ''conditional_state'') 0 = 2"
proof -
  obtain es rep where run: "import_target import_sample = Inr (es, rep)" and
    e: "map (\<lambda>e. (canonical_name e, state_id e, classification e, snapshot e)) es =
       [(''ICTR'', ''ARMv7-M:arch:ICTR'', EMITTED_STATE, True),
        (''ACTLR'', ''ARMv7-M:arch:ACTLR'', EMITTED_STATE, True),
        (''RESERVED_0xE000E00C'', ''ARMv7-M:arch:RESERVED_0xE000E00C'', EXPLICIT_EXCLUSION, False),
        (''ICTR'', ''ARMv7-M:arch:ICTR'', EMITTED_STATE, False),
        (''S0'', ''ARMv7-M:arch:FPREGS:S0'', CONDITIONAL_STATE, True),
        (''S1'', ''ARMv7-M:arch:FPREGS:S1'', CONDITIONAL_STATE, True)]"
    using import_sample_run by (elim exE conjE) (rule that)
  have len: "length es = 6" using arg_cong [OF e, of length] by simp
  have "map classification es = map (\<lambda>(_, _, c, _). c)
      (map (\<lambda>e. (canonical_name e, state_id e, classification e, snapshot e)) es)" by simp
  then have cl: "map classification es = [EMITTED_STATE, EMITTED_STATE, EXPLICIT_EXCLUSION, EMITTED_STATE,
      CONDITIONAL_STATE, CONDITIONAL_STATE]" by (simp add: e)
  have "length (filter (\<lambda>e. classification e = CONDITIONAL_STATE) es) =
      length (filter (\<lambda>c. c = CONDITIONAL_STATE) (map classification es))" by (simp add: filter_map o_def)
  then have "length (filter (\<lambda>e. classification e = CONDITIONAL_STATE) es) = 2" by (simp add: cl)
  with import_counts [OF run, of CONDITIONAL_STATE] run len show ?thesis by auto
qed

text \<open>
  C1. No record is lost.  Take the reviewed rules, the source the lock pins under their key,
  the verified path and the tables that the extraction finds in its text.  The entries of the
  import begin with one block for each kept table, in the order of the sorted identifiers, and
  no later entry comes from a table.  The block of a table holds one entry for each record that
  the parser of the table's profile makes of the captured text, in order: it carries the name
  of the record (or the address of a reserved row), its row, its encoding, and a provenance of
  the pinned document and revision, the table and the page.  A table of the address profile
  has no row left that looks like a row and was not read.
\<close>

theorem import_covers_records:
  assumes "import_target ie = Inr (es, rep)" "ie_rules ie = Some doc"
    and "rd_source doc = Some key" "rd_architecture doc = Some arch" "rd_tables doc = Some rules"
    and "get_source (ie_lock_path ie) (ie_lock ie) key = Inr src" "resolve (ie_machine ie) src = Inr path"
    and "extract_tables (ie_pages ie path) (Some (kept_ids rules @ or_else (rd_crosscheck doc) [])) = Inr (tables, ds)"
  shows "\<exists>blocks rest. es = concat blocks @ rest \<and>
    list_all2 (table_block arch src rules tables) (py_sorted (kept_ids rules)) blocks \<and>
    (\<forall>e \<in> set rest. derivation e \<noteq> ''table'')"
proof (rule import_run [OF assms(1)])
  fix doc' key' src' path' rules' tables' ds' cx st
  assume d: "ie_rules ie = Some doc'" "rd_source doc' = Some key'"
    "get_source (ie_lock_path ie) (ie_lock ie) key' = Inr src'" "verify (ie_machine ie) src' = Inr path'"
    "rd_tables doc' = Some rules'"
    "extract_tables (ie_pages ie path') (Some (kept_ids rules' @ or_else (rd_crosscheck doc') [])) = Inr (tables', ds')"
    and cx: "cx_document cx = s_document src'" "cx_revision cx = s_revision src'"
      "rd_architecture doc' = Some (cx_arch cx)"
    and run: "import_entries ie cx rules' (map (\<lambda>t. (table_id t, t)) tables') = Inr st"
    and fin: "finish_import ie cx (or_else (rd_crosscheck doc') []) (map (\<lambda>t. (table_id t, t)) tables') st = Inr (es, rep)"
  have "path' = path" using d assms by (simp add: verify_Inr)
  then have eq: "src' = src" "cx_arch cx = arch" "rules' = rules" "tables' = tables"
    using d cx(3) assms(2-8) by simp_all
  from import_entries_blocks [OF run cx(1,2)] finish_import_facts(1) [OF fin] show ?thesis
    by (simp add: eq)
qed

theorem import_covers_records_witness:
  "\<exists>es rep rules tables ds blk rest. import_target import_sample = Inr (es, rep) \<and>
     extract_tables [import_page] (Some [''4-2'']) = Inr (tables, ds) \<and> es = blk @ rest \<and>
     table_block ''ARMv7-M'' sample_source rules tables ''4-2'' blk"
proof -
  obtain es rep where run: "import_target import_sample = Inr (es, rep)"
    using import_sample_run by blast
  obtain doc where doc: "ie_rules import_sample = Some doc" by (simp add: import_sample_def)
  obtain rules where d: "rd_source doc = Some ''m4''" "rd_architecture doc = Some ''ARMv7-M''"
    "rd_tables doc = Some rules" "rd_crosscheck doc = None" and k: "kept_ids rules = [''4-2'']"
    using doc by (auto simp: import_sample_def kept_ids_def plain_rule_def)
  have m: "ie_lock_path import_sample = ''lock.yaml''" "ie_lock import_sample = Some sample_lock"
    "ie_machine import_sample = sample_machine None" "ie_pages import_sample p = [import_page]" for p
    by (simp_all add: import_sample_def)
  obtain tables ds where x: "extract_tables [import_page] (Some [''4-2'']) = Inr (tables, ds)"
    by (rule extract_run [of "Some [''4-2'']" "[import_page]"]) blast
  have src: "get_source (ie_lock_path import_sample) (ie_lock import_sample) ''m4'' = Inr sample_source"
    using import_sample_source by (simp add: m)
  have path: "resolve (ie_machine import_sample) sample_source = Inr (path_of ''/repo/docs/m.pdf'')"
    using import_sample_verify by (simp add: m verify_Inr)
  have ex: "extract_tables (ie_pages import_sample (path_of ''/repo/docs/m.pdf''))
      (Some (kept_ids rules @ or_else (rd_crosscheck doc) [])) = Inr (tables, ds)"
    using x d(4) by (simp add: m k)
  have "py_sorted [''4-2''] = [''4-2'']" by code_simp
  with import_covers_records [OF run doc d(1,2,3) src path ex] k run x show ?thesis
    by (fastforce simp: list_all2_Cons1)
qed

text \<open>
  C4. The snapshot flag is sound and complete.  An entry that is not an alias is in the
  whole-processor snapshot exactly when a table gave it and it is emitted or conditional state,
  readable, in the architectural or the processor namespace, or when it is a conditional
  register of a register file; a declared register never is.  An alias is only in the snapshot
  when it comes from a readable row of one of those namespaces that repeats the state identifier
  of an earlier row.  Emitted state outside the register files depends on no feature.
\<close>

theorem import_snapshot:
  assumes "import_target ie = Inr (es, rep)" "i < length es" "e = es ! i"
  shows "(classification e \<noteq> ALIAS \<longrightarrow>
      (snapshot e \<longleftrightarrow>
         derivation e = ''table'' \<and> (classification e = EMITTED_STATE \<or> classification e = CONDITIONAL_STATE) \<and>
           readable e \<and> (namespace e = ARCH \<or> namespace e = CPU) \<or>
         derivation e = ''register_file'' \<and> classification e = CONDITIONAL_STATE)) \<and>
    (classification e = ALIAS \<and> snapshot e \<longrightarrow>
       derivation e = ''table'' \<and> readable e \<and> (namespace e = ARCH \<or> namespace e = CPU) \<and>
       (\<exists>j < i. derivation (es ! j) = ''table'' \<and> state_id (es ! j) = state_id e)) \<and>
    \<not> (classification e = EMITTED_STATE \<and> derivation e \<noteq> ''register_file'' \<and> truthy (feature_requirement e))"
proof (rule import_run [OF assms(1)])
  fix doc key src path rules tables ds cx st
  assume run: "import_entries ie cx rules (map (\<lambda>t. (table_id t, t)) tables) = Inr st"
    and fin: "finish_import ie cx (or_else (rd_crosscheck doc) []) (map (\<lambda>t. (table_id t, t)) tables) st = Inr (es, rep)"
  note es = finish_import_facts(1) [OF fin]
  have ok: "snap_ok e" "feature_ok e"
    using import_entries_ok [OF run] es assms(2,3) nth_mem [OF assms(2)] by auto
  have "flag_at (take i es) e" using import_entries_flags [OF run] es assms(2,3) by (simp add: flags_ok_def)
  with ok row_ids_take [OF assms(2)] show ?thesis by (auto simp: snap_ok_def feature_ok_def flag_at_def)
qed

theorem import_snapshot_witness:
  "\<exists>es rep e. import_target import_sample = Inr (es, rep) \<and> e = es ! 0 \<and> classification e = EMITTED_STATE \<and>
     snapshot e \<and> derivation e = ''table'' \<and> readable e \<and> namespace e \<in> {ARCH, CPU}"
proof -
  obtain es rep where run: "import_target import_sample = Inr (es, rep)" and
    m: "map (\<lambda>e. (canonical_name e, state_id e, classification e, snapshot e)) es =
       [(''ICTR'', ''ARMv7-M:arch:ICTR'', EMITTED_STATE, True),
        (''ACTLR'', ''ARMv7-M:arch:ACTLR'', EMITTED_STATE, True),
        (''RESERVED_0xE000E00C'', ''ARMv7-M:arch:RESERVED_0xE000E00C'', EXPLICIT_EXCLUSION, False),
        (''ICTR'', ''ARMv7-M:arch:ICTR'', EMITTED_STATE, False),
        (''S0'', ''ARMv7-M:arch:FPREGS:S0'', CONDITIONAL_STATE, True),
        (''S1'', ''ARMv7-M:arch:FPREGS:S1'', CONDITIONAL_STATE, True)]"
    using import_sample_run by (elim exE conjE) (rule that)
  obtain e es' where e: "es = e # es'" using m by (cases es) auto
  then have c: "classification e = EMITTED_STATE" "snapshot e" using m by auto
  have "0 < length es" "e = es ! 0" using e by simp_all
  from import_snapshot [OF run this] c show ?thesis using run e by auto
qed

text \<open>
  C8. The state identifiers of the entries that come from tables are pairwise distinct, once
  aliases and exclusions are set aside: a row that repeats a register of the same namespace
  and component is recorded as an alias, never as a second piece of state.
\<close>

theorem import_state_ids_distinct:
  assumes "import_target ie = Inr (es, rep)"
  shows "distinct (map state_id (filter live es))"
proof (rule import_run [OF assms])
  fix doc key src path rules tables ds cx st
  assume run: "import_entries ie cx rules (map (\<lambda>t. (table_id t, t)) tables) = Inr st"
    and fin: "finish_import ie cx (or_else (rd_crosscheck doc) []) (map (\<lambda>t. (table_id t, t)) tables) st = Inr (es, rep)"
  show ?thesis using import_entries_ok [OF run] by (simp add: seen_ok_def finish_import_facts(1) [OF fin])
qed

theorem import_state_ids_distinct_witness:
  "\<exists>es rep. import_target import_sample = Inr (es, rep) \<and> distinct (map state_id (filter live es))"
proof -
  obtain es rep where run: "import_target import_sample = Inr (es, rep)"
    using import_sample_run by blast
  from import_state_ids_distinct [OF run] run show ?thesis by blast
qed



text \<open>
  A register that the rules declare although a table already lists it is imported twice with
  the same state identifier: the loop looks its name up among state identifiers.
\<close>

theorem declared_register_imported_twice:
  "\<exists>es rep a b rest. import_target import_sample = Inr (es, rep) \<and> es = a # rest \<and> b \<in> set rest \<and>
     canonical_name a = ''ICTR'' \<and> state_id b = state_id a \<and> classification b = EMITTED_STATE"
proof -
  obtain es rep where run: "import_target import_sample = Inr (es, rep)" and
    m: "map (\<lambda>e. (canonical_name e, state_id e, classification e, snapshot e)) es =
       [(''ICTR'', ''ARMv7-M:arch:ICTR'', EMITTED_STATE, True),
        (''ACTLR'', ''ARMv7-M:arch:ACTLR'', EMITTED_STATE, True),
        (''RESERVED_0xE000E00C'', ''ARMv7-M:arch:RESERVED_0xE000E00C'', EXPLICIT_EXCLUSION, False),
        (''ICTR'', ''ARMv7-M:arch:ICTR'', EMITTED_STATE, False),
        (''S0'', ''ARMv7-M:arch:FPREGS:S0'', CONDITIONAL_STATE, True),
        (''S1'', ''ARMv7-M:arch:FPREGS:S1'', CONDITIONAL_STATE, True)]"
    using import_sample_run by (elim exE conjE) (rule that)
  then obtain a c d b f g where es: "es = [a, c, d, b, f, g]" by (auto simp: map_eq_Cons_conv)
  with m have "canonical_name a = ''ICTR''" "state_id b = state_id a" "classification b = EMITTED_STATE" by auto
  with run es show ?thesis by auto
qed

end
