(* ===== verification/Generate.thy ===== *)
theory Generate
  imports Importer
begin

text \<open>
  \<open>tools/state/generate.py\<close>: from a manifest to the lines of its \<open>.def\<close> file and to the
  coverage document with its text report.  A generated file is the list of its lines.
\<close>

section \<open>Descriptor lines\<close>

definition EMITTING :: "string list" where
  "EMITTING = [class_value EMITTED_STATE, class_value CONDITIONAL_STATE]"

definition load_manifest :: "string \<Rightarrow> string \<Rightarrow> manifest option \<Rightarrow> manifest res" where
  "load_manifest path target doc =
     (case doc of
        None \<Rightarrow> Inl (FileNotFound (''No manifest for '' @ target @ '' at '' @ path @ ''. Run tools/state_import.py.''))
      | Some d \<Rightarrow> Inr d)"

definition gen_c_name :: "manifest_entry \<Rightarrow> string" where
  "gen_c_name e =
     (let base = me_name e; blk = me_component e;
          base = (if blk \<noteq> [] \<and> \<not> starts_with (upper base) (upper blk) then blk @ ''_'' @ base else base)
      in upper (map (\<lambda>c. if is_alnum c \<or> c = CHR ''_'' then c else CHR ''_'') base))"

definition quote :: "string \<Rightarrow> string" where
  "quote s = [CHR 0x22] @ s @ [CHR 0x22]"

definition bit :: "bool \<Rightarrow> string" where
  "bit b = (if b then ''1'' else ''0'')"

text \<open>\<open>e.get("width") or 32\<close>: a null or zero width is 32.\<close>

definition width_of :: "manifest_entry \<Rightarrow> int" where
  "width_of e = (case me_width e of None \<Rightarrow> 32 | Some w \<Rightarrow> if w = 0 then 32 else w)"

definition emitting :: "manifest_entry \<Rightarrow> bool" where
  "emitting e \<longleftrightarrow> me_classification e \<in> set EMITTING"

definition state_line :: "manifest_entry \<Rightarrow> string" where
  "state_line e =
     ''HW_STATE('' @ gen_c_name e @ '', '' @ quote (me_name e) @ '', HW_NS_'' @ upper (me_namespace e) @ '', '' @
     ''HW_ACC_'' @ upper (py_or (me_access e) ''memory_mapped'') @ '', '' @ quote (py_or (me_encoding e) []) @ '', '' @
     ''HW_ENC_'' @ upper (or_str (me_encoding_kind e) ''absolute'') @ '', '' @
     str_int (width_of e) @ '', '' @ bit (me_readable e) @ '', '' @ bit (me_writable e) @ '', '' @
     bit (me_snapshot e) @ '', '' @ quote (py_or (me_feature_requirement e) []) @ '', '' @
     quote (me_component e) @ '')''"

definition alias_line :: "manifest_entry \<Rightarrow> alias_view \<Rightarrow> string" where
  "alias_line e a =
     ''HW_ALIAS('' @ gen_c_name e @ '', '' @ a_target a @ '', '' @ str_int (a_bit_offset a) @ '', '' @
     str_int (a_bit_width a) @ '')''"

definition operation_line :: "manifest_entry \<Rightarrow> string" where
  "operation_line e =
     (let why = take 90 (replace_ch (CHR 0x22) (CHR 0x27) (py_or (me_reason e) []))
      in ''HW_OPERATION('' @ gen_c_name e @ '', '' @ quote (me_name e) @ '', '' @
         quote (py_or (me_encoding e) []) @ '', '' @ quote why @ '')'')"

definition entry_line :: "manifest_entry \<Rightarrow> string option" where
  "entry_line e =
     (if emitting e then Some (state_line e)
      else if me_classification e = class_value ALIAS \<and> me_alias e \<noteq> None
        then map_option (alias_line e) (me_alias e)
      else if me_classification e = class_value NON_STATE_OPERATION then Some (operation_line e)
      else None)"

section \<open>Components\<close>

definition component_base :: "manifest_entry \<Rightarrow> (string \<times> int) option res" where
  "component_base e =
     (let blk = me_component e; enc = py_or (me_encoding e) [] in
      if blk = [] \<or> me_encoding_kind e \<noteq> ''absolute'' then Inr None
      else if upper (me_name e) \<in> {''CID0'', ''CIDR0''} \<and> starts_with enc ''0x'' then
        rbind (int_res 16 enc) (\<lambda>a.
          let base = a - 0xFF0 in Inr (if 0xE0000000 \<le> base then Some (blk, base) else None))
      else Inr None)"

definition add_component :: "manifest_entry \<Rightarrow> (string \<times> int) list \<Rightarrow> (string \<times> int) list res" where
  "add_component e comps =
     rbind (component_base e) (\<lambda>cb. Inr (case cb of None \<Rightarrow> comps | Some (c, b) \<Rightarrow> dict_setdefault comps c b))"

definition component_line :: "string \<times> int \<Rightarrow> string" where
  "component_line cb =
     (case cb of (blk, base) \<Rightarrow>
        ''HW_COMPONENT('' @ blk @ '', '' @ quote blk @ '', '' @ fmt_addr base @ ''u)'')"

definition sorted_items :: "(string \<times> 'a) list \<Rightarrow> (string \<times> 'a) list" where
  "sorted_items d = filter_map (\<lambda>k. map_option (Pair k) (dict_get d k)) (py_sorted (map fst d))"

definition dbgreg_line :: "manifest_entry \<Rightarrow> string option" where
  "dbgreg_line e =
     (case me_debug_regsel e of
        None \<Rightarrow> None
      | Some regsel \<Rightarrow>
          (if \<not> emitting e then None
           else Some (''HW_DBGREG('' @ gen_c_name e @ '', '' @ quote (me_name e) @ '', '' @ str_int regsel @ '', '' @
                  str_int (me_debug_lsb e) @ '', '' @ str_int (me_debug_width e) @ '')'')))"

section \<open>The file\<close>

definition def_head :: "manifest \<Rightarrow> string list" where
  "def_head doc =
     [''/*'',
      '' * Generated from '' @ mf_document doc @ '' '' @ mf_revision doc @ '' by tools/state_gen.py.'',
      '' * Do not edit. Edit the manifest'' @ [CHR 0x27] @ ''s source rules and re-import instead.'',
      '' *'',
      '' * HW_STATE(id, name, ns, access, encoding, enc_kind, width, readable, writable, snapshot, feature, component)'',
      '' * HW_COMPONENT(id, name, base)   -- CoreSight block base, for ID-based discovery'',
      '' * HW_ALIAS(id, target, bit_offset, bit_width)'',
      '' * HW_OPERATION(id, name, encoding, reason)'',
      '' * HW_DBGREG(id, name, regsel, lsb, width)   -- DCRSR/DCRDR access path'',
      '' */'', '''',
      ''#ifndef HW_STATE'',
      ''#define HW_STATE(id, name, ns, access, enc, ekind, width, rd, wr, snap, feat, comp)'', ''#endif'',
      ''#ifndef HW_ALIAS'', ''#define HW_ALIAS(id, target, off, width)'', ''#endif'',
      ''#ifndef HW_OPERATION'', ''#define HW_OPERATION(id, name, enc, reason)'', ''#endif'',
      ''#ifndef HW_COMPONENT'', ''#define HW_COMPONENT(id, name, base)'', ''#endif'',
      ''#ifndef HW_DBGREG'', ''#define HW_DBGREG(id, name, regsel, lsb, width)'', ''#endif'', '''']"

definition def_tail :: "string list" where
  "def_tail =
     ['''', ''#undef HW_STATE'', ''#undef HW_ALIAS'', ''#undef HW_OPERATION'', ''#undef HW_COMPONENT'',
      ''#undef HW_DBGREG'', '''']"

definition def_lines :: "manifest \<Rightarrow> string list res" where
  "def_lines doc =
     rbind (fold_res add_component (mf_entries doc) []) (\<lambda>comps.
       Inr (def_head doc @ filter_map entry_line (mf_entries doc) @
            map component_line (sorted_items comps) @
            filter_map dbgreg_line (mf_entries doc) @ def_tail))"

definition generate_def :: "string \<Rightarrow> string \<Rightarrow> manifest option \<Rightarrow> string res" where
  "generate_def path target doc =
     rbind (load_manifest path target doc) (\<lambda>d. rbind (def_lines d) (\<lambda>ls. Inr (join nl ls)))"

section \<open>Coverage\<close>

record prose_row =
  pw_classification :: "string option"
  pw_kind :: "string option"

record prose_summary =
  ps_total :: nat
  ps_unclassified :: nat
  ps_unresolved_ranges :: nat
  ps_by_class :: "(string \<times> nat) list"

definition summarize_prose :: "prose_row list option \<Rightarrow> prose_summary option" where
  "summarize_prose artifact =
     (case artifact of
        None \<Rightarrow> None
      | Some ws \<Rightarrow> Some
          \<lparr>ps_total = length ws,
           ps_unclassified = length (filter (\<lambda>r. \<not> truthy (pw_classification r)) ws),
           ps_unresolved_ranges = length (filter (\<lambda>r. pw_kind r \<in> {Some ''range'', Some ''through''} \<and>
             \<not> truthy (pw_classification r)) ws),
           ps_by_class = map (\<lambda>c. (c, length (filter (\<lambda>r. pw_classification r = Some c) ws)))
             (py_sorted (filter_map (\<lambda>r. if truthy (pw_classification r) then pw_classification r else None) ws))\<rparr>)"

record coverage_entry =
  ce_state_id :: string
  ce_name :: string
  ce_namespace :: string
  ce_classification :: string
  ce_encoding :: "string option"
  ce_reason :: "string option"
  ce_feature_requirement :: "string option"
  ce_provenance :: provenance

record coverage_doc =
  cv_target :: string
  cv_architecture :: string
  cv_document :: string
  cv_revision :: string
  cv_total_entries :: nat
  cv_counts :: "(string \<times> nat) list"
  cv_by_derivation :: "(string \<times> nat) list"
  cv_unclassified :: "string list"
  cv_exclusions_without_reason :: "string list"
  cv_snapshot_state :: nat
  cv_prose :: "prose_summary option"
  cv_entries :: "coverage_entry list"

definition coverage_entry_of :: "manifest_entry \<Rightarrow> coverage_entry" where
  "coverage_entry_of e =
     \<lparr>ce_state_id = me_state_id e, ce_name = me_name e, ce_namespace = me_namespace e,
      ce_classification = me_classification e, ce_encoding = me_encoding e, ce_reason = me_reason e,
      ce_feature_requirement = me_feature_requirement e, ce_provenance = me_provenance e\<rparr>"

definition reason_missing :: "manifest_entry \<Rightarrow> bool" where
  "reason_missing e \<longleftrightarrow>
     me_classification e \<in> {class_value EXPLICIT_EXCLUSION, class_value NON_STATE_OPERATION} \<and>
     strip (py_or (me_reason e) []) = []"

definition coverage :: "string \<Rightarrow> prose_row list option \<Rightarrow> manifest \<Rightarrow> coverage_doc" where
  "coverage target artifact doc =
     (let es = mf_entries doc in
      \<lparr>cv_target = target, cv_architecture = mf_architecture doc, cv_document = mf_document doc,
       cv_revision = mf_revision doc, cv_total_entries = length es,
       cv_counts = tally [] (map me_classification es),
       cv_by_derivation = tally [] (map (\<lambda>e. or_str (me_derivation e) ''table'') es),
       cv_unclassified = map me_name (filter (\<lambda>e. me_classification e = []) es),
       cv_exclusions_without_reason = map me_name (filter reason_missing es),
       cv_snapshot_state = length (filter me_snapshot es),
       cv_prose = summarize_prose artifact,
       cv_entries = map coverage_entry_of es\<rparr>)"

definition pad :: "nat \<Rightarrow> string \<Rightarrow> string" where
  "pad w s = s @ replicate (w - length s) (CHR '' '')"

definition report_row :: "string \<Rightarrow> nat \<Rightarrow> string" where
  "report_row title n = pad 34 title @ '' '' @ str_nat n"

definition count_of :: "(string \<times> nat) list \<Rightarrow> string \<Rightarrow> nat" where
  "count_of d k = or_else (dict_get d k) 0"

definition format_report :: "coverage_doc \<Rightarrow> string" where
  "format_report cv =
     (let c = count_of (cv_counts cv) in
      join nl
       ([''Architecture: '' @ cv_architecture cv,
         ''Source:       '' @ cv_document cv @ '' '' @ cv_revision cv,
         report_row ''Source records accounted for:'' (cv_total_entries cv),
         ''Classified:'',
         report_row ''    state'' (c ''emitted_state''),
         report_row ''    conditional state'' (c ''conditional_state''),
         report_row ''    aliases'' (c ''alias''),
         report_row ''    architecture-defined duplicates'' (c ''architecture_defined''),
         report_row ''    non-state operations'' (c ''non_state_operation''),
         report_row ''    explicit exclusions'' (c ''explicit_exclusion''),
         report_row ''Unclassified:'' (length (cv_unclassified cv)),
         report_row ''Exclusions without a reason:'' (length (cv_exclusions_without_reason cv)),
         report_row ''In whole-CPU snapshot:'' (cv_snapshot_state cv),
         ''Derivation:''] @
        map (\<lambda>k. report_row (''    '' @ k @ ''-derived'') (count_of (cv_by_derivation cv) k))
          [''table'', ''declared'', ''register_file'', ''prose''] @
        (case cv_prose cv of
           None \<Rightarrow> []
         | Some pc \<Rightarrow>
             [''Prose scan:'', report_row ''    candidates'' (ps_total pc),
              report_row ''    unclassified'' (ps_unclassified pc),
              report_row ''    unresolved ranges'' (ps_unresolved_ranges pc)]) @
        [[]]))"

section \<open>Descriptors and entries\<close>

lemma emitting_iff:
  "me_classification e = class_value c \<Longrightarrow> emitting e \<longleftrightarrow> c = EMITTED_STATE \<or> c = CONDITIONAL_STATE"
  using classification_enum.inj by (auto simp: emitting_def EMITTING_def)

lemma to_dict_simps [simp]:
  "me_classification (to_dict e) = class_value (classification e)" "me_name (to_dict e) = canonical_name e"
  "me_component (to_dict e) = component e" "me_derivation (to_dict e) = derivation e"
  "me_snapshot (to_dict e) = snapshot e" "me_state_id (to_dict e) = state_id e"
  by (simp_all add: to_dict_def)

text \<open>The lines of one descriptor macro.\<close>

definition is_macro :: "string \<Rightarrow> string \<Rightarrow> bool" where
  "is_macro h l \<longleftrightarrow> starts_with l (h @ ''('')"

definition macro_lines :: "string \<Rightarrow> string list \<Rightarrow> string list" where
  "macro_lines h ls = filter (is_macro h) ls"

lemma macro_lines_simps [simp]:
  "macro_lines h [] = []" "macro_lines h (ls @ ms) = macro_lines h ls @ macro_lines h ms"
  "macro_lines h (l # ls) = (if is_macro h l then l # macro_lines h ls else macro_lines h ls)"
  by (simp_all add: macro_lines_def)

lemma macro_lines_map:
  "macro_lines h (map f xs) = map f (filter (\<lambda>x. is_macro h (f x)) xs)"
  by (simp add: macro_lines_def filter_map o_def)

definition MACROS :: "string list" where
  "MACROS = [''HW_STATE'', ''HW_ALIAS'', ''HW_OPERATION'', ''HW_COMPONENT'', ''HW_DBGREG'']"

lemma in_MACROS [simp]:
  "''HW_STATE'' \<in> set MACROS" "''HW_ALIAS'' \<in> set MACROS" "''HW_OPERATION'' \<in> set MACROS"
  "''HW_COMPONENT'' \<in> set MACROS" "''HW_DBGREG'' \<in> set MACROS"
  by (simp_all add: MACROS_def)

text \<open>The first letters of a line tell which descriptor it is.\<close>

lemma line_heads:
  "h \<in> set MACROS \<Longrightarrow> is_macro h (state_line e) \<longleftrightarrow> h = ''HW_STATE''"
  "h \<in> set MACROS \<Longrightarrow> is_macro h (alias_line e a) \<longleftrightarrow> h = ''HW_ALIAS''"
  "h \<in> set MACROS \<Longrightarrow> is_macro h (operation_line e) \<longleftrightarrow> h = ''HW_OPERATION''"
  "h \<in> set MACROS \<Longrightarrow> is_macro h (component_line cb) \<longleftrightarrow> h = ''HW_COMPONENT''"
  "h \<in> set MACROS \<Longrightarrow> dbgreg_line e = Some l \<Longrightarrow> is_macro h l \<longleftrightarrow> h = ''HW_DBGREG''"
  by (auto simp: is_macro_def MACROS_def state_line_def alias_line_def operation_line_def component_line_def dbgreg_line_def
      Let_def split: prod.splits option.splits if_splits)

lemma macro_lines_frame:
  "h \<in> set MACROS \<Longrightarrow> macro_lines h (def_head doc) = []" "h \<in> set MACROS \<Longrightarrow> macro_lines h def_tail = []"
  by (auto simp: macro_lines_def is_macro_def def_head_def def_tail_def MACROS_def)

definition alias_of_entry :: "manifest_entry \<Rightarrow> string option" where
  "alias_of_entry e = (if me_classification e = class_value ALIAS then map_option (alias_line e) (me_alias e) else None)"

lemma emitting_iff_class:
  "emitting e \<longleftrightarrow> me_classification e = ''emitted_state'' \<or> me_classification e = ''conditional_state''"
  by (auto simp: emitting_def EMITTING_def)

lemma macro_lines_entries:
  "macro_lines ''HW_STATE'' (filter_map entry_line es) = map state_line (filter emitting es)"
  "macro_lines ''HW_ALIAS'' (filter_map entry_line es) = filter_map alias_of_entry es"
  "macro_lines ''HW_OPERATION'' (filter_map entry_line es) =
     map operation_line (filter (\<lambda>e. me_classification e = class_value NON_STATE_OPERATION) es)"
  "macro_lines ''HW_COMPONENT'' (filter_map entry_line es) = []"
  "macro_lines ''HW_DBGREG'' (filter_map entry_line es) = []"
proof (induction es)
  case (Cons e es)
  note defs = entry_line_def alias_of_entry_def emitting_iff_class line_heads
  { case 1 show ?case using Cons by (auto simp: defs split: option.splits) }
  { case 2 show ?case using Cons by (auto simp: defs split: option.splits) }
  { case 3 show ?case using Cons by (auto simp: defs split: option.splits) }
  { case 4 show ?case using Cons by (auto simp: defs split: option.splits) }
  { case 5 show ?case using Cons by (auto simp: defs split: option.splits) }
qed simp_all

lemma macro_lines_components:
  "h \<in> set MACROS \<Longrightarrow> macro_lines h (map component_line cs) = (if h = ''HW_COMPONENT'' then map component_line cs else [])"
  by (simp add: macro_lines_map line_heads)

lemma macro_lines_dbgreg:
  "h \<in> set MACROS \<Longrightarrow> macro_lines h (filter_map dbgreg_line es) = (if h = ''HW_DBGREG'' then filter_map dbgreg_line es else [])"
  by (induction es) (auto split: option.splits simp: line_heads)

lemma def_lines_macros:
  assumes "def_lines doc = Inr ls"
  obtains comps where "fold_res add_component (mf_entries doc) [] = Inr comps"
    and "macro_lines ''HW_STATE'' ls = map state_line (filter emitting (mf_entries doc))"
    and "macro_lines ''HW_ALIAS'' ls = filter_map alias_of_entry (mf_entries doc)"
    and "macro_lines ''HW_OPERATION'' ls =
      map operation_line (filter (\<lambda>e. me_classification e = class_value NON_STATE_OPERATION) (mf_entries doc))"
    and "macro_lines ''HW_COMPONENT'' ls = map component_line (sorted_items comps)"
    and "macro_lines ''HW_DBGREG'' ls = filter_map dbgreg_line (mf_entries doc)"
  using assms
  by (auto simp: def_lines_def res_simps macro_lines_frame macro_lines_entries macro_lines_components
      macro_lines_dbgreg)

lemma fold_components_ok:
  "\<forall>e \<in> set es. \<exists>cb. component_base e = Inr cb \<Longrightarrow> \<exists>comps. fold_res add_component es d = Inr comps"
proof (induction es arbitrary: d)
  case (Cons e es)
  then obtain cb where "component_base e = Inr cb" by auto
  with Cons show ?case by (auto simp: add_component_def)
qed simp

lemma def_lines_ok:
  "\<forall>e \<in> set (mf_entries doc). \<exists>cb. component_base e = Inr cb \<Longrightarrow> \<exists>ls. def_lines doc = Inr ls"
  using fold_components_ok [of "mf_entries doc" "[]"] by (auto simp: def_lines_def)

text \<open>A manifest with one entry of each kind that yields a descriptor, and one that yields none.\<close>

definition sample_prov :: provenance where
  "sample_prov = \<lparr>p_document = ''DDI0403'', p_revision = ''E'', p_section = ''B3'', p_table = ''Table B3-4'',
     p_row = ''ICTR'', p_page = Some 5\<rparr>"

definition sample_entry :: "string \<Rightarrow> classification \<Rightarrow> state_entry" where
  "sample_entry n c = new_entry n ''B3-4'' ''ARMv7-M'' ARCH c sample_prov"

definition sample_entries :: "state_entry list" where
  "sample_entries =
     [(sample_entry ''CIDR0'' EMITTED_STATE)\<lparr>component := ''DWT'', encoding := Some ''0xE0001FF0''\<rparr>,
      (sample_entry ''R0'' CONDITIONAL_STATE)\<lparr>debug_regsel := Some 0\<rparr>,
      (sample_entry ''IPSR'' ALIAS)\<lparr>alias_to := Some \<lparr>a_target = ''XPSR'', a_bit_offset = 0, a_bit_width = 9\<rparr>\<rparr>,
      (sample_entry ''STIR'' NON_STATE_OPERATION)\<lparr>reason := Some ''write-only trigger''\<rparr>,
      sample_entry ''MVFR0'' ARCHITECTURE_DEFINED,
      (sample_entry ''CIDR0'' EMITTED_STATE)\<lparr>component := ''DWT'', encoding := Some ''0xE0041FF0''\<rparr>,
      (sample_entry ''CID0'' EMITTED_STATE)\<lparr>component := ''AUX'', encoding := Some ''0xFF0''\<rparr>]"

definition sample_report :: import_report where
  "sample_report = \<lparr>ir_target = ''armv7m'', ir_architecture = ''ARMv7-M'', ir_document = ''DDI0403'',
     ir_revision = ''E'', ir_source_records = 7, ir_counts = [], ir_tables = [], ir_crosscheck = [],
     ir_unclassified = []\<rparr>"

lemma sample_int_res:
  "int_res 16 ''0xE0001FF0'' = Inr 0xE0001FF0" "int_res 16 ''0xE0041FF0'' = Inr 0xE0041FF0"
  "int_res 16 ''0xFF0'' = Inr 0xFF0" "upper ''CIDR0'' = ''CIDR0''" "upper ''CID0'' = ''CID0''"
  by code_simp+

lemma sample_bases:
  "map (component_base \<circ> to_dict) sample_entries =
     [Inr (Some (''DWT'', 0xE0001000)), Inr None, Inr None, Inr None, Inr None,
      Inr (Some (''DWT'', 0xE0041000)), Inr None]"
  by (simp add: sample_entries_def component_base_def to_dict_def sample_entry_def new_entry_def sample_int_res py_or_def Let_def)

lemma sample_def_lines: "\<exists>ls. def_lines (make_manifest ''armv7m'' sample_entries sample_report) = Inr ls"
proof (rule def_lines_ok)
  have "\<exists>cb. r = Inr cb" if "r \<in> set (map (component_base \<circ> to_dict) sample_entries)" for r
    using that unfolding sample_bases by auto
  then show "\<forall>e \<in> set (mf_entries (make_manifest ''armv7m'' sample_entries sample_report)).
      \<exists>cb. component_base e = Inr cb"
    by (simp add: make_manifest_def)
qed

section \<open>The generated descriptors\<close>

text \<open>
  C9. The generated file holds exactly the descriptors of the imported entries, in order: one
  \<open>HW_STATE\<close> line for every emitted or conditional entry, one \<open>HW_ALIAS\<close> line for every alias
  that has a target, one \<open>HW_OPERATION\<close> line for every operation that is no state, and one
  \<open>HW_DBGREG\<close> line for every emitted or conditional entry with a debug register number; a
  duplicate of the architecture or an exclusion yields no line.
\<close>

theorem descriptors_of_import:
  assumes "def_lines (make_manifest target es rep) = Inr ls"
  shows "macro_lines ''HW_STATE'' ls =
      map (state_line \<circ> to_dict) (filter (\<lambda>e. classification e \<in> {EMITTED_STATE, CONDITIONAL_STATE}) es) \<and>
    macro_lines ''HW_ALIAS'' ls =
      map (\<lambda>e. alias_line (to_dict e) (the (alias_to e)))
        (filter (\<lambda>e. classification e = ALIAS \<and> alias_to e \<noteq> None) es) \<and>
    macro_lines ''HW_OPERATION'' ls =
      map (operation_line \<circ> to_dict) (filter (\<lambda>e. classification e = NON_STATE_OPERATION) es) \<and>
    macro_lines ''HW_DBGREG'' ls =
      map (the \<circ> dbgreg_line \<circ> to_dict)
        (filter (\<lambda>e. classification e \<in> {EMITTED_STATE, CONDITIONAL_STATE} \<and> debug_regsel e \<noteq> None) es)"
proof -
  have cls: "class_value c = class_value d \<longleftrightarrow> c = d" for c d using classification_enum.inj by blast
  have em: "emitting (to_dict e) \<longleftrightarrow> classification e \<in> {EMITTED_STATE, CONDITIONAL_STATE}" for e
    by (auto simp: emitting_iff [OF to_dict_simps(1)])
  have st: "filter emitting (map to_dict es) =
      map to_dict (filter (\<lambda>e. classification e \<in> {EMITTED_STATE, CONDITIONAL_STATE}) es)" for es
    by (induction es) (auto simp: em)
  have al: "filter_map alias_of_entry (map to_dict es) = map (\<lambda>e. alias_line (to_dict e) (the (alias_to e)))
      (filter (\<lambda>e. classification e = ALIAS \<and> alias_to e \<noteq> None) es)" for es
  proof (induction es)
    case (Cons e es)
    have "alias_of_entry (to_dict e) =
        (if classification e = ALIAS then map_option (alias_line (to_dict e)) (alias_to e) else None)"
      using cls [of "classification e" ALIAS] by (simp add: alias_of_entry_def to_dict_def)
    with Cons show ?case by (auto split: option.splits)
  qed simp
  have op: "filter (\<lambda>e. me_classification e = class_value NON_STATE_OPERATION) (map to_dict es) =
      map to_dict (filter (\<lambda>e. classification e = NON_STATE_OPERATION) es)" for es
    by (induction es) (use cls [of _ NON_STATE_OPERATION] in auto)
  have rs: "me_debug_regsel (to_dict e) = debug_regsel e" for e by (simp add: to_dict_def)
  have db: "filter_map dbgreg_line (map to_dict es) = map (the \<circ> dbgreg_line \<circ> to_dict)
      (filter (\<lambda>e. classification e \<in> {EMITTED_STATE, CONDITIONAL_STATE} \<and> debug_regsel e \<noteq> None) es)" for es
  proof (induction es)
    case (Cons e es)
    have "dbgreg_line (to_dict e) = None \<longleftrightarrow>
        \<not> (classification e \<in> {EMITTED_STATE, CONDITIONAL_STATE} \<and> debug_regsel e \<noteq> None)"
      using em [of e] by (auto simp: dbgreg_line_def rs split: option.splits)
    with Cons show ?case by (auto split: option.splits)
  qed simp
  have en: "mf_entries (make_manifest target es rep) = map to_dict es" by (simp add: make_manifest_def)
  show ?thesis
    by (rule def_lines_macros [OF assms]) (simp only: en st al op db map_map HOL.simp_thms)
qed

theorem descriptors_of_import_witness:
  "\<exists>ls. def_lines (make_manifest ''armv7m'' sample_entries sample_report) = Inr ls \<and>
     length (macro_lines ''HW_STATE'' ls) = 4 \<and> length (macro_lines ''HW_ALIAS'' ls) = 1 \<and>
     length (macro_lines ''HW_OPERATION'' ls) = 1 \<and> length (macro_lines ''HW_DBGREG'' ls) = 1"
proof -
  obtain ls where run: "def_lines (make_manifest ''armv7m'' sample_entries sample_report) = Inr ls"
    using sample_def_lines by blast
  from descriptors_of_import [OF run] run show ?thesis
    by (auto simp: sample_entries_def sample_entry_def new_entry_def)
qed

section \<open>CoreSight blocks\<close>

text \<open>The entry is the first component identification register of a block at \<open>b\<close>.\<close>

definition block_base :: "manifest_entry \<Rightarrow> string \<Rightarrow> int \<Rightarrow> bool" where
  "block_base e c b \<longleftrightarrow>
     c \<noteq> [] \<and> me_component e = c \<and> me_encoding_kind e = ''absolute'' \<and>
     upper (me_name e) \<in> {''CID0'', ''CIDR0''} \<and> starts_with (py_or (me_encoding e) []) ''0x'' \<and>
     int_res 16 (py_or (me_encoding e) []) = Inr (b + 0xFF0) \<and> 0xE0000000 \<le> b"

lemma component_base_iff: "component_base e = Inr (Some (c, b)) \<longleftrightarrow> block_base e c b"
proof -
  have "(a - 0xFF0 = b) = (a = b + 0xFF0)" for a :: int by auto
  then show ?thesis
    by (auto simp: component_base_def block_base_def Let_def res_simps)
qed

lemma component_base_other:
  "component_base e = Inr cb \<Longrightarrow> cb = None \<or> (\<exists>c b. cb = Some (c, b) \<and> block_base e c b)"
  using component_base_iff [of e] by (cases cb) auto

definition first_base :: "manifest_entry list \<Rightarrow> string \<Rightarrow> int \<Rightarrow> bool" where
  "first_base es c b \<longleftrightarrow> (\<exists>pre e post. es = pre @ e # post \<and> block_base e c b \<and>
     (\<forall>e' \<in> set pre. \<forall>b'. \<not> block_base e' c b'))"

lemma first_base_Nil [simp]: "\<not> first_base [] c b"
  by (simp add: first_base_def)

lemma block_base_unique: "block_base e c b \<Longrightarrow> block_base e c b' \<Longrightarrow> b' = b"
  by (auto simp: block_base_def)

lemma first_base_Cons:
  "first_base (e # es) c b \<longleftrightarrow> block_base e c b \<or> (\<forall>b'. \<not> block_base e c b') \<and> first_base es c b"
proof
  assume "first_base (e # es) c b"
  then obtain pre x post where p: "e # es = pre @ x # post" "block_base x c b"
    "\<forall>e' \<in> set pre. \<forall>b'. \<not> block_base e' c b'" by (auto simp: first_base_def)
  show "block_base e c b \<or> (\<forall>b'. \<not> block_base e c b') \<and> first_base es c b"
    using p by (cases pre) (auto simp: first_base_def)
next
  assume "block_base e c b \<or> (\<forall>b'. \<not> block_base e c b') \<and> first_base es c b"
  then show "first_base (e # es) c b"
  proof
    assume "block_base e c b"
    then show ?thesis unfolding first_base_def by (intro exI [of _ "[]"]) auto
  next
    assume a: "(\<forall>b'. \<not> block_base e c b') \<and> first_base es c b"
    then obtain pre x post where "es = pre @ x # post" "block_base x c b"
      "\<forall>e' \<in> set pre. \<forall>b'. \<not> block_base e' c b'" by (auto simp: first_base_def)
    with a show ?thesis unfolding first_base_def
      by (intro exI [of _ "e # pre"] exI [of _ x] exI [of _ post]) auto
  qed
qed

lemma fold_add_component:
  assumes "fold_res add_component es d = Inr comps" "distinct (map fst d)"
  shows "distinct (map fst comps) \<and>
    (dict_get comps c = Some b \<longleftrightarrow> dict_get d c = Some b \<or> dict_get d c = None \<and> first_base es c b)"
  using assms
proof (induction es arbitrary: d)
  case (Cons e es)
  from Cons.prems(1) obtain d' where d': "add_component e d = Inr d'" and
    f: "fold_res add_component es d' = Inr comps" by (auto simp: res_simps)
  obtain cb where cb: "component_base e = Inr cb" and
    e: "d' = (case cb of None \<Rightarrow> d | Some (c, b) \<Rightarrow> dict_setdefault d c b)"
    using d' by (auto simp: add_component_def res_simps)
  show ?case
  proof (cases cb)
    case None
    then have "\<not> block_base e c b'" for b' using cb component_base_iff [of e c b'] by simp
    with Cons.IH [of d] None e f Cons.prems(2) show ?thesis by (simp add: first_base_Cons)
  next
    case (Some p)
    obtain k v where p: "p = (k, v)" by (cases p)
    have bb: "block_base e c b' \<longleftrightarrow> c = k \<and> b' = v" for b'
      using cb Some p component_base_iff [of e c b'] by auto
    have "distinct (map fst (dict_setdefault d k v))" using Cons.prems(2) by (rule distinct_dict_setdefault)
    with Cons.IH [of "dict_setdefault d k v"] e f Some p
    show ?thesis by (auto simp: first_base_Cons bb dict_get_setdefault split: option.splits)
  qed
qed simp

lemma sorted_items_keys:
  "map fst (sorted_items d) = py_sorted (map fst d)"
proof -
  have "map fst (filter_map (\<lambda>k. map_option (Pair k) (dict_get d k)) ks) = ks" if "set ks \<subseteq> fst ` set d" for ks
    using that by (induction ks) (auto simp: dict_get_None_iff split: option.splits)
  then show ?thesis by (simp add: sorted_items_def)
qed

lemma sorted_items_in:
  "(k, v) \<in> set (sorted_items d) \<longleftrightarrow> dict_get d k = Some v"
  by (auto simp: sorted_items_def set_filter_map intro: rev_bexI dest: dict_get_in)

text \<open>
  C11. Block discovery: the \<open>HW_COMPONENT\<close> lines are sorted by component with one line for each,
  and a component stands there with a base exactly when some entry is its \<open>CID0\<close>/\<open>CIDR0\<close>
  register \<open>0xFF0\<close> above the base inside the private peripheral bus, the first such entry
  deciding.
\<close>

theorem component_lines_exact:
  assumes "def_lines doc = Inr ls"
  shows "\<exists>cs. macro_lines ''HW_COMPONENT'' ls = map component_line cs \<and> sorted (map fst cs) \<and>
    distinct (map fst cs) \<and> (\<forall>c b. (c, b) \<in> set cs \<longleftrightarrow> first_base (mf_entries doc) c b)"
proof (rule def_lines_macros [OF assms])
  fix comps
  assume f: "fold_res add_component (mf_entries doc) [] = Inr comps"
    and m: "macro_lines ''HW_COMPONENT'' ls = map component_line (sorted_items comps)"
  have "(c, b) \<in> set (sorted_items comps) \<longleftrightarrow> first_base (mf_entries doc) c b" for c b
    using fold_add_component [OF f, of c b] by (simp add: sorted_items_in)
  then show ?thesis using m
    by (intro exI [of _ "sorted_items comps"]) (simp add: sorted_items_keys py_sorted_sorted py_sorted_distinct)
qed

theorem component_lines_exact_witness:
  "\<exists>ls cs. def_lines (make_manifest ''armv7m'' sample_entries sample_report) = Inr ls \<and>
     macro_lines ''HW_COMPONENT'' ls = map component_line cs \<and> (''DWT'', 0xE0001000) \<in> set cs \<and>
     (''DWT'', 0xE0041000) \<notin> set cs"
proof -
  obtain ls where run: "def_lines (make_manifest ''armv7m'' sample_entries sample_report) = Inr ls"
    using sample_def_lines by blast
  have en: "mf_entries (make_manifest ''armv7m'' sample_entries sample_report) = map to_dict sample_entries"
    by (simp add: make_manifest_def)
  have "\<exists>e es. sample_entries = e # es" by (simp add: sample_entries_def)
  then obtain e es where s: "sample_entries = e # es" by blast
  have "component_base (to_dict e) = Inr (Some (''DWT'', 0xE0001000))"
    using sample_bases unfolding s by simp
  then have b: "block_base (to_dict e) ''DWT'' 0xE0001000" by (simp add: component_base_iff)
  then have f: "first_base (map to_dict sample_entries) ''DWT'' 0xE0001000"
    unfolding s list.map first_base_Cons by (rule disjI1)
  have "\<not> block_base (to_dict e) ''DWT'' 0xE0041000" using block_base_unique [OF b] by fastforce
  then have n: "\<not> first_base (map to_dict sample_entries) ''DWT'' 0xE0041000"
    using b unfolding s list.map first_base_Cons by blast
  obtain cs where m: "macro_lines ''HW_COMPONENT'' ls = map component_line cs"
    and cs: "\<forall>c b. (c, b) \<in> set cs \<longleftrightarrow> first_base (map to_dict sample_entries) c b"
    using component_lines_exact [OF run, unfolded en] by (elim exE conjE) (rule that)
  show ?thesis using run m cs [rule_format, THEN iffD2, OF f] n [folded cs [rule_format]]
    by (intro exI conjI)
qed

section \<open>The coverage document\<close>

lemma snap_ok_derivation: "snap_ok e \<Longrightarrow> derivation e \<in> {''table'', ''declared'', ''register_file''}"
  by (auto simp: snap_ok_def)

lemma import_entries_facts:
  assumes "import_target ie = Inr (es, rep)"
  shows "\<forall>e \<in> set es. derivation e \<in> {''table'', ''declared'', ''register_file''}"
    and "ir_source_records rep = length (filter (\<lambda>e. derivation e = ''table'') es)"
    and "ir_counts rep = count_classes es" and "ir_unclassified rep = unclassified_lines es"
proof -
  obtain cx rules tables st ids by_id where run: "import_entries ie cx rules by_id = Inr st"
    and fin: "finish_import ie cx ids by_id st = Inr (es, rep)" by (rule import_run [OF assms]) (rule that)
  note ok = import_entries_ok [OF run]
  show "\<forall>e \<in> set es. derivation e \<in> {''table'', ''declared'', ''register_file''}"
    using ok snap_ok_derivation finish_import_facts(1) [OF fin] by blast
  show "ir_source_records rep = length (filter (\<lambda>e. derivation e = ''table'') es)"
    using ok by (simp add: balanced_def finish_import_facts [OF fin])
  show "ir_counts rep = count_classes es" "ir_unclassified rep = unclassified_lines es"
    by (simp_all add: finish_import_facts [OF fin])
qed

lemma count_list_map: "count_list (map f xs) y = length (filter (\<lambda>x. f x = y) xs)"
  by (induction xs) auto

lemma coverage_counts:
  "count_of (cv_counts (coverage target art (make_manifest target es rep))) (class_value c) =
     length (filter (\<lambda>e. classification e = c) es)"
proof -
  have "filter (\<lambda>e. class_value (classification e) = class_value c) es = filter (\<lambda>e. classification e = c) es"
    by (intro filter_cong) (auto dest: classification_enum.inj)
  then show ?thesis
    by (simp add: count_of_def coverage_def Let_def make_manifest_def tally_get o_def count_list_map)
qed

lemma coverage_derivations:
  assumes "\<forall>e \<in> set es. derivation e \<noteq> []" "k \<noteq> []"
  shows "count_of (cv_by_derivation (coverage target art (make_manifest target es rep))) k =
     length (filter (\<lambda>e. derivation e = k) es)"
proof -
  have "filter (\<lambda>e. or_str (derivation e) ''table'' = k) es = filter (\<lambda>e. derivation e = k) es"
    using assms(1) by (intro filter_cong) (auto simp: or_str_def)
  then show ?thesis
    by (simp add: count_of_def coverage_def Let_def make_manifest_def tally_get o_def count_list_map)
qed

lemma coverage_totals:
  "dict_total (cv_counts (coverage target art doc)) = length (mf_entries doc)"
  "dict_total (cv_by_derivation (coverage target art doc)) = length (mf_entries doc)"
proof -
  have "dict_total (tally [] ks) = length ks" for ks :: "string list"
    using tally_total(1) [of "[]" ks] by (simp add: dict_total_def)
  then show "dict_total (cv_counts (coverage target art doc)) = length (mf_entries doc)"
    "dict_total (cv_by_derivation (coverage target art doc)) = length (mf_entries doc)"
    by (simp_all add: coverage_def Let_def)
qed

lemma class_value_nonempty [simp]: "class_value c \<noteq> []"
  by (cases c) simp_all

lemma needs_reason_missing: "needs_reason e \<Longrightarrow> reason_missing (to_dict e)"
proof -
  assume n: "needs_reason e"
  then have "me_classification (to_dict e) \<in> {class_value EXPLICIT_EXCLUSION, class_value NON_STATE_OPERATION}"
    by (auto simp: needs_reason_def)
  moreover have "py_or (reason e) [] = []" using n by (auto simp: needs_reason_def py_or_def truthy_def split: option.splits)
  moreover have "me_reason (to_dict e) = reason e" by (simp add: to_dict_def)
  ultimately show ?thesis by (simp add: reason_missing_def strip_def strip_by_Nil)
qed

text \<open>
  The coverage report and the import agree.  For the manifest of a successful import the
  report counts every entry once, per classification the same numbers as the import's own
  report, and per derivation: as many table-derived entries as there were source records, and
  table-derived, declared and register-file entries together are all entries.  Nothing is
  unclassified, and every exclusion that the import flagged for its missing reason is listed.
\<close>

theorem coverage_agrees_with_import:
  assumes "import_target ie = Inr (es, rep)" "cv = coverage target art (make_manifest target es rep)"
  shows "cv_total_entries cv = length es \<and> dict_total (cv_counts cv) = length es \<and>
    (\<forall>c. count_of (cv_counts cv) (class_value c) = count_of (ir_counts rep) (class_value c)) \<and>
    dict_total (cv_by_derivation cv) = length es \<and>
    count_of (cv_by_derivation cv) ''table'' = ir_source_records rep \<and>
    count_of (cv_by_derivation cv) ''table'' + count_of (cv_by_derivation cv) ''declared'' +
      count_of (cv_by_derivation cv) ''register_file'' = length es \<and>
    cv_unclassified cv = [] \<and>
    set (ir_unclassified rep) \<subseteq> (\<lambda>n. n @ '': exclusion without a reason'') ` set (cv_exclusions_without_reason cv)"
proof -
  note f = import_entries_facts [OF assms(1)]
  have ne: "\<forall>e \<in> set es. derivation e \<noteq> []" using f(1) by auto
  note d = coverage_derivations [OF ne]
  have split: "length (filter (\<lambda>e. derivation e = ''table'') es) + length (filter (\<lambda>e. derivation e = ''declared'') es) +
      length (filter (\<lambda>e. derivation e = ''register_file'') es) = length es"
    using f(1) by (induction es) auto
  have len: "length (mf_entries (make_manifest target es rep)) = length es" by (simp add: make_manifest_def)
  have counts: "count_of (cv_counts cv) (class_value c) = count_of (ir_counts rep) (class_value c)" for c
    unfolding assms(2) coverage_counts f(3) by (simp add: count_of_def count_classes_get)
  have un: "cv_unclassified cv = []" "cv_total_entries cv = length es"
    by (simp_all add: assms(2) coverage_def Let_def make_manifest_def filter_empty_conv)
  have why: "canonical_name e \<in> set (cv_exclusions_without_reason cv)" if "e \<in> set es" "needs_reason e" for e
    using that needs_reason_missing [of e]
    by (force simp: assms(2) coverage_def Let_def make_manifest_def filter_map o_def)
  then have "set (ir_unclassified rep) \<subseteq> (\<lambda>n. n @ '': exclusion without a reason'') ` set (cv_exclusions_without_reason cv)"
    by (auto simp: f(4) unclassified_lines_def)
  then show ?thesis
    using counts un split d [of "''table''"] d [of "''declared''"] d [of "''register_file''"] f(2)
    by (simp add: assms(2) coverage_totals len)
qed

theorem coverage_agrees_with_import_witness:
  "\<exists>es rep cv. import_target import_sample = Inr (es, rep) \<and> cv = coverage ''m4'' None (make_manifest ''m4'' es rep) \<and>
     count_of (cv_by_derivation cv) ''table'' = 3 \<and> cv_unclassified cv = []"
proof -
  obtain es rep where run: "import_target import_sample = Inr (es, rep)" and n: "ir_source_records rep = 3"
    using import_sample_run by (elim exE conjE) (rule that)
  from coverage_agrees_with_import [OF run refl, of "''m4''" None] n run show ?thesis by auto
qed

section \<open>Identifiers\<close>

text \<open>The name before it is made an identifier: with the component in front, unless it is there already.\<close>

definition full_name :: "state_entry \<Rightarrow> string" where
  "full_name e = (if component e \<noteq> [] \<and> \<not> starts_with (upper (canonical_name e)) (upper (component e))
     then component e @ ''_'' @ canonical_name e else canonical_name e)"

lemma gen_c_name_full:
  "gen_c_name (to_dict e) = upper (map (\<lambda>c. if is_alnum c \<or> c = CHR ''_'' then c else CHR ''_'') (full_name e))"
  by (simp add: gen_c_name_def full_name_def Let_def)

lemma c_name_full: "c_name e = c_identifier (full_name e)"
  by (simp add: c_name_def full_name_def Let_def)

lemma ident_char_alnum: "ident_char c \<Longrightarrow> is_alnum c \<or> c = CHR ''_''"
  by (auto simp: ident_char_def is_alnum_def is_alpha_def)

text \<open>
  The two places that turn an entry into a C identifier agree on names that are identifiers
  already: if the full name has only letters, digits and underscores, with no two underscores
  in a row, none at either end and no digit in front, then the descriptor that the generator
  prints carries exactly the entry's \<open>c_name\<close>, which is the upper-case full name.
\<close>

theorem generated_name_is_c_name:
  assumes "\<forall>c \<in> set (full_name e). ident_char c" "no_double (CHR ''_'') (full_name e)"
    and "full_name e \<noteq> []" "hd (full_name e) \<noteq> CHR ''_''" "last (full_name e) \<noteq> CHR ''_''"
    and "\<not> is_digit_ch (hd (full_name e))"
  shows "gen_c_name (to_dict e) = c_name e \<and> c_name e = upper (full_name e)"
proof -
  let ?n = "full_name e"
  have "\<forall>c \<in> set ?n. \<not> is_space c"
    using assms(1) by (auto simp: ident_char_def is_space_def is_upper_ascii_def is_lower_ascii_def
        is_digit_def between_def cp_def)
  then have s: "strip ?n = ?n" by (simp add: strip_def strip_by_id)
  have m: "map (\<lambda>c. if ident_char c then c else CHR ''_'') ?n = ?n" using assms(1) by (simp add: map_idI)
  have st: "strip_by (in_chars ''_'') ?n = ?n"
    using assms(3-5) by (intro strip_by_ends_id) (auto simp: in_chars_def)
  obtain c t where n: "?n = c # t" using assms(3) by (cases ?n) auto
  have "c_name e = upper ?n"
    unfolding c_name_full c_identifier_def re_sub_nonident re_sub_underscores s m st squeeze_id [OF assms(2)] Let_def
    using assms(6) n by simp
  moreover have "map (\<lambda>c. if is_alnum c \<or> c = CHR ''_'' then c else CHR ''_'') ?n = ?n"
    using assms(1) ident_char_alnum by (intro map_idI) auto
  ultimately show ?thesis by (simp add: gen_c_name_full)
qed

theorem generated_name_is_c_name_witness:
  "gen_c_name (to_dict ((sample_entry ''COMP0'' EMITTED_STATE)\<lparr>component := ''DWT''\<rparr>)) = ''DWT_COMP0''"
proof -
  let ?e = "(sample_entry ''COMP0'' EMITTED_STATE)\<lparr>component := ''DWT''\<rparr>"
  have n: "full_name ?e = ''DWT_COMP0''"
    by (simp add: full_name_def sample_entry_def new_entry_def upper_def upper_ch_def is_lower_ascii_def between_def cp_def)
  have "gen_c_name (to_dict ?e) = c_name ?e \<and> c_name ?e = upper (full_name ?e)"
    by (rule generated_name_is_c_name)
      (simp_all add: n ident_char_def is_upper_ascii_def is_digit_def is_digit_ch_def between_def cp_def)
  moreover have "upper ''DWT_COMP0'' = ''DWT_COMP0''" by code_simp
  ultimately show ?thesis by (simp add: n)
qed

text \<open>Outside those names the two differ: the generator leaves a leading digit as it is.\<close>

lemma generated_name_differs:
  "c_name (sample_entry ''2ND REG'' EMITTED_STATE) = ''_2ND_REG''"
  "gen_c_name (to_dict (sample_entry ''2ND REG'' EMITTED_STATE)) = ''2ND_REG''"
  by code_simp+

section \<open>The prose summary\<close>

lemma prose_classes_sum:
  assumes "\<forall>r \<in> set ws. truthy (pw_classification r) \<longrightarrow> pw_classification r \<in> Some ` set cs" "distinct cs" "[] \<notin> set cs"
  shows "length (filter (\<lambda>r. \<not> truthy (pw_classification r)) ws) +
      sum_list (map (\<lambda>c. length (filter (\<lambda>r. pw_classification r = Some c) ws)) cs) = length ws"
  using assms(1)
proof (induction ws)
  case (Cons r ws)
  have none: "sum_list (map (\<lambda>c. if pw_classification r = Some c then Suc (f c) else f c) cs) = sum_list (map f cs)"
    if "pw_classification r \<notin> Some ` set cs" for f :: "string \<Rightarrow> nat"
    using that by (intro arg_cong [of _ _ sum_list] map_cong) auto
  have one: "sum_list (map (\<lambda>c. if pw_classification r = Some c then Suc (f c) else f c) cs) = Suc (sum_list (map f cs))"
    if "pw_classification r \<in> Some ` set cs" for f :: "string \<Rightarrow> nat"
  proof -
    from that obtain c where c: "pw_classification r = Some c" "c \<in> set cs" by (elim imageE) blast
    have "sum_list (map (\<lambda>d. if c = d then Suc (f d) else f d) cs) = Suc (sum_list (map f cs))"
      using assms(2) c(2)
    proof (induction cs)
      case (Cons d cs)
      show ?case
      proof (cases "c = d")
        case True
        with Cons.prems have e: "map (\<lambda>d. if c = d then Suc (f d) else f d) cs = map f cs" by auto
        show ?thesis unfolding list.map sum_list.Cons e using True by simp
      qed (use Cons in auto)
    qed simp
    with c(1) show ?thesis by simp
  qed
  have fl: "map (\<lambda>c. length (filter (\<lambda>r. pw_classification r = Some c) (r # ws))) cs =
      map (\<lambda>c. if pw_classification r = Some c then Suc (length (filter (\<lambda>r. pw_classification r = Some c) ws))
        else length (filter (\<lambda>r. pw_classification r = Some c) ws)) cs" by simp
  show ?case
  proof (cases "truthy (pw_classification r)")
    case True
    with Cons show ?thesis unfolding fl by (simp add: one)
  next
    case False
    with assms(3) have "pw_classification r \<notin> Some ` set cs" by (auto simp: truthy_def)
    with Cons False show ?thesis unfolding fl by (simp add: none)
  qed
qed simp

text \<open>
  The prose section of the coverage report adds up: every candidate of the scan is counted
  either as unclassified or under exactly one classification, and the unresolved ranges are
  among the unclassified.
\<close>

theorem prose_summary_balances:
  assumes "summarize_prose (Some ws) = Some ps"
  shows "ps_total ps = length ws \<and> ps_unclassified ps + dict_total (ps_by_class ps) = ps_total ps \<and>
    ps_unresolved_ranges ps \<le> ps_unclassified ps \<and> distinct (map fst (ps_by_class ps))"
proof -
  let ?f = "\<lambda>r. if truthy (pw_classification r) then pw_classification r else None"
  let ?cs = "py_sorted (filter_map ?f ws)"
  have cs: "\<forall>r \<in> set ws. truthy (pw_classification r) \<longrightarrow> pw_classification r \<in> Some ` set ?cs"
  proof (intro ballI impI)
    fix r assume r: "r \<in> set ws" "truthy (pw_classification r)"
    then obtain c where c: "pw_classification r = Some c" by (auto simp: truthy_def split: option.splits)
    have "c \<in> set (filter_map ?f ws)" unfolding set_filter_map using r c by (intro bexI [of _ r]) simp_all
    then have "c \<in> set ?cs" by simp
    then show "pw_classification r \<in> Some ` set ?cs" unfolding c by (rule imageI)
  qed
  have ne: "[] \<notin> set ?cs" by (auto simp: set_filter_map truthy_def split: if_splits)
  have "length (filter (\<lambda>r. pw_kind r \<in> {Some ''range'', Some ''through''} \<and> \<not> truthy (pw_classification r)) ws)
      \<le> length (filter (\<lambda>r. \<not> truthy (pw_classification r)) ws)"
    by (induction ws) auto
  then show ?thesis
    using assms prose_classes_sum [OF cs py_sorted_distinct ne]
    by (auto simp: summarize_prose_def dict_total_def o_def py_sorted_distinct)
qed

theorem prose_summary_balances_witness:
  "\<exists>ps. summarize_prose (Some [\<lparr>pw_classification = Some ''state'', pw_kind = Some ''range''\<rparr>,
      \<lparr>pw_classification = None, pw_kind = Some ''through''\<rparr>]) = Some ps \<and>
     ps_unclassified ps + dict_total (ps_by_class ps) = 2"
proof -
  let ?ws = "[\<lparr>pw_classification = Some ''state'', pw_kind = Some ''range''\<rparr>,
      \<lparr>pw_classification = None, pw_kind = Some ''through''\<rparr>]"
  obtain ps where "summarize_prose (Some ?ws) = Some ps" by (simp add: summarize_prose_def)
  with prose_summary_balances [OF this] show ?thesis by auto
qed

end
