(* ===== verification/Tools.thy ===== *)
theory Tools
  imports Generate
begin

text \<open>
  What the command-line tools under \<open>tools/\<close> share: the environment they read, the outcome of
  a command (exit status and the lines printed on the two streams), and the source each target
  is read from.  The manifest files are a function of the target; the text of a verified
  document, which \<open>pdftotext\<close> produces, is a function of its path.
\<close>

record tool_env =
  te_lock_path :: string
  te_lock :: "lock_doc option"
  te_machine :: machine
  te_pages :: "ppath \<Rightarrow> string list"
  te_manifest_path :: "string \<Rightarrow> string"
  te_manifests :: "string \<Rightarrow> manifest option"

record outcome =
  oc_rc :: int
  oc_out :: "string list"
  oc_err :: "string list"

definition TARGET_SOURCE :: "(string \<times> string) list" where
  "TARGET_SOURCE =
     [(''armv7m'', ''armv7m_arm''), (''cortex_m7_r0p2'', ''cortex_m7_trm''),
      (''cortex_m4_r0p0'', ''cortex_m4_trm'')]"

text \<open>The source of a key, and where its verified document is.\<close>

definition verified_source :: "tool_env \<Rightarrow> string \<Rightarrow> (source \<times> ppath) res" where
  "verified_source te key =
     rbind (get_source (te_lock_path te) (te_lock te) key) (\<lambda>src.
     rbind (verify (te_machine te) src) (\<lambda>path. Inr (src, path)))"

definition manifest_of :: "tool_env \<Rightarrow> string \<Rightarrow> manifest res" where
  "manifest_of te target = load_manifest (te_manifest_path te target) target (te_manifests te target)"

text \<open>\<open>try: ... except SourceError as e\<close> around a command.\<close>

fun on_source_error :: "(string \<Rightarrow> outcome) \<Rightarrow> outcome res \<Rightarrow> outcome res" where
  "on_source_error h (Inl (SourceError msg)) = Inr (h msg)"
| "on_source_error h r = r"

lemma on_source_error_Inr:
  "on_source_error h r = Inr oc \<longleftrightarrow> r = Inr oc \<or> (\<exists>msg. r = Inl (SourceError msg) \<and> oc = h msg)"
  by (cases "(h, r)" rule: on_source_error.cases) auto

text \<open>A loop that skips what it has \<open>seen\<close>: every element once, in the order of first occurrence.\<close>

fun keep_first :: "'a list \<Rightarrow> 'a list \<Rightarrow> 'a list" where
  "keep_first seen [] = []"
| "keep_first seen (x # xs) =
     (if x \<in> set seen then keep_first seen xs else x # keep_first (x # seen) xs)"

lemma set_keep_first: "set (keep_first seen xs) = set xs - set seen"
  by (induction seen xs rule: keep_first.induct) auto

lemma distinct_keep_first: "distinct (keep_first seen xs)"
  by (induction seen xs rule: keep_first.induct) (auto simp: set_keep_first)

lemma find_append: "find P (xs @ ys) = (case find P xs of Some x \<Rightarrow> Some x | None \<Rightarrow> find P ys)"
  by (induction xs) auto

text \<open>Columns: \<open>{s:<w}\<close> and \<open>{n:w}\<close>.\<close>

definition number_row :: "nat \<Rightarrow> string \<Rightarrow> nat \<Rightarrow> string" where
  "number_row w title n = pad w title @ '' '' @ str_nat n"

definition quoted_list :: "string list \<Rightarrow> string" where
  "quoted_list xs = join '', '' xs"

section \<open>A small environment\<close>

text \<open>The sample document under the key of the architecture manual, with one manifest for every target.\<close>

definition tool_lock :: lock_doc where
  "tool_lock = sample_lock\<lparr>lk_sources := map (\<lambda>(k, raw). (''armv7m_arm'', raw)) (lk_sources sample_lock)\<rparr>"

definition tool_source :: source where
  "tool_source = sample_source\<lparr>s_key := ''armv7m_arm''\<rparr>"

definition tool_sample :: "string list \<Rightarrow> state_entry list \<Rightarrow> tool_env" where
  "tool_sample pages es =
     \<lparr>te_lock_path = ''lock.yaml'', te_lock = Some tool_lock, te_machine = sample_machine None,
      te_pages = (\<lambda>_. pages), te_manifest_path = id,
      te_manifests = (\<lambda>_. Some (make_manifest ''armv7m'' es sample_report))\<rparr>"

lemma tool_sample_simps [simp]:
  "te_pages (tool_sample pages es) p = pages"
  "manifest_of (tool_sample pages es) t = Inr (make_manifest ''armv7m'' es sample_report)"
  by (simp_all add: tool_sample_def manifest_of_def load_manifest_def)

lemma tool_sample_source:
  "verified_source (tool_sample pages es) ''armv7m_arm'' = Inr (tool_source, path_of ''/repo/docs/m.pdf'')"
proof -
  have "get_source ''lock.yaml'' (Some tool_lock) ''armv7m_arm'' = Inr tool_source" by code_simp
  moreover have "verify (sample_machine None) tool_source = Inr (path_of ''/repo/docs/m.pdf'')"
    unfolding verify_Inr by (intro conjI exI [of _ "''PDF-1.4''"]) code_simp+
  ultimately show ?thesis by (simp add: verified_source_def tool_sample_def)
qed

end
