(* ===== verification/Sweep.thy ===== *)
theory Sweep
  imports Tools
begin

text \<open>
  \<open>tools/state_prose_sweep.py\<close>: every section heading of the form \<open><Long name>, <MNEMONIC>\<close>
  outside the instruction chapters is matched against the manifest, and what is not matched
  must have been reviewed.
\<close>

section \<open>Patterns\<close>



definition mnemonic_tail :: "citem list" where
  "mnemonic_tail = [AZ, Rg (CHR ''0'') (CHR ''9''), Ch (CHR ''_'')]"

definition MNEMONIC_RE :: re where
  "MNEMONIC_RE = seqs
     [lit '','', space_star, RGrp ''1'' (seqs [cls [AZ], m_to_n 1 15 (cls mnemonic_tail)]), space_star, RAsrt Dollar]"


definition BLOCK_PREFIXES :: "string list" where
  "BLOCK_PREFIXES = [''TPIU_'', ''ITM_'', ''DWT_'', ''FP_'', ''MPU_'', ''NVIC_'', ''SYST_'', ''CTI_'']"

section \<open>Spellings\<close>

definition normalise :: "string \<Rightarrow> string" where
  "normalise name = re_sub ARRAY_SUFFIX_RE [] name"

definition prefix_spellings :: "string \<Rightarrow> string \<Rightarrow> string list" where
  "prefix_spellings name pfx =
     (if starts_with name pfx then [drop (length pfx) name, normalise (drop (length pfx) name)] else []) @
     [pfx @ name, normalise (pfx @ name)]"

text \<open>The set of spellings, as the list of its elements.\<close>

definition spellings :: "string \<Rightarrow> string list" where
  "spellings name =
     filter (\<lambda>s. s \<noteq> []) ([name, normalise name] @ concat (map (prefix_spellings name) BLOCK_PREFIXES))"

section \<open>The sweep\<close>


record described =
  ds_section :: string
  ds_title :: string
  ds_name :: string



definition described_of :: "string \<times> string \<Rightarrow> described option" where
  "described_of st =
     (case st of (sec, title) \<Rightarrow>
        map_option (\<lambda>m. \<lparr>ds_section = sec, ds_title = title, ds_name = grp m ''1''\<rparr>) (re_search MNEMONIC_RE title))"


definition known_names :: "manifest_entry list \<Rightarrow> string list" where
  "known_names es = (let known = map (\<lambda>e. upper (me_name e)) es in known @ map normalise known)"

definition covered :: "string list \<Rightarrow> described \<Rightarrow> bool" where
  "covered known d \<longleftrightarrow> set (spellings (upper (ds_name d))) \<inter> set known \<noteq> {}"



section \<open>The command\<close>





section \<open>What the sweep guarantees\<close>

lemma described_of_Some:
  "described_of (sec, title) = Some d \<longleftrightarrow>
     (\<exists>k. re_search MNEMONIC_RE title = Some k \<and> d = \<lparr>ds_section = sec, ds_title = title, ds_name = grp k ''1''\<rparr>)"
  by (auto simp: described_of_def)











text \<open>
  What counts as covered: a heading is matched whenever some entry of the manifest has the
  mnemonic as its name, the same name up to the index of an array, or the name with one of the
  block prefixes added or left out, all in upper case.
\<close>

theorem heading_covered:
  assumes "e \<in> set es" "n = upper (me_name e)" "h = upper (ds_name d)" "n \<noteq> []"
    and "n = h \<or> normalise n = normalise h \<and> normalise n \<noteq> [] \<or> (\<exists>pfx \<in> set BLOCK_PREFIXES. h = pfx @ n \<or> n = pfx @ h)"
  shows "covered (known_names es) d"
proof -
  have k: "n \<in> set (known_names es)" "normalise n \<in> set (known_names es)"
    using assms(1,2) by (auto simp: known_names_def Let_def)
  have p: "h = pfx @ n \<Longrightarrow> n \<in> set (prefix_spellings h pfx)" "n = pfx @ h \<Longrightarrow> n \<in> set (prefix_spellings h pfx)" for pfx
    by (auto simp: prefix_spellings_def starts_with_iff)
  have "n \<in> set (spellings h) \<or> normalise n \<in> set (spellings h)"
    using assms(4,5) p by (auto simp: spellings_def)
  with k show ?thesis by (auto simp: covered_def assms(3))
qed

theorem heading_covered_witness:
  "covered (known_names [to_dict (sample_entry ''COMP0'' EMITTED_STATE)])
     \<lparr>ds_section = ''C1.8.7'', ds_title = ''Comparator, DWT_COMP0'', ds_name = ''DWT_COMP0''\<rparr>"
proof -
  have u: "upper ''COMP0'' = ''COMP0''" "upper ''DWT_COMP0'' = ''DWT_COMP0''" by code_simp+
  show ?thesis
    by (rule heading_covered [where e = "to_dict (sample_entry ''COMP0'' EMITTED_STATE)", OF _ refl refl])
      (simp_all add: u sample_entry_def BLOCK_PREFIXES_def)
qed

text \<open>
  An array that the manifest writes with a placeholder covers none of its elements: the
  names are put in upper case before the placeholder would be taken off, so the sweep reports
  \<open>DWT_COMP0\<close> although the manifest has \<open>DWT_COMPn\<close> and both have the same normal form.
\<close>

theorem placeholder_entry_not_covered:
  "\<not> covered (known_names [to_dict (sample_entry ''DWT_COMPn'' EMITTED_STATE)])
      \<lparr>ds_section = ''C1.8.7'', ds_title = ''Comparator, DWT_COMP0'', ds_name = ''DWT_COMP0''\<rparr> \<and>
   normalise ''DWT_COMPn'' = normalise ''DWT_COMP0''"
proof -
  have "list_ex (\<lambda>s. s \<in> set (map upper [''DWT_COMPn''] @ map normalise (map upper [''DWT_COMPn''])))
      (spellings (upper ''DWT_COMP0'')) = False" by code_simp
  moreover have "normalise ''DWT_COMPn'' = normalise ''DWT_COMP0''" by code_simp
  ultimately show ?thesis
    by (auto simp: covered_def known_names_def Let_def sample_entry_def list_ex_iff)
qed

end
