(* ===== verification/SourceDiff.thy ===== *)
theory SourceDiff
  imports Tools
begin

text \<open>
  \<open>tools/state_source_diff.py\<close>: what changed between the committed manifest of a target and
  another one, or a fresh import, state identifier by state identifier.
\<close>

section \<open>The comparison\<close>

datatype field_value = FStr "string option" | FInt "int option" | FBool bool

definition FIELDS :: "string list" where
  "FIELDS = [''encoding'', ''width'', ''namespace'', ''classification'',
     ''feature_requirement'', ''readable'', ''writable'', ''snapshot'']"

text \<open>\<open>e.get(f)\<close>.\<close>

definition field_of :: "manifest_entry \<Rightarrow> string \<Rightarrow> field_value" where
  "field_of e f =
     (if f = ''encoding'' then FStr (me_encoding e)
      else if f = ''width'' then FInt (me_width e)
      else if f = ''namespace'' then FStr (Some (me_namespace e))
      else if f = ''classification'' then FStr (Some (me_classification e))
      else if f = ''feature_requirement'' then FStr (me_feature_requirement e)
      else if f = ''readable'' then FBool (me_readable e)
      else if f = ''writable'' then FBool (me_writable e)
      else if f = ''snapshot'' then FBool (me_snapshot e)
      else FStr None)"

type_synonym entry_index = "(string \<times> manifest_entry) list"

text \<open>A dictionary by state identifier: of several entries with one identifier the last stays.\<close>

definition index_entries :: "manifest_entry list \<Rightarrow> entry_index" where
  "index_entries es = foldl (\<lambda>d e. dict_set d (me_state_id e) e) [] es"

definition field_diffs :: "manifest_entry \<Rightarrow> manifest_entry \<Rightarrow> string list" where
  "field_diffs a b = filter (\<lambda>f. field_of a f \<noteq> field_of b f) FIELDS"

record diff =
  df_added :: "string list"
  df_removed :: "string list"
  df_encoding :: "string list"
  df_feature :: "string list"
  df_other :: "string list"
  df_unchanged :: nat

definition key_diff :: "entry_index \<Rightarrow> entry_index \<Rightarrow> string list" where
  "key_diff a b = py_sorted (filter (\<lambda>k. k \<notin> fst ` set b) (map fst a))"

definition common_keys :: "entry_index \<Rightarrow> entry_index \<Rightarrow> string list" where
  "common_keys a b = py_sorted (filter (\<lambda>k. k \<in> fst ` set b) (map fst a))"

definition compare_key :: "entry_index \<Rightarrow> entry_index \<Rightarrow> string \<Rightarrow> diff \<Rightarrow> diff" where
  "compare_key old new k d =
     (case (dict_get old k, dict_get new k) of
        (Some a, Some b) \<Rightarrow>
          (let fs = field_diffs a b in
           if fs = [] then d\<lparr>df_unchanged := Suc (df_unchanged d)\<rparr>
           else if ''encoding'' \<in> set fs then
             d\<lparr>df_encoding := df_encoding d @ [k @ '': '' @ opt_str (me_encoding a) @ '' -> '' @ opt_str (me_encoding b)]\<rparr>
           else if ''feature_requirement'' \<in> set fs then
             d\<lparr>df_feature := df_feature d @ [k @ '': '' @ opt_str (me_feature_requirement a) @ '' -> '' @
                 opt_str (me_feature_requirement b)]\<rparr>
           else d\<lparr>df_other := df_other d @ [k @ '': '' @ join '', '' fs]\<rparr>)
      | _ \<Rightarrow> d)"

definition diff_indexes :: "entry_index \<Rightarrow> entry_index \<Rightarrow> diff" where
  "diff_indexes old new =
     fold (compare_key old new) (common_keys old new)
       \<lparr>df_added = key_diff new old, df_removed = key_diff old new, df_encoding = [], df_feature = [],
        df_other = [], df_unchanged = 0\<rparr>"

definition diff_clean :: "diff \<Rightarrow> bool" where
  "diff_clean d \<longleftrightarrow> df_added d = [] \<and> df_removed d = [] \<and> df_encoding d = [] \<and> df_feature d = [] \<and> df_other d = []"

section \<open>The command\<close>

definition diff_section :: "string \<Rightarrow> string \<Rightarrow> string list \<Rightarrow> string list" where
  "diff_section title mark ks = number_row 26 title (length ks) # map (\<lambda>k. ''    '' @ mark @ '' '' @ k) (take 20 ks)"

definition diff_outcome :: "diff \<Rightarrow> outcome" where
  "diff_outcome d =
     \<lparr>oc_rc = (if diff_clean d then 0 else 1),
      oc_out = diff_section ''New source entries:'' ''+'' (df_added d) @
        diff_section ''Removed source entries:'' ''-'' (df_removed d) @
        diff_section ''Changed encodings:'' ''~'' (df_encoding d) @
        diff_section ''Changed feature rules:'' ''~'' (df_feature d) @
        diff_section ''Other changes:'' ''~'' (df_other d) @
        [number_row 26 ''Unchanged:'' (df_unchanged d)],
      oc_err = []\<rparr>"

text \<open>
  The new side: the manifest file given by \<open>--against\<close> (\<open>None\<close> if it is not there), or a
  fresh import with the names, but not the addresses, of the architecture manifest.
\<close>

definition new_entries ::
  "tool_env \<Rightarrow> import_env \<Rightarrow> string option \<Rightarrow> manifest option option \<Rightarrow> manifest_entry list res" where
  "new_entries te ie arch against =
     (case against of
        Some None \<Rightarrow> Inl (FileNotFound ''No such file or directory'')
      | Some (Some doc) \<Rightarrow> Inr (mf_entries doc)
      | None \<Rightarrow>
          rbind (if truthy arch then rbind (manifest_of te (opt_str arch)) (\<lambda>doc. Inr (map me_name (mf_entries doc)))
                 else Inr []) (\<lambda>names.
          rbind (import_target (ie\<lparr>ie_arch_names := names, ie_arch_addrs := []\<rparr>)) (\<lambda>(es, rep).
          Inr (map to_dict es))))"

fun on_missing :: "(string \<Rightarrow> outcome) \<Rightarrow> outcome res \<Rightarrow> outcome res" where
  "on_missing h (Inl (SourceError msg)) = Inr (h msg)"
| "on_missing h (Inl (FileNotFound msg)) = Inr (h msg)"
| "on_missing h r = r"

definition source_diff_main ::
  "tool_env \<Rightarrow> import_env \<Rightarrow> string option \<Rightarrow> manifest option option \<Rightarrow> outcome res" where
  "source_diff_main te ie arch against =
     on_missing (\<lambda>msg. \<lparr>oc_rc = 2, oc_out = [], oc_err = [''ERROR: '' @ msg]\<rparr>)
       (rbind (manifest_of te (ie_target ie)) (\<lambda>doc.
        rbind (new_entries te ie arch against) (\<lambda>new.
        Inr (diff_outcome (diff_indexes (index_entries (mf_entries doc)) (index_entries new))))))"

section \<open>The index\<close>

lemma foldl_index:
  "dict_get (foldl (\<lambda>d e. dict_set d (me_state_id e) e) d es) k =
     (case find (\<lambda>e. me_state_id e = k) (rev es) of Some e \<Rightarrow> Some e | None \<Rightarrow> dict_get d k)"
proof (induction es arbitrary: d)
  case (Cons e es)
  then show ?case by (auto simp: find_append split: option.splits)
qed simp

lemma index_get: "dict_get (index_entries es) k = find (\<lambda>e. me_state_id e = k) (rev es)"
  by (simp add: index_entries_def foldl_index split: option.split)

lemma index_keys: "fst ` set (index_entries es) = me_state_id ` set es"
proof -
  have "k \<in> fst ` set (index_entries es) \<longleftrightarrow> k \<in> me_state_id ` set es" for k
    using dict_get_None_iff [of "index_entries es" k] by (auto simp: index_get find_None_iff)
  then show ?thesis by blast
qed

lemma index_distinct: "distinct (map fst (index_entries es))"
proof -
  have "distinct (map fst d) \<Longrightarrow> distinct (map fst (foldl (\<lambda>d e. dict_set d (me_state_id e) e) d es))" for d
    by (induction es arbitrary: d) (auto simp: distinct_dict_set)
  then show ?thesis by (simp add: index_entries_def)
qed

section \<open>The result of the comparison\<close>

text \<open>Two entries agree on everything the tool compares.\<close>

definition agree :: "manifest_entry \<Rightarrow> manifest_entry \<Rightarrow> bool" where
  "agree a b \<longleftrightarrow> me_encoding a = me_encoding b \<and> me_width a = me_width b \<and> me_namespace a = me_namespace b \<and>
     me_classification a = me_classification b \<and> me_feature_requirement a = me_feature_requirement b \<and>
     me_readable a = me_readable b \<and> me_writable a = me_writable b \<and> me_snapshot a = me_snapshot b"

lemma field_diffs_Nil: "field_diffs a b = [] \<longleftrightarrow> agree a b"
  by (auto simp: field_diffs_def FIELDS_def field_of_def agree_def filter_empty_conv)

definition same_key :: "entry_index \<Rightarrow> entry_index \<Rightarrow> string \<Rightarrow> bool" where
  "same_key old new k \<longleftrightarrow> (case (dict_get old k, dict_get new k) of (Some a, Some b) \<Rightarrow> agree a b | _ \<Rightarrow> False)"

definition changed_count :: "diff \<Rightarrow> nat" where
  "changed_count d = length (df_encoding d) + length (df_feature d) + length (df_other d)"

lemma compare_key_effect:
  assumes "k \<in> fst ` set old" "k \<in> fst ` set new"
  shows "df_added (compare_key old new k d) = df_added d" "df_removed (compare_key old new k d) = df_removed d"
    "df_unchanged (compare_key old new k d) = df_unchanged d + (if same_key old new k then 1 else 0)"
    "changed_count (compare_key old new k d) = changed_count d + (if same_key old new k then 0 else 1)"
proof -
  obtain a b where "dict_get old k = Some a" "dict_get new k = Some b"
    using assms dict_get_None_iff [of old k] dict_get_None_iff [of new k] by auto
  then show "df_added (compare_key old new k d) = df_added d" "df_removed (compare_key old new k d) = df_removed d"
    "df_unchanged (compare_key old new k d) = df_unchanged d + (if same_key old new k then 1 else 0)"
    "changed_count (compare_key old new k d) = changed_count d + (if same_key old new k then 0 else 1)"
    by (auto simp: compare_key_def same_key_def changed_count_def Let_def field_diffs_Nil)
qed

lemma compare_fold:
  assumes "\<forall>k \<in> set ks. k \<in> fst ` set old \<and> k \<in> fst ` set new"
  shows "df_added (fold (compare_key old new) ks d) = df_added d \<and>
    df_removed (fold (compare_key old new) ks d) = df_removed d \<and>
    df_unchanged (fold (compare_key old new) ks d) = df_unchanged d + length (filter (same_key old new) ks) \<and>
    changed_count (fold (compare_key old new) ks d) =
      changed_count d + length (filter (\<lambda>k. \<not> same_key old new k) ks)"
  using assms by (induction ks arbitrary: d) (auto simp: compare_key_effect)

lemma common_keys_both: "\<forall>k \<in> set (common_keys old new). k \<in> fst ` set old \<and> k \<in> fst ` set new"
  by (auto simp: common_keys_def)

lemma diff_indexes_facts:
  "df_added (diff_indexes old new) = key_diff new old" "df_removed (diff_indexes old new) = key_diff old new"
  "df_unchanged (diff_indexes old new) = length (filter (same_key old new) (common_keys old new))"
  "changed_count (diff_indexes old new) = length (filter (\<lambda>k. \<not> same_key old new k) (common_keys old new))"
  using compare_fold [OF common_keys_both] by (simp_all add: diff_indexes_def changed_count_def)

lemma diff_clean_changed: "diff_clean d \<longleftrightarrow> df_added d = [] \<and> df_removed d = [] \<and> changed_count d = 0"
  by (auto simp: diff_clean_def changed_count_def)

lemma py_sorted_Nil: "py_sorted xs = [] \<longleftrightarrow> xs = []"
proof -
  have "py_sorted xs = [] \<longleftrightarrow> set (py_sorted xs) = {}" by (simp only: set_empty)
  then show ?thesis by simp
qed

lemma key_diff_Nil: "key_diff a b = [] \<longleftrightarrow> fst ` set a \<subseteq> fst ` set b"
  by (auto simp: key_diff_def py_sorted_Nil filter_empty_conv)

lemma diff_clean_iff:
  "diff_clean (diff_indexes old new) \<longleftrightarrow> fst ` set old = fst ` set new \<and> (\<forall>k \<in> fst ` set old. same_key old new k)"
proof -
  have "set (common_keys old new) = fst ` set old \<inter> fst ` set new" by (auto simp: common_keys_def)
  then have c: "changed_count (diff_indexes old new) = 0 \<longleftrightarrow> (\<forall>k \<in> fst ` set old \<inter> fst ` set new. same_key old new k)"
    unfolding diff_indexes_facts length_0_conv filter_empty_conv by simp
  show ?thesis
  proof (cases "fst ` set old = fst ` set new")
    case False
    then have "df_added (diff_indexes old new) \<noteq> [] \<or> df_removed (diff_indexes old new) \<noteq> []"
      unfolding diff_indexes_facts key_diff_Nil by (metis subset_antisym)
    with False show ?thesis by (auto simp: diff_clean_changed)
  next
    case True
    then have "df_added (diff_indexes old new) = []" "df_removed (diff_indexes old new) = []"
      unfolding diff_indexes_facts key_diff_Nil by simp_all
    with True c show ?thesis by (simp add: diff_clean_changed)
  qed
qed

text \<open>The entry a manifest's index holds under an identifier: its last one.\<close>

definition last_entry :: "manifest_entry list \<Rightarrow> string \<Rightarrow> manifest_entry option" where
  "last_entry es k = find (\<lambda>e. me_state_id e = k) (rev es)"

lemma same_key_last:
  "same_key (index_entries a) (index_entries b) k =
     (case (last_entry a k, last_entry b k) of (Some x, Some y) \<Rightarrow> agree x y | _ \<Rightarrow> False)"
  by (simp add: same_key_def index_get last_entry_def)

lemma diff_entries_clean:
  "diff_clean (diff_indexes (index_entries a) (index_entries b)) \<longleftrightarrow>
     (\<forall>k. rel_option agree (last_entry a k) (last_entry b k))"
proof -
  have k: "k \<in> me_state_id ` set es \<longleftrightarrow> last_entry es k \<noteq> None" for es k
    by (auto simp: last_entry_def find_None_iff)
  have "diff_clean (diff_indexes (index_entries a) (index_entries b)) \<longleftrightarrow>
      (\<forall>k. k \<in> me_state_id ` set a \<longleftrightarrow> k \<in> me_state_id ` set b) \<and>
      (\<forall>k. k \<in> me_state_id ` set a \<longrightarrow> same_key (index_entries a) (index_entries b) k)"
    unfolding diff_clean_iff index_keys set_eq_iff Ball_def ..
  also have "\<dots> \<longleftrightarrow> (\<forall>k. rel_option agree (last_entry a k) (last_entry b k))"
    unfolding k same_key_last all_conj_distrib [symmetric]
    by (rule arg_cong [of _ _ All], rule ext) (auto simp: option_rel_Some1 split: option.splits)
  finally show ?thesis .
qed

text \<open>
  C14. The source diff is exact.  If the committed manifest and the new side (the manifest of
  \<open>--against\<close> or a fresh import) can both be read, the exit status is 0 precisely if every state
  identifier occurs on both sides or on neither and the last entries under it agree on all
  eight compared fields, and 1 otherwise; of several entries with one identifier only the last
  counts.  If either side cannot be read, the status is 2 and only an error line is printed.
\<close>

theorem source_diff_exit:
  assumes "source_diff_main te ie arch against = Inr oc"
  shows "case (manifest_of te (ie_target ie), new_entries te ie arch against) of
      (Inr doc, Inr new) \<Rightarrow> oc_err oc = [] \<and>
        oc_rc oc = (if \<forall>k. rel_option agree (last_entry (mf_entries doc) k) (last_entry new k) then 0 else 1)
    | _ \<Rightarrow> oc_rc oc = 2 \<and> oc_out oc = [] \<and> (\<exists>msg. oc_err oc = [''ERROR: '' @ msg])"
proof -
  let ?run = "rbind (manifest_of te (ie_target ie)) (\<lambda>doc. rbind (new_entries te ie arch against) (\<lambda>new.
        Inr (diff_outcome (diff_indexes (index_entries (mf_entries doc)) (index_entries new)))))"
  have err: "oc_rc oc = 2 \<and> oc_out oc = [] \<and> (\<exists>msg. oc_err oc = [''ERROR: '' @ msg])" if "?run = Inl e" for e
    using that assms by (cases e) (auto simp: source_diff_main_def)
  show ?thesis
  proof (cases "manifest_of te (ie_target ie)")
    case (Inl e)
    then show ?thesis using err [of e] by simp
  next
    case doc: (Inr doc)
    show ?thesis
    proof (cases "new_entries te ie arch against")
      case (Inl e)
      with doc show ?thesis using err [of e] by simp
    next
      case (Inr new)
      with doc assms have "oc = diff_outcome (diff_indexes (index_entries (mf_entries doc)) (index_entries new))"
        by (simp add: source_diff_main_def)
      with doc Inr show ?thesis by (simp add: diff_outcome_def diff_entries_clean)
    qed
  qed
qed

theorem source_diff_exit_witness:
  "\<exists>oc. source_diff_main (tool_sample [] [sample_entry ''ICTR'' EMITTED_STATE]) import_sample None
      (Some (Some (make_manifest ''armv7m'' [sample_entry ''ICTR'' ALIAS] sample_report))) = Inr oc \<and> oc_rc oc = 1"
proof -
  let ?te = "tool_sample [] [sample_entry ''ICTR'' EMITTED_STATE]"
  let ?new = "make_manifest ''armv7m'' [sample_entry ''ICTR'' ALIAS] sample_report"
  let ?id = "state_id (sample_entry ''ICTR'' ALIAS)"
  obtain oc where run: "source_diff_main ?te import_sample None (Some (Some ?new)) = Inr oc"
    by (simp add: source_diff_main_def new_entries_def)
  from source_diff_exit [OF run] have "oc_rc oc = (if \<forall>k. rel_option agree
      (last_entry (mf_entries (make_manifest ''armv7m'' [sample_entry ''ICTR'' EMITTED_STATE] sample_report)) k)
      (last_entry (mf_entries ?new) k) then 0 else 1)"
    by (auto simp: new_entries_def)
  moreover have "\<not> rel_option agree
      (last_entry (mf_entries (make_manifest ''armv7m'' [sample_entry ''ICTR'' EMITTED_STATE] sample_report)) ?id)
      (last_entry (mf_entries ?new) ?id)"
    by (simp add: make_manifest_def last_entry_def agree_def sample_entry_def new_entry_def state_id_def)
  ultimately have "oc_rc oc = 1" by presburger
  with run show ?thesis by blast
qed

text \<open>
  The five lists and the counter of the source diff partition the identifiers: added,
  changed and unchanged ones together are the identifiers of the new manifest, removed,
  changed and unchanged ones those of the old, and swapping the manifests swaps added and
  removed and leaves the number of changes alone.
\<close>

theorem source_diff_partition:
  fixes old new
  defines "d \<equiv> diff_indexes (index_entries old) (index_entries new)"
    and "d' \<equiv> diff_indexes (index_entries new) (index_entries old)"
  shows "length (df_added d) + changed_count d + df_unchanged d = card (me_state_id ` set new) \<and>
    length (df_removed d) + changed_count d + df_unchanged d = card (me_state_id ` set old) \<and>
    df_added d' = df_removed d \<and> df_removed d' = df_added d \<and>
    changed_count d' = changed_count d \<and> df_unchanged d' = df_unchanged d"
proof -
  let ?o = "index_entries old" and ?n = "index_entries new"
  have split: "length (filter P xs) + length (filter (\<lambda>x. \<not> P x) xs) = length xs" for P and xs :: "string list"
    by (induction xs) auto
  have card: "length (py_sorted xs) = card (set xs)" for xs :: "string list"
    using distinct_card [OF py_sorted_distinct, of xs] by simp
  have parts: "length (key_diff a b) + length (common_keys a b) = card (fst ` set a)" for a b :: entry_index
  proof -
    have "set (filter (\<lambda>k. k \<notin> fst ` set b) (map fst a)) \<union> set (filter (\<lambda>k. k \<in> fst ` set b) (map fst a)) = fst ` set a"
      by auto
    moreover have "set (filter (\<lambda>k. k \<notin> fst ` set b) (map fst a)) \<inter> set (filter (\<lambda>k. k \<in> fst ` set b) (map fst a)) = {}"
      by auto
    ultimately show ?thesis unfolding key_diff_def common_keys_def card
      by (metis List.finite_set card_Un_disjoint)
  qed
  have comm: "common_keys ?n ?o = common_keys ?o ?n"
  proof -
    have "set (filter (\<lambda>k. k \<in> fst ` set ?o) (map fst ?n)) = set (filter (\<lambda>k. k \<in> fst ` set ?n) (map fst ?o))" by auto
    then show ?thesis unfolding common_keys_def py_sorted_def
      by (metis sorted_list_of_set_sort_remdups)
  qed
  have agr: "agree a b = agree b a" for a b by (auto simp: agree_def)
  have "same_key ?n ?o k = same_key ?o ?n k" for k
    by (auto simp: same_key_def agr split: option.splits)
  then have "same_key ?n ?o = same_key ?o ?n" by blast
  then have sym: "changed_count d' = changed_count d" "df_unchanged d' = df_unchanged d"
    unfolding d_def d'_def diff_indexes_facts comm by simp_all
  have cu: "changed_count d + df_unchanged d = length (common_keys ?o ?n)"
    using split [of "same_key ?o ?n" "common_keys ?o ?n"] unfolding d_def diff_indexes_facts by simp
  show ?thesis
    using parts [of ?n ?o] parts [of ?o ?n] sym cu unfolding index_keys comm
    by (simp add: d_def d'_def diff_indexes_facts)
qed

text \<open>
  Importing again changes nothing: if the committed manifest is the one the tool's own
  import produces, the source diff reports no difference and exits with 0.
\<close>

theorem fresh_import_has_no_diff:
  assumes "import_target (ie\<lparr>ie_arch_names := [], ie_arch_addrs := []\<rparr>) = Inr (es, rep)"
    and "te_manifests te (ie_target ie) = Some (make_manifest (ie_target ie) es rep)"
  shows "\<exists>oc. source_diff_main te ie None None = Inr oc \<and> oc_rc oc = 0 \<and> oc_err oc = []"
proof -
  have "rel_option agree x x" for x by (cases x) (simp_all add: agree_def)
  then have "diff_clean (diff_indexes (index_entries (map to_dict es)) (index_entries (map to_dict es)))"
    unfolding diff_entries_clean by blast
  then show ?thesis
    using assms by (simp add: source_diff_main_def manifest_of_def load_manifest_def new_entries_def truthy_def
        make_manifest_def diff_outcome_def)
qed

theorem fresh_import_has_no_diff_witness:
  "\<exists>te oc. source_diff_main te import_sample None None = Inr oc \<and> oc_rc oc = 0"
proof -
  obtain es rep where "import_target import_sample = Inr (es, rep)" using import_sample_run by blast
  moreover have "import_sample\<lparr>ie_arch_names := [], ie_arch_addrs := []\<rparr> = import_sample"
    by (simp add: import_sample_def)
  ultimately have run: "import_target (import_sample\<lparr>ie_arch_names := [], ie_arch_addrs := []\<rparr>) = Inr (es, rep)" by simp
  have "te_manifests ((tool_sample [] [])\<lparr>te_manifests := \<lambda>_. Some (make_manifest (ie_target import_sample) es rep)\<rparr>)
      (ie_target import_sample) = Some (make_manifest (ie_target import_sample) es rep)" by simp
  from fresh_import_has_no_diff [OF run this] show ?thesis by blast
qed

text \<open>
  An entry that is followed by another one with the same state identifier, as every
  repeated row of a table is, takes no part in the comparison: whatever happens to it, the
  source diff stays clean.
\<close>

theorem duplicate_hides_entry:
  assumes "me_state_id a = me_state_id d" "me_state_id b = me_state_id d"
  shows "diff_clean (diff_indexes (index_entries (pre @ a # mid @ d # post)) (index_entries (pre @ b # mid @ d # post)))"
proof -
  have "last_entry (pre @ a # mid @ d # post) k = last_entry (pre @ b # mid @ d # post) k" for k
    using assms by (auto simp: last_entry_def find_append split: option.splits)
  moreover have "rel_option agree x x" for x by (cases x) (simp_all add: agree_def)
  ultimately show ?thesis unfolding diff_entries_clean by simp
qed

theorem duplicate_hides_entry_witness:
  "let e = sample_entry ''ICTR'' EMITTED_STATE; f = e\<lparr>encoding := Some ''0xE000E004''\<rparr>;
       d = duplicate_entry ''4-2'' ''ICTR'' e e
   in me_encoding (to_dict f) \<noteq> me_encoding (to_dict e) \<and>
      diff_clean (diff_indexes (index_entries [to_dict e, to_dict d]) (index_entries [to_dict f, to_dict d]))"
proof -
  let ?e = "sample_entry ''ICTR'' EMITTED_STATE"
  let ?f = "?e\<lparr>encoding := Some ''0xE000E004''\<rparr>" and ?d = "duplicate_entry ''4-2'' ''ICTR'' ?e ?e"
  have "state_id ?f = state_id ?e" by (simp add: state_id_def)
  then have "diff_clean (diff_indexes (index_entries ([] @ to_dict ?e # [] @ to_dict ?d # []))
      (index_entries ([] @ to_dict ?f # [] @ to_dict ?d # [])))"
    by (intro duplicate_hides_entry) simp_all
  moreover have "encoding ?f \<noteq> encoding ?e" by (simp add: sample_entry_def new_entry_def)
  moreover have "me_encoding (to_dict x) = encoding x" for x by (simp add: to_dict_def)
  ultimately show ?thesis unfolding Let_def append_Nil by metis
qed

text \<open>
  The import of the source diff looks up no addresses: whatever addresses the architecture
  manifest has, the comparison is the same, so a register that the overlay spells differently,
  which the import command classifies by its address as defined by the architecture, comes out
  as new processor state and shows up as a difference.
\<close>

theorem diff_ignores_addresses:
  "source_diff_main te (ie\<lparr>ie_arch_addrs := addrs\<rparr>) arch against = source_diff_main te ie arch against \<and>
   (let r = plain_rec ''STCSR'' (Some ''0xE000E010'') ''RW'' None [] 1;
        cx = \<lparr>cx_arch = ''ARMv7-M'', cx_document = ''DDI0439'', cx_revision = ''B'', cx_overrides = [], cx_paths = [],
              cx_arch_names = [''SYST_CSR''], cx_arch_addrs = [(''0XE000E010'', ''SYST_CSR'')]\<rparr>
    in fst (auto_class cx ''STCSR'' r) = ARCH \<and> fst (snd (auto_class cx ''STCSR'' r)) = ARCHITECTURE_DEFINED \<and>
       auto_class (cx\<lparr>cx_arch_addrs := []\<rparr>) ''STCSR'' r = (CPU, EMITTED_STATE, None))"
proof
  show "source_diff_main te (ie\<lparr>ie_arch_addrs := addrs\<rparr>) arch against = source_diff_main te ie arch against"
  proof -
    have eq: "ie\<lparr>ie_arch_addrs := addrs, ie_arch_names := names, ie_arch_addrs := []\<rparr> =
        ie\<lparr>ie_arch_names := names, ie_arch_addrs := []\<rparr>" for names by (cases ie) simp
    have "new_entries te (ie\<lparr>ie_arch_addrs := addrs\<rparr>) arch against = new_entries te ie arch against"
      unfolding new_entries_def eq ..
    moreover have "ie_target (ie\<lparr>ie_arch_addrs := addrs\<rparr>) = ie_target ie" by simp
    ultimately show ?thesis by (simp only: source_diff_main_def)
  qed
qed code_simp

end
