(* ===== verification/Tables.thy ===== *)
theory Tables
  imports Tools "HOL-Library.Product_Lexorder"
begin

text \<open>
  \<open>tools/state_tables.py\<close>: seeding the reviewed decisions on the tables of a document, and
  checking that they are complete and current.
\<close>

section \<open>The rules file\<close>

text \<open>
  One row of the rules file as this tool reads it: a key is present or absent (no row of the
  files has a null under these keys); \<open>tw_rest\<close> are the other keys, carried along.
\<close>

record table_row =
  tw_caption :: "string option"
  tw_keep :: "bool option"
  tw_reason :: "string option"
  tw_rest :: "(string \<times> string) list"

definition row_empty :: "table_row \<Rightarrow> bool" where
  "row_empty r \<longleftrightarrow> tw_caption r = None \<and> tw_keep r = None \<and> tw_reason r = None \<and> tw_rest r = []"

type_synonym table_rules = "(string \<times> table_row) list"

record tables_doc =
  td_schema_version :: int
  td_source :: string
  td_architecture :: string
  td_tables :: table_rules

definition TARGETS :: "(string \<times> (string \<times> string)) list" where
  "TARGETS =
     [(''armv7m'', (''armv7m_arm'', ''ARMv7-M'')), (''cortex_m7_r0p2'', (''cortex_m7_trm'', ''ARMv7-M'')),
      (''cortex_m4_r0p0'', (''cortex_m4_trm'', ''ARMv7-M''))]"

definition discover :: "tool_env \<Rightarrow> string \<Rightarrow> ((string \<times> string) \<times> decision list) res" where
  "discover te target =
     rbind (require target (dict_get TARGETS target)) (\<lambda>cfg.
     rbind (verified_source te (fst cfg)) (\<lambda>(src, path).
     rbind (extract_tables (te_pages te path) None) (\<lambda>(ts, ds). Inr (cfg, ds))))"

section \<open>Seeding\<close>

definition seed_key :: "decision \<Rightarrow> string \<times> nat \<times> string" where
  "seed_key d = (take 1 (d_table_id d), length (d_table_id d), d_table_id d)"

definition fresh_row :: "decision \<Rightarrow> table_row" where
  "fresh_row d =
     \<lparr>tw_caption = Some (d_caption d), tw_keep = Some False,
      tw_reason = Some ''UNREVIEWED - a human must decide whether this is a register enumeration'', tw_rest = []\<rparr>"

text \<open>\<open>prev.setdefault("caption", d.caption)\<close> on a row that is not empty, else a new row.\<close>

definition seed_row :: "table_rules \<Rightarrow> decision \<Rightarrow> table_row" where
  "seed_row existing d =
     (case dict_get existing (d_table_id d) of
        Some prev \<Rightarrow> (if row_empty prev then fresh_row d
                      else prev\<lparr>tw_caption := Some (or_else (tw_caption prev) (d_caption d))\<rparr>)
      | None \<Rightarrow> fresh_row d)"

definition seed_tables :: "table_rules \<Rightarrow> decision list \<Rightarrow> table_rules" where
  "seed_tables existing ds =
     foldl (\<lambda>t d. dict_set t (d_table_id d) (seed_row existing d)) [] (sort_key seed_key ds)"

text \<open>\<open>"UNREVIEWED" in str(t.get("reason", ""))\<close>: a null reason prints as \<open>None\<close>.\<close>

definition unreviewed_row :: "table_row \<Rightarrow> bool" where
  "unreviewed_row r \<longleftrightarrow> contains (or_else (tw_reason r) []) ''UNREVIEWED''"

definition seed :: "tool_env \<Rightarrow> string \<Rightarrow> string \<Rightarrow> table_rules option \<Rightarrow> (tables_doc \<times> outcome) res" where
  "seed te target rules_path rules =
     rbind (discover te target) (\<lambda>(cfg, ds).
       (let tables = seed_tables (or_else rules []) ds in
        Inr (\<lparr>td_schema_version = 1, td_source = fst cfg, td_architecture = snd cfg, td_tables = tables\<rparr>,
          \<lparr>oc_rc = 0, oc_out = [rules_path @ '': '' @ str_nat (length tables) @ '' captions, '' @
             str_nat (length (filter (\<lambda>(tid, r). unreviewed_row r) tables)) @ '' unreviewed''], oc_err = []\<rparr>)))"

section \<open>Checking\<close>

definition undecided_line :: "decision list \<Rightarrow> string \<Rightarrow> string" where
  "undecided_line ds tid =
     ''ERROR: Table '' @ tid @ '' ('' @
     py_repr (case find (\<lambda>d. d_table_id d = tid) ds of Some d \<Rightarrow> d_caption d | None \<Rightarrow> []) @
     '') is in the document but has no decision.''"

definition absent_line :: "string \<Rightarrow> string" where
  "absent_line tid = ''ERROR: rules decide Table '' @ tid @ '' but it is absent from the document.''"

definition unreviewed_line :: "string \<times> table_row \<Rightarrow> string" where
  "unreviewed_line tr =
     ''ERROR: Table '' @ fst tr @ '' ('' @ py_repr (or_else (tw_caption (snd tr)) []) @ '') is still UNREVIEWED.''"

definition check_errors :: "decision list \<Rightarrow> table_rules \<Rightarrow> string list" where
  "check_errors ds rules =
     (let found = map d_table_id ds; decided = map fst rules in
      map (undecided_line ds) (py_sorted (filter (\<lambda>t. t \<notin> set decided) found)) @
      map absent_line (py_sorted (filter (\<lambda>t. t \<notin> set found) decided)) @
      map unreviewed_line (filter (\<lambda>(tid, r). unreviewed_row r) (sort_key fst rules)))"

definition check_rules :: "tool_env \<Rightarrow> string \<Rightarrow> string \<Rightarrow> table_rules option \<Rightarrow> outcome res" where
  "check_rules te target rules_path rules =
     rbind (discover te target) (\<lambda>(cfg, ds).
       (case rules of
          None \<Rightarrow> Inr \<lparr>oc_rc = 1, oc_out = [],
                    oc_err = [''ERROR: no rules file at '' @ rules_path @ ''. Run --seed and review it.'']\<rparr>
        | Some rs \<Rightarrow>
            (let errs = check_errors ds rs in
             Inr (if errs = [] then
                    \<lparr>oc_rc = 0, oc_out = [target @ '': all '' @ str_nat (length (remdups (map d_table_id ds))) @
                       '' table captions have reviewed decisions''], oc_err = []\<rparr>
                  else \<lparr>oc_rc = 1, oc_out = [], oc_err = errs\<rparr>))))"

definition tables_main :: "tool_env \<Rightarrow> string \<Rightarrow> string \<Rightarrow> table_rules option \<Rightarrow> bool \<Rightarrow> outcome res" where
  "tables_main te target rules_path rules seeding =
     on_source_error (\<lambda>msg. \<lparr>oc_rc = 2, oc_out = [], oc_err = [''ERROR: '' @ msg]\<rparr>)
       (if seeding then rbind (seed te target rules_path rules) (\<lambda>(doc, oc). Inr oc)
        else check_rules te target rules_path rules)"

section \<open>The captions of a document\<close>

text \<open>The identifiers decided on are those of the captions, whichever tables are captured.\<close>

definition caption_ids :: "string list \<Rightarrow> string list" where
  "caption_ids lines = filter_map (\<lambda>l. map_option fst (caption_of l)) lines"

lemma caption_ids_in: "tid \<in> set (caption_ids ls) \<longleftrightarrow> (\<exists>l \<in> set ls. \<exists>cap. caption_of l = Some (tid, cap))"
  by (auto simp: caption_ids_def set_filter_map)

lemma parse_table_body_rest: "set (fst (parse_table_body pg ls t)) \<subseteq> set ls"
proof (induction pg ls t rule: parse_table_body.induct)
  case (2 pg line ls t)
  then show ?case by (auto split: option.splits if_splits)
qed simp

lemma handle_caption_rest: "set (fst (handle_caption keep_ids pg ls tid cap w)) \<subseteq> set ls"
  by (auto simp: handle_caption_def Let_def dest!: subsetD [OF parse_table_body_rest])

lemma walk_page_captions:
  "fst ` set (w_decisions (walk_page keep_ids pg ls w)) \<subseteq> fst ` set (w_decisions w) \<union> set (caption_ids ls)"
proof (induction "length ls" arbitrary: ls w rule: less_induct)
  case less
  show ?case
  proof (cases ls)
    case (Cons line lines)
    show ?thesis
    proof (cases "caption_of line")
      case None
      with less.hyps [of lines "note_section line w"] Cons show ?thesis
        by (auto simp: caption_ids_def simp del: walk_page.simps simp add: walk_page_Cons)
    next
      case (Some tc)
      obtain tid cap where tc: "tc = (tid, cap)" by (cases tc)
      let ?h = "handle_caption keep_ids pg lines tid cap (note_section line w)"
      have "length (fst ?h) < length ls"
        using Cons handle_caption_length [of keep_ids pg lines tid cap] by (simp add: less_Suc_eq_le)
      from less.hyps [OF this, of "snd ?h"] have
        "fst ` set (w_decisions (walk_page keep_ids pg (fst ?h) (snd ?h))) \<subseteq>
          insert tid (fst ` set (w_decisions w)) \<union> set (caption_ids (fst ?h))"
        by (auto simp: handle_caption_keys)
      moreover have "set (caption_ids (fst ?h)) \<subseteq> set (caption_ids ls)"
        using handle_caption_rest [of keep_ids pg lines tid cap] Cons unfolding subset_iff caption_ids_in
        by (meson list.set_intros(2))
      moreover have "tid \<in> set (caption_ids ls)" using Some tc Cons by (simp add: caption_ids_def)
      ultimately show ?thesis using Some tc Cons
        by (auto simp del: walk_page.simps simp add: walk_page_Cons Let_def)
    qed
  qed simp
qed

lemma walk_pages_captions:
  "fst ` set (w_decisions (walk_pages keep_ids pg ps w)) \<subseteq>
     fst ` set (w_decisions w) \<union> set (caption_ids (concat (map splitlines ps)))"
proof (induction ps arbitrary: pg w)
  case (Cons p ps)
  have "set (caption_ids (splitlines p)) \<subseteq> set (caption_ids (concat (map splitlines (p # ps))))"
    "set (caption_ids (concat (map splitlines ps))) \<subseteq> set (caption_ids (concat (map splitlines (p # ps))))"
    by (auto simp: caption_ids_def)
  with Cons.IH [of "Suc pg" "walk_page keep_ids pg (splitlines p) w"]
    walk_page_captions [of keep_ids pg "splitlines p" w]
  show ?case by (simp del: map_append) blast
qed simp

lemma decided_are_captions:
  assumes "extract_tables pages keep_ids = Inr (ts, ds)"
  shows "d_table_id ` set ds = set (caption_ids (concat (map splitlines pages)))"
proof -
  obtain w es where ok: "walk_ok keep_ids w"
    and w: "w = walk_pages keep_ids 1 pages \<lparr>w_tables = [], w_decisions = [], w_section = []\<rparr>"
    and ex: "extract_tables pages keep_ids = Inr (map snd (w_tables w), map snd es)"
    and keys: "map fst es = map fst (w_decisions w)"
    and trace: "\<And>tid d'. dict_get es tid = Some d' \<Longrightarrow> \<exists>d n. dict_get (w_decisions w) tid = Some d \<and>
       d' = d\<lparr>d_row_count := n\<rparr> \<and> (tid \<notin> fst ` set (w_tables w) \<longrightarrow> n = d_row_count d)"
    by (rule extract_run [of keep_ids pages]) blast
  have "d_table_id d = tid" if "(tid, d) \<in> set es" for tid d
    using final_decision(1) [OF ok keys trace that] .
  then have "d_table_id ` snd ` set es = fst ` set es" by force
  then have "d_table_id ` set ds = fst ` set (w_decisions w)"
    using ex assms keys by (metis Inr_inject Pair_inject image_set)
  also have "\<dots> \<subseteq> set (caption_ids (concat (map splitlines pages)))"
    using walk_pages_captions [of keep_ids 1 pages "\<lparr>w_tables = [], w_decisions = [], w_section = []\<rparr>"]
    by (simp add: w)
  finally show ?thesis using caption_decided [OF _ _ _ assms] by (fastforce simp: caption_ids_in)
qed

lemma extract_tables_total: "\<exists>ts ds. extract_tables pages keep_ids = Inr (ts, ds) \<and> distinct (map d_table_id ds)"
proof -
  obtain w es where ok: "walk_ok keep_ids w"
    and ex: "extract_tables pages keep_ids = Inr (map snd (w_tables w), map snd es)"
    and keys: "map fst es = map fst (w_decisions w)"
    and trace: "\<And>tid d'. dict_get es tid = Some d' \<Longrightarrow> \<exists>d n. dict_get (w_decisions w) tid = Some d \<and>
       d' = d\<lparr>d_row_count := n\<rparr> \<and> (tid \<notin> fst ` set (w_tables w) \<longrightarrow> n = d_row_count d)"
    by (rule extract_run [of keep_ids pages]) blast
  have "\<forall>(tid, d) \<in> set es. d_table_id d = tid" using final_decision(1) [OF ok keys trace] by blast
  then have "map d_table_id (map snd es) = map fst es" by (rule map_key_snd)
  moreover have "distinct (map fst es)" using ok keys by (simp add: walk_ok_def decisions_ok_def)
  ultimately have "distinct (map d_table_id (map snd es))" by (simp only:)
  with ex show ?thesis by blast
qed

lemma discover_ids:
  assumes "discover te target = Inr (cfg, ds)"
  obtains src path where "dict_get TARGETS target = Some cfg" "verified_source te (fst cfg) = Inr (src, path)"
    "d_table_id ` set ds = set (caption_ids (concat (map splitlines (te_pages te path))))" "distinct (map d_table_id ds)"
proof -
  obtain src path ts where *: "dict_get TARGETS target = Some cfg" "verified_source te (fst cfg) = Inr (src, path)"
    "extract_tables (te_pages te path) None = Inr (ts, ds)"
    using assms by (auto simp: discover_def res_simps split: prod.splits)
  moreover have "distinct (map d_table_id ds)" using extract_tables_total [of "te_pages te path" None] *(3) by auto
  ultimately show ?thesis using decided_are_captions [OF *(3)] that by blast
qed

lemma discovered_captions:
  assumes "discover te target = Inr (cfg', ds)" "dict_get TARGETS target = Some cfg"
    and "verified_source te (fst cfg) = Inr (src, path)"
  shows "d_table_id ` set ds = set (caption_ids (concat (map splitlines (te_pages te path))))"
proof (rule discover_ids [OF assms(1)])
  fix src' path'
  assume "dict_get TARGETS target = Some cfg'" "verified_source te (fst cfg') = Inr (src', path')"
    and ids: "d_table_id ` set ds = set (caption_ids (concat (map splitlines (te_pages te path'))))"
  then have "path' = path" using assms(2,3) by simp
  with ids show ?thesis by simp
qed

lemma discovered_distinct: "discover te target = Inr (cfg, ds) \<Longrightarrow> distinct (map d_table_id ds)"
  by (erule discover_ids)

section \<open>Seeding and checking\<close>

lemma seed_tables_get:
  assumes "distinct (map d_table_id ds)"
  shows "dict_get (seed_tables existing ds) tid =
      map_option (seed_row existing) (find (\<lambda>d. d_table_id d = tid) ds)"
    and "distinct (map fst (seed_tables existing ds))"
    and "fst ` set (seed_tables existing ds) = d_table_id ` set ds"
proof -
  let ?f = "\<lambda>t d. dict_set t (d_table_id d) (seed_row existing d)"
  have get: "dict_get (foldl ?f t es) k = (if k \<in> d_table_id ` set es
      then map_option (seed_row existing) (find (\<lambda>d. d_table_id d = k) es) else dict_get t k)"
    if "distinct (map d_table_id es)" for t es k
    using that by (induction es arbitrary: t) auto
  have dist: "distinct (map fst (foldl ?f t es))" if "distinct (map fst t)" for t es
    using that by (induction es arbitrary: t) (auto simp: distinct_dict_set)
  have keys: "fst ` set (foldl ?f t es) = fst ` set t \<union> d_table_id ` set es" for t es
    by (induction es arbitrary: t) (auto simp: keys_dict_set)
  let ?s = "sort_key seed_key ds"
  have ds: "distinct (map d_table_id ?s)"
    using assms by (simp add: distinct_map)
  have same: "find (\<lambda>d. d_table_id d = tid) ?s = find (\<lambda>d. d_table_id d = tid) ds"
  proof -
    have uniq: "find (\<lambda>d. d_table_id d = tid) es = (if tid \<in> d_table_id ` set es
        then Some (inv_into (set es) d_table_id tid) else None)" if "distinct (map d_table_id es)" for es
    proof (cases "find (\<lambda>d. d_table_id d = tid) es")
      case (Some d)
      then have "d \<in> set es" "d_table_id d = tid" by (auto simp: find_Some_iff)
      with that have "inv_into (set es) d_table_id tid = d" by (auto simp: distinct_map)
      with Some \<open>d \<in> set es\<close> \<open>d_table_id d = tid\<close> show ?thesis by auto
    qed (auto simp: find_None_iff)
    show ?thesis using uniq [OF ds] uniq [OF assms] by simp
  qed
  show "dict_get (seed_tables existing ds) tid = map_option (seed_row existing) (find (\<lambda>d. d_table_id d = tid) ds)"
    using get [OF ds, of "[]" tid] by (auto simp: seed_tables_def same find_None_iff)
  show "distinct (map fst (seed_tables existing ds))" unfolding seed_tables_def by (rule dist) simp
  show "fst ` set (seed_tables existing ds) = d_table_id ` set ds" by (simp add: seed_tables_def keys)
qed

lemma check_errors_Nil:
  "check_errors ds rules = [] \<longleftrightarrow> d_table_id ` set ds = fst ` set rules \<and> (\<forall>(tid, r) \<in> set rules. \<not> unreviewed_row r)"
proof -
  have n: "py_sorted xs = [] \<longleftrightarrow> xs = []" for xs :: "string list"
    using set_empty [of "py_sorted xs"] by simp
  show ?thesis by (auto simp: check_errors_def Let_def n filter_empty_conv)
qed

lemma check_rules_run:
  assumes "check_rules te target p rules = Inr oc"
  obtains cfg ds where "discover te target = Inr (cfg, ds)"
    "oc_rc oc = (case rules of None \<Rightarrow> 1 | Some rs \<Rightarrow> if check_errors ds rs = [] then 0 else 1)"
  using assms by (auto simp: check_rules_def res_simps Let_def split: option.splits if_splits)

text \<open>
  C15. The check of the table rules is exact: its status is 0 precisely if there is a rules file,
  the tables it decides on are the captions of the document (as the walk reads them) and no
  reason is still marked as unreviewed; otherwise it is 1.
\<close>

theorem tables_check_exact:
  assumes "check_rules te target p rules = Inr oc"
    and "dict_get TARGETS target = Some cfg" "verified_source te (fst cfg) = Inr (src, path)"
  shows "oc_rc oc = (case rules of None \<Rightarrow> 1 | Some rs \<Rightarrow>
    if set (caption_ids (concat (map splitlines (te_pages te path)))) = fst ` set rs \<and>
       (\<forall>(tid, r) \<in> set rs. \<not> unreviewed_row r) then 0 else 1)"
proof -
  obtain cfg' ds where d: "discover te target = Inr (cfg', ds)"
    and rc: "oc_rc oc = (case rules of None \<Rightarrow> 1 | Some rs \<Rightarrow> if check_errors ds rs = [] then 0 else 1)"
    using check_rules_run [OF assms(1)] .
  show ?thesis unfolding rc check_errors_Nil discovered_captions [OF d assms(2,3)] ..
qed

lemma seed_row_keeps:
  "tw_caption (seed_row existing d) \<noteq> None \<and>
    (case dict_get existing (d_table_id d) of
       Some prev \<Rightarrow> row_empty prev \<or> tw_keep (seed_row existing d) = tw_keep prev \<and>
         tw_reason (seed_row existing d) = tw_reason prev \<and> tw_rest (seed_row existing d) = tw_rest prev \<and>
         (tw_caption prev \<noteq> None \<longrightarrow> seed_row existing d = prev)
     | None \<Rightarrow> unreviewed_row (seed_row existing d) \<and> tw_keep (seed_row existing d) = Some False)"
  by (auto simp: seed_row_def fresh_row_def unreviewed_row_def split: option.split)

text \<open>
  Seeding never overwrites a reviewed decision: the seeded file decides on exactly the
  captions of the document; a row that was there keeps its decision, its reason and its other
  keys, and gets a caption only if it had none; every new row is marked as unreviewed and is
  not kept.
\<close>

theorem seed_keeps_reviewed:
  assumes "discover te target = Inr (cfg, ds)" "seed te target p (Some existing) = Inr (doc, oc)"
  shows "fst ` set (td_tables doc) = d_table_id ` set ds \<and> distinct (map fst (td_tables doc)) \<and>
    (\<forall>d \<in> set ds. \<exists>r. dict_get (td_tables doc) (d_table_id d) = Some r \<and> tw_caption r \<noteq> None \<and>
      (case dict_get existing (d_table_id d) of
         Some prev \<Rightarrow> row_empty prev \<or> tw_keep r = tw_keep prev \<and> tw_reason r = tw_reason prev \<and> tw_rest r = tw_rest prev \<and>
           (tw_caption prev \<noteq> None \<longrightarrow> r = prev)
       | None \<Rightarrow> unreviewed_row r \<and> tw_keep r = Some False))"
proof -
  have t: "td_tables doc = seed_tables existing ds" using assms by (auto simp: seed_def Let_def)
  have dist: "distinct (map d_table_id ds)" by (rule discovered_distinct [OF assms(1)])
  note get = seed_tables_get [OF dist]
  show ?thesis unfolding t
  proof (intro conjI ballI)
    show "fst ` set (seed_tables existing ds) = d_table_id ` set ds" "distinct (map fst (seed_tables existing ds))"
      by (rule get)+
    fix d assume "d \<in> set ds"
    then have "find (\<lambda>x. d_table_id x = d_table_id d) ds = Some d" using dist by (induction ds) auto
    then have "dict_get (seed_tables existing ds) (d_table_id d) = Some (seed_row existing d)" by (simp add: get(1))
    then show "\<exists>r. dict_get (seed_tables existing ds) (d_table_id d) = Some r \<and> tw_caption r \<noteq> None \<and>
      (case dict_get existing (d_table_id d) of
         Some prev \<Rightarrow> row_empty prev \<or> tw_keep r = tw_keep prev \<and> tw_reason r = tw_reason prev \<and> tw_rest r = tw_rest prev \<and>
           (tw_caption prev \<noteq> None \<longrightarrow> r = prev)
       | None \<Rightarrow> unreviewed_row r \<and> tw_keep r = Some False)"
      using seed_row_keeps [of existing d] by simp
  qed
qed

lemma seed_row_again:
  assumes "distinct (map d_table_id ds)" "d \<in> set ds"
  shows "seed_row (seed_tables existing ds) d = seed_row existing d"
proof -
  have "find (\<lambda>x. d_table_id x = d_table_id d) ds = Some d"
    using assms by (induction ds) auto
  then have "dict_get (seed_tables existing ds) (d_table_id d) = Some (seed_row existing d)"
    by (simp add: seed_tables_get [OF assms(1)])
  moreover have "tw_caption (seed_row existing d) \<noteq> None"
    by (auto simp: seed_row_def fresh_row_def split: option.splits)
  ultimately show ?thesis
    by (cases "tw_caption (seed_row existing d)") (auto simp: seed_row_def [of "seed_tables existing ds"] row_empty_def)
qed

lemma seed_tables_again:
  assumes "distinct (map d_table_id ds)"
  shows "seed_tables (seed_tables existing ds) ds = seed_tables existing ds"
  unfolding seed_tables_def [of "seed_tables existing ds"]
  unfolding seed_tables_def [of existing]
  by (rule foldl_cong) (auto simp: seed_row_again [OF assms, unfolded seed_tables_def])

text \<open>
  After seeding, checking complains about nothing but rows still to be reviewed: the check
  of the seeded file passes exactly if no row is marked as unreviewed, and seeding a second
  time writes the same file.
\<close>

theorem seed_then_check:
  assumes "seed te target p rules = Inr (doc, oc)"
  shows "seed te target p (Some (td_tables doc)) = Inr (doc, oc) \<and>
    (\<exists>oc'. check_rules te target p (Some (td_tables doc)) = Inr oc' \<and>
       (oc_rc oc' = 0 \<longleftrightarrow> (\<forall>(tid, r) \<in> set (td_tables doc). \<not> unreviewed_row r)))"
proof -
  from assms obtain cfg ds where d: "discover te target = Inr (cfg, ds)"
    and t: "td_tables doc = seed_tables (or_else rules []) ds"
    by (auto simp: seed_def res_simps Let_def)
  have dist: "distinct (map d_table_id ds)" by (rule discovered_distinct [OF d])
  have same: "seed_tables (td_tables doc) ds = td_tables doc" unfolding t by (rule seed_tables_again [OF dist])
  have "seed te target p (Some (td_tables doc)) = Inr (doc, oc)"
    using assms same by (auto simp: seed_def d t Let_def)
  moreover have "check_errors ds (td_tables doc) = [] \<longleftrightarrow> (\<forall>(tid, r) \<in> set (td_tables doc). \<not> unreviewed_row r)"
    unfolding check_errors_Nil t seed_tables_get(3) [OF dist] by simp
  ultimately show ?thesis by (simp add: check_rules_def d Let_def)
qed

text \<open>
  A passing check clears the way for the import: once it passes, the importer finds a rule
  for every table of the same document, whichever tables it keeps, so it does not stop there.
\<close>

theorem check_clears_import:
  assumes "check_rules te target p (Some rs) = Inr oc" "oc_rc oc = 0"
    and "dict_get TARGETS target = Some cfg" "verified_source te (fst cfg) = Inr (src, path)"
    and "extract_tables (te_pages te path) keep_ids = Inr (ts, ds)" "fst ` set rules = fst ` set rs"
  shows "undecided_tables ds rules = []"
proof -
  obtain cfg' ds' where d: "discover te target = Inr (cfg', ds')"
    and rc: "oc_rc oc = (case Some rs of None \<Rightarrow> 1 | Some rs \<Rightarrow> if check_errors ds' rs = [] then 0 else 1)"
    using check_rules_run [OF assms(1)] .
  note discovered_captions [OF d assms(3,4)]
  moreover have "d_table_id ` set ds' = fst ` set rs" using rc assms(2) by (simp add: check_errors_Nil split: if_splits)
  ultimately show ?thesis using decided_are_captions [OF assms(5)] assms(6)
    by (auto simp: undecided_tables_def filter_empty_conv)
qed

section \<open>A small document\<close>

definition table_row_of :: "string \<Rightarrow> table_row" where
  "table_row_of why = \<lparr>tw_caption = None, tw_keep = Some True, tw_reason = Some why, tw_rest = []\<rparr>"

definition sample_rules :: table_rules where
  "sample_rules = [(''4-2'', table_row_of ''registers''), (''4-3'', table_row_of ''latency'')]"

lemma sample_targets: "dict_get TARGETS ''armv7m'' = Some (''armv7m_arm'', ''ARMv7-M'')"
  by (simp add: TARGETS_def)

lemma sample_discover:
  "\<exists>d e. discover (tool_sample [sample_page] es) ''armv7m'' = Inr ((''armv7m_arm'', ''ARMv7-M''), [d, e]) \<and>
     d_table_id d = ''4-2'' \<and> d_table_id e = ''4-3''"
proof -
  obtain t d e where "extract_tables [sample_page] None = Inr ([t], [d, e])" "d_table_id d = ''4-2''" "d_table_id e = ''4-3''"
    using sample_page_run by (elim exE conjE) (rule that)
  then show ?thesis by (simp add: discover_def sample_targets tool_sample_source)
qed

lemma sample_check:
  "\<exists>oc. check_rules (tool_sample [sample_page] es) ''armv7m'' p (Some sample_rules) = Inr oc \<and> oc_rc oc = 0"
proof -
  obtain d e where d: "discover (tool_sample [sample_page] es) ''armv7m'' = Inr ((''armv7m_arm'', ''ARMv7-M''), [d, e])"
    "d_table_id d = ''4-2''" "d_table_id e = ''4-3''" using sample_discover [of es] by (elim exE conjE) (rule that)
  have "\<not> unreviewed_row (table_row_of ''registers'')" "\<not> unreviewed_row (table_row_of ''latency'')"
    by (simp_all add: unreviewed_row_def table_row_of_def)
  then have "check_errors [d, e] sample_rules = []" by (simp add: check_errors_Nil d sample_rules_def)
  then show ?thesis by (simp add: check_rules_def d)
qed

theorem tables_check_exact_witness:
  "\<exists>oc. check_rules (tool_sample [sample_page] []) ''armv7m'' ''r'' (Some sample_rules) = Inr oc \<and> oc_rc oc = 0 \<and>
     set (caption_ids (concat (map splitlines [sample_page]))) = {''4-2'', ''4-3''}"
proof -
  obtain oc where run: "check_rules (tool_sample [sample_page] []) ''armv7m'' ''r'' (Some sample_rules) = Inr oc"
    and rc: "oc_rc oc = 0" using sample_check by blast
  have k: "verified_source (tool_sample [sample_page] []) (fst (''armv7m_arm'', ''ARMv7-M'')) =
      Inr (tool_source, path_of ''/repo/docs/m.pdf'')" by (simp add: tool_sample_source)
  from tables_check_exact [OF run sample_targets k] rc
  have "set (caption_ids (concat (map splitlines [sample_page]))) = fst ` set sample_rules"
    by (simp split: if_splits)
  with run rc show ?thesis by (simp add: sample_rules_def)
qed

theorem seed_keeps_reviewed_witness:
  "\<exists>doc oc r. seed (tool_sample [sample_page] []) ''armv7m'' ''r'' (Some [(''4-2'', table_row_of ''registers'')]) = Inr (doc, oc) \<and>
     dict_get (td_tables doc) ''4-2'' = Some r \<and> tw_reason r = Some ''registers'' \<and> tw_caption r \<noteq> None"
proof -
  let ?te = "tool_sample [sample_page] []" and ?ex = "[(''4-2'', table_row_of ''registers'')]"
  obtain d e where d: "discover ?te ''armv7m'' = Inr ((''armv7m_arm'', ''ARMv7-M''), [d, e])"
    "d_table_id d = ''4-2''" "d_table_id e = ''4-3''" using sample_discover [of "[]"] by (elim exE conjE) (rule that)
  obtain doc oc where run: "seed ?te ''armv7m'' ''r'' (Some ?ex) = Inr (doc, oc)"
    by (simp add: seed_def d Let_def)
  have ne: "\<not> row_empty (table_row_of ''registers'')" by (simp add: row_empty_def table_row_of_def)
  have "\<forall>x \<in> set [d, e]. \<exists>r. dict_get (td_tables doc) (d_table_id x) = Some r \<and> tw_caption r \<noteq> None \<and>
      (case dict_get ?ex (d_table_id x) of
         Some prev \<Rightarrow> row_empty prev \<or> tw_keep r = tw_keep prev \<and> tw_reason r = tw_reason prev \<and> tw_rest r = tw_rest prev \<and>
           (tw_caption prev \<noteq> None \<longrightarrow> r = prev)
       | None \<Rightarrow> unreviewed_row r \<and> tw_keep r = Some False)"
    using seed_keeps_reviewed [OF d(1) run] by (elim conjE)
  then obtain r where "dict_get (td_tables doc) ''4-2'' = Some r" "tw_caption r \<noteq> None" "tw_reason r = Some ''registers''"
    using d(2) ne by (auto simp: table_row_of_def)
  with run show ?thesis by blast
qed

theorem seed_then_check_witness:
  "\<exists>doc oc oc'. seed (tool_sample [sample_page] []) ''armv7m'' ''r'' (Some sample_rules) = Inr (doc, oc) \<and>
     check_rules (tool_sample [sample_page] []) ''armv7m'' ''r'' (Some (td_tables doc)) = Inr oc'"
proof -
  obtain d e where d: "discover (tool_sample [sample_page] []) ''armv7m'' = Inr ((''armv7m_arm'', ''ARMv7-M''), [d, e])"
    using sample_discover by blast
  obtain doc oc where run: "seed (tool_sample [sample_page] []) ''armv7m'' ''r'' (Some sample_rules) = Inr (doc, oc)"
    by (simp add: seed_def d Let_def)
  from seed_then_check [OF run] run show ?thesis by blast
qed

theorem check_clears_import_witness:
  "\<exists>ts ds. extract_tables [sample_page] (Some [''4-2'']) = Inr (ts, ds) \<and>
     undecided_tables ds [(''4-3'', plain_rule), (''4-2'', plain_rule)] = []"
proof -
  obtain oc where run: "check_rules (tool_sample [sample_page] []) ''armv7m'' ''r'' (Some sample_rules) = Inr oc"
    and rc: "oc_rc oc = 0" using sample_check by blast
  have k: "verified_source (tool_sample [sample_page] []) (fst (''armv7m_arm'', ''ARMv7-M'')) =
      Inr (tool_source, path_of ''/repo/docs/m.pdf'')" by (simp add: tool_sample_source)
  obtain ts ds where ex: "extract_tables [sample_page] (Some [''4-2'']) = Inr (ts, ds)"
    using extract_tables_total by blast
  then have x: "extract_tables (te_pages (tool_sample [sample_page] []) (path_of ''/repo/docs/m.pdf'')) (Some [''4-2'']) =
      Inr (ts, ds)" by simp
  have "fst ` set [(''4-3'', plain_rule), (''4-2'', plain_rule)] = fst ` set sample_rules"
    by (auto simp: sample_rules_def)
  from check_clears_import [OF run rc sample_targets k x this] ex show ?thesis by blast
qed

end
