(* ===== verification/Commands.thy ===== *)
theory Commands
  imports Tools
begin

text \<open>
  The commands \<open>tools/state_import.py\<close>, \<open>tools/state_gen.py\<close> and
  \<open>tools/state_encoding_check.py\<close>: what they read, print, write and return.  The assembler
  is external: its standard output is a function of the register name.
\<close>

section \<open>Importing\<close>

text \<open>What an overlay takes from the manifest of the architecture it builds on.\<close>

definition arch_names :: "tool_env \<Rightarrow> string \<Rightarrow> string list" where
  "arch_names te target =
     (case te_manifests te target of None \<Rightarrow> [] | Some doc \<Rightarrow> remdups (map me_name (mf_entries doc)))"

definition note_addr :: "manifest_entry \<Rightarrow> (string \<times> string) list \<Rightarrow> (string \<times> string) list" where
  "note_addr e d =
     (let enc = upper (strip (py_or (me_encoding e) []))
      in if starts_with enc ''0X'' \<and> me_encoding_kind e = ''absolute'' then dict_setdefault d enc (me_name e) else d)"

definition arch_addrs :: "tool_env \<Rightarrow> string \<Rightarrow> (string \<times> string) list" where
  "arch_addrs te target =
     (case te_manifests te target of None \<Rightarrow> [] | Some doc \<Rightarrow> fold note_addr (mf_entries doc) [])"

definition count_rows_of :: "(string \<times> nat) list \<Rightarrow> string list" where
  "count_rows_of counts =
     map (\<lambda>(k, v). ''    '' @ pad 22 k @ '' '' @ str_nat v) (filter (\<lambda>(k, v). v \<noteq> 0) counts)"

definition cross_lines :: "string \<times> cross_report \<Rightarrow> string list" where
  "cross_lines tc =
     (case tc of (tid, cc) \<Rightarrow>
       (''    crosscheck '' @ tid @ '': '' @ str_nat (cr_present cc) @ ''/'' @ str_nat (cr_index_entries cc) @ '' '' @
         (if cr_missing cc = [] then ''OK'' else ''MISSING '' @ str_nat (length (cr_missing cc)))) #
       (if cr_missing cc \<noteq> [] then [''      '' @ repr_list (take 12 (cr_missing cc))] else []))"

text \<open>The outcome with the manifest that is written, if the import succeeds.\<close>

definition import_main :: "tool_env \<Rightarrow> import_env \<Rightarrow> string option \<Rightarrow> (manifest option \<times> outcome) res" where
  "import_main te ie arch =
     (let names = (if truthy arch then arch_names te (opt_str arch) else []);
          addrs = (if truthy arch then arch_addrs te (opt_str arch) else []);
          target = ie_target ie
      in case import_target (ie\<lparr>ie_arch_names := names, ie_arch_addrs := addrs\<rparr>) of
           Inl (SourceError msg) \<Rightarrow> Inr (None, \<lparr>oc_rc = 2, oc_out = [], oc_err = [''ERROR: '' @ msg]\<rparr>)
         | Inl e \<Rightarrow> Inl e
         | Inr (es, report) \<Rightarrow>
             Inr (Some (make_manifest target es report),
               \<lparr>oc_rc = 0,
                oc_out = (target @ '': '' @ str_nat (ir_source_records report) @ '' source records -> '' @
                    te_manifest_path te target) #
                  count_rows_of (ir_counts report) @ concat (map cross_lines (ir_crosscheck report)),
                oc_err = []\<rparr>))"

section \<open>Generating\<close>

definition TARGETS_KNOWN :: "string list" where
  "TARGETS_KNOWN = [''armv7m'', ''cortex_m7_r0p2'', ''cortex_m4_r0p0'']"

record gen_state =
  gs_rc :: int
  gs_out :: "string list"
  gs_err :: "string list"
  gs_defs :: "(string \<times> string) list"
  gs_coverage :: "(string \<times> coverage_doc) list"

text \<open>
  The end of one round: the coverage artifact and the report; the paths that are printed are
  the targets' file names.
\<close>

definition gen_report :: "string \<Rightarrow> coverage_doc \<Rightarrow> gen_state \<Rightarrow> gen_state" where
  "gen_report t cov st =
     (let st = st\<lparr>gs_coverage := dict_set (gs_coverage st) t cov,
                  gs_out := gs_out st @ [format_report cov,
                    pad 34 ''Coverage artifact:'' @ '' build/state-coverage/'' @ t @ ''.json'']\<rparr>;
          st = (if cv_unclassified cov \<noteq> [] \<or> cv_exclusions_without_reason cov \<noteq> [] then
                  st\<lparr>gs_rc := 1, gs_err := gs_err st @ [''FAIL: unaccounted-for source entries'']\<rparr>
                else st)
      in st\<lparr>gs_out := gs_out st @ [[]]\<rparr>)"

text \<open>One round: the coverage, the \<open>.def\<close> file unless only the coverage is wanted, the report.\<close>

definition gen_target ::
  "tool_env \<Rightarrow> (string \<Rightarrow> prose_row list option) \<Rightarrow> bool \<Rightarrow> string \<Rightarrow> gen_state \<Rightarrow> gen_state res" where
  "gen_target te prose coverage_only t st =
     rbind (manifest_of te t) (\<lambda>doc.
      rbind (if coverage_only then Inr st
             else rbind (generate_def (te_manifest_path te t) t (te_manifests te t)) (\<lambda>text.
               Inr (st\<lparr>gs_defs := dict_set (gs_defs st) t text,
                       gs_out := gs_out st @ [''generated generated/'' @ t @ ''.def'']\<rparr>))) (\<lambda>st.
      Inr (gen_report t (coverage t (prose t) doc) st)))"

definition gen_main ::
  "tool_env \<Rightarrow> (string \<Rightarrow> prose_row list option) \<Rightarrow> string list \<Rightarrow> bool \<Rightarrow> gen_state res" where
  "gen_main te prose targets coverage_only =
     fold_res (gen_target te prose coverage_only) (if targets = [] then TARGETS_KNOWN else targets)
       \<lparr>gs_rc = 0, gs_out = [], gs_err = [], gs_defs = [], gs_coverage = []\<rparr>"

section \<open>Checking encodings\<close>

definition ENC_RE :: re where
  "ENC_RE = seqs [lit ''encoding:'', space_star, lit ''['', RGrp ''1'' (star (ncls [Ch (CHR '']'')])), lit '']'']"

text \<open>The \<open>SYSm\<close> field in what the assembler printed, if it printed an encoding.\<close>

definition assemble_sysm :: "(string \<Rightarrow> string option) \<Rightarrow> string \<Rightarrow> int option" where
  "assemble_sysm asm reg =
     (case asm reg of
        None \<Rightarrow> None
      | Some stdout \<Rightarrow>
          (case re_search ENC_RE stdout of
             None \<Rightarrow> None
           | Some m \<Rightarrow>
               (case map_res (\<lambda>b. int_res 16 (strip b)) (split_ch (CHR '','') (grp m ''1'')) of
                  Inl _ \<Rightarrow> None
                | Inr by \<Rightarrow> (if 3 \<le> length by then Some (by ! 2) else None))))"

record enc_state =
  en_checked :: nat
  en_agreed :: nat
  en_mismatches :: "string list"
  en_unsupported :: "string list"

text \<open>\<open>enc.split("=", 1)[1]\<close>, for an encoding that starts with \<open>SYSm=\<close>.\<close>

definition sysm_value :: "string \<Rightarrow> int res" where
  "sysm_value enc = int_res 10 (drop (length ''SYSm='') enc)"

definition is_sysm :: "manifest_entry \<Rightarrow> bool" where
  "is_sysm e \<longleftrightarrow> starts_with (py_or (me_encoding e) []) ''SYSm=''"

definition check_entry ::
  "(string \<Rightarrow> string option) \<Rightarrow> string \<Rightarrow> manifest_entry \<Rightarrow> enc_state \<Rightarrow> enc_state res" where
  "check_entry asm tool e st =
     (let enc = py_or (me_encoding e) [] in
      if \<not> is_sysm e then Inr st
      else
        rbind (sysm_value enc) (\<lambda>ours.
          (case assemble_sysm asm (lower (me_name e)) of
             None \<Rightarrow> Inr (st\<lparr>en_unsupported := en_unsupported st @ [me_name e]\<rparr>)
           | Some theirs \<Rightarrow>
               (let st = st\<lparr>en_checked := Suc (en_checked st)\<rparr> in
                if theirs = ours then Inr (st\<lparr>en_agreed := Suc (en_agreed st)\<rparr>)
                else Inr (st\<lparr>en_mismatches := en_mismatches st @
                       [me_name e @ '': manifest SYSm='' @ str_int ours @ '', '' @ tool @ '' SYSm='' @ str_int theirs]\<rparr>)))))"

definition enc_outcome :: "string \<Rightarrow> enc_state \<Rightarrow> outcome" where
  "enc_outcome path st =
     \<lparr>oc_rc = (if en_mismatches st \<noteq> [] then 1 else 0),
      oc_out = [''Encoding oracle:    '' @ path, ''Checked:            '' @ str_nat (en_checked st),
          ''Agreed:             '' @ str_nat (en_agreed st),
          ''Mismatches:         '' @ str_nat (length (en_mismatches st))] @
        map (\<lambda>m. ''    '' @ m) (en_mismatches st) @
        (if en_unsupported st \<noteq> [] then
           [''Not accepted by the assembler ('' @ str_nat (length (en_unsupported st)) @ ''): '' @
            quoted_list (en_unsupported st)] else []),
      oc_err = []\<rparr>"

text \<open>\<open>found\<close> is the path of the tool, if there is one.\<close>

definition encoding_main ::
  "tool_env \<Rightarrow> (string \<Rightarrow> string option) \<Rightarrow> string \<Rightarrow> string option \<Rightarrow> string \<Rightarrow> outcome res" where
  "encoding_main te asm tool found target =
     (case found of
        None \<Rightarrow> Inr \<lparr>oc_rc = 0, oc_out = [],
                  oc_err = [''SKIP: no '' @ tool @ '' on PATH; cannot cross-check encodings.'']\<rparr>
      | Some path \<Rightarrow>
          rbind (manifest_of te target) (\<lambda>doc.
          rbind (fold_res (check_entry asm tool) (mf_entries doc)
            \<lparr>en_checked = 0, en_agreed = 0, en_mismatches = [], en_unsupported = []\<rparr>) (\<lambda>st.
          Inr (enc_outcome path st))))"

section \<open>An overlay on an architecture\<close>

lemma note_addr_get:
  "dict_get (note_addr e d) k = (case dict_get d k of Some n \<Rightarrow> Some n | None \<Rightarrow>
     if k = upper (strip (py_or (me_encoding e) [])) \<and> starts_with k ''0X'' \<and> me_encoding_kind e = ''absolute''
     then Some (me_name e) else None)"
  by (auto simp: note_addr_def Let_def dict_get_setdefault split: option.splits)

lemma fold_note_addr:
  "dict_get (fold note_addr es d) k = (case dict_get d k of Some n \<Rightarrow> Some n | None \<Rightarrow>
     map_option me_name (find (\<lambda>e. k = upper (strip (py_or (me_encoding e) [])) \<and> starts_with k ''0X'' \<and>
       me_encoding_kind e = ''absolute'') es))"
  by (induction es arbitrary: d) (auto simp: note_addr_get split: option.splits)

text \<open>
  An overlay recognises the registers of its architecture: a record of a table whose
  namespace is decided automatically is classified as defined by the architecture, in the
  architectural namespace, whenever the architecture manifest has an entry of the same name
  or an absolute entry at the same address (in whatever spelling of the hexadecimal digits);
  otherwise it is new state of the processor.
\<close>

theorem overlay_recognises_architecture:
  assumes "te_manifests te arch = Some doc" "cx_arch_names cx = arch_names te arch" "cx_arch_addrs cx = arch_addrs te arch"
    and "\<forall>e \<in> set (mf_entries doc). me_name e \<noteq> []" "starts_with (upper (strip (py_or (rr_address r) []))) ''0X''"
  shows "((\<exists>why. auto_class cx name r = (ARCH, ARCHITECTURE_DEFINED, why)) \<longleftrightarrow>
    (\<exists>e \<in> set (mf_entries doc). me_name e = name \<or> me_encoding_kind e = ''absolute'' \<and>
       upper (strip (py_or (me_encoding e) [])) = upper (strip (py_or (rr_address r) [])))) \<and>
    ((\<nexists>why. auto_class cx name r = (ARCH, ARCHITECTURE_DEFINED, why)) \<longrightarrow>
      auto_class cx name r = (CPU, EMITTED_STATE, None))"
proof -
  let ?a = "upper (strip (py_or (rr_address r) []))"
  let ?P = "\<lambda>e. ?a = upper (strip (py_or (me_encoding e) [])) \<and> starts_with ?a ''0X'' \<and> me_encoding_kind e = ''absolute''"
  have names: "set (cx_arch_names cx) = me_name ` set (mf_entries doc)" using assms(1,2) by (simp add: arch_names_def)
  have get: "dict_get (cx_arch_addrs cx) ?a = map_option me_name (find ?P (mf_entries doc))"
    using assms(1,3) by (simp add: arch_addrs_def fold_note_addr)
  have tr: "truthy (dict_get (cx_arch_addrs cx) ?a) \<longleftrightarrow> (\<exists>e \<in> set (mf_entries doc). ?P e)"
  proof (cases "find ?P (mf_entries doc)")
    case None
    then have "dict_get (cx_arch_addrs cx) ?a = None" using get by (simp only: option.map)
    moreover have "\<not> (\<exists>e \<in> set (mf_entries doc). ?P e)" using None unfolding find_None_iff by blast
    ultimately show ?thesis by (simp only: truthy_def option.case)
  next
    case (Some e)
    then have "e \<in> set (mf_entries doc)" "?P e" by (auto simp: find_Some_iff)
    moreover have "truthy (Some (me_name e))" using assms(4) \<open>e \<in> set (mf_entries doc)\<close> by (simp add: truthy_def)
    ultimately show ?thesis using get Some by auto
  qed
  show ?thesis using names tr assms(5) by (auto simp: auto_class_def Let_def)
qed

theorem overlay_recognises_architecture_witness:
  "\<exists>cx r why. cx_arch_names cx = arch_names (tool_sample [] [(sample_entry ''SYST_CSR'' EMITTED_STATE)\<lparr>encoding := Some ''0xE000E010''\<rparr>]) ''armv7m'' \<and>
     rr_name r = Some ''STCSR'' \<and> auto_class cx ''STCSR'' r = (ARCH, ARCHITECTURE_DEFINED, why)"
proof -
  let ?e = "(sample_entry ''SYST_CSR'' EMITTED_STATE)\<lparr>encoding := Some ''0xE000E010''\<rparr>"
  let ?te = "tool_sample [] [?e]" and ?r = "plain_rec ''STCSR'' (Some ''0xe000e010'') ''RW'' None [] 1"
  let ?cx = "\<lparr>cx_arch = ''ARMv7-M'', cx_document = ''DDI0439'', cx_revision = ''B'', cx_overrides = [], cx_paths = [],
      cx_arch_names = arch_names ?te ''armv7m'', cx_arch_addrs = arch_addrs ?te ''armv7m''\<rparr>"
  have m: "te_manifests ?te ''armv7m'' = Some (make_manifest ''armv7m'' [?e] sample_report)"
    by (simp add: tool_sample_def)
  have en: "mf_entries (make_manifest ''armv7m'' [?e] sample_report) = [to_dict ?e]" by (simp add: make_manifest_def)
  have ne: "\<forall>e \<in> set (mf_entries (make_manifest ''armv7m'' [?e] sample_report)). me_name e \<noteq> []"
    unfolding en by (simp add: sample_entry_def)
  have u: "upper (strip ''0xE000E010'') = ''0XE000E010''" "upper (strip ''0xe000e010'') = ''0XE000E010''" by code_simp+
  have x: "starts_with (upper (strip (py_or (rr_address ?r) []))) ''0X''" by (simp add: plain_rec_def py_or_def u)
  have "me_encoding_kind (to_dict ?e) = ''absolute''" "me_encoding (to_dict ?e) = Some ''0xE000E010''"
    by (simp_all add: to_dict_def sample_entry_def new_entry_def)
  then have "\<exists>e \<in> set (mf_entries (make_manifest ''armv7m'' [?e] sample_report)). me_name e = ''STCSR'' \<or>
      me_encoding_kind e = ''absolute'' \<and>
      upper (strip (py_or (me_encoding e) [])) = upper (strip (py_or (rr_address ?r) []))"
    by (simp add: en plain_rec_def py_or_def u)
  with overlay_recognises_architecture [OF m _ _ ne x, of ?cx "''STCSR''"]
  obtain why where "auto_class ?cx ''STCSR'' ?r = (ARCH, ARCHITECTURE_DEFINED, why)" by auto
  moreover have "rr_name ?r = Some ''STCSR''" by (simp add: plain_rec_def)
  ultimately show ?thesis by (intro exI [of _ ?cx] exI [of _ ?r] exI [of _ why]) simp
qed

section \<open>The exit status of the generator\<close>

definition accounted :: "coverage_doc \<Rightarrow> bool" where
  "accounted cv \<longleftrightarrow> cv_unclassified cv = [] \<and> cv_exclusions_without_reason cv = []"

lemma gen_report_fields [simp]:
  "gs_rc (gen_report t cov st) = (if accounted cov then gs_rc st else 1)"
  "gs_coverage (gen_report t cov st) = dict_set (gs_coverage st) t cov" "gs_defs (gen_report t cov st) = gs_defs st"
  by (simp_all add: gen_report_def Let_def accounted_def)

lemma gen_target_effect:
  assumes "gen_target te prose only t st = Inr st'"
  shows "\<exists>doc. manifest_of te t = Inr doc \<and>
    gs_rc st' = (if accounted (coverage t (prose t) doc) then gs_rc st else 1) \<and>
    gs_coverage st' = dict_set (gs_coverage st) t (coverage t (prose t) doc) \<and>
    (if only then gs_defs st' = gs_defs st
     else \<exists>text. generate_def (te_manifest_path te t) t (te_manifests te t) = Inr text \<and>
       gs_defs st' = dict_set (gs_defs st) t text)"
  using assms by (auto simp: gen_target_def res_simps split: if_splits)

lemma fold_gen_target:
  assumes "fold_res (gen_target te prose only) ts st = Inr st'"
  shows "gs_rc st' = (if \<forall>t \<in> set ts. \<exists>doc. manifest_of te t = Inr doc \<and> accounted (coverage t (prose t) doc)
      then gs_rc st else 1) \<and>
    (\<forall>t. dict_get (gs_coverage st') t = (if t \<in> set ts then (case manifest_of te t of Inr doc \<Rightarrow> Some (coverage t (prose t) doc)
      | Inl e \<Rightarrow> None) else dict_get (gs_coverage st) t)) \<and>
    (\<forall>t. dict_get (gs_defs st') t = (if t \<in> set ts \<and> \<not> only
      then (case generate_def (te_manifest_path te t) t (te_manifests te t) of Inr text \<Rightarrow> Some text | Inl e \<Rightarrow> None)
      else dict_get (gs_defs st) t))"
  using assms
proof (induction ts arbitrary: st)
  case (Cons t ts)
  then obtain st1 where s: "gen_target te prose only t st = Inr st1" "fold_res (gen_target te prose only) ts st1 = Inr st'"
    by (auto simp: res_simps)
  from gen_target_effect [OF s(1)] obtain doc where g: "manifest_of te t = Inr doc"
    "gs_rc st1 = (if accounted (coverage t (prose t) doc) then gs_rc st else 1)"
    "gs_coverage st1 = dict_set (gs_coverage st) t (coverage t (prose t) doc)"
    "if only then gs_defs st1 = gs_defs st
     else \<exists>text. generate_def (te_manifest_path te t) t (te_manifests te t) = Inr text \<and>
       gs_defs st1 = dict_set (gs_defs st) t text" by blast
  note ih = Cons.IH [OF s(2)]
  show ?case
  proof (intro conjI allI)
    show "gs_rc st' = (if \<forall>t \<in> set (t # ts). \<exists>doc. manifest_of te t = Inr doc \<and> accounted (coverage t (prose t) doc)
      then gs_rc st else 1)" using ih g(1,2) by auto
    fix k
    show "dict_get (gs_coverage st') k = (if k \<in> set (t # ts) then (case manifest_of te k of Inr doc \<Rightarrow> Some (coverage k (prose k) doc)
      | Inl e \<Rightarrow> None) else dict_get (gs_coverage st) k)" using ih g(1,3) by simp
    show "dict_get (gs_defs st') k = (if k \<in> set (t # ts) \<and> \<not> only
      then (case generate_def (te_manifest_path te k) k (te_manifests te k) of Inr text \<Rightarrow> Some text | Inl e \<Rightarrow> None)
      else dict_get (gs_defs st) k)" using ih g(4) by (cases only) auto
  qed
qed simp

text \<open>
  The generator fails if and only if a target has an unclassified entry or an exclusion
  without a reason, and unless only the coverage is wanted it writes for every target exactly
  the descriptor file of its manifest.
\<close>

theorem gen_passes_iff:
  assumes "gen_main te prose targets only = Inr st" "ts = (if targets = [] then TARGETS_KNOWN else targets)"
  shows "gs_rc st = (if \<forall>t \<in> set ts. \<exists>doc. manifest_of te t = Inr doc \<and> accounted (coverage t (prose t) doc) then 0 else 1) \<and>
    (\<forall>t \<in> set ts. \<not> only \<longrightarrow>
      (\<exists>text. generate_def (te_manifest_path te t) t (te_manifests te t) = Inr text \<and> dict_get (gs_defs st) t = Some text))"
proof -
  have run: "fold_res (gen_target te prose only) ts \<lparr>gs_rc = 0, gs_out = [], gs_err = [], gs_defs = [], gs_coverage = []\<rparr> = Inr st"
    using assms by (simp add: gen_main_def)
  have ok: "\<exists>text. generate_def (te_manifest_path te t) t (te_manifests te t) = Inr text"
    if "t \<in> set ts" "\<not> only" for t
  proof -
    have "\<exists>text. generate_def (te_manifest_path te t) t (te_manifests te t) = Inr text"
      if "fold_res (gen_target te prose only) us s = Inr s'" "t \<in> set us" "\<not> only" for us s s'
      using that
    proof (induction us arbitrary: s)
      case (Cons u us)
      then obtain s1 where s1: "gen_target te prose only u s = Inr s1" "fold_res (gen_target te prose only) us s1 = Inr s'"
        by (auto simp: res_simps)
      with gen_target_effect [OF s1(1)] Cons show ?case by auto
    qed simp
    from this [OF run that] show ?thesis .
  qed
  note f = fold_gen_target [OF run]
  have "\<exists>text. generate_def (te_manifest_path te t) t (te_manifests te t) = Inr text \<and> dict_get (gs_defs st) t = Some text"
    if "t \<in> set ts" "\<not> only" for t
    using f ok [OF that] that by auto
  then show ?thesis using f by simp
qed

text \<open>
  From the manual to the generator: the coverage check on a freshly imported manifest can
  only fail because an exclusion or an operation has no reason; an import leaves nothing
  unclassified.
\<close>

theorem import_then_generate:
  assumes "import_main te ie arch = Inr (Some doc, oc)" "te_manifests te' (ie_target ie) = Some doc"
    and "gen_main te' prose [ie_target ie] True = Inr st"
  shows "gs_rc st = 0 \<longleftrightarrow> (\<forall>e \<in> set (mf_entries doc). \<not> reason_missing e)"
proof -
  let ?t = "ie_target ie"
  obtain es rep where doc: "doc = make_manifest ?t es rep"
    using assms(1) by (auto simp: import_main_def Let_def split: sum.splits py_error.splits)
  have m: "manifest_of te' ?t = Inr doc" using assms(2) by (simp add: manifest_of_def load_manifest_def)
  have un: "cv_unclassified (coverage ?t (prose ?t) doc) = []"
    by (simp add: doc coverage_def Let_def make_manifest_def filter_empty_conv)
  have "cv_exclusions_without_reason (coverage ?t (prose ?t) doc) = [] \<longleftrightarrow> (\<forall>e \<in> set (mf_entries doc). \<not> reason_missing e)"
    by (simp add: coverage_def Let_def filter_empty_conv)
  then show ?thesis
    using fold_gen_target [OF assms(3) [unfolded gen_main_def]] m un by (simp add: accounted_def)
qed

theorem gen_passes_iff_witness:
  "\<exists>st. gen_main (tool_sample [] [sample_entry ''STIR'' NON_STATE_OPERATION]) (\<lambda>_. None) [''armv7m''] True = Inr st \<and> gs_rc st = 1"
proof -
  let ?te = "tool_sample [] [sample_entry ''STIR'' NON_STATE_OPERATION]"
  obtain st where run: "gen_main ?te (\<lambda>_. None) [''armv7m''] True = Inr st"
    by (simp add: gen_main_def gen_target_def)
  have "\<not> accounted (coverage ''armv7m'' None (make_manifest ''armv7m'' [sample_entry ''STIR'' NON_STATE_OPERATION] sample_report))"
    by (simp add: accounted_def coverage_def Let_def make_manifest_def reason_missing_def to_dict_def sample_entry_def
        new_entry_def py_or_def strip_def strip_by_Nil)
  with gen_passes_iff [OF run refl] run show ?thesis by auto
qed

theorem import_then_generate_witness:
  "\<exists>te te' doc oc st. import_main te import_sample None = Inr (Some doc, oc) \<and> oc_rc oc = 0 \<and>
     gen_main te' (\<lambda>_. None) [ie_target import_sample] True = Inr st \<and>
     (gs_rc st = 0 \<longleftrightarrow> (\<forall>e \<in> set (mf_entries doc). \<not> reason_missing e))"
proof -
  let ?te = "tool_sample [] []"
  obtain es rep where "import_target import_sample = Inr (es, rep)" using import_sample_run by blast
  moreover have "import_sample\<lparr>ie_arch_names := [], ie_arch_addrs := []\<rparr> = import_sample"
    by (simp add: import_sample_def)
  ultimately have r: "import_target (import_sample\<lparr>ie_arch_names := [], ie_arch_addrs := []\<rparr>) = Inr (es, rep)" by simp
  have "\<exists>oc. import_main ?te import_sample None = Inr (Some (make_manifest (ie_target import_sample) es rep), oc) \<and>
      oc_rc oc = 0"
    unfolding import_main_def Let_def truthy_def by (simp only: option.case if_False r sum.case prod.case) simp
  then obtain oc where run: "import_main ?te import_sample None = Inr (Some (make_manifest (ie_target import_sample) es rep), oc)"
    and rc: "oc_rc oc = 0" by blast
  let ?te' = "?te\<lparr>te_manifests := \<lambda>_. Some (make_manifest (ie_target import_sample) es rep)\<rparr>"
  have m: "te_manifests ?te' (ie_target import_sample) = Some (make_manifest (ie_target import_sample) es rep)" by simp
  obtain st where g: "gen_main ?te' (\<lambda>_. None) [ie_target import_sample] True = Inr st"
    by (simp add: gen_main_def gen_target_def manifest_of_def load_manifest_def)
  from import_then_generate [OF run m g] run rc g show ?thesis by blast
qed

section \<open>The encoding check\<close>

text \<open>What the assembler says against the manifest.\<close>

definition contradicted :: "(string \<Rightarrow> string option) \<Rightarrow> manifest_entry \<Rightarrow> bool" where
  "contradicted asm e \<longleftrightarrow> is_sysm e \<and> (case assemble_sysm asm (lower (me_name e)) of
     None \<Rightarrow> False | Some theirs \<Rightarrow> sysm_value (py_or (me_encoding e) []) \<noteq> Inr theirs)"

definition accepted :: "(string \<Rightarrow> string option) \<Rightarrow> manifest_entry \<Rightarrow> bool" where
  "accepted asm e \<longleftrightarrow> is_sysm e \<and> assemble_sysm asm (lower (me_name e)) \<noteq> None"

lemma check_entry_effect:
  assumes "check_entry asm tool e st = Inr st'"
  shows "length (en_mismatches st') = length (en_mismatches st) + (if contradicted asm e then 1 else 0) \<and>
    en_checked st' = en_checked st + (if accepted asm e then 1 else 0) \<and>
    en_unsupported st' = en_unsupported st @ (if is_sysm e \<and> \<not> accepted asm e then [me_name e] else []) \<and>
    en_agreed st' + length (en_mismatches st') + en_checked st = en_agreed st + length (en_mismatches st) + en_checked st'"
proof (cases "is_sysm e")
  case False
  then show ?thesis using assms by (simp add: check_entry_def Let_def contradicted_def accepted_def)
next
  case True
  then obtain n where n: "sysm_value (py_or (me_encoding e) []) = Inr n"
    using assms by (auto simp: check_entry_def Let_def res_simps)
  show ?thesis
  proof (cases "assemble_sysm asm (lower (me_name e))")
    case None
    with True n assms have "st' = st\<lparr>en_unsupported := en_unsupported st @ [me_name e]\<rparr>"
      by (simp add: check_entry_def Let_def)
    with True None show ?thesis by (simp add: contradicted_def accepted_def)
  next
    case (Some k)
    show ?thesis
    proof (cases "k = n")
      case True
      then have "st' = st\<lparr>en_checked := Suc (en_checked st), en_agreed := Suc (en_agreed st)\<rparr>"
        using \<open>is_sysm e\<close> n Some assms by (simp add: check_entry_def Let_def)
      with True \<open>is_sysm e\<close> n Some show ?thesis by (simp add: contradicted_def accepted_def)
    next
      case False
      then have "\<exists>m. st' = st\<lparr>en_checked := Suc (en_checked st), en_mismatches := en_mismatches st @ [m]\<rparr>"
        using \<open>is_sysm e\<close> n Some assms by (simp add: check_entry_def Let_def) (metis (no_types))
      with False \<open>is_sysm e\<close> n Some show ?thesis by (auto simp: contradicted_def accepted_def)
    qed
  qed
qed

lemma fold_check_entry:
  "fold_res (check_entry asm tool) es st = Inr st' \<Longrightarrow>
     length (en_mismatches st') = length (en_mismatches st) + length (filter (contradicted asm) es) \<and>
     en_checked st' = en_checked st + length (filter (accepted asm) es) \<and>
     en_unsupported st' = en_unsupported st @ map me_name (filter (\<lambda>e. is_sysm e \<and> \<not> accepted asm e) es) \<and>
     en_agreed st' + length (en_mismatches st') + en_checked st = en_agreed st + length (en_mismatches st) + en_checked st'"
proof (induction es arbitrary: st)
  case (Cons e es)
  then obtain s1 where s: "check_entry asm tool e st = Inr s1" "fold_res (check_entry asm tool) es s1 = Inr st'"
    by (auto simp: res_simps)
  from check_entry_effect [OF s(1)] Cons.IH [OF s(2)] show ?case by auto
qed simp

text \<open>
  C16. The encoding check fails exactly if the assembler contradicts the manifest: with a tool at
  hand the status is 1 if for some special register the assembler emits another number than
  the manifest claims, else 0; and every special register is counted once, as checked (agreed
  or mismatched) or as not accepted by the assembler.
\<close>

theorem encoding_check_exact:
  assumes "encoding_main te asm tool (Some path) target = Inr oc" "manifest_of te target = Inr doc"
  shows "oc_rc oc = (if \<exists>e \<in> set (mf_entries doc). contradicted asm e then 1 else 0) \<and>
    (\<exists>st. oc = enc_outcome path st \<and> en_checked st = en_agreed st + length (en_mismatches st) \<and>
      en_checked st + length (en_unsupported st) = length (filter is_sysm (mf_entries doc)))"
proof -
  obtain st where f: "fold_res (check_entry asm tool) (mf_entries doc)
      \<lparr>en_checked = 0, en_agreed = 0, en_mismatches = [], en_unsupported = []\<rparr> = Inr st"
    and oc: "oc = enc_outcome path st" using assms by (auto simp: encoding_main_def res_simps)
  have part: "length (filter (accepted asm) es) + length (filter (\<lambda>e. is_sysm e \<and> \<not> accepted asm e) es) =
      length (filter is_sysm es)" for es by (induction es) (auto simp: accepted_def)
  have len: "length (en_mismatches st) = length (filter (contradicted asm) (mf_entries doc))"
    "en_checked st = length (filter (accepted asm) (mf_entries doc))"
    "length (en_unsupported st) = length (filter (\<lambda>e. is_sysm e \<and> \<not> accepted asm e) (mf_entries doc))"
    "en_checked st = en_agreed st + length (en_mismatches st)"
    using fold_check_entry [OF f] by simp_all
  have "oc_rc oc = (if en_mismatches st \<noteq> [] then 1 else 0)" by (simp add: oc enc_outcome_def)
  moreover have "en_mismatches st \<noteq> [] \<longleftrightarrow> filter (contradicted asm) (mf_entries doc) \<noteq> []"
    using len(1) by (metis length_0_conv)
  moreover have "filter (contradicted asm) (mf_entries doc) \<noteq> [] \<longleftrightarrow> (\<exists>e \<in> set (mf_entries doc). contradicted asm e)"
    by (simp add: filter_empty_conv)
  ultimately have "oc_rc oc = (if \<exists>e \<in> set (mf_entries doc). contradicted asm e then 1 else 0)" by simp
  moreover have "en_checked st + length (en_unsupported st) = length (filter is_sysm (mf_entries doc))"
    using len(2,3) part [of "mf_entries doc"] by simp
  ultimately show ?thesis using oc len(4) by (intro conjI exI) assumption+
qed

text \<open>
  The numbers of the special registers survive the manifest: what the importer writes as the
  encoding of a record with a \<open>SYSm\<close> value is recognised by the encoding check and read back
  as the same number.
\<close>

theorem sysm_encoding_roundtrip:
  assumes "rr_sysm r = Some n" "\<not> truthy (rr_address r)" "me_encoding e = record_encoding r"
  shows "is_sysm e \<and> sysm_value (py_or (me_encoding e) []) = Inr n"
proof -
  have "record_encoding r = Some (''SYSm='' @ str_int n)" using assms by (simp add: record_encoding_def)
  then show ?thesis using assms(3) py_int_str_int [of n]
    by (simp add: is_sysm_def sysm_value_def py_or_def int_res_def starts_with_iff)
qed

theorem sysm_encoding_roundtrip_witness:
  "sysm_value (py_or (record_encoding ((plain_rec ''PRIMASK'' None ''RW'' None [] 3)\<lparr>rr_sysm := Some 16\<rparr>)) []) = Inr 16"
  using sysm_encoding_roundtrip [of "(plain_rec ''PRIMASK'' None ''RW'' None [] 3)\<lparr>rr_sysm := Some 16\<rparr>" 16
      "(to_dict (sample_entry ''PRIMASK'' EMITTED_STATE))\<lparr>me_encoding :=
        record_encoding ((plain_rec ''PRIMASK'' None ''RW'' None [] 3)\<lparr>rr_sysm := Some 16\<rparr>)\<rparr>"]
  by (simp add: plain_rec_def truthy_def)

theorem encoding_check_exact_witness:
  "\<exists>oc. encoding_main (tool_sample [] [(sample_entry ''PRIMASK'' EMITTED_STATE)\<lparr>encoding := Some ''SYSm=17''\<rparr>])
      (\<lambda>_. Some ''mrs r0, primask @ encoding: [0xef,0xf3,0x10,0x80]'') ''llvm-mc'' (Some ''/usr/bin/llvm-mc'') ''armv7m'' = Inr oc \<and>
     oc_rc oc = 1"
proof -
  let ?e = "(sample_entry ''PRIMASK'' EMITTED_STATE)\<lparr>encoding := Some ''SYSm=17''\<rparr>"
  let ?asm = "\<lambda>_::string. Some ''mrs r0, primask @ encoding: [0xef,0xf3,0x10,0x80]''"
  let ?te = "tool_sample [] [?e]"
  have en: "mf_entries (make_manifest ''armv7m'' [?e] sample_report) = [to_dict ?e]" by (simp add: make_manifest_def)
  have asm: "assemble_sysm ?asm n = Some 16" for n
  proof -
    have "assemble_sysm ?asm [] = Some 16" by code_simp
    then show ?thesis by (simp add: assemble_sysm_def)
  qed
  have ours: "sysm_value ''SYSm=17'' = Inr 17" by code_simp
  have f: "me_encoding (to_dict ?e) = Some ''SYSm=17''" by (simp add: to_dict_def)
  then have c: "contradicted ?asm (to_dict ?e)"
    by (simp add: contradicted_def asm is_sysm_def py_or_def ours)
  obtain oc where run: "encoding_main ?te ?asm ''llvm-mc'' (Some ''/usr/bin/llvm-mc'') ''armv7m'' = Inr oc"
    using f by (simp add: encoding_main_def en check_entry_def Let_def py_or_def is_sysm_def ours asm)
  from encoding_check_exact [OF run tool_sample_simps(2)] c run show ?thesis by (auto simp: en)
qed

end
