(* ===== verification/Prose.thy ===== *)
theory Prose
  imports Tools "HOL-Library.Product_Lexorder"
begin

text \<open>
  \<open>tools/state/prose.py\<close>: the scan of a manual's running text for constructs that name state,
  and the vocabularies (mnemonics, field names, front matter) taken from the document itself.
  The SHA-1 digest behind the identifier of a candidate is a parameter.  Text is Latin-1, so
  the two long dashes of the range pattern cannot occur.
\<close>

section \<open>Patterns\<close>

definition NUMBER_WORDS :: "(string \<times> int) list" where
  "NUMBER_WORDS =
     [(''two'', 2), (''three'', 3), (''four'', 4), (''five'', 5), (''six'', 6), (''seven'', 7), (''eight'', 8),
      (''nine'', 9), (''ten'', 10), (''twelve'', 12), (''sixteen'', 16), (''thirty-two'', 32),
      (''sixty-four'', 64), (''thirty two'', 32), (''sixty four'', 64)]"

abbreviation upper_digit :: "citem list" where "upper_digit \<equiv> [AZ, d09]"
abbreviation wb :: re where "wb \<equiv> RAsrt Wb"

definition PROSE_SECTION_RE :: re where
  "PROSE_SECTION_RE = seqs
     [RAsrt Bos,
      RGrp ''sec'' (seqs [opt (cls [AZ]), digits_plus, m_to_n 1 3 (seqs [lit ''.'', digits_plus])]),
      space_plus, RGrp ''title'' (seqs [cls [AZ], cls [NSpc], m_to_n 2 70 any]), RAsrt Dollar]"

text \<open>
  \<open>_REG\<close>, and \<open>_REG?\<close>: the question mark lands on the repetition at the end of \<open>_REG\<close>, where
  it makes that repetition lazy.
\<close>

definition REG :: re where
  "REG = seqs [cls [AZ], star (cls upper_digit), star (seqs [lit ''_'', plus (cls upper_digit)])]"

definition REG_lazy :: re where
  "REG_lazy = seqs [cls [AZ], star (cls upper_digit), lazy (seqs [lit ''_'', plus (cls upper_digit)])]"

definition RANGE_RE :: re where
  "RANGE_RE = seqs
     [wb, RGrp ''base'' REG_lazy, RGrp ''lo'' digits_plus, space_star, lit ''-'', space_star,
      RGrp ''base2'' REG_lazy, RGrp ''hi'' digits_plus, wb]"

definition THROUGH_RE :: re where
  "THROUGH_RE = seqs
     [wb, RGrp ''base'' REG_lazy, RGrp ''lo'' digits_plus, space_plus, alts [lit ''through'', lit ''to''],
      space_plus, RGrp ''base2'' REG_lazy, RGrp ''hi'' digits_plus, wb]"

definition mid_char :: re where
  "mid_char = cls [Wrd, Ch (CHR ''-''), Ch (CHR '',''), Ch (CHR '' '')]"

definition COUNT_RE :: re where
  "COUNT_RE = nocase (seqs
     [wb, RGrp ''count'' (alts
        [lit ''thirty-two'', lit ''sixty-four'', lit ''sixteen'', lit ''twelve'', lit ''eight'', lit ''seven'',
         lit ''six'', lit ''five'', lit ''four'', lit ''three'', lit ''two'', m_to_n 1 3 (cls [Dig])]),
      wb, RGrp ''mid'' (upto_n_lazy 44 mid_char), wb,
      alts [lit ''single-precision'', lit ''double-precision'', lit ''general-purpose'', lit ''special-purpose'',
            lit ''banked'', lit ''extension'', lit ''core'', lit ''doubleword'', lit ''word'', lit ''comparator'',
            lit ''stimulus''],
      wb, upto_n_lazy 24 mid_char, wb, lit ''register'', opt (lit ''s''), wb])"

definition PHRASE_RE :: re where
  "PHRASE_RE = nocase (seqs
     [wb, alts
        [seqs [lit ''bank of '', plus (cls [Wrd]), lit '' register'', opt (lit ''s'')],
         lit ''register file'', lit ''register bank'', seqs [lit ''banked register'', opt (lit ''s'')],
         seqs [lit ''extension register'', opt (lit ''s'')], seqs [lit ''shadow register'', opt (lit ''s'')]],
      wb])"

definition FAMILY_RE :: re where
  "FAMILY_RE = seqs
     [wb, RGrp ''name'' REG,
      alts [seqs [lit ''<'', cls [Ch (CHR ''n''), Ch (CHR ''N''), Ch (CHR ''x''), Ch (CHR ''X'')], lit ''>''],
            seqs [RAsrt (Behind [d09, AZ, Ch (CHR ''_'')]), cls [Ch (CHR ''n''), Ch (CHR ''x'')]]],
      wb]"

definition INSTR_REF_RE :: re where
  "INSTR_REF_RE = seqs
     [wb, alts [lit ''MRS'', lit ''MSR'', lit ''VMRS'', lit ''VMSR''], wb,
      RLook False (seqs [space_plus, lit ''on'', space_plus, lit ''page'']),
      upto_n_lazy 60 (ncls [Ch (CHR ''.''), Ch (CHR 0x0A)]), wb, RGrp ''name'' REG, wb]"

definition REG_digits :: re where
  "REG_digits = seqs [REG, star (cls [Dig])]"

definition COMMA_SET_RE :: re where
  "COMMA_SET_RE = seqs
     [wb, RGrp ''first'' REG_digits, at_least 2 (seqs [space_star, lit '','', space_star, REG_digits])]"

text \<open>The kinds of constructs, in the order of \<open>PATTERNS\<close>.\<close>

datatype kind = Range | Through | Count | Phrase | Family | Instr_ref | Comma_set

fun kind_name :: "kind \<Rightarrow> string" where
  "kind_name Range = ''range''"
| "kind_name Through = ''through''"
| "kind_name Count = ''count''"
| "kind_name Phrase = ''phrase''"
| "kind_name Family = ''family''"
| "kind_name Instr_ref = ''instr_ref''"
| "kind_name Comma_set = ''comma_set''"

definition PATTERNS :: "(kind \<times> re) list" where
  "PATTERNS =
     [(Range, RANGE_RE), (Through, THROUGH_RE), (Count, COUNT_RE), (Phrase, PHRASE_RE), (Family, FAMILY_RE),
      (Instr_ref, INSTR_REF_RE), (Comma_set, COMMA_SET_RE)]"

definition STOPWORDS :: "string list" where
  "STOPWORDS =
     [''THE'', ''AND'', ''FOR'', ''SEE'', ''ALL'', ''ARM'', ''THIS'', ''EACH'', ''ANY'', ''NOT'', ''BIT'',
      ''USE'', ''ONE'', ''TWO'', ''NOTE'', ''WHEN'', ''IF'', ''IS'', ''ARE'', ''TO'', ''IN'', ''ON'', ''OF'',
      ''RAZ'', ''WI'', ''RO'', ''RW'', ''WO'', ''UNKNOWN'', ''UNPREDICTABLE'', ''IMPLEMENTATION'',
      ''DEFINED'', ''RESERVED'', ''SBZ'', ''SBO'', ''UNP'', ''PE'', ''PPB'', ''SCS'', ''AHB'', ''APB'',
      ''DAP'', ''MVA'', ''PMSA'', ''ARMV'', ''ISA'', ''ID'', ''LSB'', ''MSB'', ''CPU'', ''FIFO'', ''TRM'']"

definition MAX_CONTEXT :: nat where "MAX_CONTEXT = 150"

section \<open>Candidates\<close>

record prose_candidate =
  pc_cid :: string
  pc_kind :: kind
  pc_raw :: string
  pc_names :: "string list"
  pc_section :: string
  pc_page :: nat
  pc_context :: string

text \<open>\<open>_expand\<close>; \<open>limit\<close> is always the default 512.\<close>

definition expand_names :: "string \<Rightarrow> int \<Rightarrow> int \<Rightarrow> string list" where
  "expand_names base lo hi =
     (if base = [] \<or> hi < lo \<or> hi - lo > 512 then [] else map (\<lambda>i. base @ str_int i) [lo..hi])"

definition cid_of :: "(string \<Rightarrow> string) \<Rightarrow> kind \<Rightarrow> string \<Rightarrow> string \<Rightarrow> string" where
  "cid_of sha1 k raw sec =
     kind_name k @ '':'' @ take 10 (sha1 (kind_name k @ ''|'' @ raw @ ''|'' @ sec))"

definition strip_us :: "string \<Rightarrow> string" where
  "strip_us = strip_by (\<lambda>c. c = CHR ''_'')"

text \<open>
  The names a match contributes: \<open>None\<close> where the loop goes on to the next match.
\<close>

definition range_names :: "re_match \<Rightarrow> string list option res" where
  "range_names m =
     (let base = strip_us (if grp m ''base'' \<noteq> [] then grp m ''base'' else grp m ''base2'');
          b2 = strip_us (grp m ''base2'')
      in if base = [] \<or> base \<in> set STOPWORDS then Inr None
         else if b2 \<noteq> [] \<and> b2 \<noteq> base then Inr None
         else
           rbind (int_res 10 (grp m ''lo'')) (\<lambda>lo.
           rbind (int_res 10 (grp m ''hi'')) (\<lambda>hi.
             (let names = expand_names base lo hi in Inr (if names = [] then None else Some names)))))"

definition count_names :: "re_match \<Rightarrow> string list option res" where
  "count_names m =
     (let c = lower (grp m ''count'')
      in rbind (if c \<noteq> [] \<and> list_all is_digit_ch c then int_res 10 c else Inr 0) (\<lambda>d.
           (let n = or_else (dict_get NUMBER_WORDS c) d in Inr (if n < 2 \<or> n > 512 then None else Some []))))"

definition name_names :: "re_match \<Rightarrow> string list option" where
  "name_names m =
     (let nm = grp m ''name'' in if nm \<in> set STOPWORDS \<or> length nm < 2 then None else Some [nm])"

definition COMMA_RE :: re where "COMMA_RE = seqs [space_star, lit '','', space_star]"

definition comma_names :: "re_match \<Rightarrow> string list option" where
  "comma_names m =
     (let names = filter (\<lambda>t. fullmatches REG_digits t \<and> t \<notin> set STOPWORDS)
            (map strip (re_split COMMA_RE (m_text m)))
      in if length names < 3 then None else Some names)"

fun names_of :: "kind \<Rightarrow> re_match \<Rightarrow> string list option res" where
  "names_of Range m = range_names m"
| "names_of Through m = range_names m"
| "names_of Count m = count_names m"
| "names_of Phrase m = Inr (Some [])"
| "names_of Family m = Inr (name_names m)"
| "names_of Instr_ref m = Inr (name_names m)"
| "names_of Comma_set m = Inr (comma_names m)"

text \<open>The text around a match: sixty characters on both sides, cut to \<open>MAX_CONTEXT\<close>.\<close>

definition context_of :: "string \<Rightarrow> re_match \<Rightarrow> string" where
  "context_of window m =
     (let start = length (m_before m) - 60; stop = length (m_before m) + length (m_text m) + 60
      in take MAX_CONTEXT (strip (drop start (take stop window))))"

text \<open>One match of one pattern: the state is the dictionary \<open>out\<close>, as the list of its values.\<close>

definition add_match ::
  "(string \<Rightarrow> string) \<Rightarrow> string \<Rightarrow> nat \<Rightarrow> string \<Rightarrow> kind \<Rightarrow> re_match \<Rightarrow> prose_candidate list \<Rightarrow> prose_candidate list res"
where
  "add_match sha1 sec page window k m out =
     rbind (names_of k m) (\<lambda>ns.
       (case ns of
          None \<Rightarrow> Inr out
        | Some names \<Rightarrow>
            (let raw = strip (m_text m); cid = cid_of sha1 k raw sec
             in if length raw > 90 then Inr out
                else if cid \<in> pc_cid ` set out then Inr out
                else Inr (out @
                  [\<lparr>pc_cid = cid, pc_kind = k, pc_raw = raw, pc_names = py_sorted names, pc_section = sec,
                    pc_page = page, pc_context = context_of window m\<rparr>]))))"

section \<open>The scan\<close>

definition window_of :: "string list \<Rightarrow> nat \<Rightarrow> string" where
  "window_of ls i = join '' '' (map strip (take 2 (drop i ls)))"

text \<open>The section a line opens, if it is a heading.\<close>

definition section_after :: "string \<Rightarrow> string \<Rightarrow> string" where
  "section_after sec line =
     (if strip line = [] then sec
      else case re_match_at_start PROSE_SECTION_RE (strip line) of
             Some m \<Rightarrow> grp m ''sec'' @ '' '' @ strip (grp m ''title'')
           | None \<Rightarrow> sec)"

definition scan_window ::
  "(string \<Rightarrow> string) \<Rightarrow> string \<Rightarrow> nat \<Rightarrow> string \<Rightarrow> prose_candidate list \<Rightarrow> prose_candidate list res" where
  "scan_window sha1 sec page window out =
     (if strip window = [] then Inr out
      else fold_res (\<lambda>(k, rx) out. fold_res (add_match sha1 sec page window k) (finditer rx window) out) PATTERNS out)"

definition scan_line ::
  "(string \<Rightarrow> string) \<Rightarrow> nat \<Rightarrow> string list \<Rightarrow> nat \<Rightarrow> string \<times> prose_candidate list \<Rightarrow>
     (string \<times> prose_candidate list) res" where
  "scan_line sha1 page ls i st =
     (let sec = section_after (fst st) (ls ! i)
      in rbind (scan_window sha1 sec page (window_of ls i) (snd st)) (\<lambda>out. Inr (sec, out)))"

definition scan_page ::
  "(string \<Rightarrow> string) \<Rightarrow> nat \<times> string \<Rightarrow> string \<times> prose_candidate list \<Rightarrow> (string \<times> prose_candidate list) res" where
  "scan_page sha1 np st =
     (let ls = splitlines (snd np) in fold_res (scan_line sha1 (fst np) ls) [0..<length ls] st)"

definition scan_key :: "prose_candidate \<Rightarrow> string \<times> string \<times> string" where
  "scan_key c = (kind_name (pc_kind c), pc_section c, pc_raw c)"

definition scan :: "(string \<Rightarrow> string) \<Rightarrow> string list \<Rightarrow> prose_candidate list res" where
  "scan sha1 pages =
     rbind (fold_res (scan_page sha1) (enumerate 1 pages) ([], [])) (\<lambda>st. Inr (sort_key scan_key (snd st)))"

section \<open>Vocabularies derived from the document\<close>

definition MNEMONIC_HEAD_RE :: re where
  "MNEMONIC_HEAD_RE = seqs
     [RAsrt Bos,
      RGrp ''sec'' (seqs [lit ''A'', cls [Rg (CHR ''4'') (CHR ''7'')], m_to_n 1 3 (seqs [lit ''.'', digits_plus])]),
      space_plus,
      RGrp ''title'' (seqs [cls [AZ], star (cls upper_digit),
        star (seqs [space_star, lit '','', space_star, cls [AZ], star (cls upper_digit)])]),
      alts [seqs [space_star, lit ''('' ], seqs [space_star, RAsrt Dollar]]]"

definition MNEMONIC_TOKEN_RE :: re where
  "MNEMONIC_TOKEN_RE = seqs [cls [AZ], m_to_n 1 9 (cls upper_digit)]"

definition line_mnemonics :: "string \<Rightarrow> string list" where
  "line_mnemonics line =
     (case re_match_at_start MNEMONIC_HEAD_RE (strip line) of
        None \<Rightarrow> []
      | Some m \<Rightarrow> filter (fullmatches MNEMONIC_TOKEN_RE) (map strip (re_split COMMA_RE (grp m ''title''))))"

text \<open>Sets of names are lists of their elements.\<close>

definition instruction_mnemonics :: "string list \<Rightarrow> string list" where
  "instruction_mnemonics pages = concat (map line_mnemonics (concat (map splitlines pages)))"

definition who_char :: re where
  "who_char = cls [AZ, az, d09, Ch (CHR ''_''), Ch (CHR ''/''), Ch (CHR '' '')]"

definition FIELD_TABLE_RE :: re where
  "FIELD_TABLE_RE = nocase (seqs
     [RAsrt Bos, space_star, lit ''Table'', space_plus, opt (cls [AZ]), digits_plus, lit ''-'', digits_plus, space_plus,
      RGrp ''who'' (seqs [cls [AZ], upto_n_lazy 40 who_char]), space_plus, lit ''bit'', space_plus,
      alts [lit ''assignments'', lit ''definitions'']])"

definition FIELD_NAME_RE :: re where
  "FIELD_NAME_RE = seqs [cls [AZ], upto_n 15 (cls id_tail)]"

definition FIELD_ROW_RE :: re where
  "FIELD_ROW_RE = seqs
     [RAsrt Bos, space_star, RGrp ''name'' FIELD_NAME_RE, space_star, alts [lit '','', cls [Spc]], space_star,
      lit ''bit'', opt (lit ''s''), space_star, lit ''['']"

definition SPACES2_RE :: re where "SPACES2_RE = at_least 2 (cls [Spc])"

text \<open>One line: whether the scan is inside a table of fields, and the name found.\<close>

definition field_line :: "string \<Rightarrow> bool \<times> string list \<Rightarrow> bool \<times> string list" where
  "field_line line st =
     (case st of (inside, out) \<Rightarrow>
        if matches FIELD_TABLE_RE line then (True, out)
        else
          (let inside = (if starts_with (strip line) ''Table '' then False else inside)
           in case re_match_at_start FIELD_ROW_RE line of
                Some m \<Rightarrow> (inside, out @ [grp m ''name''])
              | None \<Rightarrow>
                  (if inside then
                     (case filter (\<lambda>c. c \<noteq> []) (map strip (re_split SPACES2_RE (strip line))) of
                        [] \<Rightarrow> (inside, out)
                      | c # _ \<Rightarrow> (inside, if fullmatches FIELD_NAME_RE c then out @ [c] else out))
                   else (inside, out))))"

definition field_names :: "string list \<Rightarrow> string list" where
  "field_names pages = snd (fold field_line (concat (map splitlines pages)) (False, []))"

definition FIRST_CHAPTER_RE :: re where
  "FIRST_CHAPTER_RE = seqs
     [RAsrt Bol, space_star, opt (seqs [lit ''Chapter'', space_plus]), lit ''A1'', opt (lit ''.1''), space_plus, cls [NSpc]]"

fun front_matter_from :: "nat \<Rightarrow> string list \<Rightarrow> nat" where
  "front_matter_from n [] = 0"
| "front_matter_from n (p # ps) = (if searches FIRST_CHAPTER_RE p then n - 1 else front_matter_from (Suc n) ps)"

definition front_matter_pages :: "string list \<Rightarrow> nat" where
  "front_matter_pages pages = front_matter_from 1 pages"

section \<open>The scan as one loop\<close>

text \<open>
  The four nested loops and the section carried along, flattened: the matches in the order in
  which the scan meets them, each with its section, page and window.
\<close>

type_synonym job = "string \<times> nat \<times> string \<times> kind \<times> re_match"

definition window_jobs :: "string \<Rightarrow> nat \<Rightarrow> string \<Rightarrow> job list" where
  "window_jobs sec page window =
     (if strip window = [] then []
      else concat (map (\<lambda>(k, rx). map (\<lambda>m. (sec, page, window, k, m)) (finditer rx window)) PATTERNS))"

fun line_jobs :: "nat \<Rightarrow> string list \<Rightarrow> string \<Rightarrow> nat list \<Rightarrow> job list" where
  "line_jobs page ls sec [] = []"
| "line_jobs page ls sec (i # is) =
     (let sec' = section_after sec (ls ! i)
      in window_jobs sec' page (window_of ls i) @ line_jobs page ls sec' is)"

fun page_jobs :: "string \<Rightarrow> (nat \<times> string) list \<Rightarrow> job list" where
  "page_jobs sec [] = []"
| "page_jobs sec ((n, p) # ps) =
     (let ls = splitlines p
      in line_jobs n ls sec [0..<length ls] @ page_jobs (foldl section_after sec ls) ps)"

definition do_job :: "(string \<Rightarrow> string) \<Rightarrow> job \<Rightarrow> prose_candidate list \<Rightarrow> prose_candidate list res" where
  "do_job sha1 j = (case j of (sec, page, window, k, m) \<Rightarrow> add_match sha1 sec page window k m)"

lemma fold_res_map: "fold_res f (map g xs) s = fold_res (\<lambda>x. f (g x)) xs s"
proof (induction xs arbitrary: s)
  case (Cons x xs)
  then show ?case by (cases "f (g x) s") auto
qed simp

lemma fold_res_concat: "fold_res f (concat xss) s = fold_res (fold_res f) xss s"
proof (induction xss arbitrary: s)
  case (Cons xs xss)
  then show ?case by (cases "fold_res f xs s") (auto simp: fold_res_append)
qed simp

lemma scan_window_jobs:
  "scan_window sha1 sec page window out = fold_res (do_job sha1) (window_jobs sec page window) out"
proof -
  have "(\<lambda>(k, rx) out. fold_res (add_match sha1 sec page window k) (finditer rx window) out) =
      (\<lambda>p. fold_res (do_job sha1) (case p of (k, rx) \<Rightarrow> map (\<lambda>m. (sec, page, window, k, m)) (finditer rx window)))"
    by (auto simp: fun_eq_iff fold_res_map do_job_def)
  then show ?thesis by (simp add: scan_window_def window_jobs_def fold_res_concat fold_res_map)
qed

lemma scan_line_eq:
  "scan_line sha1 page ls i (sec, out) =
     rbind (fold_res (do_job sha1) (window_jobs (section_after sec (ls ! i)) page (window_of ls i)) out)
       (\<lambda>out. Inr (section_after sec (ls ! i), out))"
  by (simp add: scan_line_def Let_def scan_window_jobs)

lemma scan_lines_jobs:
  "fold_res (scan_line sha1 page ls) is (sec, out) =
     rbind (fold_res (do_job sha1) (line_jobs page ls sec is) out)
       (\<lambda>out. Inr (foldl section_after sec (map ((!) ls) is), out))"
proof (induction "is" arbitrary: sec out)
  case (Cons i "is")
  let ?s = "section_after sec (ls ! i)"
  show ?case
    by (cases "fold_res (do_job sha1) (window_jobs ?s page (window_of ls i)) out")
      (simp_all add: scan_line_eq Let_def fold_res_append Cons.IH)
qed simp

lemma scan_page_eq:
  "scan_page sha1 (n, p) (sec, out) =
     rbind (fold_res (do_job sha1) (line_jobs n (splitlines p) sec [0..<length (splitlines p)]) out)
       (\<lambda>out. Inr (foldl section_after sec (splitlines p), out))"
  by (simp add: scan_page_def Let_def scan_lines_jobs map_nth)

lemma scan_page_jobs:
  "fold_res (scan_page sha1) ps (sec, out) =
     rbind (fold_res (do_job sha1) (page_jobs sec ps) out)
       (\<lambda>out. Inr (foldl section_after sec (concat (map (splitlines \<circ> snd) ps)), out))"
proof (induction ps arbitrary: sec out)
  case (Cons np ps)
  obtain n p where np: "np = (n, p)" by (cases np)
  show ?case
    by (cases "fold_res (do_job sha1) (line_jobs n (splitlines p) sec [0..<length (splitlines p)]) out")
      (simp_all add: np scan_page_eq Let_def fold_res_append Cons.IH)
qed simp

lemma scan_flat:
  "scan sha1 pages =
     rbind (fold_res (do_job sha1) (page_jobs [] (enumerate 1 pages)) []) (\<lambda>out. Inr (sort_key scan_key out))"
  by (cases "fold_res (do_job sha1) (page_jobs [] (enumerate 1 pages)) []") (simp_all add: scan_def scan_page_jobs)

text \<open>The section in force at a line: the last heading up to it, on this page or an earlier one.\<close>

definition section_at :: "string list \<Rightarrow> nat \<Rightarrow> nat \<Rightarrow> string" where
  "section_at pages p i =
     foldl section_after [] (concat (map splitlines (take p pages)) @ take (Suc i) (splitlines (pages ! p)))"

lemma set_window_jobs:
  "(s, n, w, k, m) \<in> set (window_jobs sec page window) \<longleftrightarrow>
     s = sec \<and> n = page \<and> w = window \<and> strip window \<noteq> [] \<and> (\<exists>rx. (k, rx) \<in> set PATTERNS \<and> m \<in> set (finditer rx window))"
  by (auto simp: window_jobs_def)

lemma set_line_jobs:
  "set (line_jobs page ls sec is) =
     (\<Union>j < length is. set (window_jobs (foldl section_after sec (map ((!) ls) (take (Suc j) is))) page (window_of ls (is ! j))))"
proof (induction "is" arbitrary: sec)
  case (Cons i "is")
  have "{..<length (i # is)} = insert 0 (Suc ` {..<length is})" by (simp add: lessThan_Suc_eq_insert_0)
  then show ?case by (simp add: Let_def Cons.IH)
qed simp

lemma set_page_jobs:
  "set (page_jobs sec (enumerate n pages)) =
     (\<Union>p < length pages. let ls = splitlines (pages ! p) in \<Union>i < length ls.
        set (window_jobs (foldl section_after sec (concat (map splitlines (take p pages)) @ take (Suc i) ls))
          (n + p) (window_of ls i)))"
proof (induction pages arbitrary: sec n)
  case (Cons p pages)
  let ?ls = "splitlines p"
  have ix: "{..<length (p # pages)} = insert 0 (Suc ` {..<length pages})" by (simp add: lessThan_Suc_eq_insert_0)
  have tk: "map ((!) ?ls) (take (Suc j) [0..<length ?ls]) = take (Suc j) ?ls" for j
    by (metis map_nth take_map)
  have "set (line_jobs n ?ls sec [0..<length ?ls]) =
      (\<Union>i < length ?ls. set (window_jobs (foldl section_after sec (take (Suc i) ?ls)) n (window_of ?ls i)))"
    unfolding set_line_jobs tk by auto
  then show ?case unfolding ix by (simp add: Let_def Cons.IH)
qed simp

section \<open>The scan never fails\<close>

lemma finditer_takes:
  "m \<in> set (finditer r s) \<Longrightarrow> gen r (m_text m) \<and> caps_ok r (m_caps m) \<and> caps_all r (m_caps m)"
proof -
  have "m \<in> set (finditer_from r p s) \<Longrightarrow> gen r (m_text m) \<and> caps_ok r (m_caps m) \<and> caps_all r (m_caps m)" for p
  proof (induction r p s rule: finditer_from.induct)
    case (1 r p s)
    show ?case
    proof (cases "search_from r p s")
      case None
      with "1.prems" show ?thesis by (simp add: finditer_from.simps [of r p s])
    next
      case (Some n)
      from search_from_takes [OF Some] have "gen r (m_text n) \<and> caps_ok r (m_caps n) \<and> caps_all r (m_caps n)" by blast
      with Some "1.prems" "1.IH" [OF Some] show ?thesis
        by (auto simp: finditer_from.simps [of r p s] split: if_splits)
    qed
  qed
  then show "m \<in> set (finditer r s) \<Longrightarrow> gen r (m_text m) \<and> caps_ok r (m_caps m) \<and> caps_all r (m_caps m)"
    by (simp add: finditer_def)
qed

lemma finditer_group:
  assumes "m \<in> set (finditer r s)" "must r g" "\<And>b. (g, b) \<in> set (groups r) \<Longrightarrow> b = rg"
  shows "gen rg (grp m g)"
  using group_must [of r m g] finditer_takes [OF assms(1)] assms(2,3) by metis

lemma groups_REG [simp]: "groups REG = []" "groups REG_lazy = []" "groups REG_digits = []"
  by (simp_all add: REG_def REG_lazy_def REG_digits_def groups_seqs_Cons groups_alts_Cons)

lemma groups_upto_n_lazy: "groups r = [] \<Longrightarrow> groups (upto_n_lazy n r) = []"
  by (induction n) auto

lemma range_groups:
  "groups RANGE_RE = [(''base'', REG_lazy), (''lo'', digits_plus), (''base2'', REG_lazy), (''hi'', digits_plus)]"
  "groups THROUGH_RE = [(''base'', REG_lazy), (''lo'', digits_plus), (''base2'', REG_lazy), (''hi'', digits_plus)]"
  "must RANGE_RE ''lo''" "must RANGE_RE ''hi''" "must THROUGH_RE ''lo''" "must THROUGH_RE ''hi''"
  by (simp_all add: RANGE_RE_def THROUGH_RE_def groups_seqs_Cons groups_alts_Cons must_seqs_Cons)

lemma int_res_digits: "gen digits_plus s \<Longrightarrow> \<exists>n. int_res 10 s = Inr n \<and> 0 \<le> n"
proof -
  assume "gen digits_plus s"
  then have "all_digits 10 s" by (intro all_digits_dec) auto
  from py_int_dec_total [OF this] show ?thesis by (auto simp: int_res_def)
qed

lemma range_names_total:
  assumes "rx \<in> {RANGE_RE, THROUGH_RE}" "m \<in> set (finditer rx s)"
  shows "\<exists>ns. range_names m = Inr ns"
proof -
  have "must rx g \<and> (\<forall>b. (g, b) \<in> set (groups rx) \<longrightarrow> b = digits_plus)" if "g = ''lo'' \<or> g = ''hi''" for g
    using assms(1) that range_groups by auto
  then have d: "gen digits_plus (grp m g)" if "g = ''lo'' \<or> g = ''hi''" for g
    using that finditer_group [OF assms(2), of g digits_plus] by presburger
  have "gen digits_plus (grp m ''lo'')" "gen digits_plus (grp m ''hi'')" by (rule d, simp)+
  then obtain lo hi where "int_res 10 (grp m ''lo'') = Inr lo" "int_res 10 (grp m ''hi'') = Inr hi"
    using int_res_digits by meson
  then show ?thesis by (simp add: range_names_def Let_def)
qed

text \<open>The characters a pattern can take.\<close>

primrec takes_char :: "re \<Rightarrow> char \<Rightarrow> bool" where
  "takes_char REmpty c = False"
| "takes_char (RCls n is) c = in_class n is c"
| "takes_char (RSeq a b) c = (takes_char a c \<or> takes_char b c)"
| "takes_char (RAlt a b) c = (takes_char a c \<or> takes_char b c)"
| "takes_char (RStar g r) c = takes_char r c"
| "takes_char (RGrp g r) c = takes_char r c"
| "takes_char (RAsrt a) c = False"
| "takes_char (RLook b r) c = False"

lemma gen_takes_char: "gen r w \<Longrightarrow> c \<in> set w \<Longrightarrow> takes_char r c"
  by (induction r arbitrary: w) fastforce+

definition count_word :: re where
  "count_word = alts
     [lit ''thirty-two'', lit ''sixty-four'', lit ''sixteen'', lit ''twelve'', lit ''eight'', lit ''seven'',
      lit ''six'', lit ''five'', lit ''four'', lit ''three'', lit ''two'', m_to_n 1 3 (cls [Dig])]"

text \<open>Patterns whose classes hold ASCII characters only.\<close>

fun ascii_item :: "citem \<Rightarrow> bool" where
  "ascii_item (Ch c) = (cp c < 128)"
| "ascii_item (Rg a b) = (cp b < 128)"
| "ascii_item Dig = True"
| "ascii_item i = False"

primrec ascii_re :: "re \<Rightarrow> bool" where
  "ascii_re REmpty = True"
| "ascii_re (RCls n is) = (\<not> n \<and> list_all ascii_item is)"
| "ascii_re (RSeq a b) = (ascii_re a \<and> ascii_re b)"
| "ascii_re (RAlt a b) = (ascii_re a \<and> ascii_re b)"
| "ascii_re (RStar g r) = ascii_re r"
| "ascii_re (RGrp g r) = ascii_re r"
| "ascii_re (RAsrt a) = True"
| "ascii_re (RLook b r) = True"

lemma ascii_items: "list_all ascii_item is \<Longrightarrow> in_items is c \<Longrightarrow> cp c < 128"
proof (induction "is")
  case (Cons i "is")
  then show ?case by (cases i) (auto simp: between_def is_digit_def)
qed simp

lemma ascii_takes_char: "ascii_re r \<Longrightarrow> takes_char r c \<Longrightarrow> cp c < 128"
  by (induction r) (auto simp: in_class_def ascii_items)

lemma ascii_count_word: "ascii_re (nocase count_word)"
  by code_simp

lemma ascii_digit: "cp c < 128 \<Longrightarrow> is_digit_ch (lower_ch c) \<Longrightarrow> is_digit (lower_ch c)"
  using cp_bound [of c]
  by (auto simp: is_digit_ch_def is_digit_def lower_ch_def between_def is_upper_ascii_def cp_char_of split: if_splits)

lemma nocase_seqs: "nocase (seqs rs) = seqs (map nocase rs)"
  by (induction rs rule: seqs.induct) auto

lemma nocase_upto_n_lazy: "nocase (upto_n_lazy n r) = upto_n_lazy n (nocase r)"
  by (induction n) auto

lemma groups_nocase: "groups (nocase r) = map (\<lambda>(g, b). (g, nocase b)) (groups r)"
  by (induction r) auto

lemma must_nocase: "must (nocase r) g = must r g"
  by (induction r) auto

lemma groups_COUNT_RE: "groups COUNT_RE = [(''count'', nocase count_word), (''mid'', nocase (upto_n_lazy 44 mid_char))]"
  by (simp add: COUNT_RE_def groups_nocase groups_seqs_Cons groups_alts_Cons groups_upto_n_lazy mid_char_def count_word_def)

lemma must_COUNT_RE: "must COUNT_RE ''count''"
  by (simp add: COUNT_RE_def must_nocase must_seqs_Cons)

lemma count_names_total:
  assumes "m \<in> set (finditer COUNT_RE s)"
  shows "\<exists>ns. count_names m = Inr ns"
proof -
  let ?c = "lower (grp m ''count'')"
  have "gen (nocase count_word) (grp m ''count'')"
    using finditer_group [OF assms must_COUNT_RE] by (simp add: groups_COUNT_RE)
  then have ok: "is_digit_ch (lower_ch x) \<longrightarrow> is_digit (lower_ch x)" if "x \<in> set (grp m ''count'')" for x
    using ascii_digit [OF ascii_takes_char [OF ascii_count_word]] gen_takes_char that by blast
  have "\<exists>n. int_res 10 ?c = Inr n" if d: "?c \<noteq> []" "list_all is_digit_ch ?c"
  proof -
    have "\<forall>x \<in> set ?c. is_digit x" using d(2) ok by (auto simp: lower_def list_all_iff)
    from py_int_dec_total [OF all_digits_dec [OF d(1) this]] show ?thesis by (auto simp: int_res_def)
  qed
  then show ?thesis by (auto simp: count_names_def Let_def res_simps)
qed

lemma names_total:
  assumes "(k, rx) \<in> set PATTERNS" "m \<in> set (finditer rx w)"
  shows "\<exists>ns. names_of k m = Inr ns"
  using assms range_names_total [of rx m w] count_names_total [of m w] by (auto simp: PATTERNS_def)

section \<open>What the scan returns\<close>

text \<open>
  The specification: a construct of kind \<open>k\<close> occurs in the manual if a pattern of the kind matches
  in the two-line window at some line, the match names something, and its text has at most 90
  characters; it belongs to the section in force at the line.
\<close>

definition occurs ::
  "string list \<Rightarrow> kind \<Rightarrow> string \<Rightarrow> string \<Rightarrow> nat \<Rightarrow> string list \<Rightarrow> string \<Rightarrow> bool" where
  "occurs pages k raw sec page names ctx \<longleftrightarrow>
     (\<exists>p < length pages. \<exists>i < length (splitlines (pages ! p)). \<exists>rx m.
        strip (window_of (splitlines (pages ! p)) i) \<noteq> [] \<and> (k, rx) \<in> set PATTERNS \<and>
        m \<in> set (finditer rx (window_of (splitlines (pages ! p)) i)) \<and>
        names_of k m = Inr (Some names) \<and> raw = strip (m_text m) \<and> length raw \<le> 90 \<and>
        sec = section_at pages p i \<and> page = Suc p \<and> ctx = context_of (window_of (splitlines (pages ! p)) i) m)"

definition job_occurs :: "job \<Rightarrow> kind \<Rightarrow> string \<Rightarrow> string \<Rightarrow> nat \<Rightarrow> string list \<Rightarrow> string \<Rightarrow> bool" where
  "job_occurs j k raw sec page names ctx \<longleftrightarrow>
     (\<exists>window m. j = (sec, page, window, k, m) \<and> names_of k m = Inr (Some names) \<and>
        raw = strip (m_text m) \<and> length raw \<le> 90 \<and> ctx = context_of window m)"

lemma in_page_jobs:
  "(sec, page, w, k, m) \<in> set (page_jobs [] (enumerate (Suc 0) pages)) \<longleftrightarrow>
     (\<exists>p < length pages. \<exists>i < length (splitlines (pages ! p)).
        sec = section_at pages p i \<and> page = Suc p \<and> w = window_of (splitlines (pages ! p)) i \<and> strip w \<noteq> [] \<and>
        (\<exists>rx. (k, rx) \<in> set PATTERNS \<and> m \<in> set (finditer rx w)))"
  unfolding set_page_jobs by (auto simp: Let_def set_window_jobs section_at_def)

lemma occurs_jobs:
  "occurs pages k raw sec page names ctx \<longleftrightarrow>
     (\<exists>j \<in> set (page_jobs [] (enumerate (Suc 0) pages)). job_occurs j k raw sec page names ctx)"
proof
  assume "occurs pages k raw sec page names ctx"
  then obtain p i rx m where *: "p < length pages" "i < length (splitlines (pages ! p))"
    "strip (window_of (splitlines (pages ! p)) i) \<noteq> []" "(k, rx) \<in> set PATTERNS"
    "m \<in> set (finditer rx (window_of (splitlines (pages ! p)) i))"
    "names_of k m = Inr (Some names)" "raw = strip (m_text m)" "length raw \<le> 90"
    "sec = section_at pages p i" "page = Suc p" "ctx = context_of (window_of (splitlines (pages ! p)) i) m"
    unfolding occurs_def by blast
  then have "(sec, page, window_of (splitlines (pages ! p)) i, k, m) \<in> set (page_jobs [] (enumerate (Suc 0) pages))"
    unfolding in_page_jobs by blast
  with * show "\<exists>j \<in> set (page_jobs [] (enumerate (Suc 0) pages)). job_occurs j k raw sec page names ctx"
    unfolding job_occurs_def by blast
next
  assume "\<exists>j \<in> set (page_jobs [] (enumerate (Suc 0) pages)). job_occurs j k raw sec page names ctx"
  then obtain w m where j: "(sec, page, w, k, m) \<in> set (page_jobs [] (enumerate (Suc 0) pages))"
    "names_of k m = Inr (Some names)" "raw = strip (m_text m)" "length raw \<le> 90" "ctx = context_of w m"
    unfolding job_occurs_def by blast
  from j(1) obtain p i rx where "p < length pages" "i < length (splitlines (pages ! p))" "sec = section_at pages p i"
    "page = Suc p" "w = window_of (splitlines (pages ! p)) i" "strip w \<noteq> []" "(k, rx) \<in> set PATTERNS"
    "m \<in> set (finditer rx w)" unfolding in_page_jobs by blast
  with j(2-5) show "occurs pages k raw sec page names ctx" unfolding occurs_def by blast
qed

definition from_job :: "(string \<Rightarrow> string) \<Rightarrow> job \<Rightarrow> prose_candidate \<Rightarrow> bool" where
  "from_job sha1 j c \<longleftrightarrow>
     (\<exists>names. job_occurs j (pc_kind c) (pc_raw c) (pc_section c) (pc_page c) names (pc_context c) \<and>
        pc_names c = py_sorted names \<and> pc_cid c = cid_of sha1 (pc_kind c) (pc_raw c) (pc_section c))"

definition job_cids :: "(string \<Rightarrow> string) \<Rightarrow> job \<Rightarrow> string set" where
  "job_cids sha1 j = {cid_of sha1 k raw sec | k raw sec. \<exists>page names ctx. job_occurs j k raw sec page names ctx}"

lemma do_job_effect:
  assumes "\<exists>ns. names_of (fst (snd (snd (snd j)))) (snd (snd (snd (snd j)))) = Inr ns" "distinct (map pc_cid out)"
  shows "\<exists>new. do_job sha1 j out = Inr (out @ new) \<and> (\<forall>c \<in> set new. from_job sha1 j c) \<and>
    pc_cid ` set (out @ new) = pc_cid ` set out \<union> job_cids sha1 j \<and> distinct (map pc_cid (out @ new))"
proof -
  obtain sec page w k m where j: "j = (sec, page, w, k, m)" by (cases j)
  from assms(1) obtain ns where ns: "names_of k m = Inr ns" by (auto simp: j)
  let ?raw = "strip (m_text m)"
  let ?cid = "cid_of sha1 k ?raw sec"
  show ?thesis
  proof (cases "ns = None \<or> length ?raw > 90")
    case True
    then have "do_job sha1 j out = Inr out" "job_cids sha1 j = {}"
      using ns by (auto simp: j do_job_def add_match_def job_cids_def job_occurs_def Let_def split: option.splits)
    with assms(2) show ?thesis by (intro exI [of _ "[]"]) simp
  next
    case False
    then obtain names where names: "ns = Some names" "length ?raw \<le> 90" by auto
    let ?c = "\<lparr>pc_cid = ?cid, pc_kind = k, pc_raw = ?raw, pc_names = py_sorted names, pc_section = sec,
      pc_page = page, pc_context = context_of w m\<rparr>"
    have ids: "job_cids sha1 j = {?cid}" using ns names by (auto simp: j job_cids_def job_occurs_def)
    have "from_job sha1 j ?c" using ns names by (simp add: j from_job_def job_occurs_def)
    moreover have "do_job sha1 j out = Inr (out @ (if ?cid \<in> pc_cid ` set out then [] else [?c]))"
      using ns names by (simp add: j do_job_def add_match_def Let_def)
    ultimately show ?thesis using ids assms(2)
      by (intro exI [of _ "if ?cid \<in> pc_cid ` set out then [] else [?c]"]) auto
  qed
qed

lemma fold_jobs_effect:
  assumes "\<forall>j \<in> set js. \<exists>ns. names_of (fst (snd (snd (snd j)))) (snd (snd (snd (snd j)))) = Inr ns"
    and "distinct (map pc_cid out)"
  shows "\<exists>out'. fold_res (do_job sha1) js out = Inr out' \<and>
    (\<forall>c \<in> set out'. c \<in> set out \<or> (\<exists>j \<in> set js. from_job sha1 j c)) \<and>
    pc_cid ` set out' = pc_cid ` set out \<union> (\<Union>j \<in> set js. job_cids sha1 j) \<and> distinct (map pc_cid out')"
  using assms
proof (induction js arbitrary: out)
  case (Cons j js)
  have "\<exists>ns. names_of (fst (snd (snd (snd j)))) (snd (snd (snd (snd j)))) = Inr ns" using Cons.prems(1) by simp
  from do_job_effect [OF this Cons.prems(2), of sha1]
  obtain new where new: "do_job sha1 j out = Inr (out @ new)" "\<forall>c \<in> set new. from_job sha1 j c"
    "pc_cid ` set (out @ new) = pc_cid ` set out \<union> job_cids sha1 j" "distinct (map pc_cid (out @ new))" by blast
  have "\<forall>j \<in> set js. \<exists>ns. names_of (fst (snd (snd (snd j)))) (snd (snd (snd (snd j)))) = Inr ns"
    using Cons.prems(1) by simp
  from Cons.IH [OF this new(4)] obtain out' where o: "fold_res (do_job sha1) js (out @ new) = Inr out'"
    "\<forall>c \<in> set out'. c \<in> set (out @ new) \<or> (\<exists>j \<in> set js. from_job sha1 j c)"
    "pc_cid ` set out' = pc_cid ` set (out @ new) \<union> (\<Union>j \<in> set js. job_cids sha1 j)" "distinct (map pc_cid out')"
    by blast
  have "fold_res (do_job sha1) (j # js) out = Inr out'" using new(1) o(1) by simp
  moreover have "\<forall>c \<in> set out'. c \<in> set out \<or> (\<exists>j \<in> set (j # js). from_job sha1 j c)" using new(2) o(2) by auto
  moreover have "pc_cid ` set out' = pc_cid ` set out \<union> (\<Union>j \<in> set (j # js). job_cids sha1 j)"
    unfolding o(3) new(3) by auto
  ultimately show ?case using o(4) by blast
qed simp

lemma scan_spec:
  "\<exists>cs. scan sha1 pages = Inr cs \<and> sorted (map scan_key cs) \<and> distinct (map pc_cid cs) \<and>
     pc_cid ` set cs = {cid_of sha1 k raw sec | k raw sec. \<exists>page names ctx. occurs pages k raw sec page names ctx} \<and>
     (\<forall>c \<in> set cs. \<exists>names. occurs pages (pc_kind c) (pc_raw c) (pc_section c) (pc_page c) names (pc_context c) \<and>
        pc_names c = py_sorted names \<and> pc_cid c = cid_of sha1 (pc_kind c) (pc_raw c) (pc_section c))"
proof -
  let ?js = "page_jobs [] (enumerate (Suc 0) pages)"
  have "\<forall>j \<in> set ?js. \<exists>ns. names_of (fst (snd (snd (snd j)))) (snd (snd (snd (snd j)))) = Inr ns"
    using names_total by (fastforce simp: in_page_jobs)
  from fold_jobs_effect [OF this, of "[]" sha1] obtain out where out: "fold_res (do_job sha1) ?js [] = Inr out"
    "\<forall>c \<in> set out. \<exists>j \<in> set ?js. from_job sha1 j c"
    "pc_cid ` set out = (\<Union>j \<in> set ?js. job_cids sha1 j)" "distinct (map pc_cid out)" by auto
  let ?cs = "sort_key scan_key out"
  have run: "scan sha1 pages = Inr ?cs" by (simp add: scan_flat out(1))
  have dist: "distinct (map pc_cid ?cs)" using out(4) by (simp add: distinct_map)
  have ids: "pc_cid ` set ?cs = {cid_of sha1 k raw sec | k raw sec. \<exists>page names ctx. occurs pages k raw sec page names ctx}"
    unfolding occurs_jobs set_sort out(3) job_cids_def by blast
  have ok: "\<exists>names. occurs pages (pc_kind c) (pc_raw c) (pc_section c) (pc_page c) names (pc_context c) \<and>
      pc_names c = py_sorted names \<and> pc_cid c = cid_of sha1 (pc_kind c) (pc_raw c) (pc_section c)"
    if "c \<in> set ?cs" for c
    using that out(2) unfolding occurs_jobs from_job_def by fastforce
  from run dist ids ok show ?thesis by (intro exI [of _ ?cs]) simp
qed

text \<open>One line of text and its only candidate, with the identity for the digest.\<close>

definition sample_candidate :: prose_candidate where
  "sample_candidate =
     \<lparr>pc_cid = ''range:range|S0-S'', pc_kind = Range, pc_raw = ''S0-S3'', pc_names = [''S0'', ''S1'', ''S2'', ''S3''],
      pc_section = [], pc_page = 1, pc_context = ''registers S0-S3''\<rparr>"

lemma scan_sample: "scan (\<lambda>s. s) [''registers S0-S3''] = Inr [sample_candidate]"
  by code_simp

text \<open>What a kind of construct may name.\<close>

fun names_ok :: "kind \<Rightarrow> string list \<Rightarrow> bool" where
  "names_ok Count ns = (ns = [])"
| "names_ok Phrase ns = (ns = [])"
| "names_ok Family ns = (\<exists>nm. ns = [nm] \<and> nm \<notin> set STOPWORDS \<and> 2 \<le> length nm)"
| "names_ok Instr_ref ns = (\<exists>nm. ns = [nm] \<and> nm \<notin> set STOPWORDS \<and> 2 \<le> length nm)"
| "names_ok Comma_set ns = (ns \<noteq> [] \<and> (\<forall>t \<in> set ns. gen REG_digits t \<and> t \<notin> set STOPWORDS))"
| "names_ok k ns = (\<exists>base lo hi. base \<noteq> [] \<and> base \<notin> set STOPWORDS \<and> lo \<le> hi \<and> hi \<le> lo + 512 \<and>
     set ns = (\<lambda>i. base @ str_int i) ` {lo..hi})"

lemma plain_REG_digits: "plain REG_digits"
  by (simp add: REG_digits_def REG_def)

lemma range_names_ok: "range_names m = Inr (Some names) \<Longrightarrow> names_ok Range (py_sorted names)"
proof -
  assume a: "range_names m = Inr (Some names)"
  obtain base where b: "base \<noteq> []" "base \<notin> set STOPWORDS"
    and "\<exists>lo hi. names = expand_names base lo hi \<and> names \<noteq> []"
    using a by (auto simp: range_names_def Let_def res_simps split: if_splits)
  then obtain lo hi where "names = expand_names base lo hi" "names \<noteq> []" by blast
  then have "lo \<le> hi \<and> hi \<le> lo + 512 \<and> set (py_sorted names) = (\<lambda>i. base @ str_int i) ` {lo..hi}"
    by (auto simp: expand_names_def split: if_splits)
  with b show ?thesis unfolding names_ok.simps by blast
qed

lemma py_sorted_single [simp]: "py_sorted [x] = [x]"
  by (simp add: py_sorted_def)

lemma names_of_ok: "names_of k m = Inr (Some names) \<Longrightarrow> names_ok k (py_sorted names)"
proof (cases k)
  case Count
  assume "names_of k m = Inr (Some names)"
  then show ?thesis using Count by (auto simp: count_names_def Let_def res_simps py_sorted_def split: if_splits)
next
  case Comma_set
  assume "names_of k m = Inr (Some names)"
  then have "\<not> length names < 3" "\<forall>t \<in> set names. fullmatches REG_digits t \<and> t \<notin> set STOPWORDS"
    using Comma_set by (auto simp: comma_names_def Let_def split: if_splits)
  moreover have "py_sorted names \<noteq> [] \<longleftrightarrow> names \<noteq> []"
    using py_sorted_set [of names] by (metis set_empty)
  ultimately show ?thesis using Comma_set fullmatches_gen [OF plain_REG_digits] by auto
next
  case Range
  assume "names_of k m = Inr (Some names)"
  with Range range_names_ok show ?thesis by simp
next
  case Through
  assume "names_of k m = Inr (Some names)"
  with Through range_names_ok [of m names] show ?thesis by simp
qed (auto simp: name_names_def Let_def py_sorted_def split: if_splits)

lemma scan_occurs:
  assumes "scan sha1 pages = Inr cs" "c \<in> set cs"
  shows "\<exists>names. occurs pages (pc_kind c) (pc_raw c) (pc_section c) (pc_page c) names (pc_context c) \<and>
    pc_names c = py_sorted names \<and> pc_cid c = cid_of sha1 (pc_kind c) (pc_raw c) (pc_section c)"
  using scan_spec [of sha1 pages] unfolding assms(1) using assms(2) by (elim exE conjE) (metis sum.inject(2))


text \<open>
  A candidate names only what its construct can name: the members of one family with
  consecutive numbers for a range, one register for a family or an operand, identifiers for
  an enumeration, nothing for a count; its names are sorted, its page is one of the document,
  and its text and context are bounded.
\<close>

theorem scan_candidates_ok:
  assumes "scan sha1 pages = Inr cs" "c \<in> set cs"
  shows "names_ok (pc_kind c) (pc_names c) \<and> sorted (pc_names c) \<and> distinct (pc_names c) \<and>
    length (pc_raw c) \<le> 90 \<and> length (pc_context c) \<le> 150 \<and> 1 \<le> pc_page c \<and> pc_page c \<le> length pages"
proof -
  obtain names where o: "occurs pages (pc_kind c) (pc_raw c) (pc_section c) (pc_page c) names (pc_context c)"
    and n: "pc_names c = py_sorted names" using scan_occurs [OF assms] by blast
  from o obtain p m w where "p < length pages" "names_of (pc_kind c) m = Inr (Some names)" "length (pc_raw c) \<le> 90"
    "pc_page c = Suc p" "pc_context c = context_of w m" unfolding occurs_def by blast
  moreover have "length (context_of w m) \<le> 150" by (simp add: context_of_def Let_def MAX_CONTEXT_def)
  ultimately show ?thesis unfolding n
    by (intro conjI names_of_ok py_sorted_sorted py_sorted_distinct) simp_all
qed

theorem scan_candidates_ok_witness:
  "scan (\<lambda>s. s) [''registers S0-S3''] = Inr [sample_candidate] \<and> names_ok Range [''S0'', ''S1'', ''S2'', ''S3'']"
  using scan_candidates_ok [OF scan_sample, of sample_candidate] scan_sample by (simp add: sample_candidate_def)


text \<open>
  A range whose last member has a number of two digits is not found: the second name of the
  pattern takes all digits but the last one, so it differs from the first and the match is
  dropped.  The range \<open>S0-S7\<close> gives its eight members, but \<open>S0-S31\<close> and
  \<open>NVIC_IPR0-NVIC_IPR123\<close>, the examples of the code, give nothing.
\<close>

theorem two_digit_range_missed:
  "scan sha1 [''registers S0-S31''] = Inr [] \<and> scan sha1 [''NVIC_IPR0-NVIC_IPR123''] = Inr [] \<and>
   map_sum id (map pc_names) (scan sha1 [''registers S0-S7'']) =
     Inr [[''S0'', ''S1'', ''S2'', ''S3'', ''S4'', ''S5'', ''S6'', ''S7'']]"
proof -
  have "scan sha1 [''registers S0-S31''] = Inr []" by code_simp
  moreover have "scan sha1 [''NVIC_IPR0-NVIC_IPR123''] = Inr []" by code_simp
  moreover have "map_sum id (map pc_names) (scan sha1 [''registers S0-S7'']) =
     Inr [[''S0'', ''S1'', ''S2'', ''S3'', ''S4'', ''S5'', ''S6'', ''S7'']]" by code_simp
  ultimately show ?thesis by blast
qed

text \<open>
  A family written with its placeholder in angle brackets is not found unless a word character
  follows the bracket: the pattern asks for a word boundary there.
\<close>

theorem bracket_family_missed:
  "scan sha1 [''the DWT_COMP<n> set''] = Inr [] \<and>
   map_sum id (map pc_names) (scan sha1 [''the DWT_COMPn set'']) = Inr [[''DWT_COMP'']]"
proof -
  have "scan sha1 [''the DWT_COMP<n> set''] = Inr []" by code_simp
  moreover have "map_sum id (map pc_names) (scan sha1 [''the DWT_COMPn set'']) = Inr [[''DWT_COMP'']]" by code_simp
  ultimately show ?thesis by blast
qed

end
