(* ===== verification/ProseReview.thy ===== *)
theory ProseReview
  imports Prose
begin

text \<open>
  \<open>tools/state_prose_candidates.py\<close>: every candidate of the prose scan gets a class, from the
  reviewed rules or automatically from what the manifest and the manual itself say; what has
  none fails the command or, with \<open>--seed\<close>, is written to the rules for review.
\<close>

section \<open>Automatic classification\<close>

definition VALID :: "string list" where
  "VALID = [''state'', ''alias'', ''field'', ''block_name'', ''covered_family'', ''already_covered'', ''false_positive'']"

definition INSTRUCTION_SECTION_RE :: re where
  "INSTRUCTION_SECTION_RE = seqs [RAsrt Bos, lit ''A'', cls [Rg (CHR ''4'') (CHR ''7'')], lit ''.'']"

definition FILE_PHRASES :: "(re \<times> string) list" where
  "FILE_PHRASES =
     [(lit ''arm core register'', ''R0-R12, SP, LR, PC''),
      (seqs [opt (lit ''fp ''), lit ''extension register''], ''S0-S31 / D0-D15''),
      (lit ''single-precision register'', ''S0-S31''),
      (lit ''double-precision register'', ''D0-D15''),
      (lit ''special-purpose register'', ''PRIMASK, BASEPRI, FAULTMASK, CONTROL, xPSR''),
      (lit ''comparator register'', ''DWT_COMPn''),
      (lit ''stimulus port register'', ''ITM_STIM0-255'')]"

definition family_base :: "string \<Rightarrow> string" where
  "family_base name = re_sub ARRAY_SUFFIX_RE [] name"

text \<open>What the classification looks things up in: sets of names, as lists.\<close>

record vocabulary =
  vc_known :: "string list"
  vc_families :: "string list"
  vc_mnemonics :: "string list"
  vc_fields :: "string list"
  vc_front_matter :: nat

definition is_covered :: "vocabulary \<Rightarrow> string \<Rightarrow> bool" where
  "is_covered v n \<longleftrightarrow> n \<in> set (vc_known v) \<or> family_base n \<in> set (vc_families v)"

definition is_word_of :: "vocabulary \<Rightarrow> string \<Rightarrow> bool" where
  "is_word_of v n \<longleftrightarrow> n \<in> set (vc_mnemonics v) \<or> n \<in> set (vc_fields v)"

definition CONTEXT_NAME_RE :: re where
  "CONTEXT_NAME_RE = seqs [wb, cls [AZ], m_to_n 1 15 (cls [AZ, d09, Ch (CHR ''_'')]), wb]"

definition context_names :: "prose_candidate \<Rightarrow> string list" where
  "context_names c = map m_text (finditer CONTEXT_NAME_RE (pc_context c))"

text \<open>A count or phrase names no register: it is resolved against its own context.\<close>

definition classify_unnamed :: "vocabulary \<Rightarrow> prose_candidate \<Rightarrow> (string \<times> string) option" where
  "classify_unnamed v c =
     (let ctx = context_names c; cov = filter (is_covered v) ctx; blob = lower (pc_raw c @ '' '' @ pc_context c)
      in if cov \<noteq> [] then
           Some (''covered_family'', ''states the size or existence of a register file already covered ('' @
             join '', '' (take 3 (py_sorted cov)) @ '')'')
         else
           (case find (\<lambda>(rx, covers). searches rx blob) FILE_PHRASES of
              Some (rx, covers) \<Rightarrow>
                Some (''covered_family'', ''names a register file in words; already covered as '' @ covers)
            | None \<Rightarrow>
                (if list_all (is_word_of v) ctx then
                   Some (''false_positive'',
                     ''a count or phrase about registers that names none; no state identified'')
                 else None)))"

definition BLOCKS :: "string list" where
  "BLOCKS = [''DWT'', ''ITM'', ''TPIU'', ''FPB'', ''NVIC'', ''MPU'', ''SCB'', ''SCS'', ''CTI'', ''ETM'', ''DCB'']"

definition names_instruction :: "string \<Rightarrow> bool" where
  "names_instruction sec \<longleftrightarrow> searches (nocase (lit ''instruction'')) sec"

text \<open>The checks in the order of the code; \<open>names\<close> are in upper case.\<close>

definition classify_named :: "vocabulary \<Rightarrow> prose_candidate \<Rightarrow> string list \<Rightarrow> (string \<times> string) option" where
  "classify_named v c names =
     (if names_instruction (pc_section c) \<and> \<not> list_ex (is_covered v) names then
        Some (''false_positive'', ''named in an instruction-set section; instruction mnemonics, not registers'')
      else if list_all (\<lambda>n. n \<in> set BLOCKS) names then
        Some (''block_name'', ''names debug/system blocks, not registers; their registers are enumerated '' @
          ''in their own summary tables'')
      else if pc_kind c = Instr_ref \<and> is_covered v (hd names) then
        Some (''already_covered'', ''special register already present in the manifest'')
      else None)"

definition classify_members :: "vocabulary \<Rightarrow> prose_candidate \<Rightarrow> string list \<Rightarrow> (string \<times> string) option" where
  "classify_members v c names =
     (if pc_kind c \<in> {Range, Through, Comma_set} then
        (let cov = filter (is_covered v) names in
         if cov \<noteq> [] \<and> length cov = length names then Some (''already_covered'', ''every member already present'')
         else if cov = [] \<and> matches INSTRUCTION_SECTION_RE (pc_section c) then
           Some (''false_positive'', ''register list in an instruction description; an operand range, '' @
             ''not a definition of state'')
         else classify_named v c names)
      else classify_named v c names)"

definition classify_vocabulary :: "vocabulary \<Rightarrow> prose_candidate \<Rightarrow> string list \<Rightarrow> (string \<times> string) option" where
  "classify_vocabulary v c names =
     (if list_all (\<lambda>n. n \<in> set (vc_mnemonics v)) names then
        Some (''false_positive'', ''instruction mnemonics, named by the instruction chapters' own headings'')
      else if list_all (\<lambda>n. n \<in> set (vc_fields v)) names then
        Some (''field'', ''bit fields named by the manual's 'bit assignments' tables, not independent state'')
      else if list_all (is_word_of v) names then
        Some (''false_positive'', ''a mix of instruction mnemonics and bit-field names; no register named'')
      else if list_all (\<lambda>n. n \<in> set (vc_known v)) names then
        Some (''already_covered'', ''all '' @ str_nat (length names) @ '' name(s) are already state entries in the manifest'')
      else if list_all (\<lambda>n. family_base n \<in> set (vc_families v)) names then
        Some (''covered_family'', ''members of the '' @ family_base (hd names) @ ''* array, already covered'')
      else if pc_kind c = Family \<and> (family_base (hd names) \<in> set (vc_families v) \<or> hd names \<in> set (vc_known v)) then
        Some (''covered_family'', ''parameterised family already covered as '' @ family_base (hd names) @ ''*'')
      else classify_members v c names)"

definition auto_classify :: "vocabulary \<Rightarrow> prose_candidate \<Rightarrow> (string \<times> string) option" where
  "auto_classify v c =
     (let names = map upper (pc_names c)
      in if pc_page c \<le> vc_front_matter v then
           Some (''false_positive'',
             ''document front matter (title, legal and revision text), before the first chapter'')
         else if names \<noteq> [] then classify_vocabulary v c names
         else if pc_kind c \<in> {Count, Phrase} then classify_unnamed v c
         else None)"

section \<open>The review of all candidates\<close>

text \<open>A row of the rules: the outer option is whether the field is there, the inner one its null value.\<close>

record seed_fields =
  sd_raw :: string
  sd_section :: string
  sd_page :: nat
  sd_context :: string
  sd_names :: "string list"

record review =
  rv_class :: "string option option"
  rv_reason :: "string option option"
  rv_seed :: "seed_fields option"

definition review_empty :: "review \<Rightarrow> bool" where
  "review_empty r \<longleftrightarrow> rv_class r = None \<and> rv_reason r = None \<and> rv_seed r = None"

type_synonym review_rules = "(string \<times> review) list"

record result_row =
  rw_cid :: string
  rw_kind :: kind
  rw_raw :: string
  rw_names :: "string list"
  rw_section :: string
  rw_page :: nat
  rw_context :: string
  rw_class :: "string option"
  rw_reason :: "string option"
  rw_how :: string

definition resolve_class ::
  "vocabulary \<Rightarrow> review_rules \<Rightarrow> prose_candidate \<Rightarrow> string option \<times> string option \<times> string" where
  "resolve_class v reviewed c =
     (let auto = (case auto_classify v c of
                    Some (k, why) \<Rightarrow> (Some k, Some why, ''auto'')
                  | None \<Rightarrow> (None, Some [], ''-''))
      in case dict_get reviewed (pc_cid c) of
           None \<Rightarrow> auto
         | Some r \<Rightarrow>
             (if review_empty r then auto
              else (or_else (rv_class r) None, or_else (rv_reason r) (Some []), ''reviewed'')))"

definition row_of :: "prose_candidate \<Rightarrow> string option \<times> string option \<times> string \<Rightarrow> result_row" where
  "row_of c khr =
     \<lparr>rw_cid = pc_cid c, rw_kind = pc_kind c, rw_raw = pc_raw c, rw_names = pc_names c, rw_section = pc_section c,
      rw_page = pc_page c, rw_context = pc_context c, rw_class = fst khr, rw_reason = fst (snd khr),
      rw_how = snd (snd khr)\<rparr>"

record review_state =
  rs_rows :: "result_row list"
  rs_unresolved :: "prose_candidate list"
  rs_unclassified :: "prose_candidate list"

text \<open>The loop: \<open>Inl\<close> is the early return on a class that is not valid, with its message.\<close>

fun review_all ::
  "vocabulary \<Rightarrow> review_rules \<Rightarrow> prose_candidate list \<Rightarrow> review_state \<Rightarrow> string + review_state" where
  "review_all v reviewed [] st = Inr st"
| "review_all v reviewed (c # cs) st =
     (let khr = resolve_class v reviewed c in
      case fst khr of
        Some k \<Rightarrow>
          (if k \<notin> set VALID then Inl (''ERROR: '' @ pc_cid c @ '' has invalid class '' @ py_repr k)
           else review_all v reviewed cs (st\<lparr>rs_rows := rs_rows st @ [row_of c khr]\<rparr>))
      | None \<Rightarrow>
          review_all v reviewed cs
            (st\<lparr>rs_rows := rs_rows st @ [row_of c khr],
                rs_unclassified := rs_unclassified st @ [c],
                rs_unresolved := rs_unresolved st @ (if pc_kind c \<in> {Range, Through} then [c] else [])\<rparr>))"

definition start_review :: review_state where
  "start_review = \<lparr>rs_rows = [], rs_unresolved = [], rs_unclassified = []\<rparr>"

section \<open>Seeding and reporting\<close>

definition seeded_review :: "prose_candidate \<Rightarrow> review" where
  "seeded_review c =
     \<lparr>rv_class = Some None,
      rv_reason = Some (Some (''UNREVIEWED - classify as state/alias/field/block_name/'' @
        ''covered_family/already_covered/false_positive'')),
      rv_seed = Some \<lparr>sd_raw = pc_raw c, sd_section = pc_section c, sd_page = pc_page c, sd_context = pc_context c,
        sd_names = pc_names c\<rparr>\<rparr>"

definition seed_rules :: "review_rules \<Rightarrow> prose_candidate list \<Rightarrow> review_rules" where
  "seed_rules existing unclassified =
     foldl (\<lambda>d c. dict_setdefault d (pc_cid c) (seeded_review c)) existing unclassified"

record artifact =
  ar_target :: string
  ar_source :: string
  ar_rows :: "result_row list"

record run_result =
  rn_outcome :: outcome
  rn_rules :: "review_rules option"      \<comment> \<open>the rules file written by \<open>--seed\<close>\<close>
  rn_artifact :: "artifact option"       \<comment> \<open>the JSON file written otherwise\<close>

definition class_label :: "result_row \<Rightarrow> string" where
  "class_label r = (if truthy (rw_class r) then or_else (rw_class r) [] else ''UNCLASSIFIED'')"

definition class_rows :: "result_row list \<Rightarrow> string list" where
  "class_rows rws =
     (let by = tally [] (map class_label rws)
      in map (\<lambda>k. ''    '' @ number_row 22 k (or_else (dict_get by k) 0)) (py_sorted (map fst by)))"

definition unclassified_row :: "prose_candidate \<Rightarrow> string" where
  "unclassified_row c =
     ''  '' @ pc_cid c @ ''  '' @ pad 10 (kind_name (pc_kind c)) @ '' '' @ pad 42 (take 40 (pc_raw c)) @ '' '' @
     take 34 (pc_section c) @ '' p'' @ str_nat (pc_page c)"

definition review_outcome :: "string \<Rightarrow> review_state \<Rightarrow> outcome" where
  "review_outcome artifact_path st =
     (let out = [''Prose candidates:        '' @ str_nat (length (rs_rows st))] @ class_rows (rs_rows st) @
            [''Unresolved ranges:       '' @ str_nat (length (rs_unresolved st)),
             ''Artifact:                '' @ artifact_path]
      in if rs_unclassified st \<noteq> [] then
           \<lparr>oc_rc = 1, oc_out = out,
            oc_err = [[], ''FAIL: '' @ str_nat (length (rs_unclassified st)) @ '' unclassified prose candidate(s):''] @
              map unclassified_row (take 15 (rs_unclassified st))\<rparr>
         else \<lparr>oc_rc = 0, oc_out = out, oc_err = []\<rparr>)"

definition vocabulary_of :: "manifest \<Rightarrow> string list \<Rightarrow> vocabulary" where
  "vocabulary_of doc pages =
     \<lparr>vc_known = map (\<lambda>e. upper (me_name e)) (mf_entries doc),
      vc_families = map (\<lambda>e. upper (family_base (me_name e))) (mf_entries doc),
      vc_mnemonics = instruction_mnemonics pages, vc_fields = field_names pages,
      vc_front_matter = front_matter_pages pages\<rparr>"

text \<open>
  \<open>run\<close>: the rules file (\<open>None\<close> where there is none), its path and the one of the artifact, as
  printed, are arguments; the source is verified once, the second call gives the same path.
\<close>

definition finish_run ::
  "string \<Rightarrow> source \<Rightarrow> string \<Rightarrow> string \<Rightarrow> review_rules \<Rightarrow> bool \<Rightarrow> string + review_state \<Rightarrow> run_result" where
  "finish_run target src rules_path artifact_path reviewed seeding r =
     (case r of
        Inl msg \<Rightarrow> \<lparr>rn_outcome = \<lparr>oc_rc = 2, oc_out = [], oc_err = [msg]\<rparr>, rn_rules = None, rn_artifact = None\<rparr>
      | Inr st \<Rightarrow>
          (if seeding then
             \<lparr>rn_outcome = \<lparr>oc_rc = 0, oc_out = [''seeded '' @ rules_path @ '' with '' @
                str_nat (length (rs_unclassified st)) @ '' candidate(s) to review''], oc_err = []\<rparr>,
              rn_rules = Some (seed_rules reviewed (rs_unclassified st)), rn_artifact = None\<rparr>
           else
             \<lparr>rn_outcome = review_outcome artifact_path st, rn_rules = None,
              rn_artifact = Some \<lparr>ar_target = target, ar_source = s_document src @ '' '' @ s_revision src,
                ar_rows = rs_rows st\<rparr>\<rparr>))"

definition run_prose ::
  "(string \<Rightarrow> string) \<Rightarrow> tool_env \<Rightarrow> string \<Rightarrow> string \<Rightarrow> string \<Rightarrow> review_rules option \<Rightarrow> bool \<Rightarrow> run_result res" where
  "run_prose sha1 te target rules_path artifact_path rules seeding =
     rbind (require target (dict_get TARGET_SOURCE target)) (\<lambda>key.
     rbind (verified_source te key) (\<lambda>(src, path).
     rbind (scan sha1 (te_pages te path)) (\<lambda>cands.
     rbind (manifest_of te target) (\<lambda>doc.
       (let reviewed = or_else rules []
        in Inr (finish_run target src rules_path artifact_path reviewed seeding
             (review_all (vocabulary_of doc (te_pages te path)) reviewed cands start_review)))))))"

definition prose_main ::
  "(string \<Rightarrow> string) \<Rightarrow> tool_env \<Rightarrow> string \<Rightarrow> string \<Rightarrow> string \<Rightarrow> review_rules option \<Rightarrow> bool \<Rightarrow> outcome res" where
  "prose_main sha1 te target rules_path artifact_path rules seeding =
     on_source_error (\<lambda>msg. \<lparr>oc_rc = 0, oc_out = [], oc_err = [''SKIP: '' @ msg]\<rparr>)
       (rbind (run_prose sha1 te target rules_path artifact_path rules seeding) (\<lambda>r. Inr (rn_outcome r)))"

section \<open>What a class says\<close>

lemmas classify_defs = auto_classify_def classify_vocabulary_def classify_members_def classify_named_def
  classify_unnamed_def Let_def

lemma length_filter_all: "length (filter P xs) = length xs \<Longrightarrow> list_all P xs"
  by (metis length_filter_less less_irrefl list_all_iff)

lemma auto_classify_valid: "auto_classify v c = Some (k, why) \<Longrightarrow> k \<in> set VALID \<and> why \<noteq> []"
  by (auto simp: classify_defs VALID_def split: if_splits option.splits)

text \<open>
  Nothing that names known state is dismissed: if a candidate is classified automatically as a
  false positive then it stands before the first chapter, or every name in it is a mnemonic or
  a field name of the manual, or none of its names is in the manifest or in a family of it; a
  candidate without names is then a count or a phrase whose context holds no known name either.
\<close>

theorem false_positive_safe:
  assumes "auto_classify v c = Some (''false_positive'', why)"
  shows "pc_page c \<le> vc_front_matter v \<or>
    (pc_names c \<noteq> [] \<and>
      ((\<forall>n \<in> set (pc_names c). is_word_of v (upper n)) \<or> (\<forall>n \<in> set (pc_names c). \<not> is_covered v (upper n)))) \<or>
    (pc_names c = [] \<and> pc_kind c \<in> {Count, Phrase} \<and>
      (\<forall>t \<in> set (context_names c). is_word_of v t \<and> \<not> is_covered v t))"
proof (cases "pc_page c \<le> vc_front_matter v")
  case False
  show ?thesis
  proof (cases "pc_names c = []")
    case True
    with False assms have k: "pc_kind c \<in> {Count, Phrase}" "classify_unnamed v c = Some (''false_positive'', why)"
      by (auto simp: auto_classify_def Let_def split: if_splits)
    then have "filter (is_covered v) (context_names c) = []" "list_all (is_word_of v) (context_names c)"
      by (auto simp: classify_unnamed_def Let_def simp del: filter_False split: if_splits option.splits)
    with k True show ?thesis by (auto simp: filter_empty_conv list_all_iff)
  next
    case named: False
    with False assms have "classify_vocabulary v c (map upper (pc_names c)) = Some (''false_positive'', why)"
      by (auto simp: auto_classify_def Let_def split: if_splits)
    then have "list_all (is_word_of v) (map upper (pc_names c)) \<or> \<not> list_ex (is_covered v) (map upper (pc_names c))"
      by (auto simp: classify_vocabulary_def classify_members_def classify_named_def Let_def is_word_of_def list_all_iff
          list_ex_iff filter_empty_conv split: if_splits)
    then have "(\<forall>n \<in> set (pc_names c). is_word_of v (upper n)) \<or> (\<forall>n \<in> set (pc_names c). \<not> is_covered v (upper n))"
      by (auto simp: list_all_iff list_ex_iff)
    with named show ?thesis by blast
  qed
qed simp

text \<open>
  Nothing is claimed to be covered without the manifest: a candidate with names that is
  classified automatically as covered (already or as a family) outside the front matter has a
  name that is in the manifest or in a family of it, and all of them are unless it is the
  parameterised name of a family or the operand of an instruction; one without names points to
  a covered name in its context or to a register file named in words.
\<close>

theorem covered_claim_backed:
  assumes "auto_classify v c = Some (k, why)" "k = ''already_covered'' \<or> k = ''covered_family''"
  shows "(pc_names c \<noteq> [] \<and> is_covered v (upper (hd (pc_names c))) \<and>
      (pc_kind c \<in> {Family, Instr_ref} \<or> (\<forall>n \<in> set (pc_names c). is_covered v (upper n)))) \<or>
    (pc_names c = [] \<and> pc_kind c \<in> {Count, Phrase} \<and>
      ((\<exists>t \<in> set (context_names c). is_covered v t) \<or>
       (\<exists>(rx, covers) \<in> set FILE_PHRASES. searches rx (lower (pc_raw c @ '' '' @ pc_context c)))))"
proof (cases "pc_names c = []")
  case True
  with assms have k: "pc_kind c \<in> {Count, Phrase}" "classify_unnamed v c = Some (k, why)"
    by (auto simp: auto_classify_def Let_def split: if_splits)
  then have "filter (is_covered v) (context_names c) \<noteq> [] \<or>
      find (\<lambda>(rx, covers). searches rx (lower (pc_raw c @ '' '' @ pc_context c))) FILE_PHRASES \<noteq> None"
    using assms(2) by (auto simp: classify_unnamed_def Let_def simp del: filter_False split: if_splits option.splits)
  then show ?thesis using True k by (auto simp: filter_empty_conv find_None_iff)
next
  case False
  let ?ns = "map upper (pc_names c)"
  have hd: "hd ?ns = upper (hd (pc_names c))" "hd ?ns \<in> set ?ns" using False by (simp_all add: hd_map)
  have "classify_vocabulary v c ?ns = Some (k, why)"
    using False assms by (auto simp: auto_classify_def Let_def split: if_splits)
  then have "list_all (is_covered v) ?ns \<or> (is_covered v (hd ?ns) \<and> pc_kind c \<in> {Family, Instr_ref}) \<or>
      (length (filter (is_covered v) ?ns) = length ?ns)"
    using assms(2)
    by (auto simp: classify_vocabulary_def classify_members_def classify_named_def Let_def is_covered_def list_all_iff
        split: if_splits)
  then have "list_all (is_covered v) ?ns \<or> (is_covered v (hd ?ns) \<and> pc_kind c \<in> {Family, Instr_ref})"
    using length_filter_all by blast
  with False hd show ?thesis by (auto simp: list_all_iff)
qed

section \<open>The review as a whole\<close>

definition bad_class :: "vocabulary \<Rightarrow> review_rules \<Rightarrow> prose_candidate \<Rightarrow> bool" where
  "bad_class v reviewed c \<longleftrightarrow> (case fst (resolve_class v reviewed c) of Some k \<Rightarrow> k \<notin> set VALID | None \<Rightarrow> False)"

definition classless :: "vocabulary \<Rightarrow> review_rules \<Rightarrow> prose_candidate \<Rightarrow> bool" where
  "classless v reviewed c \<longleftrightarrow> fst (resolve_class v reviewed c) = None"

definition reviewed_state :: "vocabulary \<Rightarrow> review_rules \<Rightarrow> prose_candidate list \<Rightarrow> review_state" where
  "reviewed_state v reviewed cs =
     \<lparr>rs_rows = map (\<lambda>c. row_of c (resolve_class v reviewed c)) cs,
      rs_unresolved = filter (\<lambda>c. classless v reviewed c \<and> pc_kind c \<in> {Range, Through}) cs,
      rs_unclassified = filter (classless v reviewed) cs\<rparr>"

lemma review_all_from:
  "review_all v reviewed cs st =
     (case find (bad_class v reviewed) cs of
        Some c \<Rightarrow> Inl (''ERROR: '' @ pc_cid c @ '' has invalid class '' @ py_repr (or_else (fst (resolve_class v reviewed c)) []))
      | None \<Rightarrow> Inr (let s = reviewed_state v reviewed cs in
          \<lparr>rs_rows = rs_rows st @ rs_rows s, rs_unresolved = rs_unresolved st @ rs_unresolved s,
           rs_unclassified = rs_unclassified st @ rs_unclassified s\<rparr>))"
proof (induction cs arbitrary: st)
  case (Cons c cs)
  show ?case
  proof (cases "fst (resolve_class v reviewed c)")
    case None
    then have "\<not> bad_class v reviewed c" "classless v reviewed c" by (simp_all add: bad_class_def classless_def)
    with None show ?thesis by (simp add: Let_def Cons.IH reviewed_state_def split: option.splits)
  next
    case (Some k)
    then have "bad_class v reviewed c \<longleftrightarrow> k \<notin> set VALID" "\<not> classless v reviewed c"
      by (simp_all add: bad_class_def classless_def)
    with Some show ?thesis by (simp add: Let_def Cons.IH reviewed_state_def split: option.splits)
  qed
qed (simp add: reviewed_state_def)

lemma review_all_eq:
  "review_all v reviewed cs start_review =
     (case find (bad_class v reviewed) cs of
        Some c \<Rightarrow> Inl (''ERROR: '' @ pc_cid c @ '' has invalid class '' @ py_repr (or_else (fst (resolve_class v reviewed c)) []))
      | None \<Rightarrow> Inr (reviewed_state v reviewed cs))"
  by (simp add: review_all_from start_review_def Let_def split: option.splits)

lemma find_SomeD: "find P xs = Some x \<Longrightarrow> x \<in> set xs \<and> P x"
  by (induction xs) (auto split: if_splits)

lemma review_all_cases:
  "(\<exists>c \<in> set cs. bad_class v reviewed c) \<and> (\<exists>msg. review_all v reviewed cs start_review = Inl msg) \<or>
   \<not> (\<exists>c \<in> set cs. bad_class v reviewed c) \<and> review_all v reviewed cs start_review = Inr (reviewed_state v reviewed cs)"
  unfolding review_all_eq by (auto simp: find_None_iff split: option.splits dest: find_SomeD)

lemma run_prose_Inr:
  assumes "run_prose sha1 te target rp ap rules seeding = Inr r"
  shows "\<exists>key src path cs doc. dict_get TARGET_SOURCE target = Some key \<and> verified_source te key = Inr (src, path) \<and>
    scan sha1 (te_pages te path) = Inr cs \<and> manifest_of te target = Inr doc \<and>
    r = finish_run target src rp ap (or_else rules []) seeding
      (review_all (vocabulary_of doc (te_pages te path)) (or_else rules []) cs start_review)"
  using assms by (auto simp: run_prose_def res_simps Let_def)

lemma review_outcome_rc: "oc_rc (review_outcome ap st) = (if rs_unclassified st = [] then 0 else 1)"
  by (simp add: review_outcome_def Let_def)

lemma prose_run_rc:
  assumes "run_prose sha1 te target rp ap rules False = Inr r"
    and "dict_get TARGET_SOURCE target = Some key" "verified_source te key = Inr (src, path)"
    and "scan sha1 (te_pages te path) = Inr cs" "manifest_of te target = Inr doc"
  shows "oc_rc (rn_outcome r) =
      (if \<exists>c \<in> set cs. bad_class (vocabulary_of doc (te_pages te path)) (or_else rules []) c then 2
       else if \<exists>c \<in> set cs. classless (vocabulary_of doc (te_pages te path)) (or_else rules []) c then 1 else 0) \<and>
    map_option ar_rows (rn_artifact r) =
      (if \<exists>c \<in> set cs. bad_class (vocabulary_of doc (te_pages te path)) (or_else rules []) c then None
       else Some (map (\<lambda>c. row_of c (resolve_class (vocabulary_of doc (te_pages te path)) (or_else rules []) c)) cs))"
proof -
  let ?v = "vocabulary_of doc (te_pages te path)"
  let ?r = "or_else rules []"
  have r: "r = finish_run target src rp ap ?r False (review_all ?v ?r cs start_review)"
    using assms by (simp add: run_prose_def Let_def)
  have "filter (classless ?v ?r) cs = [] \<longleftrightarrow> \<not> (\<exists>c \<in> set cs. classless ?v ?r c)" by (auto simp: filter_empty_conv)
  then show ?thesis using review_all_cases [of cs ?v ?r] unfolding r
    by (elim disjE conjE exE) (simp_all add: finish_run_def review_outcome_rc reviewed_state_def)
qed

text \<open>
  C18. The prose pass is exact: it fails with status 2 if a candidate carries a class that is not one
  of the agreed ones, else with 1 if a candidate of the scan has neither a reviewed nor an
  automatic class, else it succeeds; and unless it stopped at an invalid class the artifact
  has one row per candidate, in the order of the scan, with the class found for it.
\<close>

theorem prose_run_exact:
  assumes "run_prose sha1 te target rp ap rules False = Inr r"
    and "dict_get TARGET_SOURCE target = Some key" "verified_source te key = Inr (src, path)"
    and "scan sha1 (te_pages te path) = Inr cs" "manifest_of te target = Inr doc"
  shows "oc_rc (rn_outcome r) =
      (if \<exists>c \<in> set cs. bad_class (vocabulary_of doc (te_pages te path)) (or_else rules []) c then 2
       else if \<exists>c \<in> set cs. classless (vocabulary_of doc (te_pages te path)) (or_else rules []) c then 1 else 0) \<and>
    map_option ar_rows (rn_artifact r) =
      (if \<exists>c \<in> set cs. bad_class (vocabulary_of doc (te_pages te path)) (or_else rules []) c then None
       else Some (map (\<lambda>c. row_of c (resolve_class (vocabulary_of doc (te_pages te path)) (or_else rules []) c)) cs))"
  by (rule prose_run_rc [OF assms])

section \<open>Seeding\<close>

lemma seed_rules_get:
  "distinct (map pc_cid cs) \<Longrightarrow> dict_get (seed_rules d cs) k =
     (case dict_get d k of Some r \<Rightarrow> Some r
      | None \<Rightarrow> map_option seeded_review (find (\<lambda>c. pc_cid c = k) cs))"
proof (induction cs arbitrary: d)
  case (Cons c cs)
  then have IH: "dict_get (seed_rules (dict_setdefault d (pc_cid c) (seeded_review c)) cs) k =
      (case dict_get (dict_setdefault d (pc_cid c) (seeded_review c)) k of Some r \<Rightarrow> Some r
       | None \<Rightarrow> map_option seeded_review (find (\<lambda>c. pc_cid c = k) cs))" by simp
  have "seed_rules d (c # cs) = seed_rules (dict_setdefault d (pc_cid c) (seeded_review c)) cs"
    by (simp add: seed_rules_def)
  with IH show ?case by (auto simp: dict_get_setdefault split: option.splits)
qed (simp add: seed_rules_def split: option.splits)

lemma seeded_not_empty: "\<not> review_empty (seeded_review c)" "rv_class (seeded_review c) = Some None"
  by (simp_all add: seeded_review_def review_empty_def)

lemma seeding_keeps_classes:
  assumes "distinct (map pc_cid cs)" "c \<in> set cs"
  shows "fst (resolve_class v (seed_rules rules (filter (classless v rules) cs)) c) = fst (resolve_class v rules c)"
proof -
  have d: "distinct (map pc_cid (filter (classless v rules) cs))" using assms(1) by (simp add: distinct_map_filter)
  show ?thesis
  proof (cases "dict_get rules (pc_cid c)")
    case None
    show ?thesis
    proof (cases "find (\<lambda>c'. pc_cid c' = pc_cid c) (filter (classless v rules) cs)")
      case none: None
      then show ?thesis using None by (simp add: resolve_class_def seed_rules_get [OF d])
    next
      case (Some c')
      then have "c' \<in> set cs" "classless v rules c'" "pc_cid c' = pc_cid c"
        by (auto dest: find_SomeD)
      then have "c' = c" using assms by (auto simp: distinct_map inj_on_def)
      then have "fst (resolve_class v rules c) = None" using \<open>classless v rules c'\<close> by (simp add: classless_def)
      with Some None show ?thesis
        by (simp add: resolve_class_def [of v "seed_rules rules _"] seed_rules_get [OF d] seeded_not_empty Let_def)
    qed
  next
    case (Some r)
    then show ?thesis by (simp add: resolve_class_def seed_rules_get [OF d])
  qed
qed

text \<open>
  Seeding decides nothing: it keeps every row of the rules, adds a row without a class for each
  unclassified candidate, and running the command on the new rules gives the same exit status
  as on the old ones.
\<close>

theorem seeding_decides_nothing:
  assumes "run_prose sha1 te target rp ap rules True = Inr r" "rn_rules r = Some rules'"
  shows "(\<forall>k w. dict_get (or_else rules []) k = Some w \<longrightarrow> dict_get rules' k = Some w) \<and>
    (\<forall>k w. dict_get rules' k = Some w \<longrightarrow> dict_get (or_else rules []) k = Some w \<or> rv_class w = Some None) \<and>
    (\<exists>r0 r1. run_prose sha1 te target rp ap rules False = Inr r0 \<and>
       run_prose sha1 te target rp ap (Some rules') False = Inr r1 \<and> oc_rc (rn_outcome r1) = oc_rc (rn_outcome r0))"
proof -
  let ?r = "or_else rules []"
  from run_prose_Inr [OF assms(1)] obtain key src path cs doc where env:
    "dict_get TARGET_SOURCE target = Some key" "verified_source te key = Inr (src, path)"
    "scan sha1 (te_pages te path) = Inr cs" "manifest_of te target = Inr doc"
    and r: "r = finish_run target src rp ap ?r True (review_all (vocabulary_of doc (te_pages te path)) ?r cs start_review)"
    by (elim exE conjE) (rule that)
  let ?v = "vocabulary_of doc (te_pages te path)"
  let ?un = "filter (classless ?v ?r) cs"
  have d: "distinct (map pc_cid cs)" using scan_spec [of sha1 "te_pages te path"] unfolding env(3)
    by (elim exE conjE) (metis sum.inject(2))
  then have du: "distinct (map pc_cid ?un)" by (simp add: distinct_map_filter)
  have "review_all ?v ?r cs start_review = Inr (reviewed_state ?v ?r cs)"
    using review_all_cases [of cs ?v ?r] assms(2) unfolding r by (auto simp: finish_run_def)
  with assms(2) r have rules': "rules' = seed_rules ?r ?un" by (simp add: finish_run_def reviewed_state_def)
  obtain r0 where r0: "run_prose sha1 te target rp ap rules False = Inr r0"
    using env by (simp add: run_prose_def Let_def)
  obtain r1 where r1: "run_prose sha1 te target rp ap (Some rules') False = Inr r1"
    using env by (simp add: run_prose_def Let_def)
  have same: "fst (resolve_class ?v rules' c) = fst (resolve_class ?v ?r c)" if "c \<in> set cs" for c
    unfolding rules' by (rule seeding_keeps_classes [OF d that])
  then have "bad_class ?v rules' c = bad_class ?v ?r c" "classless ?v rules' c = classless ?v ?r c" if "c \<in> set cs" for c
    using that by (simp_all add: bad_class_def classless_def)
  then have "oc_rc (rn_outcome r1) = oc_rc (rn_outcome r0)"
    using prose_run_rc [OF r0 env] prose_run_rc [OF r1 env] by simp
  moreover have "dict_get rules' k = Some w" if "dict_get ?r k = Some w" for k w
    using that by (simp add: rules' seed_rules_get [OF du])
  moreover have "dict_get ?r k = Some w \<or> rv_class w = Some None" if "dict_get rules' k = Some w" for k w
    using that by (auto simp: rules' seed_rules_get [OF du] seeded_not_empty split: option.splits)
  ultimately show ?thesis using r0 r1 by blast
qed

section \<open>The artifact and the coverage report\<close>

definition prose_row_of :: "result_row \<Rightarrow> prose_row" where
  "prose_row_of w = \<lparr>pw_classification = rw_class w, pw_kind = Some (kind_name (rw_kind w))\<rparr>"

lemma not_bad_truthy: "\<not> bad_class v rules c \<Longrightarrow> truthy (fst (resolve_class v rules c)) \<longleftrightarrow> \<not> classless v rules c"
  by (auto simp: bad_class_def classless_def truthy_def VALID_def split: option.splits)

lemma kind_name_range: "kind_name k = ''range'' \<longleftrightarrow> k = Range" "kind_name k = ''through'' \<longleftrightarrow> k = Through"
  by (cases k; simp)+

lemma summarize_fields:
  assumes "summarize_prose (Some ws) = Some ps"
  shows "ps_total ps = length ws" "ps_unclassified ps = length (filter (\<lambda>w. \<not> truthy (pw_classification w)) ws)"
    "ps_unresolved_ranges ps \<le> ps_unclassified ps"
proof -
  have "length (filter (\<lambda>w. Q w \<and> P w) ws) \<le> length (filter P ws)" for P Q :: "prose_row \<Rightarrow> bool"
    by (induction ws) auto
  with assms show "ps_total ps = length ws" "ps_unclassified ps = length (filter (\<lambda>w. \<not> truthy (pw_classification w)) ws)"
    "ps_unresolved_ranges ps \<le> ps_unclassified ps" by (auto simp: summarize_prose_def)
qed

text \<open>
  The prose pass and the coverage report agree: the summary that the generator makes of the
  artifact counts every candidate of the scan, the unclassified ones and the unresolved ranges as
  the prose pass did, so it reports none unclassified exactly if the prose pass succeeded.
\<close>

theorem prose_artifact_summary:
  assumes "run_prose sha1 te target rp ap rules False = Inr r" "rn_artifact r = Some art"
    and "summarize_prose (Some (map prose_row_of (ar_rows art))) = Some ps"
  shows "(\<exists>key src path cs. dict_get TARGET_SOURCE target = Some key \<and> verified_source te key = Inr (src, path) \<and>
      scan sha1 (te_pages te path) = Inr cs \<and> ps_total ps = length cs) \<and>
    (ps_unclassified ps = 0 \<longleftrightarrow> oc_rc (rn_outcome r) = 0) \<and> ps_unresolved_ranges ps \<le> ps_unclassified ps"
proof -
  let ?r = "or_else rules []"
  from run_prose_Inr [OF assms(1)] obtain key src path cs doc where env:
    "dict_get TARGET_SOURCE target = Some key" "verified_source te key = Inr (src, path)"
    "scan sha1 (te_pages te path) = Inr cs" "manifest_of te target = Inr doc"
    and r: "r = finish_run target src rp ap ?r False (review_all (vocabulary_of doc (te_pages te path)) ?r cs start_review)"
    by (elim exE conjE) (rule that)
  let ?v = "vocabulary_of doc (te_pages te path)"
  have good: "\<not> (\<exists>c \<in> set cs. bad_class ?v ?r c)" and ok: "review_all ?v ?r cs start_review = Inr (reviewed_state ?v ?r cs)"
    using review_all_cases [of cs ?v ?r] assms(2) unfolding r by (auto simp: finish_run_def)
  have rws: "ar_rows art = map (\<lambda>c. row_of c (resolve_class ?v ?r c)) cs"
    using assms(2) unfolding r ok by (auto simp: finish_run_def reviewed_state_def)
  have rc: "oc_rc (rn_outcome r) = (if filter (classless ?v ?r) cs = [] then 0 else 1)"
    unfolding r ok by (simp add: finish_run_def review_outcome_rc reviewed_state_def)
  have un: "filter (\<lambda>w. \<not> truthy (pw_classification w)) (map prose_row_of (ar_rows art)) =
      map (\<lambda>c. prose_row_of (row_of c (resolve_class ?v ?r c))) (filter (classless ?v ?r) cs)"
    using good not_bad_truthy [of ?v ?r] unfolding rws
    by (simp add: filter_map o_def prose_row_of_def row_of_def cong: filter_cong)
  have ps: "ps_total ps = length cs" "ps_unclassified ps = length (filter (classless ?v ?r) cs)"
    "ps_unresolved_ranges ps \<le> ps_unclassified ps"
    using summarize_fields [OF assms(3)] unfolding un by (simp_all add: rws)
  then show ?thesis using env rc by auto
qed

section \<open>Witnesses\<close>

lemma sample_run:
  "run_prose (\<lambda>s. s) (tool_sample [''registers S0-S3''] es) ''armv7m'' rp ap rules seeding =
     Inr (finish_run ''armv7m'' tool_source rp ap (or_else rules []) seeding
       (review_all (vocabulary_of (make_manifest ''armv7m'' es sample_report) [''registers S0-S3''])
          (or_else rules []) [sample_candidate] start_review))"
proof -
  have "dict_get TARGET_SOURCE ''armv7m'' = Some ''armv7m_arm''" by (simp add: TARGET_SOURCE_def)
  then show ?thesis by (simp add: run_prose_def tool_sample_source scan_sample Let_def del: review_all.simps)
qed

definition sample_words :: vocabulary where
  "sample_words =
     vocabulary_of (make_manifest ''armv7m'' [sample_entry ''R1'' EMITTED_STATE] sample_report) [''registers S0-S3'']"

lemma sample_classless: "resolve_class sample_words [] sample_candidate = (None, Some [], ''-'')"
  by code_simp

lemma sample_class: "\<not> bad_class sample_words [] sample_candidate" "classless sample_words [] sample_candidate"
  by (simp_all add: bad_class_def classless_def sample_classless)

lemma sample_review:
  "review_all sample_words [] [sample_candidate] start_review = Inr (reviewed_state sample_words [] [sample_candidate])"
  using review_all_cases [of "[sample_candidate]" sample_words "[]"] sample_class(1) by (simp del: review_all.simps)

theorem prose_run_exact_witness:
  "\<exists>r. run_prose (\<lambda>s. s) (tool_sample [''registers S0-S3''] [sample_entry ''R1'' EMITTED_STATE]) ''armv7m'' [] [] None False = Inr r \<and>
     oc_rc (rn_outcome r) = 1"
proof -
  let ?te = "tool_sample [''registers S0-S3''] [sample_entry ''R1'' EMITTED_STATE]"
  have key: "dict_get TARGET_SOURCE ''armv7m'' = Some ''armv7m_arm''" by (simp add: TARGET_SOURCE_def)
  have sc: "scan (\<lambda>s. s) (te_pages ?te (path_of ''/repo/docs/m.pdf'')) = Inr [sample_candidate]"
    by (simp add: scan_sample)
  let ?fr = "finish_run ''armv7m'' tool_source [] [] (or_else None []) False
    (review_all (vocabulary_of (make_manifest ''armv7m'' [sample_entry ''R1'' EMITTED_STATE] sample_report)
      [''registers S0-S3'']) (or_else None []) [sample_candidate] start_review)"
  have "oc_rc (rn_outcome ?fr) = 1"
    using prose_run_exact [OF sample_run key tool_sample_source sc tool_sample_simps(2), of "[]" "[]" None]
      sample_class by (simp add: sample_words_def del: review_all.simps)
  with sample_run show ?thesis by blast
qed

theorem seeding_decides_nothing_witness:
  "\<exists>rules'. seed_rules [] [sample_candidate] = rules' \<and> (\<exists>r0 r1.
     run_prose (\<lambda>s. s) (tool_sample [''registers S0-S3''] [sample_entry ''R1'' EMITTED_STATE]) ''armv7m'' [] [] None False = Inr r0 \<and>
     run_prose (\<lambda>s. s) (tool_sample [''registers S0-S3''] [sample_entry ''R1'' EMITTED_STATE]) ''armv7m'' [] [] (Some rules') False = Inr r1 \<and>
     oc_rc (rn_outcome r1) = oc_rc (rn_outcome r0))"
proof -
  have "rn_rules (finish_run ''armv7m'' tool_source [] [] (or_else None []) True
       (review_all sample_words (or_else None []) [sample_candidate] start_review)) = Some (seed_rules [] [sample_candidate])"
    using sample_class(2) by (simp add: finish_run_def reviewed_state_def sample_review del: review_all.simps)
  from seeding_decides_nothing [OF sample_run this [unfolded sample_words_def]] show ?thesis by blast
qed

theorem prose_artifact_summary_witness:
  "\<exists>ps. summarize_prose (Some [\<lparr>pw_classification = None, pw_kind = Some ''range''\<rparr>]) = Some ps \<and> ps_unclassified ps \<noteq> 0 \<and>
     ps_total ps = 1"
proof -
  let ?ps = "the (summarize_prose (Some [\<lparr>pw_classification = None, pw_kind = Some ''range''\<rparr>]))"
  let ?fr = "finish_run ''armv7m'' tool_source [] [] (or_else None []) False
       (review_all sample_words (or_else None []) [sample_candidate] start_review)"
  let ?art = "\<lparr>ar_target = ''armv7m'', ar_source = s_document tool_source @ '' '' @ s_revision tool_source,
    ar_rows = rs_rows (reviewed_state sample_words [] [sample_candidate])\<rparr>"
  have art: "rn_artifact ?fr = Some ?art" by (simp add: finish_run_def sample_review del: review_all.simps)
  have rc: "oc_rc (rn_outcome ?fr) = 1" using sample_class(2)
    by (simp add: finish_run_def sample_review review_outcome_rc reviewed_state_def del: review_all.simps)
  have k: "pc_kind sample_candidate = Range" by (simp add: sample_candidate_def)
  have ps: "summarize_prose (Some (map prose_row_of (ar_rows ?art))) = Some ?ps"
    using k by (simp add: reviewed_state_def row_of_def prose_row_of_def sample_classless summarize_prose_def)
  have p: "ps_total ?ps = 1" by (simp add: summarize_prose_def)
  from prose_artifact_summary [OF sample_run art [unfolded sample_words_def] ps [unfolded sample_words_def]] rc
  have "ps_unclassified ?ps \<noteq> 0" unfolding sample_words_def by simp
  with p show ?thesis by (simp add: summarize_prose_def)
qed

definition some_words :: vocabulary where
  "some_words = \<lparr>vc_known = [''S0''], vc_families = [''S''], vc_mnemonics = [''ADD'', ''ADC'', ''SUB''], vc_fields = [],
     vc_front_matter = 0\<rparr>"

theorem false_positive_safe_witness:
  "is_word_of some_words (upper ''ADC'') \<and> is_word_of some_words (upper ''ADD'') \<and>
   is_word_of some_words (upper ''SUB'')"
proof -
  let ?c = "sample_candidate\<lparr>pc_kind := Comma_set, pc_names := [''ADC'', ''ADD'', ''SUB'']\<rparr>"
  have "map_option fst (auto_classify some_words ?c) = Some ''false_positive''" by code_simp
  then obtain why where "auto_classify some_words ?c = Some (''false_positive'', why)" by auto
  from false_positive_safe [OF this] have "(\<forall>n \<in> set (pc_names ?c). is_word_of some_words (upper n)) \<or>
      (\<forall>n \<in> set (pc_names ?c). \<not> is_covered some_words (upper n))"
    by (simp add: sample_candidate_def some_words_def)
  moreover have "list_all (\<lambda>n. is_word_of some_words (upper n)) [''ADC'', ''ADD'', ''SUB'']" by code_simp
  ultimately show ?thesis by simp
qed

theorem covered_claim_backed_witness:
  "is_covered some_words (upper ''S3'')"
proof -
  have "map_option fst (auto_classify some_words sample_candidate) = Some ''covered_family''" by code_simp
  then obtain why where "auto_classify some_words sample_candidate = Some (''covered_family'', why)" by auto
  from covered_claim_backed [OF this] show ?thesis by (simp add: sample_candidate_def)
qed

end
