(* ===== verification/Cmsis.thy ===== *)
theory Cmsis
  imports Tools
begin

text \<open>
  \<open>tools/state/cmsis.py\<close> and \<open>tools/state_cmsis_diff.py\<close>: the registers of a CMSIS-Core header, by absolute
  address, and their comparison with the manifests.  Base addresses are Python expressions over
  literals: sums, products and signs of integers in parentheses are evaluated here, and every
  other expression by the argument \<open>ev\<close> (\<open>None\<close> is an exception).
\<close>

section \<open>Arithmetic over literals\<close>

datatype token = TNum int | TPlus | TMinus | TTimes | TLeft | TRight

text \<open>A literal: decimal without a leading zero, or hexadecimal.\<close>

definition literal :: "string \<Rightarrow> int option" where
  "literal s =
     (if s \<noteq> [] \<and> list_all is_digit s then (if hd s = CHR ''0'' \<and> list_ex (\<lambda>c. c \<noteq> CHR ''0'') s then None else py_int 10 s)
      else if starts_with s ''0x'' \<or> starts_with s ''0X'' then
        (if drop 2 s \<noteq> [] \<and> list_all (\<lambda>c. digit_value 16 c \<noteq> None) (drop 2 s) then py_int 16 s else None)
      else None)"

definition num_char :: "char \<Rightarrow> bool" where
  "num_char c \<longleftrightarrow> is_digit c \<or> between 97 102 c \<or> between 65 70 c \<or> c = CHR ''x'' \<or> c = CHR ''X''"

function tokens :: "string \<Rightarrow> token list option" where
  "tokens s =
     (case s of
        [] \<Rightarrow> Some []
      | c # t \<Rightarrow>
          (if num_char c then
             (case literal (takeWhile num_char s) of
                None \<Rightarrow> None
              | Some n \<Rightarrow> map_option ((#) (TNum n)) (tokens (dropWhile num_char t)))
           else if c = CHR '' '' then tokens t
           else if c = CHR ''+'' then map_option ((#) TPlus) (tokens t)
           else if c = CHR ''-'' then map_option ((#) TMinus) (tokens t)
           else if c = CHR ''*'' then map_option ((#) TTimes) (tokens t)
           else if c = CHR ''('' then map_option ((#) TLeft) (tokens t)
           else if c = CHR '')'' then map_option ((#) TRight) (tokens t)
           else None))"
  by pat_completeness auto
termination by (relation "measure length") (auto simp: le_imp_less_Suc length_dropWhile_le)

declare tokens.simps [simp del]

text \<open>
  Sums of products of signed factors; the first argument bounds the recursion, and an expression that
  exceeds it is left to \<open>ev\<close> as well.
\<close>

fun p_sum :: "nat \<Rightarrow> token list \<Rightarrow> (int \<times> token list) option"
  and p_sum_rest :: "nat \<Rightarrow> int \<Rightarrow> token list \<Rightarrow> (int \<times> token list) option"
  and p_product :: "nat \<Rightarrow> token list \<Rightarrow> (int \<times> token list) option"
  and p_product_rest :: "nat \<Rightarrow> int \<Rightarrow> token list \<Rightarrow> (int \<times> token list) option"
  and p_factor :: "nat \<Rightarrow> token list \<Rightarrow> (int \<times> token list) option" where
  "p_sum 0 ts = None"
| "p_sum (Suc n) ts = (case p_product n ts of None \<Rightarrow> None | Some (v, ts) \<Rightarrow> p_sum_rest n v ts)"
| "p_sum_rest 0 v ts = None"
| "p_sum_rest (Suc n) v (TPlus # ts) = (case p_product n ts of None \<Rightarrow> None | Some (w, ts) \<Rightarrow> p_sum_rest n (v + w) ts)"
| "p_sum_rest (Suc n) v (TMinus # ts) = (case p_product n ts of None \<Rightarrow> None | Some (w, ts) \<Rightarrow> p_sum_rest n (v - w) ts)"
| "p_sum_rest (Suc n) v ts = Some (v, ts)"
| "p_product 0 ts = None"
| "p_product (Suc n) ts = (case p_factor n ts of None \<Rightarrow> None | Some (v, ts) \<Rightarrow> p_product_rest n v ts)"
| "p_product_rest 0 v ts = None"
| "p_product_rest (Suc n) v (TTimes # ts) = (case p_factor n ts of None \<Rightarrow> None | Some (w, ts) \<Rightarrow> p_product_rest n (v * w) ts)"
| "p_product_rest (Suc n) v ts = Some (v, ts)"
| "p_factor 0 ts = None"
| "p_factor (Suc n) (TNum v # ts) = Some (v, ts)"
| "p_factor (Suc n) (TPlus # ts) = p_factor n ts"
| "p_factor (Suc n) (TMinus # ts) = (case p_factor n ts of None \<Rightarrow> None | Some (v, ts) \<Rightarrow> Some (- v, ts))"
| "p_factor (Suc n) (TLeft # ts) =
     (case p_sum n ts of Some (v, TRight # ts) \<Rightarrow> Some (v, ts) | _ \<Rightarrow> None)"
| "p_factor (Suc n) ts = None"

definition py_eval :: "(string \<Rightarrow> int option) \<Rightarrow> string \<Rightarrow> int option" where
  "py_eval ev s =
     (case tokens s of
        None \<Rightarrow> ev s
      | Some ts \<Rightarrow> (case p_sum (4 * length ts + 4) ts of Some (v, []) \<Rightarrow> Some v | _ \<Rightarrow> ev s))"

section \<open>The header\<close>

definition TYPE_SIZE :: "(string \<times> int) list" where
  "TYPE_SIZE = [(''uint8_t'', 1), (''uint16_t'', 2), (''uint32_t'', 4), (''uint64_t'', 8)]"

abbreviation word_plus :: re where "word_plus \<equiv> plus (cls [Wrd])"
abbreviation any_nl :: re where "any_nl \<equiv> RCls True []"

definition STRUCT_RE :: re where
  "STRUCT_RE = seqs
     [lit ''typedef'', space_plus, lit ''struct'', space_star, lit ''{'', RGrp ''body'' (lazy any_nl), lit ''}'', space_star,
      RGrp ''name'' word_plus, lit ''_Type'', space_star, lit '';'']"

definition COUNT :: re where
  "COUNT = opt (seqs [lit ''['', RGrp ''count'' (plus (ncls [Ch (CHR '']'')])), lit '']''])"

definition UNION_RE :: re where
  "UNION_RE = seqs
     [lit ''union'', space_star, lit ''{'', RGrp ''body'' (star (ncls [Ch (CHR ''{''), Ch (CHR ''}'')])), lit ''}'', space_star,
      RGrp ''name'' word_plus, space_star, COUNT, space_star, lit '';'']"

definition MEMBER_RE :: re where
  "MEMBER_RE = seqs
     [RAsrt Bol, space_star, opt (alts [lit ''__IM'', lit ''__OM'', lit ''__IOM'', lit ''volatile'', lit ''const'']), space_star,
      RGrp ''type'' (seqs [opt (lit ''u''), lit ''int'', alts [lit ''8'', lit ''16'', lit ''32'', lit ''64''], lit ''_t'']),
      space_plus, RGrp ''name'' word_plus, space_star, COUNT, space_star, lit '';'']"

definition DEFINE_RE :: re where
  "DEFINE_RE = seqs
     [RAsrt Bol, lit ''#define'', space_plus, RGrp ''name'' (seqs [word_plus, lit ''_BASE'']), space_plus, lit ''('',
      RGrp ''expr'' (star (ncls [Ch (CHR '')'')])), lit '')'']"

definition STRUCT_BASE :: "(string \<times> string) list" where
  "STRUCT_BASE =
     [(''SCB'', ''SCB_BASE''), (''SysTick'', ''SysTick_BASE''), (''NVIC'', ''NVIC_BASE''), (''ITM'', ''ITM_BASE''),
      (''DWT'', ''DWT_BASE''), (''TPI'', ''TPI_BASE''), (''CoreDebug'', ''CoreDebug_BASE''), (''MPU'', ''MPU_BASE''),
      (''FPU'', ''FPU_BASE''), (''SCnSCB'', ''SCS_BASE'')]"

record cmsis_reg =
  cr_address :: int
  cr_struct :: string
  cr_field :: string
  cr_width :: int

text \<open>\<open>re.sub\<close> with a function of the match.\<close>

function sub_fun_from :: "re \<Rightarrow> (re_match \<Rightarrow> string) \<Rightarrow> string \<Rightarrow> string \<Rightarrow> string" where
  "sub_fun_from r f p s =
     (case s of
        [] \<Rightarrow> []
      | c # t \<Rightarrow>
          (case match_at r p s of
             None \<Rightarrow> c # sub_fun_from r f (c # p) t
           | Some m \<Rightarrow>
               (if length (m_after m) < length s
                then f m @ sub_fun_from r f (rev (m_text m) @ p) (m_after m)
                else c # sub_fun_from r f (c # p) t)))"
  by pat_completeness auto
termination by (relation "measure (\<lambda>(r, f, p, s). length s)") auto

declare sub_fun_from.simps [simp del]

text \<open>\<open>str.replace\<close> with the empty string.\<close>

function remove_str :: "string \<Rightarrow> string \<Rightarrow> string" where
  "remove_str p s =
     (case s of [] \<Rightarrow> [] | c # t \<Rightarrow> (if p \<noteq> [] \<and> starts_with s p then remove_str p (drop (length p) s) else c # remove_str p t))"
  by pat_completeness auto
termination by (relation "measure (\<lambda>(p, s). length s)") auto

declare remove_str.simps [simp del]

definition EXPR_RE :: re where
  "EXPR_RE = plus (cls [d09, Ch (CHR ''x''), Ch (CHR ''X''), Rg (CHR ''a'') (CHR ''f''), Rg (CHR ''A'') (CHR ''F''), Ch (CHR ''+''),
     Ch (CHR ''-''), Ch (CHR ''*''), Ch (CHR ''/''), Ch (CHR ''(''), Ch (CHR '')''), Ch (CHR '' '')])"

definition substitute :: "(string \<times> int) list \<Rightarrow> string \<Rightarrow> string" where
  "substitute known e = foldl (\<lambda>e (k, v). re_sub (seqs [RAsrt Wb, lit k, RAsrt Wb]) (str_int v) e) e known"

definition eval_base :: "(string \<Rightarrow> int option) \<Rightarrow> string \<Rightarrow> (string \<times> int) list \<Rightarrow> int option" where
  "eval_base ev expr known =
     (let e = substitute known (strip (remove_str ''U'' (remove_str ''UL'' expr)))
      in if fullmatches EXPR_RE e then py_eval ev e else None)"

text \<open>One pass over the definitions; four passes resolve what is defined in terms of others.\<close>

definition base_pass :: "(string \<Rightarrow> int option) \<Rightarrow> re_match list \<Rightarrow> (string \<times> int) list \<Rightarrow> (string \<times> int) list" where
  "base_pass ev ms bases =
     foldl (\<lambda>bs m. if dict_get bs (grp m ''name'') \<noteq> None then bs
        else case eval_base ev (grp m ''expr'') bs of None \<Rightarrow> bs | Some v \<Rightarrow> dict_set bs (grp m ''name'') v) bases ms"

definition bases_of :: "(string \<Rightarrow> int option) \<Rightarrow> string \<Rightarrow> (string \<times> int) list" where
  "bases_of ev text = (let ms = finditer DEFINE_RE text in (base_pass ev ms ^^ 4) [])"

text \<open>A union becomes one scalar of its widest member.\<close>

definition size_name :: "int \<Rightarrow> string" where
  "size_name n = (if n = 1 then ''uint8_t'' else if n = 2 then ''uint16_t'' else if n = 4 then ''uint32_t'' else ''uint64_t'')"

definition flatten :: "re_match \<Rightarrow> string" where
  "flatten m =
     (let sizes = map snd (filter (\<lambda>(t, n). searches (seqs [RAsrt Wb, lit t, RAsrt Wb]) (grp m ''body'')) TYPE_SIZE);
          widest = (if sizes = [] then 4 else fold max sizes 0);
          count = (case group m ''count'' of Some c \<Rightarrow> ''['' @ c @ '']'' | None \<Rightarrow> [])
      in size_name widest @ '' '' @ grp m ''name'' @ count @ '';'')"

text \<open>One member: its size, how many, and its name.\<close>

type_synonym member = "int \<times> int \<times> string"

definition member_of :: "(string \<Rightarrow> int option) \<Rightarrow> (string \<times> int) list \<Rightarrow> re_match \<Rightarrow> member res" where
  "member_of ev bases m =
     rbind (require (grp m ''type'') (dict_get TYPE_SIZE (grp m ''type''))) (\<lambda>sz.
       Inr (sz,
         (case group m ''count'' of
            None \<Rightarrow> 1
          | Some c \<Rightarrow> (case eval_base ev c bases of None \<Rightarrow> 1 | Some n \<Rightarrow> (if n = 0 then 1 else n))),
         grp m ''name''))"

definition padding :: "string \<Rightarrow> bool" where
  "padding name =
     (let u = upper name in starts_with u ''RSERVED'' \<or> starts_with u ''RESERVED'' \<or> starts_with u ''PADDING'')"

definition member_regs :: "string \<Rightarrow> int \<Rightarrow> member \<Rightarrow> (int \<times> cmsis_reg) list" where
  "member_regs struct at mem =
     (case mem of (sz, count, name) \<Rightarrow>
        if padding name then []
        else map (\<lambda>k. let a = at + int k * sz
              in (a, \<lparr>cr_address = a, cr_struct = struct,
                   cr_field = (if count = 1 then name else name @ ''['' @ str_nat k @ '']''), cr_width = sz * 8\<rparr>)) [0..<nat count])"

definition add_member :: "string \<Rightarrow> int \<Rightarrow> member \<Rightarrow> int \<times> (int \<times> cmsis_reg) list \<Rightarrow> int \<times> (int \<times> cmsis_reg) list" where
  "add_member struct base mem st =
     (case st of (offset, out) \<Rightarrow>
        (offset + fst mem * fst (snd mem), foldl (\<lambda>d (a, r). dict_set d a r) out (member_regs struct (base + offset) mem)))"

definition layout :: "string \<Rightarrow> int \<Rightarrow> member list \<Rightarrow> (int \<times> cmsis_reg) list \<Rightarrow> (int \<times> cmsis_reg) list" where
  "layout struct base mems out = snd (foldl (\<lambda>st mem. add_member struct base mem st) (0, out) mems)"

definition add_struct ::
  "(string \<Rightarrow> int option) \<Rightarrow> (string \<times> int) list \<Rightarrow> re_match \<Rightarrow> (int \<times> cmsis_reg) list \<Rightarrow> (int \<times> cmsis_reg) list res" where
  "add_struct ev bases sm out =
     (case dict_get STRUCT_BASE (grp sm ''name'') of
        None \<Rightarrow> Inr out
      | Some base_name \<Rightarrow>
          (case dict_get bases base_name of
             None \<Rightarrow> Inr out
           | Some base \<Rightarrow>
               rbind (map_res (member_of ev bases) (finditer MEMBER_RE (sub_fun_from UNION_RE flatten [] (grp sm ''body'')))) (\<lambda>mems.
                 Inr (layout (grp sm ''name'') base mems out))))"

definition parse_header :: "(string \<Rightarrow> int option) \<Rightarrow> string \<Rightarrow> (int \<times> cmsis_reg) list res" where
  "parse_header ev text = (let bases = bases_of ev text in fold_res (add_struct ev bases) (finditer STRUCT_RE text) [])"

section \<open>The comparison\<close>

record cmsis_diff =
  cd_cmsis :: nat
  cd_manifest :: nat
  cd_both :: nat
  cd_only_cmsis :: "(string \<times> string) list"
  cd_only_manifest :: "(string \<times> string) list"

definition compared :: "manifest_entry \<Rightarrow> int option" where
  "compared e =
     (let enc = py_or (me_encoding e) []
      in if \<not> starts_with enc ''0x'' \<or> me_access e \<noteq> Some ''memory_mapped'' then None
         else if me_encoding_kind e \<noteq> ''absolute'' then None
         else if me_classification e = ''explicit_exclusion'' then None
         else py_int 16 enc)"

definition our_addresses :: "manifest_entry list \<Rightarrow> (int \<times> string) list" where
  "our_addresses es = foldl (\<lambda>d e. case compared e of None \<Rightarrow> d | Some a \<Rightarrow> dict_set d a (me_name e)) [] es"

definition keys :: "('k \<times> 'v) list \<Rightarrow> 'k list" where "keys d = map fst d"

definition only_in :: "(int \<times> 'a) list \<Rightarrow> (int \<times> 'b) list \<Rightarrow> int list" where
  "only_in a b = sort (filter (\<lambda>k. k \<notin> set (keys b)) (keys a))"

definition diff_against :: "manifest_entry list \<Rightarrow> (int \<times> cmsis_reg) list \<Rightarrow> cmsis_diff" where
  "diff_against es cmsis =
     (let ours = our_addresses es
      in \<lparr>cd_cmsis = length cmsis, cd_manifest = length ours,
          cd_both = length (filter (\<lambda>k. k \<in> set (keys ours)) (keys cmsis)),
          cd_only_cmsis =
            map (\<lambda>a. (fmt_addr a, case dict_get cmsis a of Some r \<Rightarrow> cr_struct r @ ''->'' @ cr_field r | None \<Rightarrow> [])) (only_in cmsis ours),
          cd_only_manifest = map (\<lambda>a. (fmt_addr a, or_else (dict_get ours a) [])) (only_in ours cmsis)\<rparr>)"

text \<open>
  The command: \<open>header\<close> is the text of the header file if there is one, \<open>dumps\<close> prints a result as JSON if
  that is asked for.
\<close>

definition diff_lines :: "string \<Rightarrow> string list \<Rightarrow> cmsis_diff \<Rightarrow> string list" where
  "diff_lines hp targets d =
     [''CMSIS header:       '' @ hp, ''Manifests:          '' @ join '', '' targets,
      ''CMSIS registers:    '' @ str_nat (cd_cmsis d), ''Manifest registers: '' @ str_nat (cd_manifest d),
      ''Agree on address:   '' @ str_nat (cd_both d), ''Only in CMSIS:      '' @ str_nat (length (cd_only_cmsis d))] @
     map (\<lambda>(a, r). ''    '' @ a @ ''  '' @ r) (take 25 (cd_only_cmsis d)) @
     [''Only in manifest:   '' @ str_nat (length (cd_only_manifest d))] @
     map (\<lambda>(a, n). ''    '' @ a @ ''  '' @ n) (take 25 (cd_only_manifest d))"

definition cmsis_main ::
  "(string \<Rightarrow> int option) \<Rightarrow> tool_env \<Rightarrow> string list \<Rightarrow> string \<Rightarrow> string option \<Rightarrow> (cmsis_diff \<Rightarrow> string) option \<Rightarrow> outcome res" where
  "cmsis_main ev te targets hp header dumps =
     (case header of
        None \<Rightarrow> Inr \<lparr>oc_rc = 2, oc_out = [], oc_err = [''ERROR: no CMSIS header at '' @ hp]\<rparr>
      | Some text \<Rightarrow>
          rbind (parse_header ev text) (\<lambda>cmsis.
          rbind (map_res (manifest_of te) targets) (\<lambda>docs.
            (let d = diff_against (concat (map mf_entries docs)) cmsis
             in Inr \<lparr>oc_rc = 0, oc_out = (case dumps of Some f \<Rightarrow> [f d] | None \<Rightarrow> diff_lines hp targets d), oc_err = []\<rparr>))))"

section \<open>Lemmas\<close>

definition span :: "member \<Rightarrow> int" where "span mem = fst mem * fst (snd mem)"

text \<open>The registers of consecutive members.\<close>

fun regs_at :: "string \<Rightarrow> int \<Rightarrow> member list \<Rightarrow> (int \<times> cmsis_reg) list" where
  "regs_at struct at [] = []"
| "regs_at struct at (mem # mems) = member_regs struct at mem @ regs_at struct (at + span mem) mems"

definition member_ok :: "member \<Rightarrow> bool" where "member_ok mem \<longleftrightarrow> 0 < fst mem \<and> 0 < fst (snd mem)"

definition in_order :: "int \<Rightarrow> int \<Rightarrow> (int \<times> 'a) list \<Rightarrow> bool" where
  "in_order lo hi d \<longleftrightarrow> sorted_wrt (<) (map fst d) \<and> (\<forall>a \<in> fst ` set d. lo \<le> a \<and> a < hi)"

lemma in_order_append: "in_order lo mid d \<Longrightarrow> in_order mid hi e \<Longrightarrow> lo \<le> mid \<Longrightarrow> mid \<le> hi \<Longrightarrow> in_order lo hi (d @ e)"
  unfolding in_order_def by (auto simp: sorted_wrt_append) force+

lemma member_regs_order: "member_ok mem \<Longrightarrow> in_order at (at + span mem) (member_regs struct at mem)"
proof -
  obtain sz count name where mem: "mem = (sz, count, name)" by (cases mem)
  assume "member_ok mem"
  then have pos: "0 < sz" "0 < count" by (simp_all add: member_ok_def mem)
  have "int k * sz < sz * count" if "k < nat count" for k
    using that pos by (metis mult.commute mult_less_cancel_left_pos zless_nat_eq_int_zless)
  moreover have "map fst (member_regs struct at mem) = (if padding name then [] else map (\<lambda>k. at + int k * sz) [0..<nat count])"
    by (simp add: member_regs_def mem Let_def comp_def)
  ultimately show ?thesis using pos
    by (auto simp: in_order_def span_def mem sorted_wrt_map sorted_wrt_iff_nth_less member_regs_def Let_def)
qed

lemma span_pos: "member_ok mem \<Longrightarrow> 0 \<le> span mem"
  by (simp add: member_ok_def span_def)

lemma regs_at_order: "list_all member_ok mems \<Longrightarrow> in_order at (at + sum_list (map span mems)) (regs_at struct at mems)"
proof (induction mems arbitrary: at)
  case (Cons mem mems)
  then have "in_order at (at + span mem) (member_regs struct at mem)" "0 \<le> span mem" by (simp_all add: member_regs_order span_pos)
  moreover have "0 \<le> sum_list (map span mems)" using Cons.prems by (induction mems) (auto simp: span_pos)
  moreover have "in_order (at + span mem) (at + span mem + sum_list (map span mems)) (regs_at struct (at + span mem) mems)"
    using Cons by simp
  ultimately show ?case using in_order_append [of at "at + span mem" "member_regs struct at mem"] by (simp add: add.assoc)
qed (simp add: in_order_def)

lemma dict_sets_fresh:
  "distinct (map fst xs) \<Longrightarrow> fst ` set xs \<inter> fst ` set d = {} \<Longrightarrow> foldl (\<lambda>d (a, r). dict_set d a r) d xs = d @ xs"
proof (induction xs arbitrary: d)
  case (Cons x xs)
  obtain a r where x: "x = (a, r)" by (cases x)
  have "dict_get d a = None" using Cons.prems(2) x by (auto simp: dict_get_None_iff)
  then have "dict_set d a r = d @ [(a, r)]" by (rule dict_set_fresh)
  with Cons x show ?case by auto
qed simp

lemma in_order_distinct: "in_order lo hi d \<Longrightarrow> distinct (map fst d)"
  by (simp add: in_order_def strict_sorted_iff)

lemma layout_fold:
  "list_all member_ok mems \<Longrightarrow> in_order base (base + off) out \<Longrightarrow> 0 \<le> off \<Longrightarrow>
     foldl (\<lambda>st mem. add_member struct base mem st) (off, out) mems =
       (off + sum_list (map span mems), out @ regs_at struct (base + off) mems)"
proof (induction mems arbitrary: off out)
  case (Cons mem mems)
  let ?rs = "member_regs struct (base + off) mem"
  have ok: "member_ok mem" "0 \<le> span mem" using Cons.prems(1) by (simp_all add: span_pos)
  have o: "in_order (base + off) (base + off + span mem) ?rs" by (rule member_regs_order [OF ok(1)])
  have "fst ` set ?rs \<inter> fst ` set out = {}" using o Cons.prems(2) unfolding in_order_def by fastforce
  then have "foldl (\<lambda>d (a, r). dict_set d a r) out ?rs = out @ ?rs" by (intro dict_sets_fresh in_order_distinct [OF o])
  then have step: "add_member struct base mem (off, out) = (off + span mem, out @ ?rs)" by (simp add: add_member_def span_def)
  have "in_order base (base + (off + span mem)) (out @ ?rs)"
    using in_order_append [OF Cons.prems(2) o] Cons.prems(3) ok(2) by (simp add: add.assoc)
  with Cons.IH [of "off + span mem" "out @ ?rs"] Cons.prems(1,3) ok(2) step show ?case by (simp add: add.assoc)
qed simp

section \<open>Properties\<close>

text \<open>
  The layout of a struct: with sizes and counts that are positive, each register of a member lies at the base plus the
  sizes of all members before it, padding included, and no address is given twice, so that nothing is
  overwritten: the registers are exactly those of the members that are no padding, in increasing
  order of address, all inside the struct.
\<close>

theorem layout_exact:
  assumes "list_all member_ok mems"
  shows "layout struct base mems [] = regs_at struct base mems \<and> sorted_wrt (<) (map fst (layout struct base mems [])) \<and>
    list_all (\<lambda>(a, r). base \<le> a \<and> a < base + sum_list (map span mems) \<and> cr_address r = a) (layout struct base mems [])"
proof -
  have e: "layout struct base mems [] = regs_at struct base mems"
    using layout_fold [OF assms, of base 0 "[]" struct] by (simp add: layout_def in_order_def)
  have o: "in_order base (base + sum_list (map span mems)) (regs_at struct base mems)" by (rule regs_at_order [OF assms])
  have "(a, r) \<in> set (regs_at struct at mems) \<Longrightarrow> cr_address r = a" for a r at
    by (induction mems arbitrary: at) (auto simp: member_regs_def Let_def split: prod.splits if_splits)
  then show ?thesis using o unfolding e in_order_def list_all_iff by force
qed

definition demo_members :: "member list" where
  "demo_members = [(4, 2, ''ISER''), (4, 3, ''RESERVED0''), (1, 1, ''IP'')]"

theorem layout_exact_witness: "map fst (layout ''NVIC'' 100 demo_members []) = [100, 104, 120]"
proof -
  have "list_all member_ok demo_members" by (simp add: demo_members_def member_ok_def)
  from layout_exact [OF this, of "''NVIC''" 100] show ?thesis
    by (simp add: demo_members_def member_regs_def padding_def span_def Let_def upt_rec) code_simp
qed

lemma our_addresses_distinct: "distinct (keys (our_addresses es))"
proof -
  have "distinct (map fst d) \<Longrightarrow> distinct (map fst (foldl (\<lambda>d e. case compared e of None \<Rightarrow> d | Some a \<Rightarrow> dict_set d a (me_name e)) d es))" for d
    by (induction es arbitrary: d) (auto simp: distinct_dict_set split: option.splits)
  then show ?thesis by (simp add: our_addresses_def keys_def)
qed

lemma count_common:
  "distinct xs \<Longrightarrow> distinct ys \<Longrightarrow> length (filter (\<lambda>k. k \<in> set ys) xs) = length (filter (\<lambda>k. k \<in> set xs) ys)"
proof -
  assume "distinct xs" "distinct ys"
  then have "length (filter (\<lambda>k. k \<in> set ys) xs) = card (set (filter (\<lambda>k. k \<in> set ys) xs))"
    "length (filter (\<lambda>k. k \<in> set xs) ys) = card (set (filter (\<lambda>k. k \<in> set xs) ys))" by (simp_all only: distinct_card distinct_filter)
  moreover have "set (filter (\<lambda>k. k \<in> set ys) xs) = set (filter (\<lambda>k. k \<in> set xs) ys)" by auto
  ultimately show ?thesis by simp
qed

text \<open>
  C12.  The comparison loses nothing: the registers of the header and those of the manifests are each split into
  those on both sides and those reported as only on one, the reported addresses are the exact
  differences of the two address sets, in increasing order, and every register of the manifests
  that is compared is memory mapped with an absolute address.
\<close>

theorem cmsis_diff_exact:
  assumes "distinct (map fst cmsis)"
  shows "cd_cmsis (diff_against es cmsis) = cd_both (diff_against es cmsis) + length (cd_only_cmsis (diff_against es cmsis)) \<and>
    cd_manifest (diff_against es cmsis) = cd_both (diff_against es cmsis) + length (cd_only_manifest (diff_against es cmsis)) \<and>
    map fst (cd_only_cmsis (diff_against es cmsis)) = map fmt_addr (sorted_list_of_set (fst ` set cmsis - set (keys (our_addresses es)))) \<and>
    map fst (cd_only_manifest (diff_against es cmsis)) = map fmt_addr (sorted_list_of_set (set (keys (our_addresses es)) - fst ` set cmsis)) \<and>
    set (keys (our_addresses es)) = set (filter_map compared es)"
proof -
  let ?o = "our_addresses es"
  have d: "distinct (keys ?o)" "distinct (keys cmsis)" using assms our_addresses_distinct by (simp_all add: keys_def)
  have split: "length xs = length (filter P xs) + length (filter (\<lambda>x. \<not> P x) xs)" for P and xs :: "int list"
    by (simp add: sum_length_filter_compl)
  have sorted: "only_in a b = sorted_list_of_set (fst ` set a - set (keys b))" if "distinct (keys a)" for a :: "(int \<times> 'a) list" and b :: "(int \<times> 'b) list"
  proof -
    let ?xs = "filter (\<lambda>k. k \<notin> set (keys b)) (keys a)"
    have "sorted_list_of_set (set ?xs) = sort ?xs" using that by (simp only: sorted_list_of_set_sort_remdups distinct_remdups_id distinct_filter)
    moreover have "set ?xs = fst ` set a - set (keys b)" by (auto simp: keys_def)
    ultimately show ?thesis by (simp add: only_in_def)
  qed
  have "set (map fst (foldl (\<lambda>d e. case compared e of None \<Rightarrow> d | Some a \<Rightarrow> dict_set d a (me_name e)) d es)) =
      set (map fst d) \<union> set (filter_map compared es)" for d
    by (induction es arbitrary: d) (auto simp: keys_dict_set split: option.splits)
  then have "set (keys ?o) = set (filter_map compared es)" by (simp add: our_addresses_def keys_def)
  moreover have "length cmsis = length (filter (\<lambda>k. k \<in> set (keys ?o)) (keys cmsis)) + length (only_in cmsis ?o)"
    using split [of "keys cmsis" "\<lambda>k. k \<in> set (keys ?o)"] by (simp only: only_in_def length_sort) (simp add: keys_def)
  moreover have "length ?o = length (filter (\<lambda>k. k \<in> set (keys ?o)) (keys cmsis)) + length (only_in ?o cmsis)"
    using split [of "keys ?o" "\<lambda>k. k \<in> set (keys cmsis)"] count_common [OF d]
    by (simp only: only_in_def length_sort) (simp add: keys_def)
  moreover have "map fst (cd_only_cmsis (diff_against es cmsis)) = map fmt_addr (only_in cmsis ?o)"
    "map fst (cd_only_manifest (diff_against es cmsis)) = map fmt_addr (only_in ?o cmsis)"
    "length (cd_only_cmsis (diff_against es cmsis)) = length (only_in cmsis ?o)"
    "length (cd_only_manifest (diff_against es cmsis)) = length (only_in ?o cmsis)"
    "cd_cmsis (diff_against es cmsis) = length cmsis" "cd_manifest (diff_against es cmsis) = length ?o"
    "cd_both (diff_against es cmsis) = length (filter (\<lambda>k. k \<in> set (keys ?o)) (keys cmsis))"
    by (simp_all add: diff_against_def Let_def comp_def)
  moreover have "fst ` set ?o = set (keys ?o)" "fst ` set cmsis = set (keys cmsis)" by (simp_all add: keys_def)
  ultimately show ?thesis unfolding sorted [OF d(2), of ?o] sorted [OF d(1), of cmsis] by simp
qed

definition demo_reg :: "int \<Rightarrow> int \<times> cmsis_reg" where
  "demo_reg a = (a, \<lparr>cr_address = a, cr_struct = ''SCB'', cr_field = ''CPUID'', cr_width = 32\<rparr>)"

definition demo_entry :: manifest_entry where
  "demo_entry = (to_dict (sample_entry ''CPUID'' EMITTED_STATE))\<lparr>me_access := Some ''memory_mapped'', me_encoding := Some ''0xE000ED00'',
     me_encoding_kind := ''absolute''\<rparr>"

theorem cmsis_diff_exact_witness:
  "set (keys (our_addresses [demo_entry])) = set (filter_map compared [demo_entry]) \<and>
     cd_cmsis (diff_against [demo_entry] [demo_reg 1, demo_reg 2]) =
       cd_both (diff_against [demo_entry] [demo_reg 1, demo_reg 2]) + length (cd_only_cmsis (diff_against [demo_entry] [demo_reg 1, demo_reg 2]))"
proof -
  have "distinct (map fst [demo_reg 1, demo_reg 2])" by (simp add: demo_reg_def)
  from cmsis_diff_exact [OF this, of "[demo_entry]"] show ?thesis by blast
qed

definition signed_header :: string where
  "signed_header = ''#define SCB_BASE (4)'' @ [CHR 0x0A] @ ''typedef struct{int32_t A;}SCB_Type;''"

text \<open>
  A member of a signed type, which the pattern of members accepts, stops the parser: the table of
  sizes has only the unsigned types, so that \<open>KeyError\<close> is raised.
\<close>

theorem signed_member_raises: "parse_header ev signed_header = Inl (KeyError ''int32_t'')"
proof -
  have b: "bases_of ev signed_header = [(''SCB_BASE'', 4)]" by code_simp
  show ?thesis by (simp add: parse_header_def b) code_simp
qed

end
