(* ===== verification/Abi.thy ===== *)
theory Abi
  imports Prelude
begin

text \<open>
  The binary interface: what \<open>libhw/_ffi.py\<close> declares to \<open>ctypes\<close> (the fields of every structure, the
  arguments and the result of every entry point) beside what \<open>include/hw.h\<close> and
  \<open>include/hw_state.h\<close> declare to the compiler, and the layout both give a structure.
\<close>

section \<open>Types\<close>

text \<open>The \<open>ctypes\<close> classes in use; a structure class is named.\<close>

datatype ct =
    CT_int | CT_uint | CT_uint8 | CT_uint16 | CT_uint32 | CT_uint64 | CT_size_t | CT_char_p | CT_void_p
  | CT_POINTER ct
  | CT_Structure string

text \<open>The types of the headers, without \<open>const\<close>; the typedefs of enumerations and of structures are named.\<close>

datatype cty =
    T_int | T_unsigned | T_uint8 | T_uint16 | T_uint32 | T_uint64 | T_size_t | T_char | T_void
  | T_enum string
  | T_struct string
  | T_ptr cty

type_synonym ct_fields = "(string \<times> ct) list"
type_synonym cty_fields = "(string \<times> cty) list"

section \<open>Structures\<close>

definition HwFlashInfo :: ct_fields where
  "HwFlashInfo = [(''base'', CT_uint), (''size'', CT_uint), (''page_size'', CT_uint), (''write_align'', CT_uint)]"

definition HwFlashPatchStats :: ct_fields where
  "HwFlashPatchStats =
     [(''sectors_total'', CT_uint), (''sectors_changed'', CT_uint), (''sectors_erased'', CT_uint), (''bytes_written'', CT_uint)]"

definition HwStateDesc :: ct_fields where
  "HwStateDesc =
     [(''name'', CT_char_p), (''ns'', CT_int), (''access'', CT_int), (''encoding'', CT_char_p), (''enc_kind'', CT_int),
      (''width'', CT_uint16), (''readable'', CT_uint8), (''writable'', CT_uint8), (''snapshot'', CT_uint8),
      (''feature'', CT_char_p), (''component'', CT_char_p)]"

definition HwStateAlias :: ct_fields where
  "HwStateAlias =
     [(''name'', CT_char_p), (''target'', CT_char_p), (''bit_offset'', CT_uint16), (''bit_width'', CT_uint16)]"

definition HwStateOperation :: ct_fields where
  "HwStateOperation = [(''name'', CT_char_p), (''encoding'', CT_char_p), (''reason'', CT_char_p)]"

definition HwStateComponent :: ct_fields where
  "HwStateComponent = [(''name'', CT_char_p), (''base'', CT_uint32)]"

definition HwStateDbgReg :: ct_fields where
  "HwStateDbgReg = [(''name'', CT_char_p), (''regsel'', CT_uint8), (''lsb'', CT_uint8), (''width'', CT_uint8)]"

definition HwCpuFeatures :: ct_fields where
  "HwCpuFeatures =
     [(''cpuid'', CT_uint32), (''partno'', CT_uint16), (''variant'', CT_uint8), (''revision'', CT_uint8),
      (''overlay_revision'', CT_char_p), (''revision_matches'', CT_uint8), (''cpu_name'', CT_char_p),
      (''overlay'', CT_char_p), (''fp_extension'', CT_uint8), (''mpu'', CT_uint8), (''mpu_regions'', CT_uint8),
      (''dwt_numcomp'', CT_uint8), (''nvic_intlinesnum'', CT_uint8)]"

definition HwStateResult :: ct_fields where
  "HwStateResult =
     [(''presence'', CT_int), (''evidence'', CT_char_p), (''read'', CT_int), (''value'', CT_uint32),
      (''value_is_zero'', CT_uint8)]"

definition HwStateDb :: ct_fields where
  "HwStateDb =
     [(''name'', CT_char_p), (''source'', CT_char_p),
      (''states'', CT_POINTER (CT_Structure ''HwStateDesc'')), (''state_count'', CT_size_t),
      (''aliases'', CT_POINTER (CT_Structure ''HwStateAlias'')), (''alias_count'', CT_size_t),
      (''operations'', CT_POINTER (CT_Structure ''HwStateOperation'')), (''operation_count'', CT_size_t),
      (''dbgregs'', CT_POINTER (CT_Structure ''HwStateDbgReg'')), (''dbgreg_count'', CT_size_t),
      (''components'', CT_POINTER (CT_Structure ''HwStateComponent'')), (''component_count'', CT_size_t)]"

text \<open>The same structures in the headers.\<close>

definition hw_flash_info_t :: cty_fields where
  "hw_flash_info_t =
     [(''base'', T_unsigned), (''size'', T_unsigned), (''page_size'', T_unsigned), (''write_align'', T_unsigned)]"

definition hw_flash_patch_stats_t :: cty_fields where
  "hw_flash_patch_stats_t =
     [(''sectors_total'', T_unsigned), (''sectors_changed'', T_unsigned), (''sectors_erased'', T_unsigned),
      (''bytes_written'', T_unsigned)]"

definition hw_state_result_t :: cty_fields where
  "hw_state_result_t =
     [(''presence'', T_enum ''hw_presence_t''), (''evidence'', T_ptr T_char), (''read'', T_enum ''hw_read_status_t''),
      (''value'', T_uint32), (''value_is_zero'', T_uint8)]"

definition hw_state_desc_t :: cty_fields where
  "hw_state_desc_t =
     [(''name'', T_ptr T_char), (''ns'', T_enum ''hw_ns_t''), (''access'', T_enum ''hw_acc_t''),
      (''encoding'', T_ptr T_char), (''enc_kind'', T_enum ''hw_enc_kind_t''), (''width'', T_uint16),
      (''readable'', T_uint8), (''writable'', T_uint8), (''snapshot'', T_uint8), (''feature'', T_ptr T_char),
      (''component'', T_ptr T_char)]"

definition hw_state_alias_t :: cty_fields where
  "hw_state_alias_t =
     [(''name'', T_ptr T_char), (''target'', T_ptr T_char), (''bit_offset'', T_uint16), (''bit_width'', T_uint16)]"

definition hw_state_operation_t :: cty_fields where
  "hw_state_operation_t = [(''name'', T_ptr T_char), (''encoding'', T_ptr T_char), (''reason'', T_ptr T_char)]"

definition hw_state_component_t :: cty_fields where
  "hw_state_component_t = [(''name'', T_ptr T_char), (''base'', T_uint32)]"

definition hw_state_dbgreg_t :: cty_fields where
  "hw_state_dbgreg_t = [(''name'', T_ptr T_char), (''regsel'', T_uint8), (''lsb'', T_uint8), (''width'', T_uint8)]"

definition hw_cpu_features_t :: cty_fields where
  "hw_cpu_features_t =
     [(''cpuid'', T_uint32), (''partno'', T_uint16), (''variant'', T_uint8), (''revision'', T_uint8),
      (''overlay_revision'', T_ptr T_char), (''revision_matches'', T_uint8), (''cpu_name'', T_ptr T_char),
      (''overlay'', T_ptr T_char), (''fp_extension'', T_uint8), (''mpu'', T_uint8), (''mpu_regions'', T_uint8),
      (''dwt_numcomp'', T_uint8), (''nvic_intlinesnum'', T_uint8)]"

definition hw_state_db_t :: cty_fields where
  "hw_state_db_t =
     [(''name'', T_ptr T_char), (''source'', T_ptr T_char),
      (''states'', T_ptr (T_struct ''hw_state_desc_t'')), (''state_count'', T_size_t),
      (''aliases'', T_ptr (T_struct ''hw_state_alias_t'')), (''alias_count'', T_size_t),
      (''operations'', T_ptr (T_struct ''hw_state_operation_t'')), (''operation_count'', T_size_t),
      (''dbgregs'', T_ptr (T_struct ''hw_state_dbgreg_t'')), (''dbgreg_count'', T_size_t),
      (''components'', T_ptr (T_struct ''hw_state_component_t'')), (''component_count'', T_size_t)]"

text \<open>Which class stands for which type, with both declarations.\<close>

definition ABI_STRUCTS :: "((string \<times> ct_fields) \<times> string \<times> cty_fields) list" where
  "ABI_STRUCTS =
     [((''HwFlashInfo'', HwFlashInfo), ''hw_flash_info_t'', hw_flash_info_t),
      ((''HwFlashPatchStats'', HwFlashPatchStats), ''hw_flash_patch_stats_t'', hw_flash_patch_stats_t),
      ((''HwStateDesc'', HwStateDesc), ''hw_state_desc_t'', hw_state_desc_t),
      ((''HwStateAlias'', HwStateAlias), ''hw_state_alias_t'', hw_state_alias_t),
      ((''HwStateOperation'', HwStateOperation), ''hw_state_operation_t'', hw_state_operation_t),
      ((''HwStateComponent'', HwStateComponent), ''hw_state_component_t'', hw_state_component_t),
      ((''HwStateDbgReg'', HwStateDbgReg), ''hw_state_dbgreg_t'', hw_state_dbgreg_t),
      ((''HwStateResult'', HwStateResult), ''hw_state_result_t'', hw_state_result_t),
      ((''HwCpuFeatures'', HwCpuFeatures), ''hw_cpu_features_t'', hw_cpu_features_t),
      ((''HwStateDb'', HwStateDb), ''hw_state_db_t'', hw_state_db_t)]"

section \<open>Entry points\<close>

type_synonym signature = "ct list \<times> ct option"

definition HwContextP :: ct where "HwContextP = CT_void_p"
definition U32P :: ct where "U32P = CT_POINTER CT_uint"
definition U8P :: ct where "U8P = CT_POINTER CT_uint8"

definition db_p :: ct where "db_p = CT_POINTER (CT_Structure ''HwStateDb'')"
definition desc_p :: ct where "desc_p = CT_POINTER (CT_Structure ''HwStateDesc'')"
definition features_p :: ct where "features_p = CT_POINTER (CT_Structure ''HwCpuFeatures'')"

text \<open>The assignments of \<open>_bind\<close>, in order; its two loops give the same signature to several names.\<close>

definition core_signatures :: "(string \<times> signature) list" where
  "core_signatures =
     [(''hw_connect'', [CT_char_p, CT_char_p, CT_int], Some HwContextP),
      (''hw_close'', [HwContextP], None),
      (''hw_read32'', [HwContextP, CT_uint, U32P], Some CT_int),
      (''hw_write32'', [HwContextP, CT_uint, CT_uint], Some CT_int),
      (''hw_read8'', [HwContextP, CT_uint, U8P], Some CT_int),
      (''hw_write8'', [HwContextP, CT_uint, CT_uint8], Some CT_int)] @
     map (\<lambda>name. (name, [HwContextP], Some CT_int))
       [''hw_board_halted'', ''hw_board_halt'', ''hw_board_step'', ''hw_board_run'', ''hw_board_reset'', ''hw_flash_mass_erase''] @
     [(''hw_read_reg'', [HwContextP, CT_int], Some CT_uint64),
      (''hw_write_reg'', [HwContextP, CT_int, CT_uint64], None)]"

definition flash_signatures :: "(string \<times> signature) list" where
  "flash_signatures =
     [(''hw_flash_info'', [HwContextP, CT_POINTER (CT_Structure ''HwFlashInfo'')], Some CT_int),
      (''hw_flash_sector'', [HwContextP, CT_uint, U32P, U32P], Some CT_int)] @
     map (\<lambda>name. (name, [HwContextP, CT_uint, CT_void_p, CT_size_t], Some CT_int))
       [''hw_flash_read'', ''hw_flash_write'', ''hw_flash_verify'', ''hw_flash_update''] @
     [(''hw_flash_erase'', [HwContextP, CT_uint, CT_size_t], Some CT_int),
      (''hw_flash_patch'', [HwContextP, CT_uint, CT_void_p, CT_void_p, CT_size_t,
                            CT_POINTER (CT_Structure ''HwFlashPatchStats'')], Some CT_int)]"

definition state_signatures :: "(string \<times> signature) list" where
  "state_signatures =
     [(''hw_state_db'', [CT_char_p], Some db_p),
      (''hw_state_find'', [db_p, CT_char_p], Some desc_p),
      (''hw_state_dbgreg'', [db_p, CT_char_p], Some (CT_POINTER (CT_Structure ''HwStateDbgReg''))),
      (''hw_state_identify'', [HwContextP, features_p], Some CT_int),
      (''hw_state_expected'', [desc_p, features_p], Some CT_int),
      (''hw_state_presence'', [HwContextP, desc_p, features_p, CT_POINTER CT_char_p], Some CT_int),
      (''hw_state_query'', [HwContextP, desc_p, features_p, CT_POINTER (CT_Structure ''HwStateResult'')], Some CT_int),
      (''hw_state_read'', [HwContextP, desc_p, CT_POINTER CT_uint32, CT_POINTER CT_int], Some CT_int),
      (''hw_presence_name'', [CT_int], Some CT_char_p),
      (''hw_read_status_name'', [CT_int], Some CT_char_p)]"

definition signatures :: "(string \<times> signature) list" where
  "signatures = core_signatures @ flash_signatures @ state_signatures"

text \<open>The prototypes of the headers: the result, then the arguments.\<close>

type_synonym prototype = "cty \<times> cty list"

definition ctx_p :: cty where "ctx_p = T_ptr (T_struct ''hw_t'')"

definition hw_h_prototypes :: "(string \<times> prototype) list" where
  "hw_h_prototypes =
     [(''hw_connect'', ctx_p, [T_ptr T_char, T_ptr T_char, T_int]),
      (''hw_close'', T_void, [ctx_p]),
      (''hw_write32'', T_int, [ctx_p, T_unsigned, T_unsigned]),
      (''hw_write8'', T_int, [ctx_p, T_unsigned, T_uint8]),
      (''hw_read32'', T_int, [ctx_p, T_unsigned, T_ptr T_unsigned]),
      (''hw_read8'', T_int, [ctx_p, T_unsigned, T_ptr T_uint8]),
      (''hw_board_halted'', T_int, [ctx_p]),
      (''hw_board_halt'', T_int, [ctx_p]),
      (''hw_board_step'', T_int, [ctx_p]),
      (''hw_board_run'', T_int, [ctx_p]),
      (''hw_read_reg'', T_uint64, [ctx_p, T_int]),
      (''hw_write_reg'', T_void, [ctx_p, T_int, T_uint64]),
      (''hw_board_reset'', T_int, [ctx_p]),
      (''hw_flash_info'', T_int, [ctx_p, T_ptr (T_struct ''hw_flash_info_t'')]),
      (''hw_flash_sector'', T_int, [ctx_p, T_unsigned, T_ptr T_unsigned, T_ptr T_unsigned]),
      (''hw_flash_read'', T_int, [ctx_p, T_unsigned, T_ptr T_void, T_size_t]),
      (''hw_flash_write'', T_int, [ctx_p, T_unsigned, T_ptr T_void, T_size_t]),
      (''hw_flash_erase'', T_int, [ctx_p, T_unsigned, T_size_t]),
      (''hw_flash_mass_erase'', T_int, [ctx_p]),
      (''hw_flash_verify'', T_int, [ctx_p, T_unsigned, T_ptr T_void, T_size_t]),
      (''hw_flash_update'', T_int, [ctx_p, T_unsigned, T_ptr T_void, T_size_t]),
      (''hw_flash_patch'', T_int, [ctx_p, T_unsigned, T_ptr T_void, T_ptr T_void, T_size_t,
                                    T_ptr (T_struct ''hw_flash_patch_stats_t'')])]"

definition c_db_p :: cty where "c_db_p = T_ptr (T_struct ''hw_state_db_t'')"
definition c_desc_p :: cty where "c_desc_p = T_ptr (T_struct ''hw_state_desc_t'')"
definition c_features_p :: cty where "c_features_p = T_ptr (T_struct ''hw_cpu_features_t'')"

definition hw_state_h_prototypes :: "(string \<times> prototype) list" where
  "hw_state_h_prototypes =
     [(''hw_state_db'', c_db_p, [T_ptr T_char]),
      (''hw_state_find'', c_desc_p, [c_db_p, T_ptr T_char]),
      (''hw_state_presence'', T_enum ''hw_presence_t'', [ctx_p, c_desc_p, c_features_p, T_ptr (T_ptr T_char)]),
      (''hw_state_query'', T_int, [ctx_p, c_desc_p, c_features_p, T_ptr (T_struct ''hw_state_result_t'')]),
      (''hw_state_read'', T_int, [ctx_p, c_desc_p, T_ptr T_uint32, T_ptr (T_enum ''hw_read_status_t'')]),
      (''hw_state_identify'', T_int, [ctx_p, c_features_p]),
      (''hw_state_expected'', T_int, [c_desc_p, c_features_p]),
      (''hw_presence_name'', T_ptr T_char, [T_enum ''hw_presence_t'']),
      (''hw_read_status_name'', T_ptr T_char, [T_enum ''hw_read_status_t'']),
      (''hw_state_dbgreg'', T_ptr (T_struct ''hw_state_dbgreg_t''), [c_db_p, T_ptr T_char])]"

definition prototypes :: "(string \<times> prototype) list" where
  "prototypes = hw_h_prototypes @ hw_state_h_prototypes"

section \<open>Agreement\<close>

text \<open>
  A \<open>ctypes\<close> class that stands for a C type.  A structure class is paired with its type by name; an
  enumeration is passed as an \<open>int\<close>.
\<close>

fun fits :: "ct \<Rightarrow> cty \<Rightarrow> bool" where
  "fits CT_int t = (case t of T_int \<Rightarrow> True | T_enum e \<Rightarrow> True | _ \<Rightarrow> False)"
| "fits CT_uint t = (t = T_unsigned)"
| "fits CT_uint8 t = (t = T_uint8)"
| "fits CT_uint16 t = (t = T_uint16)"
| "fits CT_uint32 t = (t = T_uint32)"
| "fits CT_uint64 t = (t = T_uint64)"
| "fits CT_size_t t = (t = T_size_t)"
| "fits CT_char_p t = (t = T_ptr T_char)"
| "fits CT_void_p t = (case t of T_ptr u \<Rightarrow> u = T_void \<or> u = T_struct ''hw_t'' | _ \<Rightarrow> False)"
| "fits (CT_POINTER p) t = (case t of T_ptr u \<Rightarrow> fits p u | _ \<Rightarrow> False)"
| "fits (CT_Structure s) t =
     (case t of T_struct u \<Rightarrow> (s, u) \<in> set (map (\<lambda>((s, _), u, _). (s, u)) ABI_STRUCTS) | _ \<Rightarrow> False)"

definition call_fits :: "signature \<Rightarrow> prototype \<Rightarrow> bool" where
  "call_fits s p =
     (list_all2 fits (fst s) (snd p) \<and>
      (case snd s of None \<Rightarrow> fst p = T_void | Some r \<Rightarrow> fits r (fst p)))"

text \<open>
  Sizes with natural alignment, for a pointer and a \<open>size_t\<close> of \<open>w\<close> bytes.  No field holds a structure
  by value, so a structure has no size here.
\<close>

fun ct_size :: "nat \<Rightarrow> ct \<Rightarrow> nat option" where
  "ct_size w CT_int = Some 4"
| "ct_size w CT_uint = Some 4"
| "ct_size w CT_uint8 = Some 1"
| "ct_size w CT_uint16 = Some 2"
| "ct_size w CT_uint32 = Some 4"
| "ct_size w CT_uint64 = Some 8"
| "ct_size w CT_size_t = Some w"
| "ct_size w CT_char_p = Some w"
| "ct_size w CT_void_p = Some w"
| "ct_size w (CT_POINTER t) = Some w"
| "ct_size w (CT_Structure s) = None"

fun cty_size :: "nat \<Rightarrow> cty \<Rightarrow> nat option" where
  "cty_size w T_int = Some 4"
| "cty_size w T_unsigned = Some 4"
| "cty_size w T_uint8 = Some 1"
| "cty_size w T_uint16 = Some 2"
| "cty_size w T_uint32 = Some 4"
| "cty_size w T_uint64 = Some 8"
| "cty_size w T_size_t = Some w"
| "cty_size w T_char = Some 1"
| "cty_size w T_void = None"
| "cty_size w (T_enum e) = Some 4"
| "cty_size w (T_struct s) = None"
| "cty_size w (T_ptr t) = Some w"

definition round_up :: "nat \<Rightarrow> nat \<Rightarrow> nat" where
  "round_up n a = (if a = 0 then n else (n + a - 1) div a * a)"

text \<open>The offset of every field from position \<open>pos\<close> on, and the size of the structure.\<close>

fun field_layout :: "('t \<Rightarrow> nat option) \<Rightarrow> nat \<Rightarrow> nat \<Rightarrow> (string \<times> 't) list \<Rightarrow> ((string \<times> nat) list \<times> nat) option" where
  "field_layout sz a pos [] = Some ([], round_up pos a)"
| "field_layout sz a pos ((n, t) # fs) =
     (case sz t of
        None \<Rightarrow> None
      | Some k \<Rightarrow>
          (let off = round_up pos k in
           map_option (\<lambda>(offs, total). ((n, off) # offs, total)) (field_layout sz (max a k) (off + k) fs)))"

definition ct_layout :: "nat \<Rightarrow> ct_fields \<Rightarrow> ((string \<times> nat) list \<times> nat) option" where
  "ct_layout w fs = field_layout (ct_size w) 1 0 fs"

definition cty_layout :: "nat \<Rightarrow> cty_fields \<Rightarrow> ((string \<times> nat) list \<times> nat) option" where
  "cty_layout w fs = field_layout (cty_size w) 1 0 fs"

text \<open>A field that stands for its C field takes the same room; a pointer does so whatever it points to.\<close>

lemma fits_size: "fits t c \<Longrightarrow> ct_size w t = cty_size w c"
  by (cases t) (auto split: cty.splits)

lemma fits_layout:
  assumes "list_all2 (\<lambda>f g. fst f = fst g \<and> fits (snd f) (snd g)) fs gs"
  shows "field_layout (ct_size w) a pos fs = field_layout (cty_size w) a pos gs"
  using assms
proof (induction arbitrary: a pos rule: list_all2_induct)
  case (Cons f fs g gs)
  then have "ct_size w (snd f) = cty_size w (snd g)" by (simp add: fits_size)
  with Cons show ?case by (cases f; cases g) (simp add: Let_def split: option.split)
qed simp

text \<open>A structure whose fields all have a size has a layout.\<close>

lemma layout_defined: "list_all (\<lambda>f. sz (snd f) \<noteq> None) fs \<Longrightarrow> field_layout sz a pos fs \<noteq> None"
proof (induction fs arbitrary: a pos)
  case (Cons f fs)
  obtain n t where f: "f = (n, t)" by force
  with Cons.prems obtain k where k: "sz t = Some k" by auto
  have "field_layout sz (max a k) (round_up pos k + k) fs \<noteq> None" using Cons by simp
  then show ?case by (simp add: f k Let_def)
qed simp

lemmas struct_defs =
  HwFlashInfo_def HwFlashPatchStats_def HwStateDesc_def HwStateAlias_def HwStateOperation_def HwStateComponent_def
  HwStateDbgReg_def HwCpuFeatures_def HwStateResult_def HwStateDb_def
  hw_flash_info_t_def hw_flash_patch_stats_t_def hw_state_desc_t_def hw_state_alias_t_def hw_state_operation_t_def
  hw_state_component_t_def hw_state_dbgreg_t_def hw_cpu_features_t_def hw_state_result_t_def hw_state_db_t_def

definition fields_fit :: "ct_fields \<Rightarrow> cty_fields \<Rightarrow> bool" where
  "fields_fit fs gs =
     (list_all2 (\<lambda>f g. fst f = fst g \<and> fits (snd f) (snd g)) fs gs \<and> list_all (\<lambda>f. ct_size 1 (snd f) \<noteq> None) fs)"

lemma ct_size_defined: "ct_size w t = None \<longleftrightarrow> ct_size 1 t = None"
  by (cases t) auto

lemma fields_fit_layout:
  assumes "fields_fit fs gs"
  shows "ct_layout w fs = cty_layout w gs" and "ct_layout w fs \<noteq> None"
proof -
  from assms have fit: "list_all2 (\<lambda>f g. fst f = fst g \<and> fits (snd f) (snd g)) fs gs"
    and sized: "list_all (\<lambda>f. ct_size w (snd f) \<noteq> None) fs"
    unfolding fields_fit_def by (simp_all add: ct_size_defined [of w])
  show "ct_layout w fs = cty_layout w gs"
    unfolding ct_layout_def cty_layout_def by (rule fits_layout [OF fit])
  show "ct_layout w fs \<noteq> None"
    unfolding ct_layout_def by (rule layout_defined [OF sized])
qed

lemma structs_fit: "list_all (\<lambda>((_, fs), _, gs). fields_fit fs gs) ABI_STRUCTS"
  unfolding ABI_STRUCTS_def by (simp add: fields_fit_def struct_defs) (simp add: ABI_STRUCTS_def)

lemmas pointer_defs =
  HwContextP_def U32P_def U8P_def db_p_def desc_p_def features_p_def ctx_p_def c_db_p_def c_desc_p_def c_features_p_def

lemma signatures_fit:
  "list_all (\<lambda>(n, s). case map_of prototypes n of None \<Rightarrow> False | Some p \<Rightarrow> call_fits s p) signatures"
  unfolding signatures_def core_signatures_def flash_signatures_def state_signatures_def
    prototypes_def hw_h_prototypes_def hw_state_h_prototypes_def
  by (simp add: call_fits_def pointer_defs) (simp add: ABI_STRUCTS_def)

lemma signature_names: "distinct (map fst signatures)"
  unfolding signatures_def core_signatures_def flash_signatures_def state_signatures_def by simp

lemma prototype_names: "set (map fst prototypes) = set (map fst signatures)"
  unfolding signatures_def core_signatures_def flash_signatures_def state_signatures_def
    prototypes_def hw_h_prototypes_def hw_state_h_prototypes_def by auto

text \<open>
  C38. The \<open>ctypes\<close> declarations agree with the C headers.  Whatever the size of a pointer, every structure
  class has a layout, and it is the layout of the C type: the same field names at the same offsets, and
  the same size.  Every entry point that is bound has a prototype of the same arity whose argument
  and result types its declaration stands for, no entry point is bound twice, and no prototype of the two headers is
  left without a declaration.
\<close>

theorem bindings_match_headers:
  "list_all (\<lambda>((_, fs), _, gs). ct_layout w fs = cty_layout w gs \<and> ct_layout w fs \<noteq> None) ABI_STRUCTS \<and>
   list_all (\<lambda>(n, s). case map_of prototypes n of None \<Rightarrow> False | Some p \<Rightarrow> call_fits s p) signatures \<and>
   distinct (map fst signatures) \<and> set (map fst prototypes) = set (map fst signatures)"
proof (intro conjI signatures_fit signature_names prototype_names)
  show "list_all (\<lambda>((_, fs), _, gs). ct_layout w fs = cty_layout w gs \<and> ct_layout w fs \<noteq> None) ABI_STRUCTS"
    using structs_fit
  proof (rule list.pred_mono_strong, clarsimp simp only: prod.case)
    fix fs gs
    assume "fields_fit fs gs"
    then show "ct_layout w fs = cty_layout w gs \<and> ct_layout w fs \<noteq> None"
      using fields_fit_layout [of fs gs w] by blast
  qed
qed

text \<open>The descriptors on a 64-bit machine: four bytes of padding follow the enumerations and \<open>snapshot\<close>.\<close>

lemma desc_layout_64:
  "ct_layout 8 HwStateDesc =
     Some ([(''name'', 0), (''ns'', 8), (''access'', 12), (''encoding'', 16), (''enc_kind'', 24), (''width'', 28),
            (''readable'', 30), (''writable'', 31), (''snapshot'', 32), (''feature'', 40), (''component'', 48)], 56)"
  by (simp add: ct_layout_def HwStateDesc_def round_up_def Let_def)

end
