(* ===== verification/FlashCore.thy ===== *)
theory FlashCore
  imports Prelude "HOL-Library.Word"
begin

unbundle bit_operations_syntax

text \<open>
  The flash part of \<open>core/hw.c\<close>: a table of backend operations, any of which may be missing, and
  the composite operations \<open>hw_flash_update\<close> and \<open>hw_flash_patch\<close> built on them.  Addresses are
  \<open>unsigned int\<close>: natural numbers with the wrap-around at \<open>2^32\<close> written out.  The state of the
  target is the type \<open>'s\<close>; reads leave it alone, and an operation that changes it returns
  whether it succeeded and the new state.  Allocation always succeeds.
\<close>

section \<open>Data\<close>

type_synonym byte = "8 word"

definition add32 :: "nat \<Rightarrow> nat \<Rightarrow> nat" where "add32 a b = (a + b) mod 2 ^ 32"

record flash_info =
  fi_base :: nat
  fi_size :: nat
  fi_page_size :: nat
  fi_write_align :: nat

record patch_stats =
  sectors_total :: nat
  sectors_changed :: nat
  sectors_erased :: nat
  bytes_written :: nat

definition no_stats :: patch_stats where
  "no_stats = \<lparr>sectors_total = 0, sectors_changed = 0, sectors_erased = 0, bytes_written = 0\<rparr>"

text \<open>\<open>hw_ops_t\<close>: \<open>None\<close> is a null pointer in the table; a read that fails gives \<open>None\<close>.\<close>

record 's hw_ops =
  op_write32 :: "('s \<Rightarrow> nat \<Rightarrow> nat \<Rightarrow> bool \<times> 's) option"
  op_write8 :: "('s \<Rightarrow> nat \<Rightarrow> byte \<Rightarrow> bool \<times> 's) option"
  op_read32 :: "('s \<Rightarrow> nat \<Rightarrow> nat option) option"
  op_read8 :: "('s \<Rightarrow> nat \<Rightarrow> byte option) option"
  op_board_halted :: "('s \<Rightarrow> bool) option"
  op_board_run :: "('s \<Rightarrow> bool \<times> 's) option"
  op_board_halt :: "('s \<Rightarrow> bool \<times> 's) option"
  op_board_step :: "('s \<Rightarrow> bool \<times> 's) option"
  op_read_reg :: "('s \<Rightarrow> int \<Rightarrow> nat) option"
  op_write_reg :: "('s \<Rightarrow> int \<Rightarrow> nat \<Rightarrow> 's) option"
  op_board_reset :: "('s \<Rightarrow> bool \<times> 's) option"
  op_flash_info :: "('s \<Rightarrow> flash_info option) option"
  op_flash_sector :: "('s \<Rightarrow> nat \<Rightarrow> (nat \<times> nat) option) option"
  op_flash_read :: "('s \<Rightarrow> nat \<Rightarrow> nat \<Rightarrow> byte list option) option"
  op_flash_write :: "('s \<Rightarrow> nat \<Rightarrow> byte list \<Rightarrow> bool \<times> 's) option"
  op_flash_erase :: "('s \<Rightarrow> nat \<Rightarrow> nat \<Rightarrow> bool \<times> 's) option"
  op_flash_mass_erase :: "('s \<Rightarrow> bool \<times> 's) option"

section \<open>Wrappers\<close>

definition hw_board_halted :: "'s hw_ops \<Rightarrow> 's \<Rightarrow> bool" where
  "hw_board_halted ops s = (case op_board_halted ops of Some f \<Rightarrow> f s | None \<Rightarrow> False)"

text \<open>A missing halt counts as success.\<close>

definition hw_board_halt :: "'s hw_ops \<Rightarrow> 's \<Rightarrow> bool \<times> 's" where
  "hw_board_halt ops s = (case op_board_halt ops of Some f \<Rightarrow> f s | None \<Rightarrow> (True, s))"

definition flash_range_ok :: "flash_info \<Rightarrow> nat \<Rightarrow> nat \<Rightarrow> bool" where
  "flash_range_ok info addr len \<longleftrightarrow>
     len \<noteq> 0 \<and> len \<le> fi_size info \<and> fi_base info \<le> addr \<and> addr - fi_base info \<le> fi_size info - len"

definition flash_halt_target :: "'s hw_ops \<Rightarrow> 's \<Rightarrow> bool \<times> 's" where
  "flash_halt_target ops s = (if hw_board_halted ops s then (True, s) else hw_board_halt ops s)"

definition hw_flash_info :: "'s hw_ops \<Rightarrow> 's \<Rightarrow> flash_info option" where
  "hw_flash_info ops s =
     (case op_flash_info ops of
        None \<Rightarrow> None
      | Some f \<Rightarrow>
          (case f s of
             None \<Rightarrow> None
           | Some i \<Rightarrow>
               (if fi_page_size i = 0 then None
                else Some (if fi_write_align i = 0 then i\<lparr>fi_write_align := 1\<rparr> else i))))"

definition hw_flash_sector :: "'s hw_ops \<Rightarrow> 's \<Rightarrow> nat \<Rightarrow> (nat \<times> nat) option" where
  "hw_flash_sector ops s addr =
     (case op_flash_sector ops of
        Some f \<Rightarrow> f s addr
      | None \<Rightarrow>
          (case hw_flash_info ops s of
             None \<Rightarrow> None
           | Some i \<Rightarrow>
               (if flash_range_ok i addr 1
                then Some (add32 (fi_base i) ((addr - fi_base i) div fi_page_size i * fi_page_size i), fi_page_size i)
                else None)))"

text \<open>The bytes of a word, least significant first, and the fallback for a missing bulk read.\<close>

definition word_bytes :: "nat \<Rightarrow> byte list" where
  "word_bytes w = map (\<lambda>k. word_of_nat (w div 256 ^ k)) [0..<4]"

function read_fallback :: "'s hw_ops \<Rightarrow> 's \<Rightarrow> nat \<Rightarrow> nat \<Rightarrow> nat \<Rightarrow> byte list option" where
  "read_fallback ops s addr i len =
     (if i < len then
        (let a = add32 addr i in
         case (if a mod 4 = 0 \<and> 4 \<le> len - i then op_read32 ops else None) of
           Some f \<Rightarrow>
             (case f s a of
                None \<Rightarrow> None
              | Some w \<Rightarrow> map_option ((@) (word_bytes w)) (read_fallback ops s addr (i + 4) len))
         | None \<Rightarrow>
             (case op_read8 ops of
                None \<Rightarrow> None
              | Some f \<Rightarrow>
                  (case f s a of
                     None \<Rightarrow> None
                   | Some b \<Rightarrow> map_option ((#) b) (read_fallback ops s addr (i + 1) len))))
      else Some [])"
  by pat_completeness auto
termination by (relation "measure (\<lambda>(ops, s, addr, i, len). len - i)") auto

declare read_fallback.simps [simp del]

definition hw_flash_read :: "'s hw_ops \<Rightarrow> 's \<Rightarrow> nat \<Rightarrow> nat \<Rightarrow> byte list option" where
  "hw_flash_read ops s addr len =
     (if len = 0 then Some []
      else case op_flash_read ops of
             Some f \<Rightarrow> f s addr len
           | None \<Rightarrow> read_fallback ops s addr 0 len)"

definition hw_flash_write :: "'s hw_ops \<Rightarrow> 's \<Rightarrow> nat \<Rightarrow> byte list \<Rightarrow> bool \<times> 's" where
  "hw_flash_write ops s addr buf =
     (case op_flash_write ops of
        None \<Rightarrow> (False, s)
      | Some f \<Rightarrow> (if buf = [] then (True, s) else f s addr buf))"

definition hw_flash_erase :: "'s hw_ops \<Rightarrow> 's \<Rightarrow> nat \<Rightarrow> nat \<Rightarrow> bool \<times> 's" where
  "hw_flash_erase ops s addr len =
     (case op_flash_erase ops of
        None \<Rightarrow> (False, s)
      | Some f \<Rightarrow> (if len = 0 then (True, s) else f s addr len))"

definition hw_flash_mass_erase :: "'s hw_ops \<Rightarrow> 's \<Rightarrow> bool \<times> 's" where
  "hw_flash_mass_erase ops s = (case op_flash_mass_erase ops of None \<Rightarrow> (False, s) | Some f \<Rightarrow> f s)"

definition hw_flash_verify :: "'s hw_ops \<Rightarrow> 's \<Rightarrow> nat \<Rightarrow> byte list \<Rightarrow> bool" where
  "hw_flash_verify ops s addr buf =
     (buf = [] \<or> (case hw_flash_read ops s addr (length buf) of None \<Rightarrow> False | Some r \<Rightarrow> r = buf))"

section \<open>Update\<close>

text \<open>\<open>memcpy\<close> into a buffer at an offset.\<close>

definition overlay :: "'a list \<Rightarrow> nat \<Rightarrow> 'a list \<Rightarrow> 'a list" where
  "overlay xs k ys = take k xs @ ys @ drop (k + length ys) xs"

text \<open>
  The image of one block.  Where the region covers the block the buffer is not read first; every
  byte of it is then overwritten, so its contents do not matter.
\<close>

definition flash_build_sector_image ::
  "'s hw_ops \<Rightarrow> 's \<Rightarrow> nat \<Rightarrow> nat \<Rightarrow> nat \<Rightarrow> byte list \<Rightarrow> byte list option" where
  "flash_build_sector_image ops s sb ss addr img =
     (let sect_end = add32 sb ss; reg_end = add32 addr (length img);
          ov_start = max sb addr; ov_end = min sect_end reg_end
      in if ov_end \<le> ov_start then None
         else
           (case (if sb < ov_start \<or> ov_end < sect_end then hw_flash_read ops s sb ss else Some (replicate ss 0)) of
              None \<Rightarrow> None
            | Some out \<Rightarrow> Some (overlay out (ov_start - sb) (take (ov_end - ov_start) (drop (ov_start - addr) img)))))"

definition update_block ::
  "'s hw_ops \<Rightarrow> nat \<Rightarrow> byte list \<Rightarrow> nat \<Rightarrow> nat \<Rightarrow> 's \<Rightarrow> bool \<times> 's" where
  "update_block ops addr img sb ss s =
     (case flash_build_sector_image ops s sb ss addr img of
        None \<Rightarrow> (False, s)
      | Some page \<Rightarrow>
          (case hw_flash_erase ops s sb ss of
             (False, s) \<Rightarrow> (False, s)
           | (True, s) \<Rightarrow> hw_flash_write ops s sb page))"

text \<open>The loop over the blocks ends: the position grows towards the end of the region.\<close>

function update_loop :: "'s hw_ops \<Rightarrow> nat \<Rightarrow> byte list \<Rightarrow> nat \<Rightarrow> nat \<Rightarrow> 's \<Rightarrow> bool \<times> 's" where
  "update_loop ops addr img stop pos s =
     (if pos < stop then
        (case hw_flash_sector ops s pos of
           None \<Rightarrow> (False, s)
         | Some (sb, ss) \<Rightarrow>
             (if ss = 0 \<or> add32 sb ss \<le> pos then (False, s)
              else
                (case update_block ops addr img sb ss s of
                   (False, s) \<Rightarrow> (False, s)
                 | (True, s) \<Rightarrow> update_loop ops addr img stop (add32 sb ss) s)))
      else (True, s))"
  by pat_completeness auto
termination by (relation "measure (\<lambda>(ops, addr, img, stop, pos, s). stop - pos)") auto

declare update_loop.simps [simp del]

definition hw_flash_update :: "'s hw_ops \<Rightarrow> 's \<Rightarrow> nat \<Rightarrow> byte list \<Rightarrow> bool \<times> 's" where
  "hw_flash_update ops s addr img =
     (if img = [] then (True, s)
      else if op_flash_erase ops = None \<or> op_flash_write ops = None then (False, s)
      else
        (case hw_flash_info ops s of
           None \<Rightarrow> (False, s)
         | Some info \<Rightarrow>
             (if \<not> flash_range_ok info addr (length img) then (False, s)
              else
                (case flash_halt_target ops s of
                   (False, s) \<Rightarrow> (False, s)
                 | (True, s) \<Rightarrow>
                     (case update_loop ops addr img (add32 addr (length img)) addr s of
                        (False, s) \<Rightarrow> (False, s)
                      | (True, s) \<Rightarrow> (hw_flash_verify ops s addr img, s))))))"

section \<open>Patch\<close>

text \<open>Some bit has to go from 0 to 1.\<close>

definition need_erase :: "byte list \<Rightarrow> byte list \<Rightarrow> bool" where
  "need_erase want cur = list_ex (\<lambda>(w, c). w AND c \<noteq> w) (zip want cur)"

text \<open>The span that differs: the two loops from below and from above.\<close>

fun lo_from :: "byte list \<Rightarrow> byte list \<Rightarrow> nat" where
  "lo_from (w # want) (c # cur) = (if w = c then Suc (lo_from want cur) else 0)"
| "lo_from want cur = 0"

fun hi_from :: "byte list \<Rightarrow> byte list \<Rightarrow> nat \<Rightarrow> nat \<Rightarrow> nat" where
  "hi_from want cur lo 0 = 0"
| "hi_from want cur lo (Suc hi) = (if lo < Suc hi \<and> want ! hi = cur ! hi then hi_from want cur lo hi else Suc hi)"

definition write_span :: "nat \<Rightarrow> nat \<Rightarrow> byte list \<Rightarrow> byte list \<Rightarrow> nat \<times> nat" where
  "write_span align ss want cur =
     (if ss mod align \<noteq> 0 then (0, ss)
      else
        (let lo = lo_from want cur; hi = hi_from want cur lo ss
         in (lo - lo mod align, min ss (hi + (align - hi mod align) mod align))))"

text \<open>Programming a changed block.\<close>

definition program_block ::
  "'s hw_ops \<Rightarrow> flash_info \<Rightarrow> nat \<Rightarrow> nat \<Rightarrow> byte list \<Rightarrow> byte list \<Rightarrow> patch_stats \<times> 's \<Rightarrow> bool \<times> patch_stats \<times> 's" where
  "program_block ops info sb ss want cur st =
     (case st of (stats, s) \<Rightarrow>
        if need_erase want cur then
          (case hw_flash_erase ops s sb ss of
             (False, s) \<Rightarrow> (False, stats, s)
           | (True, s) \<Rightarrow>
               (case hw_flash_write ops s sb want of
                  (False, s) \<Rightarrow> (False, stats, s)
                | (True, s) \<Rightarrow>
                    (True, stats\<lparr>sectors_erased := add32 (sectors_erased stats) 1,
                       bytes_written := add32 (bytes_written stats) ss\<rparr>, s)))
        else
          (case write_span (fi_write_align info) ss want cur of
             (lo, hi) \<Rightarrow>
               (case hw_flash_write ops s (add32 sb lo) (take (hi - lo) (drop lo want)) of
                  (False, s) \<Rightarrow> (False, stats, s)
                | (True, s) \<Rightarrow> (True, stats\<lparr>bytes_written := add32 (bytes_written stats) (hi - lo)\<rparr>, s))))"

text \<open>One block: with the old image at hand an unchanged block is skipped without a read.\<close>

definition patch_block ::
  "'s hw_ops \<Rightarrow> flash_info \<Rightarrow> nat \<Rightarrow> byte list option \<Rightarrow> byte list \<Rightarrow> nat \<Rightarrow> nat \<Rightarrow> nat \<Rightarrow> patch_stats \<times> 's \<Rightarrow>
     bool \<times> patch_stats \<times> 's" where
  "patch_block ops info addr old new stop sb ss st =
     (case st of (stats0, s) \<Rightarrow>
       (let sect_end = add32 sb ss; ov_start = max sb addr; ov_end = min sect_end stop; ov_len = ov_end - ov_start;
            part = (\<lambda>img. take ov_len (drop (ov_start - addr) img));
            stats = stats0\<lparr>sectors_total := add32 (sectors_total stats0) 1\<rparr>
        in if (case old of Some o' \<Rightarrow> part o' = part new | None \<Rightarrow> False) then (True, stats, s)
           else
             (case hw_flash_read ops s sb ss of
                None \<Rightarrow> (False, stats, s)
              | Some cur \<Rightarrow>
                  (if old = None \<and> take ov_len (drop (ov_start - sb) cur) = part new then (True, stats, s)
                   else
                     (let stats = stats\<lparr>sectors_changed := add32 (sectors_changed stats) 1\<rparr>;
                          want = overlay cur (ov_start - sb) (part new)
                      in if want = cur then (True, stats, s)
                         else program_block ops info sb ss want cur (stats, s))))))"

function patch_loop ::
  "'s hw_ops \<Rightarrow> flash_info \<Rightarrow> nat \<Rightarrow> byte list option \<Rightarrow> byte list \<Rightarrow> nat \<Rightarrow> nat \<Rightarrow> patch_stats \<times> 's \<Rightarrow>
     bool \<times> patch_stats \<times> 's" where
  "patch_loop ops info addr old new stop pos st =
     (if pos < stop then
        (case hw_flash_sector ops (snd st) pos of
           None \<Rightarrow> (False, st)
         | Some (sb, ss) \<Rightarrow>
             (if ss = 0 \<or> add32 sb ss \<le> pos then (False, st)
              else
                (case patch_block ops info addr old new stop sb ss st of
                   (False, st) \<Rightarrow> (False, st)
                 | (True, st) \<Rightarrow> patch_loop ops info addr old new stop (add32 sb ss) st)))
      else (True, st))"
  by pat_completeness auto
termination by (relation "measure (\<lambda>(ops, info, addr, old, new, stop, pos, st). stop - pos)") auto

declare patch_loop.simps [simp del]

definition hw_flash_patch ::
  "'s hw_ops \<Rightarrow> 's \<Rightarrow> nat \<Rightarrow> byte list option \<Rightarrow> byte list \<Rightarrow> bool \<times> patch_stats \<times> 's" where
  "hw_flash_patch ops s addr old new =
     (if new = [] then (True, no_stats, s)
      else if op_flash_erase ops = None \<or> op_flash_write ops = None then (False, no_stats, s)
      else
        (case hw_flash_info ops s of
           None \<Rightarrow> (False, no_stats, s)
         | Some info \<Rightarrow>
             (if \<not> flash_range_ok info addr (length new) then (False, no_stats, s)
              else
                (case flash_halt_target ops s of
                   (False, s) \<Rightarrow> (False, no_stats, s)
                 | (True, s) \<Rightarrow>
                     (case patch_loop ops info addr old new (add32 addr (length new)) addr (no_stats, s) of
                        (False, st) \<Rightarrow> (False, st)
                      | (True, st) \<Rightarrow> (hw_flash_verify ops (snd st) addr new, st))))))"

end
