(* ===== verification/FlashSpec.thy ===== *)
theory FlashSpec
  imports FlashCore
begin

text \<open>
  What a backend owes to the composite operations of \<open>FlashCore\<close>, as a locale: the contents of
  the flash as a function of the address, reads that return it, writes that can only clear bits
  and an erase that sets one block.  The correctness of \<open>hw_flash_update\<close> and \<open>hw_flash_patch\<close>
  is proved once, from these laws.
\<close>

section \<open>Generic lemmas\<close>

lemma length_overlay [simp]: "k + length ys \<le> length xs \<Longrightarrow> length (overlay xs k ys) = length xs"
  by (simp add: overlay_def)

lemma overlay_nth:
  assumes "k + length ys \<le> length xs" "i < length xs"
  shows "overlay xs k ys ! i = (if k \<le> i \<and> i < k + length ys then ys ! (i - k) else xs ! i)"
  using assms by (auto simp: overlay_def nth_append min_def)

lemma lo_from_bound: "lo_from want cur \<le> length want \<and> lo_from want cur \<le> length cur"
  by (induction want cur rule: lo_from.induct) auto

lemma lo_from_same: "i < lo_from want cur \<Longrightarrow> want ! i = cur ! i"
proof (induction want cur arbitrary: i rule: lo_from.induct)
  case (1 w want c cur)
  then show ?case by (cases i) (auto split: if_splits)
qed auto

lemma hi_from_bound: "hi_from want cur lo hi \<le> hi"
  by (induction want cur lo hi rule: hi_from.induct) auto

lemma hi_from_same: "hi_from want cur lo hi \<le> i \<Longrightarrow> i < hi \<Longrightarrow> want ! i = cur ! i"
proof (induction want cur lo hi rule: hi_from.induct)
  case (2 want cur lo hi)
  then show ?case by (cases "i = hi") (auto split: if_splits)
qed simp

lemma hi_from_ge: "lo \<le> hi \<Longrightarrow> lo \<le> hi_from want cur lo hi"
  by (induction want cur lo hi rule: hi_from.induct) auto

lemma round_up_dvd: "0 < (a::nat) \<Longrightarrow> a dvd n + (a - n mod a) mod a"
proof (cases "n mod a = 0")
  case False
  assume a: "0 < a"
  then have "(a - n mod a) mod a = a - n mod a" using False by simp
  moreover have "n + (a - n mod a) = a * (n div a) + a"
    using a mult_div_mod_eq [of a n] mod_less_divisor [OF a, of n] by linarith
  ultimately show ?thesis by simp
qed auto

lemma add32_id: "a + b < 2 ^ 32 \<Longrightarrow> add32 a b = a + b"
  by (simp add: add32_def)

lemma write_span_ok:
  assumes "write_span align ss want cur = (lo, hi)" "0 < align" "align dvd ss" "length want = ss" "length cur = ss"
  shows "lo \<le> hi" "hi \<le> ss" "align dvd lo" "align dvd hi" "\<And>i. i < ss \<Longrightarrow> \<not> (lo \<le> i \<and> i < hi) \<Longrightarrow> want ! i = cur ! i"
proof -
  let ?l = "lo_from want cur"
  let ?h = "hi_from want cur ?l ss"
  let ?u = "?h + (align - ?h mod align) mod align"
  have lo: "lo = ?l - ?l mod align" and hi: "hi = min ss ?u"
    using assms(1,3) by (auto simp: write_span_def Let_def)
  have b: "?l \<le> ss" "?l \<le> ?h" "?h \<le> ss"
    using lo_from_bound [of want cur] hi_from_bound [of want cur ?l ss] hi_from_ge [of ?l ss want cur] assms(4) by auto
  have "lo \<le> ?l" "?h \<le> ?u" by (simp_all add: lo)
  with b show "lo \<le> hi" unfolding hi by linarith
  show "hi \<le> ss" by (simp add: hi)
  show "align dvd lo" by (simp add: lo dvd_minus_mod)
  show "align dvd hi" using round_up_dvd [OF assms(2), of ?h] assms(3) by (simp add: hi min_def)
  show "want ! i = cur ! i" if "i < ss" "\<not> (lo \<le> i \<and> i < hi)" for i
  proof -
    have "i < ?l \<or> ?h \<le> i" using that b by (auto simp: lo hi)
    with that(1) lo_from_same [of i want cur] hi_from_same [of want cur ?l ss i] show ?thesis by blast
  qed
qed

section \<open>The laws\<close>

definition in_flash :: "flash_info \<Rightarrow> nat \<Rightarrow> bool" where
  "in_flash info a \<longleftrightarrow> fi_base info \<le> a \<and> a < fi_base info + fi_size info"

definition upd_range :: "(nat \<Rightarrow> byte) \<Rightarrow> nat \<Rightarrow> byte list \<Rightarrow> nat \<Rightarrow> byte" where
  "upd_range f addr d a = (if addr \<le> a \<and> a < addr + length d then d ! (a - addr) else f a)"

locale nor_flash =
  fixes ops :: "'s hw_ops" and ok :: "'s \<Rightarrow> bool" and mem :: "'s \<Rightarrow> nat \<Rightarrow> byte"
    and info :: flash_info and sector :: "nat \<Rightarrow> nat \<times> nat"
  assumes geometry: "fi_base info + fi_size info < 2 ^ 32" "0 < fi_write_align info"
    and programmable: "op_flash_erase ops \<noteq> None" "op_flash_write ops \<noteq> None"
    and info_law: "ok s \<Longrightarrow> hw_flash_info ops s = Some info"
    and sector_law: "ok s \<Longrightarrow> in_flash info a \<Longrightarrow> hw_flash_sector ops s a = Some (sector a)"
    and sector_bounds: "in_flash info a \<Longrightarrow> sector a = (sb, ss) \<Longrightarrow> sb \<le> a \<and> a < sb + ss \<and> fi_base info \<le> sb \<and>
      sb + ss \<le> fi_base info + fi_size info \<and> fi_write_align info dvd sb \<and> fi_write_align info dvd ss"
    and read_law: "ok s \<Longrightarrow> flash_range_ok info a n \<Longrightarrow> hw_flash_read ops s a n = Some (map (mem s) [a..<a + n])"
    and write_law: "ok s \<Longrightarrow> flash_range_ok info a (length d) \<Longrightarrow> fi_write_align info dvd a \<Longrightarrow>
      fi_write_align info dvd length d \<Longrightarrow> \<exists>s'. hw_flash_write ops s a d = (True, s') \<and> ok s' \<and>
        (\<forall>b. mem s' b = (if a \<le> b \<and> b < a + length d then mem s b AND d ! (b - a) else mem s b))"
    and erase_law: "ok s \<Longrightarrow> in_flash info a \<Longrightarrow> sector a = (sb, ss) \<Longrightarrow>
      \<exists>s'. hw_flash_erase ops s sb ss = (True, s') \<and> ok s' \<and>
        (\<forall>b. mem s' b = (if sb \<le> b \<and> b < sb + ss then - 1 else mem s b))"
    and halt_law: "ok s \<Longrightarrow> \<exists>s'. flash_halt_target ops s = (True, s') \<and> ok s' \<and> mem s' = mem s"
begin

lemma range_ok_iff:
  "flash_range_ok info a n \<longleftrightarrow> 0 < n \<and> fi_base info \<le> a \<and> a + n \<le> fi_base info + fi_size info"
  by (auto simp: flash_range_ok_def)

text \<open>Rewriting one block: erased first, it then holds exactly what was written.\<close>

lemma erase_write:
  assumes "ok s" "in_flash info a" "sector a = (sb, ss)" "length page = ss"
  shows "\<exists>s1 s'. hw_flash_erase ops s sb ss = (True, s1) \<and> hw_flash_write ops s1 sb page = (True, s') \<and> ok s' \<and>
    mem s' = upd_range (mem s) sb page"
proof -
  note b = sector_bounds [OF assms(2,3)]
  obtain s1 where s1: "hw_flash_erase ops s sb ss = (True, s1)" "ok s1"
    "\<forall>b. mem s1 b = (if sb \<le> b \<and> b < sb + ss then - 1 else mem s b)" using erase_law [OF assms(1-3)] by blast
  have "flash_range_ok info sb (length page)" using b assms(4) by (auto simp: range_ok_iff)
  with write_law [OF s1(2) this] b assms(4) obtain s' where s': "hw_flash_write ops s1 sb page = (True, s')" "ok s'"
    "\<forall>b. mem s' b = (if sb \<le> b \<and> b < sb + length page then mem s1 b AND page ! (b - sb) else mem s1 b)" by blast
  have "mem s' = upd_range (mem s) sb page" using s1(3) s'(3) assms(4) by (auto simp: fun_eq_iff upd_range_def)
  with s1(1) s' show ?thesis by blast
qed

text \<open>Programming one block, with or without an erase.\<close>

lemma program_block_effect:
  assumes "ok s" "in_flash info a" "sector a = (sb, ss)" "length want = ss"
    and cur: "cur = map (mem s) [sb..<sb + ss]"
  shows "\<exists>st s'. program_block ops info sb ss want cur (st0, s) = (True, st, s') \<and> ok s' \<and>
    mem s' = upd_range (mem s) sb want \<and> sectors_total st = sectors_total st0 \<and> sectors_changed st = sectors_changed st0 \<and>
    sectors_erased st = (if need_erase want cur then add32 (sectors_erased st0) 1 else sectors_erased st0)"
proof (cases "need_erase want cur")
  case True
  from erase_write [OF assms(1-4)] obtain s1 s' where "hw_flash_erase ops s sb ss = (True, s1)"
    "hw_flash_write ops s1 sb want = (True, s')" "ok s'" "mem s' = upd_range (mem s) sb want" by blast
  with True show ?thesis by (simp add: program_block_def)
next
  case False
  note b = sector_bounds [OF assms(2,3)]
  obtain lo hi where span: "write_span (fi_write_align info) ss want cur = (lo, hi)" by (cases "write_span (fi_write_align info) ss want cur")
  have len: "length cur = ss" by (simp add: cur)
  from b have "fi_write_align info dvd ss" by blast
  note w = write_span_ok [OF span geometry(2) this assms(4) len]
  have clear: "want ! i AND cur ! i = want ! i" if "i < ss" for i
    using False that assms(4) len by (auto simp: need_erase_def list_ex_iff set_zip)
  let ?d = "take (hi - lo) (drop lo want)"
  have ld: "length ?d = hi - lo" using w(2) assms(4) by simp
  have nth_d: "?d ! (x - (sb + lo)) = want ! (x - sb)" if "sb + lo \<le> x" "x < sb + hi" for x
    using that w(2) assms(4) by simp
  have add: "add32 sb lo = sb + lo" using b w(1,2) geometry by (intro add32_id) linarith
  have "\<exists>s'. hw_flash_write ops s (sb + lo) ?d = (True, s') \<and> ok s' \<and>
      (\<forall>x. mem s' x = (if sb + lo \<le> x \<and> x < sb + hi then mem s x AND want ! (x - sb) else mem s x))"
  proof (cases "lo = hi")
    case True
    then have "hw_flash_write ops s (sb + lo) ?d = (True, s)" using programmable(2) by (auto simp: hw_flash_write_def)
    with True assms(1) show ?thesis by auto
  next
    case False
    have r: "flash_range_ok info (sb + lo) (length ?d)" using False b w(1,2) unfolding ld by (auto simp: range_ok_iff)
    have "fi_write_align info dvd sb + lo" "fi_write_align info dvd length ?d" using b w(3,4) unfolding ld
      by (auto intro: dvd_add dvd_diff_nat)
    from write_law [OF assms(1) r this] obtain s' where "hw_flash_write ops s (sb + lo) ?d = (True, s')" "ok s'"
      "\<forall>x. mem s' x = (if sb + lo \<le> x \<and> x < sb + lo + length ?d then mem s x AND ?d ! (x - (sb + lo)) else mem s x)"
      by blast
    moreover have "sb + lo + length ?d = sb + hi" using w(1) by (simp only: ld)
    ultimately show ?thesis using nth_d by (intro exI [of _ s']) auto
  qed
  then obtain s' where s': "hw_flash_write ops s (sb + lo) ?d = (True, s')" "ok s'"
    "\<forall>x. mem s' x = (if sb + lo \<le> x \<and> x < sb + hi then mem s x AND want ! (x - sb) else mem s x)" by blast
  have "mem s' x = upd_range (mem s) sb want x" for x
  proof (cases "sb \<le> x \<and> x < sb + ss")
    case True
    then have i: "x - sb < ss" and "cur ! (x - sb) = mem s x" by (auto simp: cur)
    moreover have "sb + lo \<le> x \<and> x < sb + hi \<longleftrightarrow> lo \<le> x - sb \<and> x - sb < hi" using True by auto
    moreover have "upd_range (mem s) sb want x = want ! (x - sb)" using True assms(4) by (simp add: upd_range_def)
    ultimately show ?thesis using clear [OF i] w(5) [OF i] s'(3) by (auto simp: and.commute)
  next
    case False
    with s'(3) w(1,2) assms(4) show ?thesis by (auto simp: upd_range_def)
  qed
  with s'(1,2) False span add show ?thesis by (simp add: program_block_def fun_eq_iff)
qed

end

section \<open>One block of the region\<close>

lemma if_or: "(if a \<or> b then x else y) = (if a then x else if b then x else y)"
  by simp

lemma eq_by_offset:
  assumes "length u = n" "length v = n"
  shows "u = v \<longleftrightarrow> (\<forall>x. m \<le> x \<and> x < m + n \<longrightarrow> u ! (x - m) = v ! (x - m))"
proof
  assume *: "\<forall>x. m \<le> x \<and> x < m + n \<longrightarrow> u ! (x - m) = v ! (x - m)"
  have "u ! i = v ! i" if "i < n" for i using *[rule_format, of "m + i"] that by simp
  with assms show "u = v" by (simp add: list_eq_iff_nth_eq)
qed simp

context nor_flash
begin

text \<open>
  A block that meets the region: the part of the region in it, and the image of the block with
  that part in place.
\<close>

lemma block_part:
  assumes "in_flash info pos" "sector pos = (sb, ss)" "addr \<le> pos" "pos < addr + length d"
    and "addr + length d \<le> fi_base info + fi_size info"
  shows "add32 sb ss = sb + ss" "add32 addr (length d) = addr + length d" "max sb addr < min (sb + ss) (addr + length d)"
    "sb \<le> max sb addr" "min (sb + ss) (addr + length d) \<le> sb + ss"
    "length (take (min (sb + ss) (addr + length d) - max sb addr) (drop (max sb addr - addr) d)) =
       min (sb + ss) (addr + length d) - max sb addr"
    "\<And>x. sb \<le> x \<Longrightarrow> x < sb + ss \<Longrightarrow> addr \<le> x \<Longrightarrow> x < addr + length d \<Longrightarrow>
       take (min (sb + ss) (addr + length d) - max sb addr) (drop (max sb addr - addr) d) ! (x - max sb addr) = d ! (x - addr)"
proof -
  note b = sector_bounds [OF assms(1,2)]
  show "add32 sb ss = sb + ss" "add32 addr (length d) = addr + length d"
    using b assms(5) geometry(1) by (simp_all add: add32_id)
  show "max sb addr < min (sb + ss) (addr + length d)" using b assms(3,4) by auto
  show "sb \<le> max sb addr" "min (sb + ss) (addr + length d) \<le> sb + ss" by simp_all
  show "length (take (min (sb + ss) (addr + length d) - max sb addr) (drop (max sb addr - addr) d)) =
       min (sb + ss) (addr + length d) - max sb addr" using b assms(3,4) by auto
  fix x
  assume "sb \<le> x" "x < sb + ss" "addr \<le> x" "x < addr + length d"
  then show "take (min (sb + ss) (addr + length d) - max sb addr) (drop (max sb addr - addr) d) ! (x - max sb addr) =
      d ! (x - addr)" by (auto simp: max_def min_def)
qed

lemma overlaid_block:
  assumes "in_flash info pos" "sector pos = (sb, ss)" "addr \<le> pos" "pos < addr + length d"
    and "addr + length d \<le> fi_base info + fi_size info" "length cur = ss"
    and agrees: "\<And>x. sb \<le> x \<Longrightarrow> x < sb + ss \<Longrightarrow> \<not> (addr \<le> x \<and> x < addr + length d) \<Longrightarrow> cur ! (x - sb) = f x"
    and want: "want = overlay cur (max sb addr - sb)
       (take (min (sb + ss) (addr + length d) - max sb addr) (drop (max sb addr - addr) d))"
  shows "length want = ss"
    "\<And>x. sb \<le> x \<Longrightarrow> x < sb + ss \<Longrightarrow> want ! (x - sb) = upd_range f addr d x"
proof -
  let ?p = "take (min (sb + ss) (addr + length d) - max sb addr) (drop (max sb addr - addr) d)"
  note b = block_part [OF assms(1-5)]
  have k: "max sb addr - sb + length ?p \<le> length cur" unfolding b(6) using b(3-5) assms(6) by linarith
  show "length want = ss" unfolding want using length_overlay [OF k] assms(6) by simp
  fix x
  assume x: "sb \<le> x" "x < sb + ss"
  have i: "x - sb < length cur" using x assms(6) by simp
  show "want ! (x - sb) = upd_range f addr d x"
  proof (cases "addr \<le> x \<and> x < addr + length d")
    case True
    then have "max sb addr - sb \<le> x - sb \<and> x - sb < max sb addr - sb + length ?p"
      and "x - sb - (max sb addr - sb) = x - max sb addr" unfolding b(6) using x by auto
    with True b(7) [OF x] overlay_nth [OF k i] show ?thesis by (simp add: want upd_range_def)
  next
    case False
    then have "\<not> (max sb addr - sb \<le> x - sb \<and> x - sb < max sb addr - sb + length ?p)" unfolding b(6) using x by auto
    with False agrees [OF x False] overlay_nth [OF k i] show ?thesis by (auto simp: want upd_range_def)
  qed
qed

lemma update_block_effect:
  assumes "ok s" "in_flash info pos" "sector pos = (sb, ss)" "addr \<le> pos" "pos < addr + length d"
    and "fi_base info \<le> addr" "addr + length d \<le> fi_base info + fi_size info"
  shows "\<exists>s'. update_block ops addr d sb ss s = (True, s') \<and> ok s' \<and>
    (\<forall>x. mem s' x = (if sb \<le> x \<and> x < sb + ss then upd_range (mem s) addr d x else mem s x))"
proof -
  note sec = assms(2-5,7)
  note b = block_part [OF sec] and bo = sector_bounds [OF assms(2,3)]
  let ?p = "take (min (sb + ss) (addr + length d) - max sb addr) (drop (max sb addr - addr) d)"
  let ?out = "if sb < max sb addr \<or> min (sb + ss) (addr + length d) < sb + ss then hw_flash_read ops s sb ss
    else Some (replicate ss 0)"
  have rd: "hw_flash_read ops s sb ss = Some (map (mem s) [sb..<sb + ss])"
    using read_law [OF assms(1), of sb ss] bo by (auto simp: range_ok_iff)
  obtain cur where cur: "?out = Some cur" "length cur = ss"
    "\<And>x. sb \<le> x \<Longrightarrow> x < sb + ss \<Longrightarrow> \<not> (addr \<le> x \<and> x < addr + length d) \<Longrightarrow> cur ! (x - sb) = mem s x"
  proof (cases "sb < max sb addr \<or> min (sb + ss) (addr + length d) < sb + ss")
    case True
    with rd show ?thesis by (intro that [of "map (mem s) [sb..<sb + ss]"]) simp_all
  next
    case False
    then show ?thesis by (intro that [of "replicate ss 0"]) auto
  qed
  let ?w = "overlay cur (max sb addr - sb) ?p"
  have w: "length ?w = ss" "\<And>x. sb \<le> x \<Longrightarrow> x < sb + ss \<Longrightarrow> ?w ! (x - sb) = upd_range (mem s) addr d x"
    using overlaid_block [OF sec cur(2,3) refl] by blast+
  have img: "flash_build_sector_image ops s sb ss addr d = Some ?w"
    using b(3) cur(1) by (simp add: flash_build_sector_image_def Let_def b(1,2) del: max_less_iff_conj min_less_iff_conj)
  obtain s1 s' where "hw_flash_erase ops s sb ss = (True, s1)" "hw_flash_write ops s1 sb ?w = (True, s')" "ok s'"
    and m: "mem s' = upd_range (mem s) sb ?w" using erase_write [OF assms(1-3) w(1)] by blast
  with img have "update_block ops addr d sb ss s = (True, s') \<and> ok s'" by (simp add: update_block_def)
  moreover have "mem s' x = (if sb \<le> x \<and> x < sb + ss then upd_range (mem s) addr d x else mem s x)" for x
    using w by (auto simp: m upd_range_def [of "mem s" sb])
  ultimately show ?thesis by blast
qed

text \<open>
  What \<open>patch_block\<close> does with a block, in terms of the memory: \<open>C\<close> is its contents and \<open>W\<close> the contents
  it should have.
\<close>

lemma patch_block_run:
  fixes st0 :: patch_stats and s :: 's
  assumes "ok s" "in_flash info pos" "sector pos = (sb, ss)" "addr \<le> pos" "pos < addr + length d"
    and "addr + length d \<le> fi_base info + fi_size info" "\<And>o'. old = Some o' \<Longrightarrow> length o' = length d"
  defines "C \<equiv> map (mem s) [sb..<sb + ss]" and "W \<equiv> map (upd_range (mem s) addr d) [sb..<sb + ss]"
    and "st1 \<equiv> st0\<lparr>sectors_total := add32 (sectors_total st0) 1\<rparr>"
    and "st2 \<equiv> st0\<lparr>sectors_total := add32 (sectors_total st0) 1, sectors_changed := add32 (sectors_changed st0) 1\<rparr>"
  shows "patch_block ops info addr old d (addr + length d) sb ss (st0, s) =
    (if \<forall>x. sb \<le> x \<and> x < sb + ss \<and> addr \<le> x \<and> x < addr + length d \<longrightarrow>
         d ! (x - addr) = (case old of None \<Rightarrow> mem s x | Some o' \<Rightarrow> o' ! (x - addr))
     then (True, st1, s)
     else if W = C then (True, st2, s) else program_block ops info sb ss W C (st2, s))"
proof -
  note sec = assms(2-6)
  note b = block_part [OF sec] and bo = sector_bounds [OF assms(2,3)]
  let ?n = "min (sb + ss) (addr + length d) - max sb addr"
  define part where "part = (\<lambda>u::byte list. take ?n (drop (max sb addr - addr) u))"
  have in_part: "sb \<le> x \<and> x < sb + ss \<and> addr \<le> x \<and> x < addr + length d \<longleftrightarrow>
      max sb addr \<le> x \<and> x < max sb addr + ?n" for x using b(3) by auto
  have len: "length (part u) = ?n" "\<And>x. max sb addr \<le> x \<and> x < max sb addr + ?n \<Longrightarrow> part u ! (x - max sb addr) = u ! (x - addr)"
    if "length u = length d" for u
  proof -
    show "length (part u) = ?n" using that b(3) by (auto simp: part_def min_def max_def)
    fix x assume x: "max sb addr \<le> x \<and> x < max sb addr + ?n"
    then have "drop (max sb addr - addr) u ! (x - max sb addr) = u ! (x - addr)" using that b(3) by (subst nth_drop) auto
    moreover have "x - max sb addr < ?n" using x by linarith
    ultimately show "part u ! (x - max sb addr) = u ! (x - addr)" unfolding part_def by (simp only: nth_take)
  qed
  let ?c = "take ?n (drop (max sb addr - sb) C)"
  have c: "length ?c = ?n" "\<And>x. max sb addr \<le> x \<and> x < max sb addr + ?n \<Longrightarrow> ?c ! (x - max sb addr) = mem s x"
    using b(3) by (auto simp: min_def max_def C_def)
  have part_eq: "part u = part d \<longleftrightarrow> (\<forall>x. max sb addr \<le> x \<and> x < max sb addr + ?n \<longrightarrow> d ! (x - addr) = u ! (x - addr))"
    if "length u = length d" for u
    using eq_by_offset [OF len(1) [OF that] len(1) [OF refl], of "max sb addr"] len(2) [OF that] len(2) [of d] by auto
  have c_eq: "?c = part d \<longleftrightarrow> (\<forall>x. max sb addr \<le> x \<and> x < max sb addr + ?n \<longrightarrow> d ! (x - addr) = mem s x)"
    using eq_by_offset [OF c(1) len(1) [OF refl], of "max sb addr"] c(2) len(2) [of d] by auto
  have rd: "hw_flash_read ops s sb ss = Some C"
    using read_law [OF assms(1), of sb ss] bo by (auto simp: range_ok_iff C_def)
  let ?w = "overlay C (max sb addr - sb) (part d)"
  have w: "length ?w = ss" "\<And>x. sb \<le> x \<Longrightarrow> x < sb + ss \<Longrightarrow> ?w ! (x - sb) = upd_range (mem s) addr d x"
    using overlaid_block [OF sec, of C "mem s" ?w] by (simp_all add: part_def C_def)
  have W: "?w = W"
  proof (rule nth_equalityI)
    show "length ?w = length W" using w(1) by (simp add: W_def)
    show "?w ! i = W ! i" if "i < length ?w" for i using w(2) [of "sb + i"] that w(1) by (simp add: W_def)
  qed
  let ?skip1 = "case old of Some o' \<Rightarrow> part o' = part d | None \<Rightarrow> False"
  let ?skip2 = "old = None \<and> ?c = part d"
  have skip: "?skip1 \<or> ?skip2 \<longleftrightarrow> (\<forall>x. max sb addr \<le> x \<and> x < max sb addr + ?n \<longrightarrow>
      d ! (x - addr) = (case old of None \<Rightarrow> mem s x | Some o' \<Rightarrow> o' ! (x - addr)))"
    using part_eq assms(7) c_eq by (cases old) auto
  have st2: "st2 = st1\<lparr>sectors_changed := add32 (sectors_changed st1) 1\<rparr>" by (simp add: st1_def st2_def)
  have "patch_block ops info addr old d (addr + length d) sb ss (st0, s) =
      (if ?skip1 \<or> ?skip2 then (True, st1, s)
       else if ?w = C then (True, st2, s) else program_block ops info sb ss ?w C (st2, s))"
    unfolding patch_block_def part_def Let_def prod.case b(1) rd option.case(2) st2 unfolding st1_def
    by (rule if_or [symmetric])
  moreover have "(\<forall>x. sb \<le> x \<and> x < sb + ss \<and> addr \<le> x \<and> x < addr + length d \<longrightarrow> P x) \<longleftrightarrow>
      (\<forall>x. max sb addr \<le> x \<and> x < max sb addr + ?n \<longrightarrow> P x)" for P
    using in_part by blast
  ultimately show ?thesis unfolding W skip by simp
qed

lemma patch_block_effect:
  fixes st0 :: patch_stats and s :: 's
  assumes "ok s" "in_flash info pos" "sector pos = (sb, ss)" "addr \<le> pos" "pos < addr + length d"
    and "fi_base info \<le> addr" "addr + length d \<le> fi_base info + fi_size info" "\<And>o'. old = Some o' \<Longrightarrow> length o' = length d"
  obtains st s' skipped where
    "patch_block ops info addr old d (addr + length d) sb ss (st0, s) = (True, st, s')" "ok s'"
    "sectors_total st = add32 (sectors_total st0) 1"
    "skipped \<Longrightarrow> s' = s \<and> sectors_changed st = sectors_changed st0 \<and> sectors_erased st = sectors_erased st0 \<and>
       bytes_written st = bytes_written st0 \<and>
       (\<forall>x. sb \<le> x \<and> x < sb + ss \<and> addr \<le> x \<and> x < addr + length d \<longrightarrow>
          d ! (x - addr) = (case old of None \<Rightarrow> mem s x | Some o' \<Rightarrow> o' ! (x - addr)))"
    "\<not> skipped \<Longrightarrow> sectors_changed st = add32 (sectors_changed st0) 1 \<and>
       (\<forall>x. mem s' x = (if sb \<le> x \<and> x < sb + ss then upd_range (mem s) addr d x else mem s x)) \<and>
       (sectors_erased st = sectors_erased st0 \<or> sectors_erased st = add32 (sectors_erased st0) 1 \<and>
          (\<exists>x. addr \<le> x \<and> x < addr + length d \<and> sb \<le> x \<and> x < sb + ss \<and> d ! (x - addr) AND mem s x \<noteq> d ! (x - addr))) \<and>
       (\<exists>x. addr \<le> x \<and> x < addr + length d \<and> sb \<le> x \<and> x < sb + ss \<and>
          d ! (x - addr) \<noteq> (case old of None \<Rightarrow> mem s x | Some o' \<Rightarrow> o' ! (x - addr)))"
proof -
  let ?C = "map (mem s) [sb..<sb + ss]" and ?W = "map (upd_range (mem s) addr d) [sb..<sb + ss]"
  let ?st1 = "st0\<lparr>sectors_total := add32 (sectors_total st0) 1\<rparr>"
  let ?st2 = "st0\<lparr>sectors_total := add32 (sectors_total st0) 1, sectors_changed := add32 (sectors_changed st0) 1\<rparr>"
  let ?same = "\<forall>x. sb \<le> x \<and> x < sb + ss \<and> addr \<le> x \<and> x < addr + length d \<longrightarrow>
      d ! (x - addr) = (case old of None \<Rightarrow> mem s x | Some o' \<Rightarrow> o' ! (x - addr))"
  have run: "patch_block ops info addr old d (addr + length d) sb ss (st0, s) =
      (if ?same then (True, ?st1, s) else if ?W = ?C then (True, ?st2, s) else program_block ops info sb ss ?W ?C (?st2, s))"
    by (rule patch_block_run [OF assms(1-5,7,8)])
  show ?thesis
  proof (cases ?same)
    case True
    with run assms(1) show ?thesis by (intro that [of ?st1 s True]) auto
  next
    case False
    then have diff: "\<exists>x. addr \<le> x \<and> x < addr + length d \<and> sb \<le> x \<and> x < sb + ss \<and>
        d ! (x - addr) \<noteq> (case old of None \<Rightarrow> mem s x | Some o' \<Rightarrow> o' ! (x - addr))" by blast
    show ?thesis
    proof (cases "?W = ?C")
      case True
      then have "mem s x = upd_range (mem s) addr d x" if "sb \<le> x" "x < sb + ss" for x
        using that by (auto simp: map_eq_conv)
      with False True run assms(1) diff show ?thesis by (intro that [of ?st2 s False]) auto
    next
      case changed: False
      have "length ?W = ss" by simp
      from program_block_effect [OF assms(1-3) this refl, of ?st2] obtain st s' where
        p: "program_block ops info sb ss ?W ?C (?st2, s) = (True, st, s')" "ok s'" "mem s' = upd_range (mem s) sb ?W"
        "sectors_total st = sectors_total ?st2" "sectors_changed st = sectors_changed ?st2"
        "sectors_erased st = (if need_erase ?W ?C then add32 (sectors_erased ?st2) 1 else sectors_erased ?st2)" by blast
      have er: "\<exists>x. addr \<le> x \<and> x < addr + length d \<and> sb \<le> x \<and> x < sb + ss \<and> d ! (x - addr) AND mem s x \<noteq> d ! (x - addr)"
        if "need_erase ?W ?C"
      proof -
        from that obtain i where i: "i < ss" "?W ! i AND ?C ! i \<noteq> ?W ! i"
          by (auto simp: need_erase_def list_ex_iff set_zip)
        then show ?thesis by (intro exI [of _ "sb + i"]) (auto simp: upd_range_def split: if_splits)
      qed
      have m: "mem s' x = (if sb \<le> x \<and> x < sb + ss then upd_range (mem s) addr d x else mem s x)" for x
        by (auto simp: p(3) upd_range_def [of "mem s" sb])
      from False changed p er diff m run show ?thesis by (intro that [of st s' False]) auto
    qed
  qed
qed

end

section \<open>The loops over the blocks\<close>

text \<open>The old image describes the flash; programming the new one needs no bit to be set.\<close>

definition accurate :: "(nat \<Rightarrow> byte) \<Rightarrow> nat \<Rightarrow> byte list option \<Rightarrow> byte list \<Rightarrow> bool" where
  "accurate M addr old d \<longleftrightarrow>
     (\<forall>u. old = Some u \<longrightarrow> (\<forall>x. addr \<le> x \<and> x < addr + length d \<longrightarrow> u ! (x - addr) = M x))"

definition clears_only :: "(nat \<Rightarrow> byte) \<Rightarrow> nat \<Rightarrow> byte list \<Rightarrow> bool" where
  "clears_only M addr d \<longleftrightarrow> (\<forall>x. addr \<le> x \<and> x < addr + length d \<longrightarrow> d ! (x - addr) AND M x = d ! (x - addr))"

text \<open>
  The invariant of the patch loop at a position: outside the region nothing has changed; if the old
  image is accurate, the region holds the new bytes below the position and the old ones above;
  the counters are ordered, and no block was erased if only bits are cleared.
\<close>

definition patch_inv ::
  "(nat \<Rightarrow> byte) \<Rightarrow> (nat \<Rightarrow> byte) \<Rightarrow> nat \<Rightarrow> byte list option \<Rightarrow> byte list \<Rightarrow> nat \<Rightarrow> patch_stats \<Rightarrow> bool" where
  "patch_inv m M addr old d pos st \<longleftrightarrow>
     (\<forall>x. \<not> (addr \<le> x \<and> x < addr + length d) \<longrightarrow> m x = M x) \<and>
     (accurate M addr old d \<longrightarrow>
        (\<forall>x. addr \<le> x \<and> x < addr + length d \<longrightarrow> m x = (if x < pos then d ! (x - addr) else M x)) \<and>
        (clears_only M addr d \<longrightarrow> sectors_erased st = 0)) \<and>
     sectors_erased st \<le> sectors_changed st \<and> sectors_changed st \<le> sectors_total st \<and> sectors_total st + addr \<le> pos"

text \<open>What the patch does to one block: skipped, or brought up to date.\<close>

definition block_skip ::
  "(nat \<Rightarrow> byte) \<Rightarrow> nat \<Rightarrow> byte list option \<Rightarrow> byte list \<Rightarrow> nat \<Rightarrow> nat \<Rightarrow> patch_stats \<Rightarrow> patch_stats \<Rightarrow> bool" where
  "block_skip m addr old d sb ss st0 st \<longleftrightarrow>
     sectors_changed st = sectors_changed st0 \<and> sectors_erased st = sectors_erased st0 \<and> bytes_written st = bytes_written st0 \<and>
     (\<forall>x. sb \<le> x \<and> x < sb + ss \<and> addr \<le> x \<and> x < addr + length d \<longrightarrow>
        d ! (x - addr) = (case old of None \<Rightarrow> m x | Some u \<Rightarrow> u ! (x - addr)))"

definition block_write ::
  "(nat \<Rightarrow> byte) \<Rightarrow> (nat \<Rightarrow> byte) \<Rightarrow> nat \<Rightarrow> byte list option \<Rightarrow> byte list \<Rightarrow> nat \<Rightarrow> nat \<Rightarrow> patch_stats \<Rightarrow> patch_stats \<Rightarrow> bool"
where
  "block_write m m' addr old d sb ss st0 st \<longleftrightarrow>
     sectors_changed st = add32 (sectors_changed st0) 1 \<and>
     (\<forall>x. m' x = (if sb \<le> x \<and> x < sb + ss then upd_range m addr d x else m x)) \<and>
     (sectors_erased st = sectors_erased st0 \<or> sectors_erased st = add32 (sectors_erased st0) 1 \<and>
        (\<exists>x. addr \<le> x \<and> x < addr + length d \<and> sb \<le> x \<and> x < sb + ss \<and> d ! (x - addr) AND m x \<noteq> d ! (x - addr))) \<and>
     (\<exists>x. addr \<le> x \<and> x < addr + length d \<and> sb \<le> x \<and> x < sb + ss \<and>
        d ! (x - addr) \<noteq> (case old of None \<Rightarrow> m x | Some u \<Rightarrow> u ! (x - addr)))"

lemma patch_inv_skip:
  assumes inv: "patch_inv m M addr old d pos st0" and pos: "sb \<le> pos" "pos < sb + ss" "pos < 2 ^ 32 - 1"
    and tot: "sectors_total st = add32 (sectors_total st0) 1" and skip: "block_skip m addr old d sb ss st0 st"
  shows "patch_inv m M addr old d (sb + ss) st"
proof -
  have t: "sectors_total st = sectors_total st0 + 1"
    using inv pos(3) tot by (simp add: patch_inv_def add32_def)
  have st: "sectors_changed st = sectors_changed st0" "sectors_erased st = sectors_erased st0"
    and same: "\<forall>x. sb \<le> x \<and> x < sb + ss \<and> addr \<le> x \<and> x < addr + length d \<longrightarrow>
      d ! (x - addr) = (case old of None \<Rightarrow> m x | Some u \<Rightarrow> u ! (x - addr))"
    using skip by (simp_all add: block_skip_def)
  have "m x = (if x < sb + ss then d ! (x - addr) else M x)"
    if "accurate M addr old d" "addr \<le> x" "x < addr + length d" for x
  proof (cases "sb \<le> x \<and> x < sb + ss")
    case True
    have "m x = (if x < pos then d ! (x - addr) else M x)" using inv that by (auto simp: patch_inv_def)
    moreover have "d ! (x - addr) = (case old of None \<Rightarrow> m x | Some u \<Rightarrow> u ! (x - addr))" using same True that by blast
    moreover have "old = Some u \<Longrightarrow> u ! (x - addr) = M x" for u using that by (auto simp: accurate_def)
    ultimately show ?thesis using True by (cases old) auto
  next
    case False
    with inv that pos show ?thesis by (auto simp: patch_inv_def)
  qed
  with inv pos t st show ?thesis by (auto simp: patch_inv_def)
qed

lemma patch_inv_write:
  assumes inv: "patch_inv m M addr old d pos st0" and pos: "sb \<le> pos" "pos < sb + ss" "pos < 2 ^ 32 - 1"
    and tot: "sectors_total st = add32 (sectors_total st0) 1" and wr: "block_write m m' addr old d sb ss st0 st"
  shows "patch_inv m' M addr old d (sb + ss) st"
proof -
  have st: "sectors_changed st = add32 (sectors_changed st0) 1"
    and m': "\<forall>x. m' x = (if sb \<le> x \<and> x < sb + ss then upd_range m addr d x else m x)"
    and er: "sectors_erased st = sectors_erased st0 \<or> sectors_erased st = add32 (sectors_erased st0) 1 \<and>
      (\<exists>x. addr \<le> x \<and> x < addr + length d \<and> sb \<le> x \<and> x < sb + ss \<and> d ! (x - addr) AND m x \<noteq> d ! (x - addr))"
    using wr unfolding block_write_def by blast+
  have add: "add32 n (Suc 0) = Suc n" if "n \<le> sectors_total st0" for n
    using inv pos(3) that by (simp add: patch_inv_def add32_def)
  have t: "sectors_total st = sectors_total st0 + 1" "sectors_changed st = sectors_changed st0 + 1"
    using st tot inv by (auto simp: add patch_inv_def)
  have e: "sectors_erased st \<le> sectors_erased st0 + 1" using er inv by (auto simp: add patch_inv_def)
  have out: "m' x = M x" if "\<not> (addr \<le> x \<and> x < addr + length d)" for x
    using inv that m' by (auto simp: patch_inv_def upd_range_def)
  have acc: "m' x = (if x < sb + ss then d ! (x - addr) else M x)"
    if "accurate M addr old d" "addr \<le> x" "x < addr + length d" for x
    using inv that m' pos by (auto simp: patch_inv_def upd_range_def)
  have "sectors_erased st = 0" if a: "accurate M addr old d" "clears_only M addr d"
  proof -
    have "d ! (x - addr) AND m x = d ! (x - addr)" if "addr \<le> x" "x < addr + length d" for x
      using inv a that by (auto simp: patch_inv_def clears_only_def)
    with er inv a show ?thesis by (auto simp: patch_inv_def)
  qed
  with inv pos t e out acc show ?thesis by (auto simp: patch_inv_def)
qed

context nor_flash
begin

lemma update_loop_effect:
  assumes region: "fi_base info \<le> addr" "addr + length d \<le> fi_base info + fi_size info"
    and "addr \<le> pos" "ok s" "\<forall>x. addr \<le> x \<and> x < addr + length d \<and> x < pos \<longrightarrow> mem s x = d ! (x - addr)"
  shows "\<exists>s'. update_loop ops addr d (addr + length d) pos s = (True, s') \<and> ok s' \<and> mem s' = upd_range (mem s) addr d"
  using assms(3-)
proof (induction "addr + length d - pos" arbitrary: pos s rule: less_induct)
  case less
  show ?case
  proof (cases "pos < addr + length d")
    case True
    with less.prems(1) region have inf: "in_flash info pos" by (simp add: in_flash_def)
    obtain sb ss where sec: "sector pos = (sb, ss)" by (cases "sector pos")
    note b = sector_bounds [OF inf sec] and add = block_part(1) [OF inf sec less.prems(1) True region(2)]
    obtain s1 where s1: "update_block ops addr d sb ss s = (True, s1)" "ok s1"
      "\<forall>x. mem s1 x = (if sb \<le> x \<and> x < sb + ss then upd_range (mem s) addr d x else mem s x)"
      using update_block_effect [OF less.prems(2) inf sec less.prems(1) True region] by blast
    have nx: "addr + length d - (sb + ss) < addr + length d - pos" using b True by auto
    have pre: "\<forall>x. addr \<le> x \<and> x < addr + length d \<and> x < sb + ss \<longrightarrow> mem s1 x = d ! (x - addr)"
      using s1(3) less.prems(3) b by (auto simp: upd_range_def)
    have "addr \<le> sb + ss" using b less.prems(1) by auto
    from less.hyps [OF nx this s1(2) pre] obtain s' where
      s': "update_loop ops addr d (addr + length d) (sb + ss) s1 = (True, s')" "ok s'" "mem s' = upd_range (mem s1) addr d"
      by blast
    have "mem s' = upd_range (mem s) addr d" unfolding s'(3) using s1(3) by (auto simp: fun_eq_iff upd_range_def)
    with True sector_law [OF less.prems(2) inf] sec s1(1) s'(1,2) b add show ?thesis
      by (auto simp: update_loop.simps [of ops addr d _ pos])
  next
    case False
    then have "mem s = upd_range (mem s) addr d" using less.prems(3) by (auto simp: fun_eq_iff upd_range_def)
    with False less.prems(2) show ?thesis by (simp add: update_loop.simps)
  qed
qed

lemma patch_block_cases:
  assumes "ok s" "in_flash info pos" "sector pos = (sb, ss)" "addr \<le> pos" "pos < addr + length d"
    and "fi_base info \<le> addr" "addr + length d \<le> fi_base info + fi_size info" "\<And>u. old = Some u \<Longrightarrow> length u = length d"
  shows "\<exists>st s'. patch_block ops info addr old d (addr + length d) sb ss (st0, s) = (True, st, s') \<and> ok s' \<and>
    sectors_total st = add32 (sectors_total st0) 1 \<and>
    (block_skip (mem s) addr old d sb ss st0 st \<and> s' = s \<or> block_write (mem s) (mem s') addr old d sb ss st0 st)"
proof (rule patch_block_effect [OF assms(1-7), where ?st0.0 = st0 and old = old], goal_cases)
  case (1 u)
  then show ?case by (rule assms(8))
next
  case (2 st s' skipped)
  then show ?case unfolding block_skip_def block_write_def by (cases skipped) blast+
qed

lemma patch_loop_effect:
  assumes region: "fi_base info \<le> addr" "addr + length d \<le> fi_base info + fi_size info"
    and old: "\<And>u. old = Some u \<Longrightarrow> length u = length d"
    and "addr \<le> pos" "ok s" "patch_inv (mem s) M addr old d pos st"
  shows "\<exists>st' s' pos'. patch_loop ops info addr old d (addr + length d) pos (st, s) = (True, st', s') \<and> ok s' \<and>
    addr + length d \<le> pos' \<and> patch_inv (mem s') M addr old d pos' st'"
  using assms(4-)
proof (induction "addr + length d - pos" arbitrary: pos st s rule: less_induct)
  case less
  show ?case
  proof (cases "pos < addr + length d")
    case True
    with less.prems(1) region have inf: "in_flash info pos" by (simp add: in_flash_def)
    obtain sb ss where sec: "sector pos = (sb, ss)" by (cases "sector pos")
    note b = sector_bounds [OF inf sec] and add = block_part(1) [OF inf sec less.prems(1) True region(2)]
    obtain st1 s1 where p: "patch_block ops info addr old d (addr + length d) sb ss (st, s) = (True, st1, s1)"
      and s1: "ok s1" and tot: "sectors_total st1 = add32 (sectors_total st) 1"
      and eff: "block_skip (mem s) addr old d sb ss st st1 \<and> s1 = s \<or> block_write (mem s) (mem s1) addr old d sb ss st st1"
      using patch_block_cases [OF less.prems(2) inf sec less.prems(1) True region, where old = old and ?st0.0 = st] old by blast
    have small: "pos < 2 ^ 32 - 1" using True region geometry(1) by linarith
    have inv1: "patch_inv (mem s1) M addr old d (sb + ss) st1"
      using eff patch_inv_skip [OF less.prems(3) _ _ small tot] patch_inv_write [OF less.prems(3) _ _ small tot] b by blast
    have nx: "addr + length d - (sb + ss) < addr + length d - pos" using b True by auto
    have "addr \<le> sb + ss" using b less.prems(1) by auto
    from less.hyps [OF nx this s1 inv1] obtain st' s' pos' where
      "patch_loop ops info addr old d (addr + length d) (sb + ss) (st1, s1) = (True, st', s')" "ok s'"
      "addr + length d \<le> pos'" "patch_inv (mem s') M addr old d pos' st'" by blast
    with True sector_law [OF less.prems(2) inf] sec p b add show ?thesis
      by (auto simp: patch_loop.simps [of ops info addr old d _ pos])
  next
    case False
    with less.prems show ?thesis
      by (intro exI [of _ st] exI [of _ s] exI [of _ pos]) (simp add: patch_loop.simps)
  qed
qed

end

section \<open>Update and patch\<close>

context nor_flash
begin

lemma not_null: "(op_flash_erase ops = None) = False" "(op_flash_write ops = None) = False"
  using programmable by simp_all

lemma region_bounds:
  assumes "flash_range_ok info addr (length d)"
  shows "d \<noteq> []" "fi_base info \<le> addr" "addr + length d \<le> fi_base info + fi_size info"
    "add32 addr (length d) = addr + length d"
  using assms geometry(1) by (auto simp: range_ok_iff add32_id)

lemma verify_iff_mem:
  assumes "ok s" "flash_range_ok info addr (length d)"
  shows "hw_flash_verify ops s addr d \<longleftrightarrow> (\<forall>x. addr \<le> x \<and> x < addr + length d \<longrightarrow> mem s x = d ! (x - addr))"
proof -
  have "hw_flash_verify ops s addr d \<longleftrightarrow> map (mem s) [addr..<addr + length d] = d"
    using read_law [OF assms] region_bounds(1) [OF assms(2)] by (simp add: hw_flash_verify_def)
  also have "\<dots> \<longleftrightarrow> (\<forall>x. addr \<le> x \<and> x < addr + length d \<longrightarrow> map (mem s) [addr..<addr + length d] ! (x - addr) = d ! (x - addr))"
    by (rule eq_by_offset) simp_all
  finally show ?thesis by auto
qed

lemma update_exact:
  assumes "ok s" "flash_range_ok info addr (length d)"
  shows "\<exists>s'. hw_flash_update ops s addr d = (True, s') \<and> ok s' \<and> mem s' = upd_range (mem s) addr d"
proof -
  note r = region_bounds [OF assms(2)]
  obtain s1 where h: "flash_halt_target ops s = (True, s1)" "ok s1" "mem s1 = mem s" using halt_law [OF assms(1)] by blast
  have "\<forall>x. addr \<le> x \<and> x < addr + length d \<and> x < addr \<longrightarrow> mem s1 x = d ! (x - addr)" by auto
  from update_loop_effect [OF r(2,3) le_refl h(2) this] obtain s' where
    s': "update_loop ops addr d (addr + length d) addr s1 = (True, s')" "ok s'" "mem s' = upd_range (mem s1) addr d" by blast
  have "hw_flash_verify ops s' addr d" unfolding verify_iff_mem [OF s'(2) assms(2)] by (simp add: s'(3) upd_range_def)
  with s' h r assms(2) info_law [OF assms(1)] show ?thesis by (simp add: hw_flash_update_def not_null)
qed

lemma update_rejects:
  assumes "ok s" "d \<noteq> []" "\<not> flash_range_ok info addr (length d)"
  shows "hw_flash_update ops s addr d = (False, s)" "hw_flash_patch ops s addr old d = (False, no_stats, s)"
  using assms info_law [OF assms(1)] by (simp_all add: hw_flash_update_def hw_flash_patch_def not_null)

lemma patch_run:
  assumes "ok s" "flash_range_ok info addr (length d)" "\<And>u. old = Some u \<Longrightarrow> length u = length d"
  shows "\<exists>st s' pos. hw_flash_patch ops s addr old d = (hw_flash_verify ops s' addr d, st, s') \<and> ok s' \<and>
    addr + length d \<le> pos \<and> patch_inv (mem s') (mem s) addr old d pos st"
proof -
  note r = region_bounds [OF assms(2)]
  obtain s1 where h: "flash_halt_target ops s = (True, s1)" "ok s1" "mem s1 = mem s" using halt_law [OF assms(1)] by blast
  have "patch_inv (mem s1) (mem s) addr old d addr no_stats" by (simp add: patch_inv_def h(3) no_stats_def)
  from patch_loop_effect [OF r(2,3) assms(3) le_refl h(2) this] obtain st s' pos where
    "patch_loop ops info addr old d (addr + length d) addr (no_stats, s1) = (True, st, s')" "ok s'"
    "addr + length d \<le> pos" "patch_inv (mem s') (mem s) addr old d pos st" by blast
  with h r assms(2) info_law [OF assms(1)] show ?thesis
    by (intro exI [of _ st] exI [of _ s'] exI [of _ pos]) (simp add: hw_flash_patch_def not_null)
qed

text \<open>With an accurate old image, or none, a patch is an update that erases only where it must.\<close>

lemma patch_exact:
  assumes "ok s" "flash_range_ok info addr (length d)" "\<And>u. old = Some u \<Longrightarrow> length u = length d" "accurate (mem s) addr old d"
  shows "\<exists>st s'. hw_flash_patch ops s addr old d = (True, st, s') \<and> ok s' \<and> mem s' = upd_range (mem s) addr d \<and>
    (clears_only (mem s) addr d \<longrightarrow> sectors_erased st = 0)"
proof -
  obtain st s' pos where p: "hw_flash_patch ops s addr old d = (hw_flash_verify ops s' addr d, st, s')" "ok s'"
    "addr + length d \<le> pos" "patch_inv (mem s') (mem s) addr old d pos st" using patch_run [OF assms(1-3)] by blast
  have m: "mem s' = upd_range (mem s) addr d"
    using p(3,4) assms(4) by (auto simp: fun_eq_iff patch_inv_def upd_range_def)
  have "hw_flash_verify ops s' addr d" unfolding verify_iff_mem [OF p(2) assms(2)] by (simp add: m upd_range_def)
  moreover have "clears_only (mem s) addr d \<longrightarrow> sectors_erased st = 0" using p(4) assms(4) by (simp add: patch_inv_def)
  ultimately show ?thesis using p(1,2) m by auto
qed

text \<open>Whatever old image is passed, a patch that reports success has done its work.\<close>

lemma patch_sound:
  assumes "ok s" "flash_range_ok info addr (length d)" "\<And>u. old = Some u \<Longrightarrow> length u = length d"
  shows "\<exists>b st s'. hw_flash_patch ops s addr old d = (b, st, s') \<and> ok s' \<and>
    (b \<longleftrightarrow> mem s' = upd_range (mem s) addr d) \<and> (\<forall>x. \<not> (addr \<le> x \<and> x < addr + length d) \<longrightarrow> mem s' x = mem s x) \<and>
    sectors_erased st \<le> sectors_changed st \<and> sectors_changed st \<le> sectors_total st"
proof -
  obtain st s' pos where p: "hw_flash_patch ops s addr old d = (hw_flash_verify ops s' addr d, st, s')" "ok s'"
    "patch_inv (mem s') (mem s) addr old d pos st" using patch_run [OF assms] by blast
  have o: "\<forall>x. \<not> (addr \<le> x \<and> x < addr + length d) \<longrightarrow> mem s' x = mem s x" using p(3) by (simp add: patch_inv_def)
  then have "hw_flash_verify ops s' addr d \<longleftrightarrow> mem s' = upd_range (mem s) addr d"
    unfolding verify_iff_mem [OF p(2) assms(2)] by (auto simp: fun_eq_iff upd_range_def)
  with p o show ?thesis by (auto simp: patch_inv_def)
qed

text \<open>A patch that changes nothing does nothing.\<close>

lemma patch_loop_same:
  assumes region: "fi_base info \<le> addr" "addr + length d \<le> fi_base info + fi_size info"
    and old: "\<And>u. old = Some u \<Longrightarrow> length u = length d"
    and same: "\<forall>x. addr \<le> x \<and> x < addr + length d \<longrightarrow> d ! (x - addr) = (case old of None \<Rightarrow> mem s x | Some u \<Rightarrow> u ! (x - addr))"
    and "ok s" "addr \<le> pos"
  shows "\<exists>st'. patch_loop ops info addr old d (addr + length d) pos (st, s) = (True, st', s) \<and>
    sectors_changed st' = sectors_changed st \<and> sectors_erased st' = sectors_erased st \<and> bytes_written st' = bytes_written st"
  using assms(6)
proof (induction "addr + length d - pos" arbitrary: pos st rule: less_induct)
  case less
  show ?case
  proof (cases "pos < addr + length d")
    case True
    with less.prems region have inf: "in_flash info pos" by (simp add: in_flash_def)
    obtain sb ss where sec: "sector pos = (sb, ss)" by (cases "sector pos")
    note b = sector_bounds [OF inf sec] and add = block_part(1) [OF inf sec less.prems True region(2)]
    obtain st1 s1 where p: "patch_block ops info addr old d (addr + length d) sb ss (st, s) = (True, st1, s1)"
      and eff: "block_skip (mem s) addr old d sb ss st st1 \<and> s1 = s \<or> block_write (mem s) (mem s1) addr old d sb ss st st1"
      using patch_block_cases [OF assms(5) inf sec less.prems True region, where old = old and ?st0.0 = st] old by blast
    have "\<not> block_write (mem s) (mem s1) addr old d sb ss st st1" using same unfolding block_write_def by blast
    with eff have sk: "block_skip (mem s) addr old d sb ss st st1" "s1 = s" by blast+
    have nx: "addr + length d - (sb + ss) < addr + length d - pos" using b True by auto
    have "addr \<le> sb + ss" using b less.prems by auto
    from less.hyps [OF nx this, of st1] obtain st' where
      "patch_loop ops info addr old d (addr + length d) (sb + ss) (st1, s) = (True, st', s)"
      "sectors_changed st' = sectors_changed st1" "sectors_erased st' = sectors_erased st1" "bytes_written st' = bytes_written st1"
      by blast
    with True sector_law [OF assms(5) inf] sec p sk b add show ?thesis
      by (auto simp: patch_loop.simps [of ops info addr old d _ pos] block_skip_def)
  next
    case False
    then show ?thesis by (intro exI [of _ st]) (simp add: patch_loop.simps)
  qed
qed

lemma patch_same:
  assumes "ok s" "flash_range_ok info addr (length d)" "\<And>u. old = Some u \<Longrightarrow> length u = length d"
    and same: "\<forall>x. addr \<le> x \<and> x < addr + length d \<longrightarrow> d ! (x - addr) = mem s x" and acc: "accurate (mem s) addr old d"
  shows "\<exists>st s'. hw_flash_patch ops s addr old d = (True, st, s') \<and> flash_halt_target ops s = (True, s') \<and>
    sectors_changed st = 0 \<and> sectors_erased st = 0 \<and> bytes_written st = 0"
proof -
  note r = region_bounds [OF assms(2)]
  obtain s1 where h: "flash_halt_target ops s = (True, s1)" "ok s1" "mem s1 = mem s" using halt_law [OF assms(1)] by blast
  have "\<forall>x. addr \<le> x \<and> x < addr + length d \<longrightarrow> d ! (x - addr) = (case old of None \<Rightarrow> mem s1 x | Some u \<Rightarrow> u ! (x - addr))"
    using same acc h(3) by (auto simp: accurate_def split: option.split)
  from patch_loop_same [OF r(2,3) assms(3) this h(2) le_refl, of no_stats] obtain st where
    st: "patch_loop ops info addr old d (addr + length d) addr (no_stats, s1) = (True, st, s1)"
    "sectors_changed st = 0" "sectors_erased st = 0" "bytes_written st = 0" by (auto simp: no_stats_def)
  have "hw_flash_verify ops s1 addr d" unfolding verify_iff_mem [OF h(2) assms(2)] using same h(3) by simp
  with st h(1) r assms(2) info_law [OF assms(1)] show ?thesis by (simp add: hw_flash_patch_def not_null)
qed

end

end
