(* ===== verification/PatchCost.thy ===== *)
theory PatchCost
  imports FlashSpec
begin

text \<open>
  What a patch costs.  The counters of \<open>hw_flash_patch\<close> are compared with a specification that looks
  only at the memory before and at the new image: the erase blocks the region meets, those whose contents change, those
  in which a bit has to be set, and the bytes programmed for each.
\<close>

section \<open>The cost of a block\<close>

definition block_now :: "(nat \<Rightarrow> byte) \<Rightarrow> nat \<times> nat \<Rightarrow> byte list" where
  "block_now M b = map M [fst b..<fst b + snd b]"

definition block_then :: "(nat \<Rightarrow> byte) \<Rightarrow> nat \<Rightarrow> byte list \<Rightarrow> nat \<times> nat \<Rightarrow> byte list" where
  "block_then M addr d b = map (upd_range M addr d) [fst b..<fst b + snd b]"

definition changes :: "(nat \<Rightarrow> byte) \<Rightarrow> nat \<Rightarrow> byte list \<Rightarrow> nat \<times> nat \<Rightarrow> bool" where
  "changes M addr d b \<longleftrightarrow> block_then M addr d b \<noteq> block_now M b"

definition sets_bits :: "(nat \<Rightarrow> byte) \<Rightarrow> nat \<Rightarrow> byte list \<Rightarrow> nat \<times> nat \<Rightarrow> bool" where
  "sets_bits M addr d b \<longleftrightarrow> need_erase (block_then M addr d b) (block_now M b)"

text \<open>
  A block that is erased is programmed whole, otherwise from the first to the last offset that differs, both
  widened to the write granularity.
\<close>

definition differing :: "(nat \<Rightarrow> byte) \<Rightarrow> nat \<Rightarrow> byte list \<Rightarrow> nat \<times> nat \<Rightarrow> nat set" where
  "differing M addr d b = {i. i < snd b \<and> block_then M addr d b ! i \<noteq> block_now M b ! i}"

definition programmed :: "nat \<Rightarrow> (nat \<Rightarrow> byte) \<Rightarrow> nat \<Rightarrow> byte list \<Rightarrow> nat \<times> nat \<Rightarrow> nat" where
  "programmed align M addr d b =
     (if \<not> changes M addr d b then 0
      else if sets_bits M addr d b then snd b
      else (let D = differing M addr d b in (Max D div align + 1) * align - Min D div align * align))"

definition patch_cost :: "nat \<Rightarrow> (nat \<Rightarrow> byte) \<Rightarrow> nat \<Rightarrow> byte list \<Rightarrow> (nat \<times> nat) set \<Rightarrow> patch_stats" where
  "patch_cost align M addr d B =
     \<lparr>sectors_total = card B, sectors_changed = card {b \<in> B. changes M addr d b},
      sectors_erased = card {b \<in> B. changes M addr d b \<and> sets_bits M addr d b},
      bytes_written = (\<Sum>b\<in>B. programmed align M addr d b)\<rparr>"

lemma need_erase_differs: "need_erase w c \<Longrightarrow> w \<noteq> c"
  by (auto simp: need_erase_def list_ex_iff set_zip)

lemma patch_cost_empty: "patch_cost align M addr d {} = no_stats"
  by (simp add: patch_cost_def no_stats_def)

lemma patch_cost_insert:
  assumes "finite B" "b \<notin> B"
  shows "patch_cost align M addr d (insert b B) =
    \<lparr>sectors_total = sectors_total (patch_cost align M addr d B) + 1,
     sectors_changed = sectors_changed (patch_cost align M addr d B) + (if changes M addr d b then 1 else 0),
     sectors_erased = sectors_erased (patch_cost align M addr d B) + (if changes M addr d b \<and> sets_bits M addr d b then 1 else 0),
     bytes_written = bytes_written (patch_cost align M addr d B) + programmed align M addr d b\<rparr>"
proof -
  have "{c \<in> insert b B. P c} = (if P b then insert b {c \<in> B. P c} else {c \<in> B. P c})" for P by auto
  with assms show ?thesis by (simp add: patch_cost_def)
qed

text \<open>The span the loops of the code find is that one.\<close>

lemma lo_from_differs: "lo_from w c < length w \<Longrightarrow> length w = length c \<Longrightarrow> w ! lo_from w c \<noteq> c ! lo_from w c"
  by (induction w c rule: lo_from.induct) (auto split: if_splits)

lemma hi_from_differs: "lo < hi_from w c lo hi \<Longrightarrow> w ! (hi_from w c lo hi - 1) \<noteq> c ! (hi_from w c lo hi - 1)"
  by (induction hi) (auto split: if_splits)

lemma hi_from_above: "lo < hi \<Longrightarrow> w ! lo \<noteq> c ! lo \<Longrightarrow> lo < hi_from w c lo hi"
proof (induction hi)
  case (Suc hi)
  then show ?case by (cases "lo = hi") auto
qed simp

lemma round_up_eq:
  assumes "0 < (a::nat)" "0 < h" shows "h + (a - h mod a) mod a = ((h - 1) div a + 1) * a"
proof -
  have "(a - h mod a) mod a < a" using assms(1) by simp
  moreover obtain k where k: "h + (a - h mod a) mod a = a * k" using round_up_dvd [OF assms(1)] by (rule dvdE)
  ultimately have lt: "h \<le> a * k" "a * k < h + a" by linarith+
  have "k \<noteq> 0" using lt(1) assms(2) by (cases k) simp_all
  then have "a * k = a * (k - 1) + a" by (cases k) simp_all
  with lt assms(2) have "a * (k - 1) \<le> h - 1" "h - 1 < a * (k - 1) + a" by linarith+
  then have "(h - 1) div a = k - 1" by (intro div_nat_eqI) (simp_all add: algebra_simps)
  with k \<open>k \<noteq> 0\<close> show ?thesis by simp
qed

lemma write_span_exact:
  assumes "w \<noteq> c" "length w = ss" "length c = ss" "0 < align" "align dvd ss"
  defines "D \<equiv> {i. i < ss \<and> w ! i \<noteq> c ! i}"
  shows "write_span align ss w c = (Min D div align * align, (Max D div align + 1) * align)"
proof -
  let ?lo = "lo_from w c"
  let ?hi = "hi_from w c ?lo ss"
  have "\<exists>i < ss. w ! i \<noteq> c ! i" using assms(1-3) nth_equalityI [of w c] by auto
  then have lo: "?lo < ss" using lo_from_same [of _ w c] lo_from_bound [of w c] assms(2) by (metis le_neq_implies_less)
  then have lo_in: "?lo \<in> D" using lo_from_differs [of w c] assms(2,3) by (simp add: D_def)
  have above: "?lo < ?hi" using hi_from_above [of ?lo ss w c] lo lo_in by (simp add: D_def)
  have hi: "?hi \<le> ss" by (rule hi_from_bound)
  have hi_in: "?hi - 1 \<in> D" using hi_from_differs [OF above] above hi by (simp add: D_def)
  have fin: "finite D" by (simp add: D_def)
  have "Min D = ?lo"
    by (rule Min_eqI [OF fin _ lo_in]) (use lo_from_same [of _ w c] in \<open>force simp: D_def not_less [symmetric]\<close>)
  moreover have "Max D = ?hi - 1"
  proof (rule Max_eqI [OF fin _ hi_in])
    fix i assume "i \<in> D"
    then have "\<not> ?hi \<le> i" using hi_from_same [of w c ?lo ss i] by (auto simp: D_def)
    then show "i \<le> ?hi - 1" by simp
  qed
  moreover have up: "?hi + (align - ?hi mod align) mod align = ((?hi - 1) div align + 1) * align"
    using above assms(4) by (intro round_up_eq) simp_all
  moreover have "((?hi - 1) div align + 1) * align \<le> ss"
  proof -
    obtain k where k: "ss = align * k" using assms(5) by (rule dvdE)
    have "?hi - 1 < k * align" using above hi k by (simp add: mult.commute)
    then have "(?hi - 1) div align < k" by (rule less_mult_imp_div_less)
    then have "((?hi - 1) div align + 1) * align \<le> k * align" by (intro mult_le_mono1) simp
    then show ?thesis by (simp add: k mult.commute)
  qed
  ultimately show ?thesis using assms(5)
    by (simp add: write_span_def Let_def minus_mod_eq_div_mult min_absorb2)
qed

lemma programmed_span:
  assumes "0 < align" "align dvd snd b" "changes M addr d b"
  shows "programmed align M addr d b =
    (if sets_bits M addr d b then snd b
     else (case write_span align (snd b) (block_then M addr d b) (block_now M b) of (lo, hi) \<Rightarrow> hi - lo))"
proof -
  have "length (block_then M addr d b) = snd b" "length (block_now M b) = snd b" by (simp_all add: block_then_def block_now_def)
  with write_span_exact [OF _ this assms(1,2)] assms(3) show ?thesis
    by (simp add: programmed_def differing_def changes_def Let_def)
qed

lemma programmed_le:
  assumes "0 < align" "align dvd snd b"
  shows "programmed align M addr d b \<le> snd b"
proof (cases "changes M addr d b")
  case True
  obtain lo hi where s: "write_span align (snd b) (block_then M addr d b) (block_now M b) = (lo, hi)" by fastforce
  then have "hi \<le> snd b" using write_span_ok(2) [OF s assms] by (simp add: block_then_def block_now_def)
  then have "hi - lo \<le> snd b" by simp
  with s show ?thesis by (simp add: programmed_span [OF assms True])
qed (simp add: programmed_def)

text \<open>Only the memory of the block itself matters.\<close>

lemma block_local:
  assumes "\<forall>x. fst b \<le> x \<and> x < fst b + snd b \<longrightarrow> m x = M x"
  shows "block_now m b = block_now M b" and "block_then m addr d b = block_then M addr d b"
  using assms by (auto simp: block_now_def block_then_def upd_range_def)

section \<open>The counters\<close>

text \<open>Erase blocks as a partition: every address of a block has the same block.\<close>

locale nor_blocks = nor_flash +
  assumes sector_same: "in_flash info a \<Longrightarrow> sector a = (sb, ss) \<Longrightarrow> sb \<le> x \<Longrightarrow> x < sb + ss \<Longrightarrow> sector x = (sb, ss)"
begin

lemma program_block_cost:
  assumes "program_block ops info sb ss want cur (st0, s) = (True, st, s')"
  shows "bytes_written st = add32 (bytes_written st0)
    (if need_erase want cur then ss else (case write_span (fi_write_align info) ss want cur of (lo, hi) \<Rightarrow> hi - lo))"
  using assms by (auto simp: program_block_def split: if_splits prod.splits bool.splits)

text \<open>One block, with an old image that is accurate on it.\<close>

lemma patch_block_cost:
  fixes s :: 'a
  assumes "ok s" "in_flash info pos" "sector pos = (sb, ss)" "addr \<le> pos" "pos < addr + length d"
    and "fi_base info \<le> addr" "addr + length d \<le> fi_base info + fi_size info" "\<And>u. old = Some u \<Longrightarrow> length u = length d"
    and acc: "\<And>u x. old = Some u \<Longrightarrow> sb \<le> x \<and> x < sb + ss \<Longrightarrow> addr \<le> x \<and> x < addr + length d \<Longrightarrow> u ! (x - addr) = mem s x"
  defines "b \<equiv> (sb, ss)"
  shows "\<exists>st s'. patch_block ops info addr old d (addr + length d) sb ss (st0, s) = (True, st, s') \<and> ok s' \<and>
    (\<forall>x. mem s' x = (if sb \<le> x \<and> x < sb + ss then upd_range (mem s) addr d x else mem s x)) \<and>
    st = \<lparr>sectors_total = add32 (sectors_total st0) 1,
          sectors_changed = (if changes (mem s) addr d b then add32 (sectors_changed st0) 1 else sectors_changed st0),
          sectors_erased = (if changes (mem s) addr d b \<and> sets_bits (mem s) addr d b then add32 (sectors_erased st0) 1
                            else sectors_erased st0),
          bytes_written = (if changes (mem s) addr d b
                           then add32 (bytes_written st0) (programmed (fi_write_align info) (mem s) addr d b)
                           else bytes_written st0)\<rparr>"
proof -
  let ?C = "block_now (mem s) b" and ?W = "block_then (mem s) addr d b"
  let ?st1 = "st0\<lparr>sectors_total := add32 (sectors_total st0) 1\<rparr>"
  let ?st2 = "st0\<lparr>sectors_total := add32 (sectors_total st0) 1, sectors_changed := add32 (sectors_changed st0) 1\<rparr>"
  let ?same = "\<forall>x. sb \<le> x \<and> x < sb + ss \<and> addr \<le> x \<and> x < addr + length d \<longrightarrow>
      d ! (x - addr) = (case old of None \<Rightarrow> mem s x | Some o' \<Rightarrow> o' ! (x - addr))"
  have run: "patch_block ops info addr old d (addr + length d) sb ss (st0, s) =
      (if ?same then (True, ?st1, s) else if ?W = ?C then (True, ?st2, s) else program_block ops info sb ss ?W ?C (?st2, s))"
    unfolding block_now_def block_then_def b_def fst_conv snd_conv by (rule patch_block_run [OF assms(1-5,7,8)])
  have "?same \<longleftrightarrow> (\<forall>x. sb \<le> x \<and> x < sb + ss \<and> addr \<le> x \<and> x < addr + length d \<longrightarrow> d ! (x - addr) = mem s x)"
    using acc by (cases old) auto
  also have "\<dots> \<longleftrightarrow> (\<forall>x. sb \<le> x \<and> x < sb + ss \<longrightarrow> upd_range (mem s) addr d x = mem s x)"
    by (auto simp: upd_range_def)
  also have "\<dots> \<longleftrightarrow> ?W = ?C"
    by (auto simp: block_now_def block_then_def b_def)
  finally have same: "?same \<longleftrightarrow> ?W = ?C" .
  show ?thesis
  proof (cases "?W = ?C")
    case True
    then have "\<forall>x. mem s x = (if sb \<le> x \<and> x < sb + ss then upd_range (mem s) addr d x else mem s x)"
      by (auto simp: block_now_def block_then_def b_def)
    moreover have "\<not> changes (mem s) addr d b" using True by (simp add: changes_def)
    moreover have "patch_block ops info addr old d (addr + length d) sb ss (st0, s) = (True, ?st1, s)"
      unfolding run using same True by simp
    ultimately show ?thesis using assms(1) by (intro exI [of _ ?st1] exI [of _ s]) simp
  next
    case False
    have "length ?W = ss" and "?C = map (mem s) [sb..<sb + ss]" by (simp_all add: block_now_def block_then_def b_def)
    from program_block_effect [OF assms(1-3) this, of ?st2] obtain st s' where
      p: "program_block ops info sb ss ?W ?C (?st2, s) = (True, st, s')" "ok s'" "mem s' = upd_range (mem s) sb ?W"
      "sectors_total st = sectors_total ?st2" "sectors_changed st = sectors_changed ?st2"
      "sectors_erased st = (if need_erase ?W ?C then add32 (sectors_erased ?st2) 1 else sectors_erased ?st2)" by blast
    have ch: "changes (mem s) addr d b" using False by (simp add: changes_def)
    have bytes: "bytes_written st = add32 (bytes_written st0) (programmed (fi_write_align info) (mem s) addr d b)"
      using program_block_cost [OF p(1)] programmed_span [OF geometry(2) _ ch] sector_bounds [OF assms(2,3)]
      by (simp add: sets_bits_def b_def)
    have m: "mem s' x = (if sb \<le> x \<and> x < sb + ss then upd_range (mem s) addr d x else mem s x)" for x
      by (auto simp: p(3) block_then_def b_def upd_range_def [of "mem s" sb])
    have "patch_block ops info addr old d (addr + length d) sb ss (st0, s) = (True, st, s')"
      using run same False p(1) by (simp only: if_False)
    moreover have "sets_bits (mem s) addr d b = need_erase ?W ?C" by (simp add: sets_bits_def)
    ultimately show ?thesis using p m ch bytes
      by (intro exI [of _ st] exI [of _ s'] conjI) (auto intro!: patch_stats.equality)
  qed
qed

text \<open>The blocks below a position, and the position after a block.\<close>

lemma next_block:
  assumes "in_flash info pos" "sector pos = (sb, ss)" "in_flash info (sb + ss)"
  shows "fst (sector (sb + ss)) = sb + ss"
proof -
  obtain sb2 ss2 where s2: "sector (sb + ss) = (sb2, ss2)" by (cases "sector (sb + ss)")
  note b1 = sector_bounds [OF assms(1,2)] and b2 = sector_bounds [OF assms(3) s2]
  have "\<not> sb2 < sb + ss"
  proof
    assume less: "sb2 < sb + ss"
    have "sector (sb + ss - 1) = (sb, ss)" using sector_same [OF assms(1,2), of "sb + ss - 1"] b1 by linarith
    moreover have "sector (sb + ss - 1) = (sb2, ss2)" using sector_same [OF assms(3) s2, of "sb + ss - 1"] less b2 by linarith
    ultimately have "sb2 + ss2 = sb + ss" by simp
    with b2 show False by linarith
  qed
  with b2 s2 show ?thesis by simp
qed

lemma blocks_grow:
  assumes "in_flash info pos" "sector pos = (sb, ss)" "addr \<le> pos" "pos < stop" "pos = addr \<or> sb = pos"
  shows "sector ` {addr..<min (sb + ss) stop} = insert (sb, ss) (sector ` {addr..<pos})"
    and "\<forall>x \<in> {addr..<pos}. in_flash info x \<Longrightarrow> (sb, ss) \<notin> sector ` {addr..<pos}"
proof -
  note b = sector_bounds [OF assms(1,2)]
  have split: "{addr..<min (sb + ss) stop} = {addr..<pos} \<union> {pos..<min (sb + ss) stop}"
    using assms(3,4) b by auto
  have "sector x = (sb, ss)" if "x \<in> {pos..<min (sb + ss) stop}" for x
    using sector_same [OF assms(1,2), of x] that b by auto
  moreover have "pos \<in> {pos..<min (sb + ss) stop}" using assms(4) b by auto
  ultimately have "sector ` {pos..<min (sb + ss) stop} = {(sb, ss)}" by (auto simp: image_iff)
  with split show "sector ` {addr..<min (sb + ss) stop} = insert (sb, ss) (sector ` {addr..<pos})" by (simp add: image_Un)
  assume inf: "\<forall>x \<in> {addr..<pos}. in_flash info x"
  show "(sb, ss) \<notin> sector ` {addr..<pos}"
  proof
    assume "(sb, ss) \<in> sector ` {addr..<pos}"
    then obtain x where x: "addr \<le> x" "x < pos" "sector x = (sb, ss)" by force
    with inf have "sb \<le> x" using sector_bounds [of x sb ss] by auto
    with x assms(5) show False by auto
  qed
qed

text \<open>
  The loop at a position that is the start of the region or of a block: below it the blocks are done and the
  counters are their cost; the bytes programmed so far are no more than the flash below.
\<close>

definition cost_inv ::
  "(nat \<Rightarrow> byte) \<Rightarrow> (nat \<Rightarrow> byte) \<Rightarrow> nat \<Rightarrow> byte list \<Rightarrow> nat \<Rightarrow> patch_stats \<Rightarrow> bool" where
  "cost_inv m M addr d pos st \<longleftrightarrow>
     st = patch_cost (fi_write_align info) M addr d (sector ` {addr..<min pos (addr + length d)}) \<and>
     (\<forall>x. m x = (if x < pos then upd_range M addr d x else M x)) \<and>
     (pos < addr + length d \<longrightarrow> pos = addr \<or> fst (sector pos) = pos) \<and>
     sectors_total st + addr \<le> pos \<and> sectors_changed st \<le> sectors_total st \<and> sectors_erased st \<le> sectors_total st \<and>
     bytes_written st + fi_base info \<le> pos"

lemma cost_inv_step:
  assumes region: "fi_base info \<le> addr" "addr + length d \<le> fi_base info + fi_size info"
    and pos: "addr \<le> pos" "pos < addr + length d" and sec: "sector pos = (sb, ss)"
    and inv: "cost_inv (mem s) M addr d pos st0"
    and m: "\<forall>x. mem s' x = (if sb \<le> x \<and> x < sb + ss then upd_range (mem s) addr d x else mem s x)"
    and st: "st = \<lparr>sectors_total = add32 (sectors_total st0) 1,
          sectors_changed = (if changes (mem s) addr d (sb, ss) then add32 (sectors_changed st0) 1 else sectors_changed st0),
          sectors_erased = (if changes (mem s) addr d (sb, ss) \<and> sets_bits (mem s) addr d (sb, ss)
                            then add32 (sectors_erased st0) 1 else sectors_erased st0),
          bytes_written = (if changes (mem s) addr d (sb, ss)
                           then add32 (bytes_written st0) (programmed (fi_write_align info) (mem s) addr d (sb, ss))
                           else bytes_written st0)\<rparr>"
  shows "cost_inv (mem s') M addr d (sb + ss) st"
proof -
  let ?al = "fi_write_align info" and ?b = "(sb, ss)"
  have inf: "in_flash info pos" using pos region by (simp add: in_flash_def)
  note b = sector_bounds [OF inf sec]
  have start: "pos = addr \<or> sb = pos" using inv pos(2) sec by (simp add: cost_inv_def)
  have mem: "mem s x = (if x < pos then upd_range M addr d x else M x)" for x using inv by (simp add: cost_inv_def)
  have "mem s x = M x" if "sb \<le> x" "x < sb + ss" for x
    using that start mem [of x] by (auto simp: upd_range_def)
  then have "\<forall>x. fst ?b \<le> x \<and> x < fst ?b + snd ?b \<longrightarrow> mem s x = M x" by simp
  note loc = block_local [OF this]
  have local: "changes (mem s) addr d ?b = changes M addr d ?b" "sets_bits (mem s) addr d ?b = sets_bits M addr d ?b"
    "programmed ?al (mem s) addr d ?b = programmed ?al M addr d ?b"
    by (simp_all add: changes_def sets_bits_def programmed_def differing_def loc)
  have mem': "mem s' x = (if x < sb + ss then upd_range M addr d x else M x)" for x
    using m [rule_format, of x] mem [of x] b start by (auto simp: upd_range_def)
  let ?B = "sector ` {addr..<pos}"
  have st0: "st0 = patch_cost ?al M addr d ?B" using inv pos(2) by (simp add: cost_inv_def)
  have "\<forall>x \<in> {addr..<pos}. in_flash info x" using pos region by (auto simp: in_flash_def)
  note grow = blocks_grow [OF inf sec pos start]
  have ins: "patch_cost ?al M addr d (sector ` {addr..<min (sb + ss) (addr + length d)}) =
    \<lparr>sectors_total = sectors_total st0 + 1,
     sectors_changed = sectors_changed st0 + (if changes M addr d ?b then 1 else 0),
     sectors_erased = sectors_erased st0 + (if changes M addr d ?b \<and> sets_bits M addr d ?b then 1 else 0),
     bytes_written = bytes_written st0 + programmed ?al M addr d ?b\<rparr>"
    unfolding grow(1) st0 by (rule patch_cost_insert) (simp_all add: grow(2) \<open>\<forall>x \<in> {addr..<pos}. in_flash info x\<close>)
  have prog: "programmed ?al M addr d ?b \<le> ss" using programmed_le [of ?al ?b] geometry(2) b by simp
  have none: "\<not> changes M addr d ?b \<Longrightarrow> programmed ?al M addr d ?b = 0" by (simp add: programmed_def)
  have bounds: "sectors_total st0 + addr \<le> pos" "sectors_changed st0 \<le> sectors_total st0"
    "sectors_erased st0 \<le> sectors_total st0" "bytes_written st0 + fi_base info \<le> pos"
    using inv unfolding cost_inv_def by blast+
  have top: "sb + ss < 2 ^ 32" using b geometry(1) by linarith
  have bytes: "bytes_written st0 + programmed ?al M addr d ?b + fi_base info \<le> sb + ss"
  proof (cases "sb = pos")
    case True
    then show ?thesis using bounds(4) prog by linarith
  next
    case False
    then have "pos = addr" using start by blast
    then have "bytes_written st0 = 0" unfolding st0 by (simp add: patch_cost_def)
    then show ?thesis using prog b by linarith
  qed
  have "sectors_total st0 + 1 < 2 ^ 32" using bounds(1) b top by linarith
  then have adds: "add32 (sectors_total st0) 1 = sectors_total st0 + 1" "add32 (sectors_changed st0) 1 = sectors_changed st0 + 1"
    "add32 (sectors_erased st0) 1 = sectors_erased st0 + 1"
    "add32 (bytes_written st0) (programmed ?al M addr d ?b) = bytes_written st0 + programmed ?al M addr d ?b"
    using bounds(2,3) bytes top by (simp_all add: add32_def)
  have eq: "st = patch_cost ?al M addr d (sector ` {addr..<min (sb + ss) (addr + length d)})"
    unfolding st ins local adds using none by simp
  have nxt: "fst (sector (sb + ss)) = sb + ss" if "sb + ss < addr + length d"
    using next_block [OF inf sec] that b region by (auto simp: in_flash_def)
  have "sectors_total st + addr \<le> sb + ss" "sectors_changed st \<le> sectors_total st" "sectors_erased st \<le> sectors_total st"
    "bytes_written st + fi_base info \<le> sb + ss"
    unfolding eq ins using bounds b bytes by auto
  with eq mem' nxt show ?thesis unfolding cost_inv_def by blast
qed

lemma patch_loop_cost:
  fixes s :: 'a
  assumes region: "fi_base info \<le> addr" "addr + length d \<le> fi_base info + fi_size info"
    and old: "\<And>u. old = Some u \<Longrightarrow> length u = length d" and acc: "accurate M addr old d"
    and "addr \<le> pos" "ok s" "cost_inv (mem s) M addr d pos st"
  shows "\<exists>st' s' pos'. patch_loop ops info addr old d (addr + length d) pos (st, s) = (True, st', s') \<and> ok s' \<and>
    addr + length d \<le> pos' \<and> cost_inv (mem s') M addr d pos' st'"
  using assms(5-)
proof (induction "addr + length d - pos" arbitrary: pos st s rule: less_induct)
  case less
  show ?case
  proof (cases "pos < addr + length d")
    case True
    with less.prems(1) region have inf: "in_flash info pos" by (simp add: in_flash_def)
    obtain sb ss where sec: "sector pos = (sb, ss)" by (cases "sector pos")
    note b = sector_bounds [OF inf sec] and add = block_part(1) [OF inf sec less.prems(1) True region(2)]
    have here: "u ! (x - addr) = mem s x" if "old = Some u" "sb \<le> x \<and> x < sb + ss" "addr \<le> x \<and> x < addr + length d" for u x
    proof -
      have "\<not> x < pos" using less.prems(3) True that sec by (auto simp: cost_inv_def)
      then have "mem s x = M x" using less.prems(3) by (simp add: cost_inv_def)
      with acc that show ?thesis by (simp add: accurate_def)
    qed
    from patch_block_cost [OF less.prems(2) inf sec less.prems(1) True region old here, of old st] obtain st1 s1 where
      p: "patch_block ops info addr old d (addr + length d) sb ss (st, s) = (True, st1, s1)" "ok s1"
      and inv1: "cost_inv (mem s1) M addr d (sb + ss) st1"
      using cost_inv_step [OF region less.prems(1) True sec less.prems(3)] by blast
    have nx: "addr + length d - (sb + ss) < addr + length d - pos" using b True by auto
    have "addr \<le> sb + ss" using b less.prems by auto
    from less.hyps [OF nx this p(2) inv1] obtain st' s' pos' where
      "patch_loop ops info addr old d (addr + length d) (sb + ss) (st1, s1) = (True, st', s')" "ok s'"
      "addr + length d \<le> pos'" "cost_inv (mem s') M addr d pos' st'" by blast
    with True sector_law [OF less.prems(2) inf] sec p b add show ?thesis
      by (auto simp: patch_loop.simps [of ops info addr old d _ pos])
  next
    case False
    with less.prems show ?thesis
      by (intro exI [of _ st] exI [of _ s] exI [of _ pos]) (simp add: patch_loop.simps)
  qed
qed

lemma patch_cost_exact:
  assumes "ok s" "flash_range_ok info addr (length d)" "\<And>u. old = Some u \<Longrightarrow> length u = length d" "accurate (mem s) addr old d"
  shows "\<exists>s'. hw_flash_patch ops s addr old d =
      (True, patch_cost (fi_write_align info) (mem s) addr d (sector ` {addr..<addr + length d}), s') \<and>
    ok s' \<and> mem s' = upd_range (mem s) addr d"
proof -
  note r = region_bounds [OF assms(2)]
  obtain s1 where h: "flash_halt_target ops s = (True, s1)" "ok s1" "mem s1 = mem s" using halt_law [OF assms(1)] by blast
  have "cost_inv (mem s1) (mem s) addr d addr no_stats"
    using r(2) by (auto simp: cost_inv_def h(3) patch_cost_empty upd_range_def no_stats_def)
  from patch_loop_cost [OF r(2,3) assms(3,4) le_refl h(2) this] obtain st s' pos where
    p: "patch_loop ops info addr old d (addr + length d) addr (no_stats, s1) = (True, st, s')" "ok s'"
    "addr + length d \<le> pos" "cost_inv (mem s') (mem s) addr d pos st" by blast
  have m: "mem s' = upd_range (mem s) addr d" using p(3,4) by (auto simp: fun_eq_iff cost_inv_def upd_range_def)
  have st: "st = patch_cost (fi_write_align info) (mem s) addr d (sector ` {addr..<addr + length d})"
    using p(3,4) by (simp add: cost_inv_def min_absorb2)
  have "hw_flash_verify ops s' addr d" unfolding verify_iff_mem [OF p(2) assms(2)] by (simp add: m upd_range_def)
  with p(1,2) h r assms(2) info_law [OF assms(1)] m st show ?thesis by (simp add: hw_flash_patch_def not_null)
qed

end

end
