(* ===== verification/Mock.thy ===== *)
theory Mock
  imports PatchCost
begin

text \<open>
  The in-memory backend \<open>backends/mock/hw_mock.c\<close>: registers, pages of plain memory, and a flash
  of 256 uniform 1 KB blocks with NOR semantics.  It has no sector operation of its own, so the
  uniform layout of the core is used.  It provides the laws of \<open>nor_flash\<close>.
\<close>

section \<open>State and operations\<close>

definition MOCK_FLASH_BASE :: nat where "MOCK_FLASH_BASE = 0x08000000"
definition MOCK_FLASH_SIZE :: nat where "MOCK_FLASH_SIZE = 256 * 1024"
definition MOCK_FLASH_PAGE :: nat where "MOCK_FLASH_PAGE = 1024"
definition MOCK_FLASH_ALIGN :: nat where "MOCK_FLASH_ALIGN = 4"
definition MAX_MEM_PAGES :: nat where "MAX_MEM_PAGES = 256"
definition PAGE_SIZE :: nat where "PAGE_SIZE = 4096"

lemmas mock_consts = MOCK_FLASH_BASE_def MOCK_FLASH_SIZE_def MOCK_FLASH_PAGE_def MOCK_FLASH_ALIGN_def

record mock =
  mk_regs :: "nat list"
  mk_halted :: bool
  mk_pages :: "(nat \<times> byte list) list"
  mk_flash :: "byte list"

definition mock_in_flash :: "nat \<Rightarrow> bool" where
  "mock_in_flash addr \<longleftrightarrow> MOCK_FLASH_BASE \<le> addr \<and> addr - MOCK_FLASH_BASE < MOCK_FLASH_SIZE"

definition mock_flash_range_ok :: "nat \<Rightarrow> nat \<Rightarrow> bool" where
  "mock_flash_range_ok addr len \<longleftrightarrow> len \<noteq> 0 \<and> len \<le> MOCK_FLASH_SIZE \<and> MOCK_FLASH_BASE \<le> addr \<and>
     addr - MOCK_FLASH_BASE \<le> MOCK_FLASH_SIZE - len"

text \<open>\<open>calloc\<close> and \<open>memset\<close>: the state right after connecting.\<close>

definition mock_connect :: mock where
  "mock_connect = \<lparr>mk_regs = replicate 32 0, mk_halted = True, mk_pages = [], mk_flash = replicate MOCK_FLASH_SIZE 0xFF\<rparr>"

definition page_addr :: "nat \<Rightarrow> nat" where "page_addr addr = addr - addr mod PAGE_SIZE"

text \<open>The page of an address, created if there is none and the table has room.\<close>

definition get_or_create_page :: "mock \<Rightarrow> nat \<Rightarrow> (byte list \<times> mock) option" where
  "get_or_create_page s addr =
     (case dict_get (mk_pages s) (page_addr addr) of
        Some p \<Rightarrow> Some (p, s)
      | None \<Rightarrow>
          (if MAX_MEM_PAGES \<le> length (mk_pages s) then None
           else (let p = replicate PAGE_SIZE 0
                 in Some (p, s\<lparr>mk_pages := mk_pages s @ [(page_addr addr, p)]\<rparr>))))"

definition mock_write8 :: "mock \<Rightarrow> nat \<Rightarrow> byte \<Rightarrow> bool \<times> mock" where
  "mock_write8 s addr v =
     (if mock_in_flash addr then
        (let i = addr - MOCK_FLASH_BASE in (True, s\<lparr>mk_flash := (mk_flash s)[i := mk_flash s ! i AND v]\<rparr>))
      else
        (case get_or_create_page s addr of
           None \<Rightarrow> (False, s)
         | Some (p, s) \<Rightarrow>
             (True, s\<lparr>mk_pages := dict_set (mk_pages s) (page_addr addr) (p[addr mod PAGE_SIZE := v])\<rparr>)))"

definition mock_read8 :: "mock \<Rightarrow> nat \<Rightarrow> byte option" where
  "mock_read8 s addr =
     Some (if mock_in_flash addr then mk_flash s ! (addr - MOCK_FLASH_BASE)
           else case dict_get (mk_pages s) (page_addr addr) of Some p \<Rightarrow> p ! (addr mod PAGE_SIZE) | None \<Rightarrow> 0)"

fun write_bytes :: "mock \<Rightarrow> nat \<Rightarrow> byte list \<Rightarrow> bool \<times> mock" where
  "write_bytes s addr [] = (True, s)"
| "write_bytes s addr (b # bs) =
     (case mock_write8 s addr b of (False, s) \<Rightarrow> (False, s) | (True, s) \<Rightarrow> write_bytes s (add32 addr 1) bs)"

definition mock_write32 :: "mock \<Rightarrow> nat \<Rightarrow> nat \<Rightarrow> bool \<times> mock" where
  "mock_write32 s addr v = write_bytes s addr (word_bytes v)"

definition mock_read32 :: "mock \<Rightarrow> nat \<Rightarrow> nat option" where
  "mock_read32 s addr =
     (let b = (\<lambda>k. unat (or_else (mock_read8 s (add32 addr k)) 0))
      in Some (b 0 + b 1 * 256 + b 2 * 256 ^ 2 + b 3 * 256 ^ 3))"

definition mock_read_reg :: "mock \<Rightarrow> int \<Rightarrow> nat" where
  "mock_read_reg s reg = (if reg < 0 \<or> 32 \<le> reg then 0 else mk_regs s ! nat reg)"

definition mock_write_reg :: "mock \<Rightarrow> int \<Rightarrow> nat \<Rightarrow> mock" where
  "mock_write_reg s reg v = (if reg < 0 \<or> 32 \<le> reg then s else s\<lparr>mk_regs := (mk_regs s)[nat reg := v]\<rparr>)"

definition mock_reset :: "mock \<Rightarrow> bool \<times> mock" where
  "mock_reset s = (True, s\<lparr>mk_regs := replicate 32 0, mk_halted := True\<rparr>)"

definition mock_flash_info :: "mock \<Rightarrow> flash_info option" where
  "mock_flash_info s =
     Some \<lparr>fi_base = MOCK_FLASH_BASE, fi_size = MOCK_FLASH_SIZE, fi_page_size = MOCK_FLASH_PAGE,
       fi_write_align = MOCK_FLASH_ALIGN\<rparr>"

definition mock_flash_read :: "mock \<Rightarrow> nat \<Rightarrow> nat \<Rightarrow> byte list option" where
  "mock_flash_read s addr len =
     (if len = 0 then Some []
      else if \<not> mock_flash_range_ok addr len then None
      else Some (take len (drop (addr - MOCK_FLASH_BASE) (mk_flash s))))"

definition mock_flash_write :: "mock \<Rightarrow> nat \<Rightarrow> byte list \<Rightarrow> bool \<times> mock" where
  "mock_flash_write s addr buf =
     (if buf = [] then (True, s)
      else if \<not> mock_flash_range_ok addr (length buf) then (False, s)
      else if addr mod MOCK_FLASH_ALIGN \<noteq> 0 \<or> length buf mod MOCK_FLASH_ALIGN \<noteq> 0 then (False, s)
      else
        (let k = addr - MOCK_FLASH_BASE;
             dst = take (length buf) (drop k (mk_flash s))
         in (True, s\<lparr>mk_flash := overlay (mk_flash s) k (map2 (AND) dst buf)\<rparr>)))"

definition mock_flash_erase :: "mock \<Rightarrow> nat \<Rightarrow> nat \<Rightarrow> bool \<times> mock" where
  "mock_flash_erase s addr len =
     (if len = 0 then (True, s)
      else if \<not> mock_flash_range_ok addr len then (False, s)
      else
        (let first = (addr - MOCK_FLASH_BASE) div MOCK_FLASH_PAGE * MOCK_FLASH_PAGE;
             last = min MOCK_FLASH_SIZE (((addr - MOCK_FLASH_BASE + len - 1) div MOCK_FLASH_PAGE + 1) * MOCK_FLASH_PAGE)
         in (True, s\<lparr>mk_flash := overlay (mk_flash s) first (replicate (last - first) 0xFF)\<rparr>)))"

definition mock_mass_erase :: "mock \<Rightarrow> bool \<times> mock" where
  "mock_mass_erase s = (True, s\<lparr>mk_flash := replicate MOCK_FLASH_SIZE 0xFF\<rparr>)"

definition mock_ops :: "mock hw_ops" where
  "mock_ops =
     \<lparr>op_write32 = Some mock_write32, op_write8 = Some mock_write8, op_read32 = Some mock_read32,
      op_read8 = Some mock_read8, op_board_halted = Some mk_halted,
      op_board_run = Some (\<lambda>s. (True, s\<lparr>mk_halted := False\<rparr>)),
      op_board_halt = Some (\<lambda>s. (True, s\<lparr>mk_halted := True\<rparr>)),
      op_board_step = Some (\<lambda>s. (True, s\<lparr>mk_halted := True\<rparr>)),
      op_read_reg = Some mock_read_reg, op_write_reg = Some mock_write_reg, op_board_reset = Some mock_reset,
      op_flash_info = Some mock_flash_info, op_flash_sector = None, op_flash_read = Some mock_flash_read,
      op_flash_write = Some mock_flash_write, op_flash_erase = Some mock_flash_erase,
      op_flash_mass_erase = Some mock_mass_erase\<rparr>"

section \<open>The laws of the flash\<close>

definition mock_ok :: "mock \<Rightarrow> bool" where
  "mock_ok s \<longleftrightarrow> length (mk_flash s) = MOCK_FLASH_SIZE"

definition mock_mem :: "mock \<Rightarrow> nat \<Rightarrow> byte" where
  "mock_mem s a = (if mock_in_flash a then mk_flash s ! (a - MOCK_FLASH_BASE) else 0)"

definition mock_info :: flash_info where
  "mock_info = \<lparr>fi_base = MOCK_FLASH_BASE, fi_size = MOCK_FLASH_SIZE, fi_page_size = MOCK_FLASH_PAGE,
     fi_write_align = MOCK_FLASH_ALIGN\<rparr>"

definition mock_sector :: "nat \<Rightarrow> nat \<times> nat" where
  "mock_sector a = (MOCK_FLASH_BASE + (a - MOCK_FLASH_BASE) div MOCK_FLASH_PAGE * MOCK_FLASH_PAGE, MOCK_FLASH_PAGE)"

lemma mock_range: "mock_flash_range_ok a n = flash_range_ok mock_info a n"
  by (simp add: mock_flash_range_ok_def flash_range_ok_def mock_info_def)

lemma range_mock_iff: "flash_range_ok mock_info a n \<longleftrightarrow> 0 < n \<and> MOCK_FLASH_BASE \<le> a \<and> a + n \<le> MOCK_FLASH_BASE + MOCK_FLASH_SIZE"
  by (auto simp: flash_range_ok_def mock_info_def)

lemma mock_in_flash_iff: "mock_in_flash a \<longleftrightarrow> MOCK_FLASH_BASE \<le> a \<and> a < MOCK_FLASH_BASE + MOCK_FLASH_SIZE"
  by (auto simp: mock_in_flash_def)

text \<open>The contents after a overlay into the flash.\<close>

lemma mock_mem_overlay:
  assumes "mock_ok s" "MOCK_FLASH_BASE \<le> a" "a + length d \<le> MOCK_FLASH_BASE + MOCK_FLASH_SIZE"
  shows "mock_ok (s\<lparr>mk_flash := overlay (mk_flash s) (a - MOCK_FLASH_BASE) d\<rparr>)"
    "mock_mem (s\<lparr>mk_flash := overlay (mk_flash s) (a - MOCK_FLASH_BASE) d\<rparr>) = upd_range (mock_mem s) a d"
proof -
  let ?k = "a - MOCK_FLASH_BASE"
  have len: "?k + length d \<le> length (mk_flash s)" using assms by (simp add: mock_ok_def)
  then show "mock_ok (s\<lparr>mk_flash := overlay (mk_flash s) ?k d\<rparr>)" using assms(1) by (simp add: mock_ok_def)
  have "mock_mem (s\<lparr>mk_flash := overlay (mk_flash s) ?k d\<rparr>) x = upd_range (mock_mem s) a d x" for x
  proof (cases "mock_in_flash x")
    case True
    then have i: "x - MOCK_FLASH_BASE < length (mk_flash s)" using assms(1) by (simp add: mock_in_flash_def mock_ok_def)
    have "?k \<le> x - MOCK_FLASH_BASE \<and> x - MOCK_FLASH_BASE < ?k + length d \<longleftrightarrow> a \<le> x \<and> x < a + length d"
      "a \<le> x \<Longrightarrow> x - MOCK_FLASH_BASE - ?k = x - a"
      using True assms(2) by (auto simp: mock_in_flash_iff)
    then show ?thesis using True overlay_nth [OF len i] by (auto simp: mock_mem_def upd_range_def)
  next
    case False
    with assms show ?thesis by (auto simp: mock_mem_def upd_range_def mock_in_flash_iff)
  qed
  then show "mock_mem (s\<lparr>mk_flash := overlay (mk_flash s) ?k d\<rparr>) = upd_range (mock_mem s) a d" by (simp add: fun_eq_iff)
qed

lemma mock_read_law:
  assumes "mock_ok s" "flash_range_ok mock_info a n"
  shows "mock_flash_read s a n = Some (map (mock_mem s) [a..<a + n])"
proof -
  note r = assms(2) [unfolded range_mock_iff]
  have "take n (drop (a - MOCK_FLASH_BASE) (mk_flash s)) = map (mock_mem s) [a..<a + n]"
    using assms(1) r by (intro nth_equalityI) (auto simp: mock_ok_def mock_mem_def mock_in_flash_iff)
  with assms(2) r show ?thesis by (simp add: mock_flash_read_def mock_range)
qed

lemma map2_nth: "i < length xs \<Longrightarrow> i < length ys \<Longrightarrow> map2 f xs ys ! i = f (xs ! i) (ys ! i)"
  by simp

lemma mock_write_law:
  assumes "mock_ok s" "flash_range_ok mock_info a (length d)" "fi_write_align mock_info dvd a"
    "fi_write_align mock_info dvd length d"
  shows "\<exists>s'. mock_flash_write s a d = (True, s') \<and> mock_ok s' \<and>
    (\<forall>b. mock_mem s' b = (if a \<le> b \<and> b < a + length d then mock_mem s b AND d ! (b - a) else mock_mem s b))"
proof -
  note r = assms(2) [unfolded range_mock_iff]
  let ?k = "a - MOCK_FLASH_BASE"
  let ?d = "map2 (AND) (take (length d) (drop ?k (mk_flash s))) d"
  let ?s = "s\<lparr>mk_flash := overlay (mk_flash s) ?k ?d\<rparr>"
  have ld: "length ?d = length d" using assms(1) r by (auto simp: mock_ok_def min_def)
  have run: "mock_flash_write s a d = (True, ?s)"
    using assms(2-4) r by (auto simp: mock_flash_write_def mock_range Let_def mock_info_def)
  have m: "mock_ok ?s" "mock_mem ?s = upd_range (mock_mem s) a ?d"
    using mock_mem_overlay [OF assms(1), of a ?d] r unfolding ld by blast+
  have "mock_mem ?s b = (if a \<le> b \<and> b < a + length d then mock_mem s b AND d ! (b - a) else mock_mem s b)" for b
  proof (cases "a \<le> b \<and> b < a + length d")
    case True
    then have "b - a < length (take (length d) (drop ?k (mk_flash s)))" "b - a < length d" using assms(1) r by (auto simp: mock_ok_def)
    then have "?d ! (b - a) = take (length d) (drop ?k (mk_flash s)) ! (b - a) AND d ! (b - a)" by (rule map2_nth)
    moreover have "take (length d) (drop ?k (mk_flash s)) ! (b - a) = mk_flash s ! (?k + (b - a))"
      using assms(1) r True by (auto simp: mock_ok_def)
    ultimately have "?d ! (b - a) = mk_flash s ! (?k + (b - a)) AND d ! (b - a)" by (simp only:)
    moreover have "mock_mem s b = mk_flash s ! (?k + (b - a))" using True r by (simp add: mock_mem_def mock_in_flash_iff)
    ultimately show ?thesis using True unfolding m(2) upd_range_def ld by simp
  next
    case False
    then show ?thesis unfolding m(2) upd_range_def ld by auto
  qed
  with run m(1) show ?thesis by blast
qed

lemma mock_erase_law:
  assumes "mock_ok s" "in_flash mock_info a" "mock_sector a = (sb, ss)"
  shows "\<exists>s'. mock_flash_erase s sb ss = (True, s') \<and> mock_ok s' \<and>
    (\<forall>b. mock_mem s' b = (if sb \<le> b \<and> b < sb + ss then - 1 else mock_mem s b))"
proof -
  let ?q = "(a - MOCK_FLASH_BASE) div MOCK_FLASH_PAGE"
  have sec: "sb = MOCK_FLASH_BASE + ?q * MOCK_FLASH_PAGE" "ss = MOCK_FLASH_PAGE" using assms(3) by (auto simp: mock_sector_def)
  have "a - MOCK_FLASH_BASE < 256 * 1024" using assms(2) by (auto simp: in_flash_def mock_info_def mock_consts)
  then have q: "?q < 256" by (simp add: MOCK_FLASH_PAGE_def less_mult_imp_div_less)
  then have top: "(?q + 1) * MOCK_FLASH_PAGE \<le> MOCK_FLASH_SIZE" by (simp add: mock_consts)
  have r: "mock_flash_range_ok sb ss" using top by (simp add: mock_range range_mock_iff sec) (simp add: mock_consts)
  have k: "sb - MOCK_FLASH_BASE = ?q * MOCK_FLASH_PAGE" by (simp add: sec)
  have "(?q * MOCK_FLASH_PAGE + MOCK_FLASH_PAGE - 1) div MOCK_FLASH_PAGE = ?q" by (simp add: MOCK_FLASH_PAGE_def)
  then have ends: "(sb - MOCK_FLASH_BASE) div MOCK_FLASH_PAGE * MOCK_FLASH_PAGE = sb - MOCK_FLASH_BASE"
    "min MOCK_FLASH_SIZE (((sb - MOCK_FLASH_BASE + ss - 1) div MOCK_FLASH_PAGE + 1) * MOCK_FLASH_PAGE) - (sb - MOCK_FLASH_BASE) = ss"
    using top unfolding k sec(2) by (simp_all add: MOCK_FLASH_PAGE_def min_absorb2)
  let ?s = "s\<lparr>mk_flash := overlay (mk_flash s) (sb - MOCK_FLASH_BASE) (replicate ss 0xFF)\<rparr>"
  have run: "mock_flash_erase s sb ss = (True, ?s)"
    using r unfolding mock_flash_erase_def Let_def ends by (simp add: mock_flash_range_ok_def)
  have "sb + ss \<le> MOCK_FLASH_BASE + MOCK_FLASH_SIZE" "MOCK_FLASH_BASE \<le> sb" using top by (simp_all add: sec)
  then have m: "mock_ok ?s" "mock_mem ?s = upd_range (mock_mem s) sb (replicate ss 0xFF)"
    using mock_mem_overlay [OF assms(1), of sb "replicate ss 0xFF"] unfolding length_replicate by blast+
  have "mock_mem ?s b = (if sb \<le> b \<and> b < sb + ss then - 1 else mock_mem s b)" for b
    unfolding m(2) upd_range_def length_replicate by auto
  with run m(1) show ?thesis by blast
qed

lemma mock_sector_law:
  assumes "in_flash mock_info a"
  shows "hw_flash_sector mock_ops s a = Some (mock_sector a)"
proof -
  have "flash_range_ok mock_info a 1" using assms by (auto simp: in_flash_def range_mock_iff) (auto simp: mock_info_def)
  moreover have "add32 MOCK_FLASH_BASE ((a - MOCK_FLASH_BASE) div MOCK_FLASH_PAGE * MOCK_FLASH_PAGE) =
      MOCK_FLASH_BASE + (a - MOCK_FLASH_BASE) div MOCK_FLASH_PAGE * MOCK_FLASH_PAGE"
    using assms div_times_less_eq_dividend [of "a - MOCK_FLASH_BASE" MOCK_FLASH_PAGE]
    by (intro add32_id) (auto simp: in_flash_def mock_info_def mock_consts)
  moreover have "hw_flash_info mock_ops s = Some mock_info"
    by (simp add: hw_flash_info_def mock_ops_def mock_flash_info_def mock_info_def mock_consts)
  ultimately show ?thesis by (simp add: hw_flash_sector_def mock_ops_def mock_sector_def mock_info_def)
qed

interpretation mock: nor_flash mock_ops mock_ok mock_mem mock_info mock_sector
proof
  show "hw_flash_read mock_ops s a n = Some (map (mock_mem s) [a..<a + n])"
    if "mock_ok s" "flash_range_ok mock_info a n" for s a n
    using mock_read_law [OF that] that by (auto simp: hw_flash_read_def mock_ops_def range_mock_iff)
  show "\<exists>s'. hw_flash_write mock_ops s a d = (True, s') \<and> mock_ok s' \<and>
      (\<forall>b. mock_mem s' b = (if a \<le> b \<and> b < a + length d then mock_mem s b AND d ! (b - a) else mock_mem s b))"
    if "mock_ok s" "flash_range_ok mock_info a (length d)" "fi_write_align mock_info dvd a"
      "fi_write_align mock_info dvd length d" for s a d
    using mock_write_law [OF that] that(2) by (auto simp: hw_flash_write_def mock_ops_def range_mock_iff)
  show "\<exists>s'. hw_flash_erase mock_ops s sb ss = (True, s') \<and> mock_ok s' \<and>
      (\<forall>b. mock_mem s' b = (if sb \<le> b \<and> b < sb + ss then - 1 else mock_mem s b))"
    if "mock_ok s" "in_flash mock_info a" "mock_sector a = (sb, ss)" for s a sb ss
    using mock_erase_law [OF that] that(3) by (auto simp: hw_flash_erase_def mock_ops_def mock_sector_def mock_consts)
  show "sb \<le> a \<and> a < sb + ss \<and> fi_base mock_info \<le> sb \<and> sb + ss \<le> fi_base mock_info + fi_size mock_info \<and>
      fi_write_align mock_info dvd sb \<and> fi_write_align mock_info dvd ss"
    if "in_flash mock_info a" "mock_sector a = (sb, ss)" for a sb ss
  proof -
    define k where "k = (a - MOCK_FLASH_BASE) div 1024"
    have a: "MOCK_FLASH_BASE \<le> a" "a - MOCK_FLASH_BASE < 262144" using that(1) by (auto simp: in_flash_def mock_info_def mock_consts)
    have s: "sb = MOCK_FLASH_BASE + k * 1024" "ss = 1024" using that(2) by (auto simp: mock_sector_def k_def MOCK_FLASH_PAGE_def)
    have "k * 1024 \<le> a - MOCK_FLASH_BASE" by (simp add: k_def)
    moreover have "a - MOCK_FLASH_BASE < k * 1024 + 1024"
      using div_mult_mod_eq [of "a - MOCK_FLASH_BASE" 1024] mod_less_divisor [of 1024 "a - MOCK_FLASH_BASE"]
      unfolding k_def by linarith
    moreover have "k < 256" using a(2) by (simp add: k_def less_mult_imp_div_less)
    moreover have "(4::nat) dvd MOCK_FLASH_BASE + k * 1024" by (intro dvd_add dvd_mult) (simp_all add: MOCK_FLASH_BASE_def)
    moreover have "MOCK_FLASH_BASE + k * 1024 \<le> a \<and> a < MOCK_FLASH_BASE + k * 1024 + 1024"
      using calculation(1,2) a(1) by linarith
    ultimately show ?thesis unfolding s by (simp add: mock_info_def MOCK_FLASH_ALIGN_def MOCK_FLASH_SIZE_def)
  qed
  show "hw_flash_sector mock_ops s a = Some (mock_sector a)" if "in_flash mock_info a" for s a
    by (rule mock_sector_law [OF that])
qed (auto simp: mock_info_def mock_ops_def hw_flash_info_def mock_flash_info_def mock_consts
    flash_halt_target_def hw_board_halted_def hw_board_halt_def mock_ok_def mock_mem_def fun_eq_iff)

text \<open>The blocks of the mock flash partition it.\<close>

interpretation mock: nor_blocks mock_ops mock_ok mock_mem mock_info mock_sector
proof
  fix a sb ss x
  assume a: "in_flash mock_info a" and sec: "mock_sector a = (sb, ss)" and x: "sb \<le> x" "x < sb + ss"
  let ?q = "(a - MOCK_FLASH_BASE) div MOCK_FLASH_PAGE"
  have "sb = MOCK_FLASH_BASE + ?q * MOCK_FLASH_PAGE" "ss = MOCK_FLASH_PAGE" using sec by (auto simp: mock_sector_def)
  then have "?q * MOCK_FLASH_PAGE \<le> x - MOCK_FLASH_BASE" "x - MOCK_FLASH_BASE < (?q + 1) * MOCK_FLASH_PAGE"
    using x by auto
  then have "(x - MOCK_FLASH_BASE) div MOCK_FLASH_PAGE = ?q" by (simp add: MOCK_FLASH_PAGE_def) linarith
  then show "mock_sector x = (sb, ss)" using sec by (simp add: mock_sector_def)
qed

end
