(* ===== verification/StateCore.thy ===== *)
theory StateCore
  imports PyStr FlashCore
begin

unbundle bit_operations_syntax

text \<open>
  The architectural state reader \<open>core/hw_state.c\<close>: looking descriptors up in the generated
  databases, reading one piece of state, identifying the target, and deciding presence from evidence.
  The generated tables are the argument \<open>dbs\<close>, the list of the entries of \<open>hw_state_databases\<close>
  before the null name.  Strings have no NUL inside; a null \<open>char*\<close> is \<open>None\<close>.
\<close>

section \<open>Data\<close>

datatype hw_ns = HW_NS_ARCH | HW_NS_CPU | HW_NS_DEBUG | HW_NS_CLUSTER | HW_NS_UNDOCUMENTED_DISCOVERED

datatype hw_acc =
  HW_ACC_MEMORY_MAPPED | HW_ACC_SPECIAL_REG | HW_ACC_CORE_REG | HW_ACC_SYSREG | HW_ACC_CP15 | HW_ACC_CSR | HW_ACC_FP_SYSREG

datatype hw_enc_kind = HW_ENC_ABSOLUTE | HW_ENC_OFFSET | HW_ENC_SYSM | HW_ENC_CORE | HW_ENC_FP_SYSREG

datatype hw_presence =
  HW_PRESENCE_UNKNOWN | HW_PRESENCE_ARCHITECTURAL | HW_PRESENCE_CONFIG_CONFIRMED | HW_PRESENCE_CONFIG_DENIED |
  HW_PRESENCE_DISCOVERED | HW_PRESENCE_DISCOVERY_ABSENT

datatype hw_read_status =
  HW_READ_NOT_ATTEMPTED | HW_READ_OK | HW_READ_BACKEND_UNSUPPORTED | HW_READ_UNSAFE | HW_READ_ACCESS_DENIED | HW_READ_FAILED

record state_desc =
  sd_name :: string
  sd_ns :: hw_ns
  sd_access :: hw_acc
  sd_encoding :: "string option"
  sd_enc_kind :: hw_enc_kind
  sd_width :: nat
  sd_readable :: bool
  sd_writable :: bool
  sd_snapshot :: bool
  sd_feature :: "string option"
  sd_component :: "string option"

record state_alias =
  sa_name :: string
  sa_target :: string
  sa_bit_offset :: nat
  sa_bit_width :: nat

record state_operation =
  so_name :: string
  so_encoding :: "string option"
  so_reason :: "string option"

record state_dbgreg =
  dr_name :: string
  dr_regsel :: nat
  dr_lsb :: nat
  dr_width :: nat

record state_component =
  sc_name :: string
  sc_base :: nat

record hw_state_db =
  db_name :: string
  db_source :: "string option"
  db_states :: "state_desc list"
  db_aliases :: "state_alias list"
  db_operations :: "state_operation list"
  db_dbgregs :: "state_dbgreg list"
  db_components :: "state_component list"

record cpu_features =
  cf_cpuid :: nat
  cf_partno :: nat
  cf_variant :: nat
  cf_revision :: nat
  cf_overlay_revision :: "string option"
  cf_revision_matches :: bool
  cf_cpu_name :: "string option"
  cf_overlay :: "string option"
  cf_fp_extension :: bool
  cf_mpu :: bool
  cf_mpu_regions :: nat
  cf_dwt_numcomp :: nat
  cf_nvic_intlinesnum :: nat

record state_result =
  sr_presence :: hw_presence
  sr_evidence :: string
  sr_read :: hw_read_status
  sr_value :: nat
  sr_value_is_zero :: bool

text \<open>
  The three backend operations used here.  A read may move the target (its clock, at least), so it
  returns the new state as well: the loop that polls \<open>S_REGRDY\<close> depends on that.  A table of backend
  operations whose reads leave the state alone gives such a target.
\<close>

record 's target =
  tg_read32 :: "'s \<Rightarrow> nat \<Rightarrow> nat option \<times> 's"
  tg_write32 :: "'s \<Rightarrow> nat \<Rightarrow> nat \<Rightarrow> bool \<times> 's"
  tg_halted :: "'s \<Rightarrow> bool"

definition hw_read32 :: "'s hw_ops \<Rightarrow> 's \<Rightarrow> nat \<Rightarrow> nat option" where
  "hw_read32 ops s addr = (case op_read32 ops of Some f \<Rightarrow> f s addr | None \<Rightarrow> None)"

definition hw_write32 :: "'s hw_ops \<Rightarrow> 's \<Rightarrow> nat \<Rightarrow> nat \<Rightarrow> bool \<times> 's" where
  "hw_write32 ops s addr v = (case op_write32 ops of Some f \<Rightarrow> f s addr v | None \<Rightarrow> (False, s))"

definition target_of :: "'s hw_ops \<Rightarrow> 's target" where
  "target_of ops =
     \<lparr>tg_read32 = (\<lambda>s addr. (hw_read32 ops s addr, s)), tg_write32 = hw_write32 ops, tg_halted = hw_board_halted ops\<rparr>"

section \<open>Looking up\<close>

fun first_some :: "('a \<Rightarrow> 'b option) \<Rightarrow> 'a list \<Rightarrow> 'b option" where
  "first_some f [] = None"
| "first_some f (x # xs) = (case f x of None \<Rightarrow> first_some f xs | Some y \<Rightarrow> Some y)"

definition find_db :: "hw_state_db list \<Rightarrow> string \<Rightarrow> hw_state_db option" where
  "find_db dbs name = find (\<lambda>d. db_name d = name) dbs"

definition hw_state_find :: "hw_state_db \<Rightarrow> string \<Rightarrow> state_desc option" where
  "hw_state_find db name = find (\<lambda>d. sd_name d = name) (db_states db)"

definition hw_state_dbgreg :: "hw_state_db \<Rightarrow> string \<Rightarrow> state_dbgreg option" where
  "hw_state_dbgreg db name = find (\<lambda>d. dr_name d = name) (db_dbgregs db)"

fun nonempty :: "string option \<Rightarrow> bool" where
  "nonempty None = False"
| "nonempty (Some s) = (s \<noteq> [])"

definition find_component :: "hw_state_db \<Rightarrow> string option \<Rightarrow> state_component option" where
  "find_component db name =
     (if nonempty name then find (\<lambda>c. Some (sc_name c) = name) (db_components db) else None)"

section \<open>Reading\<close>

text \<open>\<open>strtoul (s, NULL, 16)\<close> for a string that begins with \<open>0x\<close>, cast to 32 bits; \<open>unsigned long\<close> has 64.\<close>

definition strtoul16 :: "string \<Rightarrow> nat" where
  "strtoul16 s =
     min (2 ^ 64 - 1) (foldl (\<lambda>a c. a * 16 + or_else (digit_value 16 c) 0) 0
       (takeWhile (\<lambda>c. digit_value 16 c \<noteq> None) (drop 2 s))) mod 2 ^ 32"

definition SCS_CPUID :: nat where "SCS_CPUID = 0xE000ED00"
definition SCS_ICTR :: nat where "SCS_ICTR = 0xE000E004"
definition SCS_MPU_TYPE :: nat where "SCS_MPU_TYPE = 0xE000ED90"
definition SCS_MVFR0 :: nat where "SCS_MVFR0 = 0xE000EF40"
definition DWT_CTRL :: nat where "DWT_CTRL = 0xE0001000"
definition DCRSR_ADDR :: nat where "DCRSR_ADDR = 0xE000EDF4"
definition DCRDR_ADDR :: nat where "DCRDR_ADDR = 0xE000EDF8"
definition DHCSR_ADDR :: nat where "DHCSR_ADDR = 0xE000EDF0"

definition regrdy :: "nat \<Rightarrow> bool" where "regrdy v = odd (v div 2 ^ 16)"

text \<open>The polling loop, with the passes left and the last value read; \<open>None\<close> when a read fails.\<close>

fun poll_regrdy :: "'s target \<Rightarrow> nat \<Rightarrow> nat \<Rightarrow> 's \<Rightarrow> nat option \<times> 's" where
  "poll_regrdy tg 0 dhcsr s = (Some dhcsr, s)"
| "poll_regrdy tg (Suc n) dhcsr s =
     (case tg_read32 tg s DHCSR_ADDR of
        (None, s) \<Rightarrow> (None, s)
      | (Some v, s) \<Rightarrow> (if regrdy v then (Some v, s) else poll_regrdy tg n v s))"

definition hw_state_read_dbgreg :: "'s target \<Rightarrow> 's \<Rightarrow> state_dbgreg \<Rightarrow> nat option \<times> hw_read_status \<times> 's" where
  "hw_state_read_dbgreg tg s reg =
     (if \<not> tg_halted tg s then (None, HW_READ_UNSAFE, s)
      else
        (case tg_write32 tg s DCRSR_ADDR (dr_regsel reg) of
           (False, s) \<Rightarrow> (None, HW_READ_FAILED, s)
         | (True, s) \<Rightarrow>
             (case poll_regrdy tg 100 0 s of
                (None, s) \<Rightarrow> (None, HW_READ_FAILED, s)
              | (Some dhcsr, s) \<Rightarrow>
                  (if \<not> regrdy dhcsr then (None, HW_READ_FAILED, s)
                   else
                     (case tg_read32 tg s DCRDR_ADDR of
                        (None, s) \<Rightarrow> (None, HW_READ_FAILED, s)
                      | (Some v, s) \<Rightarrow>
                          (Some ((v div 2 ^ dr_lsb reg) mod 2 ^ min 32 (dr_width reg)), HW_READ_OK, s))))))"

definition hw_state_read :: "hw_state_db list \<Rightarrow> 's target \<Rightarrow> 's \<Rightarrow> state_desc \<Rightarrow> nat option \<times> hw_read_status \<times> 's" where
  "hw_state_read dbs tg s desc =
     (if \<not> sd_readable desc then (None, HW_READ_UNSAFE, s)
      else if sd_enc_kind desc = HW_ENC_OFFSET then (None, HW_READ_BACKEND_UNSUPPORTED, s)
      else
        (case (if sd_access desc \<noteq> HW_ACC_MEMORY_MAPPED \<or> sd_enc_kind desc \<noteq> HW_ENC_ABSOLUTE then None
               else case sd_encoding desc of None \<Rightarrow> None | Some e \<Rightarrow> (if starts_with e ''0x'' then Some e else None)) of
           None \<Rightarrow>
             (case first_some (\<lambda>db. hw_state_dbgreg db (sd_name desc)) dbs of
                Some reg \<Rightarrow> hw_state_read_dbgreg tg s reg
              | None \<Rightarrow> (None, HW_READ_BACKEND_UNSUPPORTED, s))
         | Some e \<Rightarrow>
             (case tg_read32 tg s (strtoul16 e) of
                (None, s) \<Rightarrow> (None, HW_READ_FAILED, s)
              | (Some v, s) \<Rightarrow> (Some v, HW_READ_OK, s))))"

section \<open>Identification\<close>

definition PARTNO_CORTEX_M7 :: nat where "PARTNO_CORTEX_M7 = 0xC27"
definition PARTNO_CORTEX_M4 :: nat where "PARTNO_CORTEX_M4 = 0xC24"

text \<open>What the value of CPUID alone settles.\<close>

definition features_of_cpuid :: "nat \<Rightarrow> cpu_features" where
  "features_of_cpuid v =
     (let part = (v div 2 ^ 4) mod 0x1000; var = (v div 2 ^ 20) mod 16; rev = v mod 16;
          doc = (if part = PARTNO_CORTEX_M7 then Some (''Cortex-M7'', ''cortex_m7_r0p2'', ''r0p2'', 2)
                 else if part = PARTNO_CORTEX_M4 then Some (''Cortex-M4'', ''cortex_m4_r0p0'', ''r0p0'', 0)
                 else None)
      in \<lparr>cf_cpuid = v, cf_partno = part, cf_variant = var, cf_revision = rev,
          cf_overlay_revision = map_option (\<lambda>(n, ov, r, p). r) doc,
          cf_revision_matches = (case doc of None \<Rightarrow> False | Some (n, ov, r, p) \<Rightarrow> var = 0 \<and> rev = p),
          cf_cpu_name = map_option (\<lambda>(n, ov, r, p). n) doc, cf_overlay = map_option (\<lambda>(n, ov, r, p). ov) doc,
          cf_fp_extension = False, cf_mpu = False, cf_mpu_regions = 0, cf_dwt_numcomp = 0, cf_nvic_intlinesnum = 0\<rparr>)"

text \<open>A further identification register: if it can be read, it sets some of the features.\<close>

definition if_read :: "'s target \<Rightarrow> nat \<Rightarrow> (nat \<Rightarrow> cpu_features \<Rightarrow> cpu_features) \<Rightarrow> cpu_features \<times> 's \<Rightarrow> cpu_features \<times> 's" where
  "if_read tg addr f fs = (case tg_read32 tg (snd fs) addr of (None, s) \<Rightarrow> (fst fs, s) | (Some v, s) \<Rightarrow> (f v (fst fs), s))"

definition hw_state_identify :: "'s target \<Rightarrow> 's \<Rightarrow> cpu_features option \<times> 's" where
  "hw_state_identify tg s =
     (case tg_read32 tg s SCS_CPUID of
        (None, s) \<Rightarrow> (None, s)
      | (Some v, s) \<Rightarrow>
          (let fs = if_read tg SCS_MPU_TYPE (\<lambda>v f. let n = (v div 2 ^ 8) mod 256 in f\<lparr>cf_mpu_regions := n, cf_mpu := n \<noteq> 0\<rparr>)
                      (features_of_cpuid v, s);
               fs = if_read tg SCS_MVFR0 (\<lambda>v f. f\<lparr>cf_fp_extension := v \<noteq> 0\<rparr>) fs;
               fs = if_read tg DWT_CTRL (\<lambda>v f. f\<lparr>cf_dwt_numcomp := (v div 2 ^ 28) mod 16\<rparr>) fs;
               fs = if_read tg SCS_ICTR (\<lambda>v f. f\<lparr>cf_nvic_intlinesnum := v mod 16\<rparr>) fs
           in (Some (fst fs), snd fs)))"

section \<open>Presence\<close>

text \<open>\<open>Some True\<close> is 1, \<open>Some False\<close> is 0, \<open>None\<close> is -1; a null feature pointer is \<open>None\<close>.\<close>

definition hw_state_expected :: "state_desc \<Rightarrow> cpu_features option \<Rightarrow> bool option" where
  "hw_state_expected desc f =
     (case sd_feature desc of
        None \<Rightarrow> Some True
      | Some req \<Rightarrow>
          (if req = [] then Some True
           else case f of
              None \<Rightarrow> Some True
            | Some f \<Rightarrow>
                (if req = ''FP_EXTENSION'' then Some (cf_fp_extension f)
                 else if req = ''MPU'' then Some (cf_mpu f)
                 else if req = ''IMPDEF:DWT_CTRL.NUMCOMP'' then Some (0 < cf_dwt_numcomp f)
                 else None)))"

text \<open>The four component identification registers; the reads stop at the first that fails.\<close>

fun read_words :: "'s target \<Rightarrow> nat list \<Rightarrow> 's \<Rightarrow> nat list option \<times> 's" where
  "read_words tg [] s = (Some [], s)"
| "read_words tg (a # as) s =
     (case tg_read32 tg s a of
        (None, s) \<Rightarrow> (None, s)
      | (Some v, s) \<Rightarrow> (case read_words tg as s of (vs, s) \<Rightarrow> (map_option ((#) v) vs, s)))"

definition cidr_addrs :: "nat \<Rightarrow> nat list" where
  "cidr_addrs base = map (add32 base) [0xFF0, 0xFF4, 0xFF8, 0xFFC]"

definition cidr_match :: "nat list \<Rightarrow> bool" where
  "cidr_match cs \<longleftrightarrow> map2 (\<lambda>c m. c mod m) cs [0x100, 0x10, 0x100, 0x100] = [0x0D, 0x00, 0x05, 0xB1]"

definition component_present :: "'s target \<Rightarrow> nat \<Rightarrow> 's \<Rightarrow> bool option \<times> 's" where
  "component_present tg base s = (case read_words tg (cidr_addrs base) s of (cs, s) \<Rightarrow> (map_option cidr_match cs, s))"

definition hw_state_presence ::
  "hw_state_db list \<Rightarrow> 's target \<Rightarrow> 's \<Rightarrow> state_desc \<Rightarrow> cpu_features option \<Rightarrow> hw_presence \<times> string \<times> 's" where
  "hw_state_presence dbs tg s desc f =
     (if nonempty (sd_feature desc) then
        (let feature = or_else (sd_feature desc) [] in
         case hw_state_expected desc f of
           Some True \<Rightarrow> (HW_PRESENCE_CONFIG_CONFIRMED, feature, s)
         | Some False \<Rightarrow> (HW_PRESENCE_CONFIG_DENIED, feature, s)
         | None \<Rightarrow> (HW_PRESENCE_UNKNOWN, ''feature rule did not resolve'', s))
      else if sd_ns desc = HW_NS_DEBUG then
        (case first_some (\<lambda>db. find_component db (sd_component desc)) dbs of
           Some c \<Rightarrow>
             (case component_present tg (sc_base c) s of
                (Some True, s) \<Rightarrow> (HW_PRESENCE_DISCOVERED, ''CoreSight component ID registers'', s)
              | (Some False, s) \<Rightarrow>
                  (HW_PRESENCE_DISCOVERY_ABSENT, ''CoreSight component ID registers do not identify the block'', s)
              | (None, s) \<Rightarrow> (HW_PRESENCE_UNKNOWN, ''component ID registers could not be read'', s))
         | None \<Rightarrow> (HW_PRESENCE_UNKNOWN, ''no component ID registers pinned for this block'', s))
      else if sd_ns desc = HW_NS_ARCH then
        (HW_PRESENCE_ARCHITECTURAL, ''mandated unconditionally by the architecture'', s)
      else
        (HW_PRESENCE_UNKNOWN, ''implementation-defined state with no configuration register to confirm it'', s))"

definition hw_state_query ::
  "hw_state_db list \<Rightarrow> 's target \<Rightarrow> 's \<Rightarrow> state_desc \<Rightarrow> cpu_features option \<Rightarrow> state_result \<times> 's" where
  "hw_state_query dbs tg s desc f =
     (case hw_state_presence dbs tg s desc f of
        (p, ev, s) \<Rightarrow>
          (if p = HW_PRESENCE_CONFIG_DENIED \<or> p = HW_PRESENCE_DISCOVERY_ABSENT then
             (\<lparr>sr_presence = p, sr_evidence = ev, sr_read = HW_READ_NOT_ATTEMPTED, sr_value = 0, sr_value_is_zero = False\<rparr>, s)
           else if \<not> sd_readable desc then
             (\<lparr>sr_presence = p, sr_evidence = ev, sr_read = HW_READ_UNSAFE, sr_value = 0, sr_value_is_zero = False\<rparr>, s)
           else
             (case hw_state_read dbs tg s desc of
                (v, why, s) \<Rightarrow>
                  (\<lparr>sr_presence = p, sr_evidence = ev, sr_read = why, sr_value = or_else v 0, sr_value_is_zero = (v = Some 0)\<rparr>, s))))"

text \<open>The names for reports.\<close>

fun hw_presence_name :: "hw_presence \<Rightarrow> string" where
  "hw_presence_name HW_PRESENCE_UNKNOWN = ''UNKNOWN''"
| "hw_presence_name HW_PRESENCE_ARCHITECTURAL = ''ARCHITECTURAL''"
| "hw_presence_name HW_PRESENCE_CONFIG_CONFIRMED = ''CONFIG_CONFIRMED''"
| "hw_presence_name HW_PRESENCE_CONFIG_DENIED = ''CONFIG_DENIED''"
| "hw_presence_name HW_PRESENCE_DISCOVERED = ''DISCOVERED''"
| "hw_presence_name HW_PRESENCE_DISCOVERY_ABSENT = ''DISCOVERY_ABSENT''"

fun hw_read_status_name :: "hw_read_status \<Rightarrow> string" where
  "hw_read_status_name HW_READ_NOT_ATTEMPTED = ''NOT_ATTEMPTED''"
| "hw_read_status_name HW_READ_OK = ''OK''"
| "hw_read_status_name HW_READ_BACKEND_UNSUPPORTED = ''BACKEND_UNSUPPORTED''"
| "hw_read_status_name HW_READ_UNSAFE = ''UNSAFE''"
| "hw_read_status_name HW_READ_ACCESS_DENIED = ''ACCESS_DENIED''"
| "hw_read_status_name HW_READ_FAILED = ''READ_FAILED''"

section \<open>What a query may do\<close>

text \<open>A read that succeeds has a value, and only then.\<close>

lemma read_dbgreg_status: "hw_state_read_dbgreg tg s reg = (v, why, s') \<Longrightarrow> (v \<noteq> None) = (why = HW_READ_OK)"
  by (auto simp: hw_state_read_dbgreg_def split: if_splits prod.splits option.splits bool.splits)

lemma state_read_status: "hw_state_read dbs tg s desc = (v, why, s') \<Longrightarrow> (v \<noteq> None) = (why = HW_READ_OK)"
  by (auto simp: hw_state_read_def dest!: read_dbgreg_status split: if_splits prod.splits option.splits)

text \<open>The presence verdict of a query is the one reached before, and apart from, the read.\<close>

lemma query_presence:
  "hw_state_query dbs tg s desc f = (r, s') \<Longrightarrow>
     (\<exists>s1. hw_state_presence dbs tg s desc f = (sr_presence r, sr_evidence r, s1))"
  by (auto simp: hw_state_query_def split: prod.splits if_splits)

lemma poll_pure: "poll_regrdy (target_of ops) n d s = (v, s') \<Longrightarrow> s' = s"
  by (induction n arbitrary: d) (auto simp: target_of_def split: option.splits if_splits)

lemma read_words_pure: "read_words (target_of ops) as s = (v, s') \<Longrightarrow> s' = s"
  by (induction as arbitrary: v) (auto simp: target_of_def split: option.splits prod.splits)

lemma presence_pure: "hw_state_presence dbs (target_of ops) s desc f = (p, ev, s') \<Longrightarrow> s' = s"
  by (auto simp: hw_state_presence_def component_present_def Let_def dest!: read_words_pure
      split: if_splits option.splits bool.splits prod.splits)

text \<open>While the target runs nothing is written: a query leaves it as it is.\<close>

lemma state_read_running:
  assumes "\<not> hw_board_halted ops s" "hw_state_read dbs (target_of ops) s desc = (v, why, s')"
  shows "s' = s"
  using assms by (auto simp: hw_state_read_def hw_state_read_dbgreg_def target_of_def split: if_splits option.splits)

lemma query_running:
  assumes "\<not> hw_board_halted ops s" "hw_state_query dbs (target_of ops) s desc f = (r, s')"
  shows "s' = s"
  using assms by (auto simp: hw_state_query_def dest!: presence_pure dest: state_read_running split: if_splits prod.splits)

section \<open>The debug register transfer\<close>

lemma poll_trace:
  assumes "\<And>j. i \<le> j \<Longrightarrow> j < i + n \<Longrightarrow> tg_read32 tg (\<sigma> j) DHCSR_ADDR = (Some (w j), \<sigma> (Suc j))" "\<not> regrdy d"
  shows "\<exists>d'. \<not> regrdy d' \<and> poll_regrdy tg n d (\<sigma> i) =
    (case find (\<lambda>j. regrdy (w j)) [i..<i + n] of None \<Rightarrow> (Some d', \<sigma> (i + n)) | Some k \<Rightarrow> (Some (w k), \<sigma> (Suc k)))"
  using assms
proof (induction n arbitrary: i d)
  case (Suc n)
  have r: "tg_read32 tg (\<sigma> i) DHCSR_ADDR = (Some (w i), \<sigma> (Suc i))" using Suc.prems(1) [of i] by simp
  have u: "[i..<i + Suc n] = i # [Suc i..<Suc i + n]" by (simp add: upt_rec)
  show ?case
  proof (cases "regrdy (w i)")
    case True
    then show ?thesis using r Suc.prems(2) unfolding u by (intro exI [of _ d]) simp
  next
    case False
    have "tg_read32 tg (\<sigma> j) DHCSR_ADDR = (Some (w j), \<sigma> (Suc j))" if "Suc i \<le> j" "j < Suc i + n" for j
      using Suc.prems(1) that by simp
    from Suc.IH [OF this False] obtain d' where "\<not> regrdy d'" "poll_regrdy tg n (w i) (\<sigma> (Suc i)) =
      (case find (\<lambda>j. regrdy (w j)) [Suc i..<Suc i + n] of None \<Rightarrow> (Some d', \<sigma> (Suc i + n)) | Some k \<Rightarrow> (Some (w k), \<sigma> (Suc k)))"
      by blast
    then show ?thesis using False r unfolding u by (intro exI [of _ d']) (simp split: option.splits)
  qed
qed auto

text \<open>
  C35.  A register transfer through DCRSR and DCRDR on a halted target ends after at most 100 polls.  Let the polls meet
  the states \<open>\<sigma> 0\<close>, \<open>\<sigma> 1\<close>, ... and answer \<open>w 0\<close>, \<open>w 1\<close>, ...: if one of the first 100 answers has \<open>S_REGRDY\<close>, the
  value is taken from DCRDR right after the first such poll, as the field the register has in it; if none has,
  the read fails after the hundredth, without DCRDR having been read.
\<close>

theorem dbgreg_transfer:
  assumes "tg_halted tg s" "tg_write32 tg s DCRSR_ADDR (dr_regsel reg) = (True, \<sigma> 0)"
    "\<And>i. i < 100 \<Longrightarrow> tg_read32 tg (\<sigma> i) DHCSR_ADDR = (Some (w i), \<sigma> (Suc i))"
    "\<And>i. i \<le> 100 \<Longrightarrow> tg_read32 tg (\<sigma> i) DCRDR_ADDR = (Some (v i), \<tau> i)"
  shows "hw_state_read_dbgreg tg s reg =
    (case find (\<lambda>i. regrdy (w i)) [0..<100] of
       None \<Rightarrow> (None, HW_READ_FAILED, \<sigma> 100)
     | Some k \<Rightarrow> (Some (v (Suc k) div 2 ^ dr_lsb reg mod 2 ^ min 32 (dr_width reg)), HW_READ_OK, \<tau> (Suc k)))"
proof -
  have "\<not> regrdy 0" by (simp add: regrdy_def)
  with poll_trace [of 0 100 tg \<sigma> w 0, unfolded add_0_left] assms(3) have "\<exists>d'. \<not> regrdy d' \<and> poll_regrdy tg 100 0 (\<sigma> 0) =
      (case find (\<lambda>j. regrdy (w j)) [0..<100] of None \<Rightarrow> (Some d', \<sigma> 100) | Some k \<Rightarrow> (Some (w k), \<sigma> (Suc k)))" by simp
  then obtain d' where d': "\<not> regrdy d'" and p: "poll_regrdy tg 100 0 (\<sigma> 0) =
      (case find (\<lambda>j. regrdy (w j)) [0..<100] of None \<Rightarrow> (Some d', \<sigma> 100) | Some k \<Rightarrow> (Some (w k), \<sigma> (Suc k)))" by blast
  show ?thesis
  proof (cases "find (\<lambda>j. regrdy (w j)) [0..<100]")
    case None
    with assms(1,2) p d' show ?thesis by (simp add: hw_state_read_dbgreg_def)
  next
    case (Some k)
    then have k: "k < 100" "regrdy (w k)" by (auto simp: find_Some_iff)
    then have "tg_read32 tg (\<sigma> (Suc k)) DCRDR_ADDR = (Some (v (Suc k)), \<tau> (Suc k))" using assms(4) [of "Suc k"] by simp
    with assms(1,2) p Some k(2) show ?thesis by (simp add: hw_state_read_dbgreg_def)
  qed
qed

text \<open>A target whose transfer takes three polls; its state counts the reads of DHCSR.\<close>

definition slow_target :: "nat target" where
  "slow_target =
     \<lparr>tg_read32 = (\<lambda>n a. if a = DHCSR_ADDR then (Some (if 3 \<le> n then 2 ^ 16 else 0), Suc n) else (Some 0xAABBCCDD, n)),
      tg_write32 = (\<lambda>n a v. (True, 0)), tg_halted = (\<lambda>n. True)\<rparr>"

definition basepri_reg :: state_dbgreg where
  "basepri_reg = \<lparr>dr_name = ''BASEPRI'', dr_regsel = 20, dr_lsb = 8, dr_width = 8\<rparr>"

theorem dbgreg_transfer_witness: "hw_state_read_dbgreg slow_target 7 basepri_reg = (Some 0xCC, HW_READ_OK, 4)"
proof -
  have "find (\<lambda>i. regrdy (if 3 \<le> i then 2 ^ 16 else (0 :: nat))) [0..<100] = Some 3"
    by (auto simp: find_Some_iff regrdy_def intro!: exI [of _ 3])
  then show ?thesis
    using dbgreg_transfer [of slow_target 7 basepri_reg id "\<lambda>i. if 3 \<le> i then 2 ^ 16 else 0" "\<lambda>i. 0xAABBCCDD" id]
    by (simp add: slow_target_def basepri_reg_def DHCSR_ADDR_def DCRDR_ADDR_def)
qed

end
