(* ===== verification/Bindings.thy ===== *)
theory Bindings
  imports Mock StateCore
begin

text \<open>
  The Python bindings \<open>utils/python/libhw\<close>: the classes \<open>Hw\<close> and \<open>Flash\<close> of \<open>core.py\<close> and the
  database objects of \<open>state.py\<close>, over the C functions of \<open>FlashCore\<close> and \<open>StateCore\<close>.  A connection
  is the backend's table of operations with the state of its target; a closed one holds none, and
  a C function called with the null context fails.  Python integers are converted as \<open>ctypes\<close> converts
  them for the declared argument types: modulo the width, without a check.
\<close>

section \<open>Errors and conversions\<close>

datatype hw_error =
    HwError string
  | HwConnectError string
  | HwFlashError string
  | HwStateError string
  | PyValueError string

type_synonym 'a hw_res = "hw_error + 'a"

definition c_uint :: "int \<Rightarrow> nat" where "c_uint n = nat (n mod 2 ^ 32)"
definition c_uint64 :: "int \<Rightarrow> nat" where "c_uint64 n = nat (n mod 2 ^ 64)"
definition c_uint8 :: "int \<Rightarrow> byte" where "c_uint8 n = word_of_int n"
definition c_int :: "int \<Rightarrow> int" where "c_int n = (n + 2 ^ 31) mod 2 ^ 32 - 2 ^ 31"

lemma c_uint_bound: "c_uint n < 2 ^ 32"
  by (simp add: c_uint_def nat_less_iff)

lemma c_uint_id: "0 \<le> n \<Longrightarrow> n < 2 ^ 32 \<Longrightarrow> c_uint n = nat n"
  by (simp add: c_uint_def)

section \<open>The connection\<close>

type_synonym 's hw_context = "'s hw_ops \<times> 's"

record 's hw =
  hw_ctx :: "'s hw_context option"
  hw_backend :: string

text \<open>A call of a C function on the connection; \<open>fail\<close> is what it returns for a null context.\<close>

definition c_call :: "'s hw \<Rightarrow> 'a \<Rightarrow> ('s hw_ops \<Rightarrow> 's \<Rightarrow> 'a \<times> 's) \<Rightarrow> 'a \<times> 's hw" where
  "c_call hw fail f =
     (case hw_ctx hw of
        None \<Rightarrow> (fail, hw)
      | Some (ops, s) \<Rightarrow> (case f ops s of (r, s) \<Rightarrow> (r, hw\<lparr>hw_ctx := Some (ops, s)\<rparr>)))"

definition c_get :: "'s hw \<Rightarrow> 'a \<Rightarrow> ('s hw_ops \<Rightarrow> 's \<Rightarrow> 'a) \<Rightarrow> 'a" where
  "c_get hw fail f = (case hw_ctx hw of None \<Rightarrow> fail | Some (ops, s) \<Rightarrow> f ops s)"

text \<open>The registry is \<open>g_known_backends\<close>; an entry without a connect function is passed over.\<close>

type_synonym 's registry = "(string \<times> (string option \<Rightarrow> int \<Rightarrow> 's hw_context option) option) list"

fun hw_connect :: "'s registry \<Rightarrow> string \<Rightarrow> string option \<Rightarrow> int \<Rightarrow> 's hw_context option" where
  "hw_connect [] name host port = None"
| "hw_connect ((n, f) # reg) name host port =
     (if name = n then (case f of Some connect \<Rightarrow> connect host port | None \<Rightarrow> hw_connect reg name host port)
      else hw_connect reg name host port)"

definition Hw_init :: "'s registry \<Rightarrow> string \<Rightarrow> string option \<Rightarrow> int \<Rightarrow> 's hw hw_res" where
  "Hw_init reg backend host port =
     (case hw_connect reg backend (if nonempty host then host else None) (c_int port) of
        None \<Rightarrow>
          Inl (HwConnectError (''could not connect with backend '' @ py_repr backend @
            (if nonempty host then '' to '' @ or_else host [] @ '':'' @ str_int port else [])))
      | Some ctx \<Rightarrow> Inr \<lparr>hw_ctx = Some ctx, hw_backend = backend\<rparr>)"

definition Hw_closed :: "'s hw \<Rightarrow> bool" where "Hw_closed hw \<longleftrightarrow> hw_ctx hw = None"

definition Hw_close :: "'s hw \<Rightarrow> 's hw" where "Hw_close hw = hw\<lparr>hw_ctx := None\<rparr>"

definition Hw_check :: "'s hw \<Rightarrow> unit hw_res" where
  "Hw_check hw = (if hw_ctx hw = None then Inl (HwError ''this connection is closed'') else Inr ())"

text \<open>A method that checks the connection first.\<close>

definition checked :: "'s hw \<Rightarrow> 'a hw_res \<times> 's hw \<Rightarrow> 'a hw_res \<times> 's hw" where
  "checked hw r = (case Hw_check hw of Inl e \<Rightarrow> (Inl e, hw) | Inr u \<Rightarrow> r)"

definition ok_or :: "hw_error \<Rightarrow> bool \<times> 's hw \<Rightarrow> unit hw_res \<times> 's hw" where
  "ok_or e r = (if fst r then Inr () else Inl e, snd r)"

section \<open>Memory, execution and registers\<close>

definition hw_write8 :: "'s hw_ops \<Rightarrow> 's \<Rightarrow> nat \<Rightarrow> byte \<Rightarrow> bool \<times> 's" where
  "hw_write8 ops s addr v = (case op_write8 ops of Some f \<Rightarrow> f s addr v | None \<Rightarrow> (False, s))"

definition hw_read8 :: "'s hw_ops \<Rightarrow> 's \<Rightarrow> nat \<Rightarrow> byte option" where
  "hw_read8 ops s addr = (case op_read8 ops of Some f \<Rightarrow> f s addr | None \<Rightarrow> None)"

text \<open>A missing run or step counts as success, a missing reset as a failure.\<close>

definition hw_board_run :: "'s hw_ops \<Rightarrow> 's \<Rightarrow> bool \<times> 's" where
  "hw_board_run ops s = (case op_board_run ops of Some f \<Rightarrow> f s | None \<Rightarrow> (True, s))"

definition hw_board_step :: "'s hw_ops \<Rightarrow> 's \<Rightarrow> bool \<times> 's" where
  "hw_board_step ops s = (case op_board_step ops of Some f \<Rightarrow> f s | None \<Rightarrow> (True, s))"

definition hw_board_reset :: "'s hw_ops \<Rightarrow> 's \<Rightarrow> bool \<times> 's" where
  "hw_board_reset ops s = (case op_board_reset ops of Some f \<Rightarrow> f s | None \<Rightarrow> (False, s))"

definition hw_read_reg :: "'s hw_ops \<Rightarrow> 's \<Rightarrow> int \<Rightarrow> nat" where
  "hw_read_reg ops s reg = (case op_read_reg ops of Some f \<Rightarrow> f s reg | None \<Rightarrow> 0)"

definition hw_write_reg :: "'s hw_ops \<Rightarrow> 's \<Rightarrow> int \<Rightarrow> nat \<Rightarrow> unit \<times> 's" where
  "hw_write_reg ops s reg v = ((), case op_write_reg ops of Some f \<Rightarrow> f s reg v | None \<Rightarrow> s)"

definition read32 :: "'s hw \<Rightarrow> int \<Rightarrow> nat hw_res \<times> 's hw" where
  "read32 hw addr = checked hw
     (case c_get hw None (\<lambda>ops s. hw_read32 ops s (c_uint addr)) of
        None \<Rightarrow> (Inl (HwError (''read32 at '' @ fmt_addr addr @ '' failed'')), hw)
      | Some v \<Rightarrow> (Inr v, hw))"

definition write32 :: "'s hw \<Rightarrow> int \<Rightarrow> int \<Rightarrow> unit hw_res \<times> 's hw" where
  "write32 hw addr v = checked hw
     (ok_or (HwError (''write32 at '' @ fmt_addr addr @ '' failed''))
       (c_call hw False (\<lambda>ops s. hw_write32 ops s (c_uint addr) (c_uint v))))"

definition read8 :: "'s hw \<Rightarrow> int \<Rightarrow> nat hw_res \<times> 's hw" where
  "read8 hw addr = checked hw
     (case c_get hw None (\<lambda>ops s. hw_read8 ops s (c_uint addr)) of
        None \<Rightarrow> (Inl (HwError (''read8 at '' @ fmt_addr addr @ '' failed'')), hw)
      | Some v \<Rightarrow> (Inr (unat v), hw))"

definition write8 :: "'s hw \<Rightarrow> int \<Rightarrow> int \<Rightarrow> unit hw_res \<times> 's hw" where
  "write8 hw addr v = checked hw
     (ok_or (HwError (''write8 at '' @ fmt_addr addr @ '' failed''))
       (c_call hw False (\<lambda>ops s. hw_write8 ops s (c_uint addr) (c_uint8 v))))"

definition halted :: "'s hw \<Rightarrow> bool hw_res \<times> 's hw" where
  "halted hw = checked hw (Inr (c_get hw False hw_board_halted), hw)"

definition halt :: "'s hw \<Rightarrow> unit hw_res \<times> 's hw" where
  "halt hw = checked hw (ok_or (HwError ''halt failed'') (c_call hw True hw_board_halt))"

definition run :: "'s hw \<Rightarrow> unit hw_res \<times> 's hw" where
  "run hw = checked hw (ok_or (HwError ''run failed'') (c_call hw True hw_board_run))"

definition step :: "'s hw \<Rightarrow> unit hw_res \<times> 's hw" where
  "step hw = checked hw (ok_or (HwError ''single step failed'') (c_call hw True hw_board_step))"

definition reset :: "'s hw \<Rightarrow> unit hw_res \<times> 's hw" where
  "reset hw = checked hw
     (ok_or (HwError ''reset failed, or this backend does not implement it'') (c_call hw False hw_board_reset))"

definition read_reg :: "'s hw \<Rightarrow> int \<Rightarrow> nat hw_res \<times> 's hw" where
  "read_reg hw reg = checked hw (Inr (c_get hw 0 (\<lambda>ops s. hw_read_reg ops s (c_int reg))), hw)"

definition write_reg :: "'s hw \<Rightarrow> int \<Rightarrow> int \<Rightarrow> unit hw_res \<times> 's hw" where
  "write_reg hw reg v = checked hw
     (case c_call hw () (\<lambda>ops s. hw_write_reg ops s (c_int reg) (c_uint64 v)) of (u, hw) \<Rightarrow> (Inr (), hw))"

section \<open>Flash\<close>

text \<open>The methods of \<open>Flash\<close> do not check the connection: on a closed one the C call fails.\<close>

definition flash_end :: "flash_info \<Rightarrow> nat" where "flash_end i = fi_base i + fi_size i"

definition flash_info_repr :: "flash_info \<Rightarrow> string" where
  "flash_info_repr i =
     ''FlashInfo(base='' @ fmt_addr (int (fi_base i)) @ '', size='' @ str_nat (fi_size i) @
     '', page_size='' @ str_nat (fi_page_size i) @ '', write_align='' @ str_nat (fi_write_align i) @ '')''"

definition patch_stats_repr :: "patch_stats \<Rightarrow> string" where
  "patch_stats_repr st =
     ''PatchStats(sectors_total='' @ str_nat (sectors_total st) @ '', sectors_changed='' @ str_nat (sectors_changed st) @
     '', sectors_erased='' @ str_nat (sectors_erased st) @ '', bytes_written='' @ str_nat (bytes_written st) @ '')''"

definition Flash_info :: "'s hw \<Rightarrow> flash_info hw_res" where
  "Flash_info hw =
     (case c_get hw None hw_flash_info of
        None \<Rightarrow> Inl (HwFlashError ''hw_flash_info failed: the backend reported no geometry'')
      | Some i \<Rightarrow> Inr i)"

definition Flash_sector :: "'s hw \<Rightarrow> int \<Rightarrow> (nat \<times> nat) hw_res" where
  "Flash_sector hw addr =
     (case c_get hw None (\<lambda>ops s. hw_flash_sector ops s (c_uint addr)) of
        None \<Rightarrow> Inl (HwFlashError (''no erase block covering '' @ fmt_addr addr))
      | Some b \<Rightarrow> Inr b)"

definition flash_failed :: "string \<Rightarrow> int \<Rightarrow> int \<Rightarrow> hw_error" where
  "flash_failed what len addr =
     HwFlashError (''flash '' @ what @ '' of '' @ str_int len @ '' bytes at '' @ fmt_addr addr @ '' failed'')"

definition Flash_read :: "'s hw \<Rightarrow> int \<Rightarrow> int \<Rightarrow> byte list hw_res" where
  "Flash_read hw addr len =
     (if len \<le> 0 then Inr []
      else case c_get hw None (\<lambda>ops s. hw_flash_read ops s (c_uint addr) (nat len)) of
             None \<Rightarrow> Inl (flash_failed ''read'' len addr)
           | Some d \<Rightarrow> Inr d)"

definition Flash_write :: "'s hw \<Rightarrow> int \<Rightarrow> byte list \<Rightarrow> unit hw_res \<times> 's hw" where
  "Flash_write hw addr data =
     (if data = [] then (Inr (), hw)
      else ok_or (flash_failed ''write'' (int (length data)) addr)
             (c_call hw False (\<lambda>ops s. hw_flash_write ops s (c_uint addr) data)))"

definition Flash_erase :: "'s hw \<Rightarrow> int \<Rightarrow> int \<Rightarrow> unit hw_res \<times> 's hw" where
  "Flash_erase hw addr len =
     (if len \<le> 0 then (Inr (), hw)
      else ok_or (flash_failed ''erase'' len addr)
             (c_call hw False (\<lambda>ops s. hw_flash_erase ops s (c_uint addr) (nat len))))"

definition Flash_mass_erase :: "'s hw \<Rightarrow> unit hw_res \<times> 's hw" where
  "Flash_mass_erase hw = ok_or (HwFlashError ''mass erase failed'') (c_call hw False hw_flash_mass_erase)"

definition Flash_verify :: "'s hw \<Rightarrow> int \<Rightarrow> byte list \<Rightarrow> bool" where
  "Flash_verify hw addr data = (data = [] \<or> c_get hw False (\<lambda>ops s. hw_flash_verify ops s (c_uint addr) data))"

definition Flash_update :: "'s hw \<Rightarrow> int \<Rightarrow> byte list \<Rightarrow> unit hw_res \<times> 's hw" where
  "Flash_update hw addr data =
     (if data = [] then (Inr (), hw)
      else ok_or (flash_failed ''update'' (int (length data)) addr)
             (c_call hw False (\<lambda>ops s. hw_flash_update ops s (c_uint addr) data)))"

definition Flash_patch :: "'s hw \<Rightarrow> int \<Rightarrow> byte list option \<Rightarrow> byte list \<Rightarrow> patch_stats hw_res \<times> 's hw" where
  "Flash_patch hw addr old new =
     (if (case old of Some u \<Rightarrow> length u \<noteq> length new | None \<Rightarrow> False)
      then (Inl (PyValueError ''old and new images must describe the same range''), hw)
      else if new = [] then (Inr no_stats, hw)
      else
        (case c_call hw (False, no_stats) (\<lambda>ops s.
                case hw_flash_patch ops s (c_uint addr) old new of (b, st, s) \<Rightarrow> ((b, st), s)) of
           ((b, st), hw) \<Rightarrow>
             (if b then (Inr st, hw) else (Inl (flash_failed ''patch'' (int (length new)) addr), hw))))"

section \<open>The flash of the mock target, seen from Python\<close>

text \<open>The bytes of the flash of the mock target from an address on.\<close>

definition flash_part :: "mock \<Rightarrow> nat \<Rightarrow> nat \<Rightarrow> byte list" where
  "flash_part s a n = take n (drop (a - MOCK_FLASH_BASE) (mk_flash s))"

lemma c_uint_int: "a < 2 ^ 32 \<Longrightarrow> c_uint (int a) = a"
  by (simp add: c_uint_id)

lemma c_uint_mock: "a \<le> MOCK_FLASH_BASE + MOCK_FLASH_SIZE \<Longrightarrow> c_uint (int a) = a"
  by (rule c_uint_int) (simp add: mock_consts)

lemma nth_flash: "mock_ok s \<Longrightarrow> i < MOCK_FLASH_SIZE \<Longrightarrow> mk_flash s ! i = mock_mem s (MOCK_FLASH_BASE + i)"
  by (simp add: mock_mem_def mock_in_flash_def)

lemma flash_of_mem:
  assumes ok: "mock_ok s" "mock_ok s'" and reg: "MOCK_FLASH_BASE \<le> a" "a + length d \<le> MOCK_FLASH_BASE + MOCK_FLASH_SIZE"
  shows "mock_mem s' = upd_range (mock_mem s) a d \<longleftrightarrow> mk_flash s' = overlay (mk_flash s) (a - MOCK_FLASH_BASE) d"
proof
  let ?k = "a - MOCK_FLASH_BASE"
  have len: "?k + length d \<le> length (mk_flash s)" using ok(1) reg by (simp add: mock_ok_def)
  assume m: "mock_mem s' = upd_range (mock_mem s) a d"
  show "mk_flash s' = overlay (mk_flash s) ?k d"
  proof (rule nth_equalityI)
    show "length (mk_flash s') = length (overlay (mk_flash s) ?k d)" using len ok by (simp add: mock_ok_def)
    fix i assume "i < length (mk_flash s')"
    then have i: "i < MOCK_FLASH_SIZE" "i < length (mk_flash s)" using ok by (simp_all add: mock_ok_def)
    have "?k \<le> i \<and> i < ?k + length d \<longleftrightarrow> a \<le> MOCK_FLASH_BASE + i \<and> MOCK_FLASH_BASE + i < a + length d"
      "MOCK_FLASH_BASE + i - a = i - ?k" using reg by auto
    then show "mk_flash s' ! i = overlay (mk_flash s) ?k d ! i"
      unfolding nth_flash [OF ok(2) i(1)] m overlay_nth [OF len i(2)] upd_range_def by (simp add: nth_flash [OF ok(1) i(1)])
  qed
next
  assume "mk_flash s' = overlay (mk_flash s) (a - MOCK_FLASH_BASE) d"
  then have "mock_mem s' = mock_mem (s\<lparr>mk_flash := overlay (mk_flash s) (a - MOCK_FLASH_BASE) d\<rparr>)"
    by (simp add: mock_mem_def fun_eq_iff)
  then show "mock_mem s' = upd_range (mock_mem s) a d" using mock_mem_overlay(2) [OF ok(1) reg] by simp
qed

lemma flash_part_nth:
  assumes "mock_ok s" "MOCK_FLASH_BASE \<le> a" "a + n \<le> MOCK_FLASH_BASE + MOCK_FLASH_SIZE" "i < n"
  shows "flash_part s a n ! i = mock_mem s (a + i)"
proof -
  have "a - MOCK_FLASH_BASE + i = a + i - MOCK_FLASH_BASE" "a + i - MOCK_FLASH_BASE < MOCK_FLASH_SIZE" using assms by auto
  with assms show ?thesis by (simp add: flash_part_def mock_ok_def mock_mem_def mock_in_flash_def)
qed

lemma flash_part_length:
  assumes "mock_ok s" "MOCK_FLASH_BASE \<le> a" "a + n \<le> MOCK_FLASH_BASE + MOCK_FLASH_SIZE"
  shows "length (flash_part s a n) = n"
  using assms by (simp add: flash_part_def mock_ok_def)

text \<open>The old image as the caller has it, and the condition that spares every erase.\<close>

lemma accurate_part:
  assumes "mock_ok s" "MOCK_FLASH_BASE \<le> a" "a + length d \<le> MOCK_FLASH_BASE + MOCK_FLASH_SIZE"
    "old = None \<or> old = Some (flash_part s a (length d))"
  shows "accurate (mock_mem s) a old d" "\<And>u. old = Some u \<Longrightarrow> length u = length d"
  using assms flash_part_length [OF assms(1-3)] flash_part_nth [OF assms(1-3)] by (auto simp: accurate_def)

lemma clears_part:
  assumes "mock_ok s" "MOCK_FLASH_BASE \<le> a" "a + length d \<le> MOCK_FLASH_BASE + MOCK_FLASH_SIZE"
  shows "clears_only (mock_mem s) a d \<longleftrightarrow> \<not> need_erase d (flash_part s a (length d))"
proof -
  note p = flash_part_length [OF assms] flash_part_nth [OF assms]
  have "need_erase d (flash_part s a (length d)) \<longleftrightarrow> (\<exists>i<length d. d ! i AND mock_mem s (a + i) \<noteq> d ! i)"
    using p by (force simp: need_erase_def list_ex_iff set_zip)
  also have "\<dots> \<longleftrightarrow> \<not> clears_only (mock_mem s) a d"
  proof -
    have "clears_only (mock_mem s) a d \<longleftrightarrow> (\<forall>i<length d. d ! i AND mock_mem s (a + i) = d ! i)" (is "_ \<longleftrightarrow> ?R")
    proof
      assume c: "clears_only (mock_mem s) a d"
      have "d ! i AND mock_mem s (a + i) = d ! i" if "i < length d" for i
        using c [unfolded clears_only_def, rule_format, of "a + i"] that by simp
      then show ?R by blast
    next
      assume c: ?R
      have "d ! (x - a) AND mock_mem s x = d ! (x - a)" if "a \<le> x" "x < a + length d" for x
        using c [rule_format, of "x - a"] that by simp
      then show "clears_only (mock_mem s) a d" unfolding clears_only_def by blast
    qed
    then show ?thesis by simp
  qed
  finally show ?thesis by blast
qed

lemma region_bounds_mock: "flash_range_ok mock_info a (length d) \<Longrightarrow>
    d \<noteq> [] \<and> MOCK_FLASH_BASE \<le> a \<and> a + length d \<le> MOCK_FLASH_BASE + MOCK_FLASH_SIZE \<and> c_uint (int a) = a"
  using c_uint_mock [of a] by (auto simp: range_mock_iff)

lemma update_call:
  "d \<noteq> [] \<Longrightarrow> hw_ctx hw = Some (ops, s) \<Longrightarrow> hw_flash_update ops s (c_uint addr) d = (b, s') \<Longrightarrow>
     Flash_update hw addr d =
       (if b then Inr () else Inl (flash_failed ''update'' (int (length d)) addr), hw\<lparr>hw_ctx := Some (ops, s')\<rparr>)"
  by (simp add: Flash_update_def c_call_def ok_or_def)

lemma patch_call:
  "d \<noteq> [] \<Longrightarrow> hw_ctx hw = Some (ops, s) \<Longrightarrow> hw_flash_patch ops s (c_uint addr) old d = (b, st, s') \<Longrightarrow>
     (\<And>u. old = Some u \<Longrightarrow> length u = length d) \<Longrightarrow>
     Flash_patch hw addr old d =
       (if b then Inr st else Inl (flash_failed ''patch'' (int (length d)) addr), hw\<lparr>hw_ctx := Some (ops, s')\<rparr>)"
  by (cases old) (simp_all add: Flash_patch_def c_call_def)

section \<open>Properties\<close>

text \<open>
  C20.  An update of a region inside the flash succeeds, whatever the flash held: afterwards the region
  holds exactly the data, every other byte of the flash (those of the erased blocks too) is as it was,
  and a verify of the region succeeds.
\<close>

theorem flash_update_exact:
  assumes "hw_ctx hw = Some (mock_ops, s)" "mock_ok s" "flash_range_ok mock_info a (length d)"
  shows "\<exists>s'. Flash_update hw (int a) d = (Inr (), hw\<lparr>hw_ctx := Some (mock_ops, s')\<rparr>) \<and> mock_ok s' \<and>
    mk_flash s' = overlay (mk_flash s) (a - MOCK_FLASH_BASE) d \<and>
    Flash_verify (hw\<lparr>hw_ctx := Some (mock_ops, s')\<rparr>) (int a) d"
proof -
  note r = region_bounds_mock [OF assms(3)]
  obtain s' where s': "hw_flash_update mock_ops s a d = (True, s')" "mock_ok s'" "mock_mem s' = upd_range (mock_mem s) a d"
    using mock.update_exact [OF assms(2,3)] by blast
  have "hw_flash_verify mock_ops s' a d" unfolding mock.verify_iff_mem [OF s'(2) assms(3)] by (simp add: s'(3) upd_range_def)
  with update_call [OF _ assms(1), of d "int a" True s'] s' r flash_of_mem [OF assms(2) s'(2), of a d] show ?thesis
    by (intro exI [of _ s']) (simp add: Flash_verify_def c_get_def)
qed

definition demo_hw :: "mock hw" where
  "demo_hw = \<lparr>hw_ctx = Some (mock_ops, mock_connect), hw_backend = ''mock''\<rparr>"

lemma demo_ctx: "hw_ctx demo_hw = Some (mock_ops, mock_connect)"
  by (simp add: demo_hw_def)

lemma demo_ok: "mock_ok mock_connect"
  by (simp add: mock_ok_def mock_connect_def)

lemma demo_range: "flash_range_ok mock_info (MOCK_FLASH_BASE + 1022) (length [1, 2, 3 :: byte])"
  by (simp add: range_mock_iff) (simp add: mock_consts)

theorem flash_update_exact_witness:
  "\<exists>s'. Flash_update demo_hw (int (MOCK_FLASH_BASE + 1022)) [1, 2, 3] = (Inr (), demo_hw\<lparr>hw_ctx := Some (mock_ops, s')\<rparr>) \<and>
     mk_flash s' = overlay (mk_flash mock_connect) 1022 [1, 2, 3]"
  using flash_update_exact [OF demo_ctx demo_ok demo_range] by auto

text \<open>
  C19.  On the mock target, for a region inside its flash and only with no old image or with the bytes that the region
  really holds, a patch succeeds and leaves the flash exactly as an update with the same data does, and erases
  nothing at all if no bit has to go from 0 to 1.  With a stale old image neither need hold: C21 says what is left.
\<close>

theorem flash_patch_equals_update:
  assumes "hw_ctx hw = Some (mock_ops, s)" "mock_ok s" "flash_range_ok mock_info a (length d)"
    "old = None \<or> old = Some (flash_part s a (length d))"
  shows "\<exists>st s1 s2. Flash_patch hw (int a) old d = (Inr st, hw\<lparr>hw_ctx := Some (mock_ops, s1)\<rparr>) \<and>
    Flash_update hw (int a) d = (Inr (), hw\<lparr>hw_ctx := Some (mock_ops, s2)\<rparr>) \<and> mk_flash s1 = mk_flash s2 \<and>
    mk_flash s1 = overlay (mk_flash s) (a - MOCK_FLASH_BASE) d \<and>
    (need_erase d (flash_part s a (length d)) \<or> sectors_erased st = 0)"
proof -
  have r: "d \<noteq> []" "MOCK_FLASH_BASE \<le> a" "a + length d \<le> MOCK_FLASH_BASE + MOCK_FLASH_SIZE" "c_uint (int a) = a"
    using region_bounds_mock [OF assms(3)] by blast+
  note acc = accurate_part [OF assms(2) r(2,3) assms(4)]
  from mock.patch_exact [OF assms(2,3) acc(2,1)] obtain st s1 where
    s1: "hw_flash_patch mock_ops s a old d = (True, st, s1)" "mock_ok s1" "mock_mem s1 = upd_range (mock_mem s) a d"
      "clears_only (mock_mem s) a d \<longrightarrow> sectors_erased st = 0" by blast
  from mock.update_exact [OF assms(2,3)] obtain s2 where
    s2: "hw_flash_update mock_ops s a d = (True, s2)" "mock_ok s2" "mock_mem s2 = upd_range (mock_mem s) a d" by blast
  have "Flash_patch hw (int a) old d = (Inr st, hw\<lparr>hw_ctx := Some (mock_ops, s1)\<rparr>)"
    using patch_call [OF r(1) assms(1), of "int a" old True st s1] s1(1) acc(2) r(4) by simp
  moreover have "Flash_update hw (int a) d = (Inr (), hw\<lparr>hw_ctx := Some (mock_ops, s2)\<rparr>)"
    using update_call [OF r(1) assms(1), of "int a" True s2] s2(1) r(4) by simp
  moreover have "mk_flash s1 = overlay (mk_flash s) (a - MOCK_FLASH_BASE) d" "mk_flash s2 = overlay (mk_flash s) (a - MOCK_FLASH_BASE) d"
    using flash_of_mem [OF assms(2) s1(2) r(2,3)] flash_of_mem [OF assms(2) s2(2) r(2,3)] s1(3) s2(3) by blast+
  moreover have "need_erase d (flash_part s a (length d)) \<or> sectors_erased st = 0"
    using clears_part [OF assms(2) r(2,3)] s1(4) by (cases "need_erase d (flash_part s a (length d))") simp_all
  ultimately show ?thesis by (intro exI [of _ st] exI [of _ s1] exI [of _ s2]) simp
qed

lemma erased_needs_nothing:
  "\<not> need_erase [1, 2, 3 :: byte] (flash_part mock_connect (MOCK_FLASH_BASE + 1022) (length [1, 2, 3 :: byte]))"
proof -
  have "flash_part mock_connect (MOCK_FLASH_BASE + 1022) 3 = replicate 3 0xFF"
    by (simp add: flash_part_def mock_connect_def) (simp add: MOCK_FLASH_SIZE_def numeral_3_eq_3)
  moreover have "length [1, 2, 3 :: byte] = 3" by simp
  ultimately show ?thesis by (simp only:) (simp add: need_erase_def numeral_3_eq_3)
qed

theorem flash_patch_equals_update_witness:
  "\<exists>st s1 s2. Flash_patch demo_hw (int (MOCK_FLASH_BASE + 1022)) None [1, 2, 3] = (Inr st, demo_hw\<lparr>hw_ctx := Some (mock_ops, s1)\<rparr>) \<and>
     Flash_update demo_hw (int (MOCK_FLASH_BASE + 1022)) [1, 2, 3] = (Inr (), demo_hw\<lparr>hw_ctx := Some (mock_ops, s2)\<rparr>) \<and>
     mk_flash s1 = mk_flash s2 \<and> sectors_erased st = 0"
  using flash_patch_equals_update [OF demo_ctx demo_ok demo_range disjI1 [OF refl]] erased_needs_nothing by blast

text \<open>
  C21.  A patch may be given an old image that is out of date.  It then succeeds only if the region
  really holds the new bytes afterwards; whether or not it succeeds, no byte outside the region
  has changed, and the counters are ordered.
\<close>

theorem flash_patch_sound:
  assumes "hw_ctx hw = Some (mock_ops, s)" "mock_ok s" "flash_range_ok mock_info a (length d)"
    "old = None \<or> length (the old) = length d"
  shows "\<exists>r st s'. Flash_patch hw (int a) old d = (r, hw\<lparr>hw_ctx := Some (mock_ops, s')\<rparr>) \<and> mock_ok s' \<and>
    r = (if mk_flash s' = overlay (mk_flash s) (a - MOCK_FLASH_BASE) d then Inr st
         else Inl (flash_failed ''patch'' (int (length d)) (int a))) \<and>
    take (a - MOCK_FLASH_BASE) (mk_flash s') = take (a - MOCK_FLASH_BASE) (mk_flash s) \<and>
    drop (a - MOCK_FLASH_BASE + length d) (mk_flash s') = drop (a - MOCK_FLASH_BASE + length d) (mk_flash s) \<and>
    sectors_erased st \<le> sectors_changed st \<and> sectors_changed st \<le> sectors_total st"
proof -
  let ?k = "a - MOCK_FLASH_BASE"
  have r: "d \<noteq> []" "MOCK_FLASH_BASE \<le> a" "a + length d \<le> MOCK_FLASH_BASE + MOCK_FLASH_SIZE" "c_uint (int a) = a"
    using region_bounds_mock [OF assms(3)] by blast+
  have len: "length u = length d" if "old = Some u" for u using assms(4) that by simp
  from mock.patch_sound [OF assms(2,3) len] obtain b st s' where
    p: "hw_flash_patch mock_ops s a old d = (b, st, s')" "mock_ok s'" "b \<longleftrightarrow> mock_mem s' = upd_range (mock_mem s) a d"
      "sectors_erased st \<le> sectors_changed st" "sectors_changed st \<le> sectors_total st"
    and o: "\<forall>x. \<not> (a \<le> x \<and> x < a + length d) \<longrightarrow> mock_mem s' x = mock_mem s x" by blast
  have n: "mk_flash s' ! i = mk_flash s ! i" if "i < MOCK_FLASH_SIZE" "i < ?k \<or> ?k + length d \<le> i" for i
  proof -
    have "\<not> (a \<le> MOCK_FLASH_BASE + i \<and> MOCK_FLASH_BASE + i < a + length d)" using that(2) r(2) by auto
    with o show ?thesis unfolding nth_flash [OF p(2) that(1)] nth_flash [OF assms(2) that(1)] by blast
  qed
  have l: "length (mk_flash s) = MOCK_FLASH_SIZE" "length (mk_flash s') = MOCK_FLASH_SIZE"
    using assms(2) p(2) by (simp_all add: mock_ok_def)
  have "take ?k (mk_flash s') = take ?k (mk_flash s)" using l n by (intro nth_equalityI) auto
  moreover have "drop (?k + length d) (mk_flash s') = drop (?k + length d) (mk_flash s)"
    using l n by (intro nth_equalityI) auto
  moreover have "b \<longleftrightarrow> mk_flash s' = overlay (mk_flash s) ?k d"
    unfolding p(3) by (rule flash_of_mem [OF assms(2) p(2) r(2,3)])
  moreover have "Flash_patch hw (int a) old d =
      (if b then Inr st else Inl (flash_failed ''patch'' (int (length d)) (int a)), hw\<lparr>hw_ctx := Some (mock_ops, s')\<rparr>)"
    using patch_call [OF r(1) assms(1), of "int a" old b st s'] p(1) len r(4) by simp
  ultimately show ?thesis
    using p(2,4,5) by (intro exI [of _ "fst (Flash_patch hw (int a) old d)"] exI [of _ st] exI [of _ s']) simp
qed

theorem flash_patch_sound_witness:
  "\<exists>r (st :: patch_stats) s'. Flash_patch demo_hw (int (MOCK_FLASH_BASE + 1022)) (Some [1, 2, 3]) [1, 2, 3] = (r, demo_hw\<lparr>hw_ctx := Some (mock_ops, s')\<rparr>) \<and>
     take (MOCK_FLASH_BASE + 1022 - MOCK_FLASH_BASE) (mk_flash s') = take (MOCK_FLASH_BASE + 1022 - MOCK_FLASH_BASE) (mk_flash mock_connect) \<and>
     sectors_erased st \<le> sectors_changed st"
proof -
  have "Some [1, 2, 3 :: byte] = None \<or> length (the (Some [1, 2, 3 :: byte])) = length [1, 2, 3 :: byte]" by simp
  from flash_patch_sound [OF demo_ctx demo_ok demo_range this] show ?thesis by (elim exE conjE) (rule exI, rule exI, rule exI, intro conjI, assumption+)
qed

text \<open>
  A patch whose new image is what the region already holds succeeds without erasing or programming
  anything: only the target is halted, and all counters but the number of visited blocks are zero.
\<close>

theorem flash_patch_noop:
  assumes "hw_ctx hw = Some (mock_ops, s)" "mock_ok s" "flash_range_ok mock_info a n"
    "old = None \<or> old = Some (flash_part s a n)"
  shows "\<exists>st. Flash_patch hw (int a) old (flash_part s a n) = (Inr st, hw\<lparr>hw_ctx := Some (mock_ops, s\<lparr>mk_halted := True\<rparr>)\<rparr>) \<and>
    sectors_changed st = 0 \<and> sectors_erased st = 0 \<and> bytes_written st = 0"
proof -
  let ?d = "flash_part s a n"
  have n: "MOCK_FLASH_BASE \<le> a" "a + n \<le> MOCK_FLASH_BASE + MOCK_FLASH_SIZE" using assms(3) by (auto simp: range_mock_iff)
  have l: "length ?d = n" by (rule flash_part_length [OF assms(2) n])
  then have rng: "flash_range_ok mock_info a (length ?d)" using assms(3) by simp
  have r: "?d \<noteq> []" "MOCK_FLASH_BASE \<le> a" "a + length ?d \<le> MOCK_FLASH_BASE + MOCK_FLASH_SIZE" "c_uint (int a) = a"
    using region_bounds_mock [OF rng] by blast+
  have old: "old = None \<or> old = Some (flash_part s a (length ?d))" using assms(4) unfolding l .
  note acc = accurate_part [OF assms(2) r(2,3) old]
  have same: "\<forall>x. a \<le> x \<and> x < a + length ?d \<longrightarrow> ?d ! (x - a) = mock_mem s x"
  proof (intro allI impI)
    fix x assume "a \<le> x \<and> x < a + length ?d"
    then have "x - a < n" "a + (x - a) = x" using l by auto
    then show "?d ! (x - a) = mock_mem s x" using flash_part_nth [OF assms(2) n, of "x - a"] by simp
  qed
  from mock.patch_same [OF assms(2) rng acc(2) same acc(1)] obtain st s' where
    p: "hw_flash_patch mock_ops s a old ?d = (True, st, s')" "flash_halt_target mock_ops s = (True, s')"
      "sectors_changed st = 0" "sectors_erased st = 0" "bytes_written st = 0" by blast
  have "s' = s\<lparr>mk_halted := True\<rparr>"
    using p(2) by (auto simp: flash_halt_target_def hw_board_halted_def hw_board_halt_def mock_ops_def split: if_splits)
  with patch_call [OF r(1) assms(1), of "int a" old True st s'] p acc(2) r(4) show ?thesis by (intro exI [of _ st]) simp
qed

theorem flash_patch_noop_witness:
  "\<exists>st. Flash_patch demo_hw (int (MOCK_FLASH_BASE + 1022)) None (flash_part mock_connect (MOCK_FLASH_BASE + 1022) (length [1, 2, 3 :: byte])) =
     (Inr st, demo_hw\<lparr>hw_ctx := Some (mock_ops, mock_connect\<lparr>mk_halted := True\<rparr>)\<rparr>) \<and> sectors_changed st = 0"
  using flash_patch_noop [OF demo_ctx demo_ok demo_range disjI1 [OF refl]] by blast

text \<open>
  A region that is not wholly inside the flash is refused by update and patch: both raise
  \<open>HwFlashError\<close>, naming the region, and the target is not touched, not even halted.
\<close>

theorem flash_range_rejected:
  assumes "hw_ctx hw = Some (mock_ops, s)" "mock_ok s" "d \<noteq> []" "\<not> flash_range_ok mock_info (c_uint addr) (length d)"
    "old = None \<or> length (the old) = length d"
  shows "Flash_update hw addr d = (Inl (flash_failed ''update'' (int (length d)) addr), hw) \<and>
    Flash_patch hw addr old d = (Inl (flash_failed ''patch'' (int (length d)) addr), hw)"
proof -
  have hw: "hw\<lparr>hw_ctx := Some (mock_ops, s)\<rparr> = hw" using assms(1) by (cases hw) simp
  have len: "length u = length d" if "old = Some u" for u using assms(5) that by simp
  have "Flash_update hw addr d = (Inl (flash_failed ''update'' (int (length d)) addr), hw)"
    using update_call [OF assms(3,1) mock.update_rejects(1) [OF assms(2-4)]] hw by simp
  moreover have "Flash_patch hw addr old d = (Inl (flash_failed ''patch'' (int (length d)) addr), hw)"
    using patch_call [OF assms(3,1) mock.update_rejects(2) [OF assms(2-4)] len] hw by simp
  ultimately show ?thesis by blast
qed

theorem flash_range_rejected_witness:
  "Flash_update demo_hw 0x20000000 [1] = (Inl (flash_failed ''update'' (int (length [1 :: byte])) 0x20000000), demo_hw)"
proof (rule flash_range_rejected [OF demo_ctx demo_ok, where old = None, THEN conjunct1])
  show "\<not> flash_range_ok mock_info (c_uint 0x20000000) (length [1 :: byte])"
    by (simp add: range_mock_iff) (simp add: mock_consts c_uint_def)
qed simp_all

end
