(* ===== verification/StateBindings.thy ===== *)
theory StateBindings
  imports Bindings
begin

text \<open>
  The state database objects of \<open>state.py\<close> and the rest of the class \<open>Hw\<close> of \<open>core.py\<close>: identify,
  the databases of a target, query and snapshot.  The \<open>IntEnum\<close> classes of \<open>state.py\<close> have the values
  of the C enumerations, whose datatypes stand for both.
\<close>

section \<open>Database objects\<close>

record py_desc =
  pd_name :: string
  pd_namespace :: hw_ns
  pd_access :: hw_acc
  pd_encoding :: "string option"
  pd_encoding_kind :: hw_enc_kind
  pd_width :: nat
  pd_readable :: bool
  pd_writable :: bool
  pd_snapshot :: bool
  pd_feature :: "string option"
  pd_component :: "string option"
  pd_ptr :: "state_desc option"

text \<open>\<open>x or None\<close> for a string that may be null.\<close>

fun or_none :: "string option \<Rightarrow> string option" where
  "or_none (Some (c # cs)) = Some (c # cs)"
| "or_none _ = None"

definition StateDesc_from_c :: "state_desc \<Rightarrow> state_desc option \<Rightarrow> py_desc" where
  "StateDesc_from_c c ptr =
     \<lparr>pd_name = sd_name c, pd_namespace = sd_ns c, pd_access = sd_access c, pd_encoding = or_none (sd_encoding c),
      pd_encoding_kind = sd_enc_kind c, pd_width = sd_width c, pd_readable = sd_readable c, pd_writable = sd_writable c,
      pd_snapshot = sd_snapshot c, pd_feature = or_none (sd_feature c), pd_component = or_none (sd_component c),
      pd_ptr = ptr\<rparr>"

fun is_implemented :: "hw_presence \<Rightarrow> bool" where
  "is_implemented HW_PRESENCE_ARCHITECTURAL = True"
| "is_implemented HW_PRESENCE_CONFIG_CONFIRMED = True"
| "is_implemented HW_PRESENCE_DISCOVERED = True"
| "is_implemented _ = False"

definition part_revision :: "cpu_features \<Rightarrow> string" where
  "part_revision f = ''r'' @ str_nat (cf_variant f) @ ''p'' @ str_nat (cf_revision f)"

definition interrupt_lines :: "cpu_features \<Rightarrow> nat" where
  "interrupt_lines f = (cf_nvic_intlinesnum f + 1) * 32"

record query_result =
  qr_presence :: hw_presence
  qr_evidence :: "string option"
  qr_read :: hw_read_status
  qr_value :: "nat option"
  qr_value_is_zero :: bool

definition qr_implemented :: "query_result \<Rightarrow> bool" where
  "qr_implemented r = is_implemented (qr_presence r)"

definition StateDb_source :: "hw_state_db \<Rightarrow> string" where "StateDb_source db = or_else (db_source db) []"

definition StateDb_len :: "hw_state_db \<Rightarrow> nat" where "StateDb_len db = length (db_states db)"

text \<open>The records \<open>Alias\<close>, \<open>Operation\<close>, \<open>Component\<close> and \<open>DebugReg\<close> have the fields of the C records.\<close>

definition StateDb_aliases :: "hw_state_db \<Rightarrow> state_alias list" where
  "StateDb_aliases db = map (\<lambda>i. db_aliases db ! i) [0..<length (db_aliases db)]"

definition StateDb_operations :: "hw_state_db \<Rightarrow> state_operation list" where
  "StateDb_operations db = map (\<lambda>i. db_operations db ! i) [0..<length (db_operations db)]"

definition StateDb_components :: "hw_state_db \<Rightarrow> state_component list" where
  "StateDb_components db = map (\<lambda>i. db_components db ! i) [0..<length (db_components db)]"

definition StateDb_debug_regs :: "hw_state_db \<Rightarrow> state_dbgreg list" where
  "StateDb_debug_regs db = map (\<lambda>i. db_dbgregs db ! i) [0..<length (db_dbgregs db)]"

definition StateDb_debug_reg :: "hw_state_db \<Rightarrow> string \<Rightarrow> state_dbgreg option" where
  "StateDb_debug_reg db name = hw_state_dbgreg db name"

definition StateDb_iter :: "hw_state_db \<Rightarrow> py_desc list" where
  "StateDb_iter db = map (\<lambda>c. StateDesc_from_c c (Some c)) (db_states db)"

definition StateDb_find :: "hw_state_db \<Rightarrow> string \<Rightarrow> py_desc option" where
  "StateDb_find db name = map_option (\<lambda>c. StateDesc_from_c c (Some c)) (hw_state_find db name)"

definition snapshot_state :: "hw_state_db \<Rightarrow> py_desc list" where
  "snapshot_state db = filter pd_snapshot (StateDb_iter db)"

definition StateDb_repr :: "hw_state_db \<Rightarrow> string" where
  "StateDb_repr db =
     ''<StateDb '' @ py_repr (db_name db) @ '' source='' @ py_repr (StateDb_source db) @ '' states='' @
     str_nat (StateDb_len db) @ ''>''"

text \<open>The array of databases is read as one of 64 entries, up to the first without a name.\<close>

definition databases :: "hw_state_db list \<Rightarrow> hw_state_db list" where
  "databases dbs = takeWhile (\<lambda>d. db_name d \<noteq> []) (take 64 dbs)"

definition database_names :: "hw_state_db list \<Rightarrow> string list" where
  "database_names dbs = map db_name (databases dbs)"

definition state_db :: "hw_state_db list \<Rightarrow> string \<Rightarrow> hw_state_db hw_res" where
  "state_db dbs name =
     (case find_db dbs name of
        None \<Rightarrow> Inl (HwStateError (''no state database named '' @ py_repr name @ ''; known: '' @ join '', '' (database_names dbs)))
      | Some d \<Rightarrow> Inr d)"

section \<open>Sequencing\<close>

definition hbind :: "'a hw_res \<times> 's hw \<Rightarrow> ('a \<Rightarrow> 's hw \<Rightarrow> 'b hw_res \<times> 's hw) \<Rightarrow> 'b hw_res \<times> 's hw" where
  "hbind m f = (case m of (Inl e, hw) \<Rightarrow> (Inl e, hw) | (Inr x, hw) \<Rightarrow> f x hw)"

lemma hbind_simps [simp]: "hbind (Inl e, hw) f = (Inl e, hw)" "hbind (Inr x, hw) f = f x hw"
  by (simp_all add: hbind_def)

lemma hbind_Inr_iff: "hbind m f = (Inr y, hw') \<longleftrightarrow> (\<exists>x hw1. m = (Inr x, hw1) \<and> f x hw1 = (Inr y, hw'))"
  by (cases m; cases "fst m") auto

text \<open>A loop that stops at the first exception.\<close>

fun fold_hw :: "('a \<Rightarrow> 'b \<Rightarrow> 's hw \<Rightarrow> 'b hw_res \<times> 's hw) \<Rightarrow> 'a list \<Rightarrow> 'b \<Rightarrow> 's hw \<Rightarrow> 'b hw_res \<times> 's hw" where
  "fold_hw f [] b hw = (Inr b, hw)"
| "fold_hw f (x # xs) b hw = hbind (f x b hw) (fold_hw f xs)"

section \<open>Methods of a connection\<close>

definition identify :: "'s hw \<Rightarrow> cpu_features hw_res \<times> 's hw" where
  "identify hw = checked hw
     (case c_call hw None (\<lambda>ops. hw_state_identify (target_of ops)) of
        (None, hw) \<Rightarrow> (Inl (HwStateError ''could not read the target's ID registers''), hw)
      | (Some f, hw) \<Rightarrow> (Inr f, hw))"

definition databases_for :: "hw_state_db list \<Rightarrow> cpu_features \<Rightarrow> hw_state_db list hw_res" where
  "databases_for dbs f =
     (case state_db dbs ''armv7m'' of
        Inl e \<Rightarrow> Inl e
      | Inr arch \<Rightarrow>
          (if nonempty (cf_overlay f) then
             (case state_db dbs (or_else (cf_overlay f) []) of Inl e \<Rightarrow> Inl e | Inr ov \<Rightarrow> Inr [arch, ov])
           else Inr [arch]))"

definition query_of :: "state_result \<Rightarrow> query_result" where
  "query_of out =
     \<lparr>qr_presence = sr_presence out, qr_evidence = or_none (Some (sr_evidence out)), qr_read = sr_read out,
      qr_value = (if sr_read out = HW_READ_OK then Some (sr_value out) else None), qr_value_is_zero = sr_value_is_zero out\<rparr>"

definition query :: "hw_state_db list \<Rightarrow> 's hw \<Rightarrow> py_desc \<Rightarrow> cpu_features option \<Rightarrow> query_result hw_res \<times> 's hw" where
  "query dbs hw desc f = checked hw
     (case pd_ptr desc of
        None \<Rightarrow> (Inl (HwStateError (pd_name desc @ '' was not obtained from a state database'')), hw)
      | Some c \<Rightarrow>
          (case c_call hw None (\<lambda>ops s. apfst Some (hw_state_query dbs (target_of ops) s c f)) of
             (None, hw) \<Rightarrow> (Inl (HwStateError (''query of '' @ pd_name desc @ '' failed'')), hw)
           | (Some out, hw) \<Rightarrow> (Inr (query_of out), hw)))"

definition snapshot_key :: "hw_state_db \<Rightarrow> py_desc \<Rightarrow> string" where
  "snapshot_key db desc = db_name db @ '':'' @ pd_name desc"

definition snapshot_one ::
  "hw_state_db list \<Rightarrow> cpu_features \<Rightarrow> hw_state_db \<times> py_desc \<Rightarrow> (string \<times> nat option) list \<Rightarrow> 's hw \<Rightarrow>
     (string \<times> nat option) list hw_res \<times> 's hw" where
  "snapshot_one dbs f dd out hw =
     (case dd of (db, desc) \<Rightarrow>
        if \<not> pd_snapshot desc then (Inr out, hw)
        else hbind (query dbs hw desc (Some f)) (\<lambda>r hw.
          (Inr (if qr_read r = HW_READ_OK \<and> qr_implemented r then dict_set out (snapshot_key db desc) (qr_value r) else out), hw)))"

text \<open>The two nested loops visit the pairs of a database and a descriptor in order.\<close>

definition db_descs :: "hw_state_db list \<Rightarrow> (hw_state_db \<times> py_desc) list" where
  "db_descs dbl = concat (map (\<lambda>db. map (Pair db) (StateDb_iter db)) dbl)"

definition snapshot ::
  "hw_state_db list \<Rightarrow> 's hw \<Rightarrow> cpu_features option \<Rightarrow> (string \<times> nat option) list hw_res \<times> 's hw" where
  "snapshot dbs hw fo = checked hw
     (hbind (case fo of Some f \<Rightarrow> (Inr f, hw) | None \<Rightarrow> identify hw) (\<lambda>f hw.
        hbind (databases_for dbs f, hw) (\<lambda>dbl. fold_hw (snapshot_one dbs f) (db_descs dbl) [])))"

definition Hw_repr :: "'s hw \<Rightarrow> string" where
  "Hw_repr hw = ''<Hw backend='' @ py_repr (hw_backend hw) @ '' '' @ (if Hw_closed hw then ''closed'' else ''open'') @ ''>''"

text \<open>\<open>with connect (...) as hw\<close>: the connection is closed on every way out.\<close>

definition with_hw :: "'s hw hw_res \<Rightarrow> ('s hw \<Rightarrow> 'a hw_res \<times> 's hw) \<Rightarrow> 'a hw_res \<times> 's hw option" where
  "with_hw c body =
     (case c of Inl e \<Rightarrow> (Inl e, None) | Inr hw \<Rightarrow> (case body hw of (r, hw) \<Rightarrow> (r, Some (Hw_close hw))))"

section \<open>Lemmas\<close>

lemma checked_open: "hw_ctx hw = Some c \<Longrightarrow> checked hw r = r"
  by (simp add: checked_def Hw_check_def)

lemma checked_closed: "hw_ctx hw = None \<Longrightarrow> checked hw r = (Inl (HwError ''this connection is closed''), hw)"
  by (simp add: checked_def Hw_check_def)

lemma c_call_open: "hw_ctx hw = Some (ops, s) \<Longrightarrow> c_call hw fail f = (fst (f ops s), hw\<lparr>hw_ctx := Some (ops, snd (f ops s))\<rparr>)"
  by (simp add: c_call_def split: prod.splits)

lemma hw_same: "hw_ctx hw = Some c \<Longrightarrow> hw\<lparr>hw_ctx := Some c\<rparr> = hw"
  by (cases hw) simp

lemma query_open:
  assumes "hw_ctx hw = Some (ops, s)" "pd_ptr desc = Some c" "hw_state_query dbs (target_of ops) s c f = (out, s')"
  shows "query dbs hw desc f = (Inr (query_of out), hw\<lparr>hw_ctx := Some (ops, s')\<rparr>)"
  using assms by (simp add: query_def checked_open c_call_open)

lemma iter_ptr: "desc \<in> set (StateDb_iter db) \<Longrightarrow> \<exists>c. c \<in> set (db_states db) \<and> desc = StateDesc_from_c c (Some c)"
  by (auto simp: StateDb_iter_def)

lemma from_c_simps [simp]: "pd_ptr (StateDesc_from_c c p) = p" "pd_name (StateDesc_from_c c p) = sd_name c"
  "pd_snapshot (StateDesc_from_c c p) = sd_snapshot c" "pd_readable (StateDesc_from_c c p) = sd_readable c"
  by (simp_all add: StateDesc_from_c_def)

lemma set_db_descs: "(db, desc) \<in> set (db_descs dbl) \<longleftrightarrow> db \<in> set dbl \<and> desc \<in> set (StateDb_iter db)"
  by (auto simp: db_descs_def)

text \<open>An open connection stays open, on the same backend.\<close>

lemma query_open_inv: "query dbs hw desc f = (Inr r, hw') \<Longrightarrow>
    \<exists>ops s c out s'. hw_ctx hw = Some (ops, s) \<and> pd_ptr desc = Some c \<and>
      hw_state_query dbs (target_of ops) s c f = (out, s') \<and> r = query_of out \<and> hw' = hw\<lparr>hw_ctx := Some (ops, s')\<rparr>"
proof (cases "hw_ctx hw")
  case (Some ctx)
  obtain ops s where ctx: "hw_ctx hw = Some (ops, s)" using Some by (cases ctx) simp
  assume q: "query dbs hw desc f = (Inr r, hw')"
  show ?thesis
  proof (cases "pd_ptr desc")
    case None
    with q ctx show ?thesis by (simp add: query_def checked_open)
  next
    case (Some c)
    obtain out s' where "hw_state_query dbs (target_of ops) s c f = (out, s')" by fastforce
    with query_open [OF ctx Some this] q ctx Some show ?thesis by auto
  qed
qed (simp add: query_def checked_closed)

text \<open>
  The evidence for an element of state, without the functions of the code: an element with a feature requirement rests on
  the feature; one without is architectural, or belongs to a debug block which a database pins at a base address where the
  four component identification registers were read and hold the CoreSight preamble.
\<close>

definition feature_met :: "string \<Rightarrow> cpu_features \<Rightarrow> bool" where
  "feature_met req f \<longleftrightarrow> req = ''FP_EXTENSION'' \<and> cf_fp_extension f \<or> req = ''MPU'' \<and> cf_mpu f \<or>
     req = ''IMPDEF:DWT_CTRL.NUMCOMP'' \<and> 0 < cf_dwt_numcomp f"

definition coresight_block :: "'s hw_ops \<Rightarrow> 's \<Rightarrow> nat \<Rightarrow> bool" where
  "coresight_block ops s base \<longleftrightarrow>
     (\<exists>c0 c1 c2 c3. hw_read32 ops s (add32 base 0xFF0) = Some c0 \<and> hw_read32 ops s (add32 base 0xFF4) = Some c1 \<and>
        hw_read32 ops s (add32 base 0xFF8) = Some c2 \<and> hw_read32 ops s (add32 base 0xFFC) = Some c3 \<and>
        c0 mod 256 = 0x0D \<and> c1 mod 16 = 0x0 \<and> c2 mod 256 = 0x05 \<and> c3 mod 256 = 0xB1)"

definition evidenced :: "hw_state_db list \<Rightarrow> 's hw_ops \<Rightarrow> 's \<Rightarrow> state_desc \<Rightarrow> cpu_features \<Rightarrow> bool" where
  "evidenced dbs ops s c f \<longleftrightarrow>
     (if nonempty (sd_feature c) then feature_met (or_else (sd_feature c) []) f
      else sd_ns c = HW_NS_ARCH \<or>
        sd_ns c = HW_NS_DEBUG \<and> (\<exists>db \<in> set dbs. \<exists>b \<in> set (db_components db).
          sd_component c = Some (sc_name b) \<and> coresight_block ops s (sc_base b)))"

lemma read_words_Some:
  "read_words (target_of ops) as s = (Some ws, s') \<Longrightarrow> list_all2 (\<lambda>a w. hw_read32 ops s a = Some w) as ws"
  by (induction as arbitrary: ws s') (auto simp: target_of_def split: option.splits prod.splits)

lemma component_present_block:
  assumes "component_present (target_of ops) base s = (Some True, s')"
  shows "coresight_block ops s base"
proof -
  from assms obtain ws where w: "read_words (target_of ops) (cidr_addrs base) s = (Some ws, s')" "cidr_match ws"
    by (auto simp: component_present_def split: prod.splits)
  from read_words_Some [OF w(1)] w(2) show ?thesis
    by (auto simp: cidr_addrs_def cidr_match_def coresight_block_def list_all2_Cons1)
qed

lemma first_some_in: "first_some f xs = Some y \<Longrightarrow> \<exists>x \<in> set xs. f x = Some y"
  by (induction xs) (auto split: option.splits)

lemma find_component_in: "find_component db n = Some c \<Longrightarrow> c \<in> set (db_components db)"
  by (auto simp: find_component_def find_Some_iff split: if_splits)

lemma implemented_evidenced:
  assumes "hw_state_presence dbs (target_of ops) s c (Some f) = (p, ev, s')" "is_implemented p"
  shows "evidenced dbs ops s c f"
proof (cases "nonempty (sd_feature c)")
  case True
  then obtain req where "sd_feature c = Some req" "req \<noteq> []" by (cases "sd_feature c") auto
  with assms show ?thesis
    by (auto simp: hw_state_presence_def hw_state_expected_def evidenced_def feature_met_def Let_def split: if_splits bool.splits)
next
  case False
  show ?thesis
  proof (cases "sd_ns c = HW_NS_DEBUG")
    case True
    with False assms obtain b where b: "first_some (\<lambda>db. find_component db (sd_component c)) dbs = Some b"
      and pr: "component_present (target_of ops) (sc_base b) s = (Some True, s')"
      by (auto simp: hw_state_presence_def split: option.splits prod.splits bool.splits)
    have "coresight_block ops s (sc_base b)" by (rule component_present_block [OF pr])
    moreover obtain db where "db \<in> set dbs" "find_component db (sd_component c) = Some b" using first_some_in [OF b] by blast
    moreover from this(2) have "sd_component c = Some (sc_name b)" by (auto simp: find_component_def find_Some_iff split: if_splits)
    ultimately show ?thesis using False True find_component_in [of db] by (auto simp: evidenced_def)
  next
    case ns: False
    with False assms show ?thesis by (auto simp: hw_state_presence_def evidenced_def split: if_splits)
  qed
qed

lemma query_read_ok:
  assumes "hw_state_query dbs (target_of ops) s c fo = (r, s')" "sr_read r = HW_READ_OK"
  shows "sd_readable c" "hw_state_read dbs (target_of ops) s c = (Some (sr_value r), HW_READ_OK, s')"
proof -
  obtain p ev s1 where p: "hw_state_presence dbs (target_of ops) s c fo = (p, ev, s1)" by (metis prod_cases3)
  have "s1 = s" by (rule presence_pure [OF p])
  obtain v why s2 where v: "hw_state_read dbs (target_of ops) s c = (v, why, s2)" by (metis prod_cases3)
  show "sd_readable c" "hw_state_read dbs (target_of ops) s c = (Some (sr_value r), HW_READ_OK, s')"
    using assms p v state_read_status [OF v] \<open>s1 = s\<close> by (auto simp: hw_state_query_def split: if_splits)
qed

section \<open>Queries in sequence\<close>

text \<open>The results of a sequence of queries on an open connection, each in the state that the one before it left.\<close>

fun query_run :: "hw_state_db list \<Rightarrow> 's hw_ops \<Rightarrow> cpu_features \<Rightarrow> state_desc list \<Rightarrow> 's \<Rightarrow> query_result list \<times> 's" where
  "query_run dbs ops f [] s = ([], s)"
| "query_run dbs ops f (c # cs) s =
     (case hw_state_query dbs (target_of ops) s c (Some f) of
        (r, s1) \<Rightarrow> (case query_run dbs ops f cs s1 of (rs, s2) \<Rightarrow> (query_of r # rs, s2)))"

lemma query_run_length [simp]: "length (fst (query_run dbs ops f cs s)) = length cs"
  by (induction cs arbitrary: s) (auto split: prod.splits simp: prod_eq_iff)

text \<open>What the result of the query number \<open>i\<close> says, in terms of the state in which it was made.\<close>

lemma query_run_nth:
  assumes "i < length cs"
  shows "fst (query_run dbs ops f cs s) ! i =
    query_of (fst (hw_state_query dbs (target_of ops) (snd (query_run dbs ops f (take i cs) s)) (cs ! i) (Some f)))"
  using assms
proof (induction cs arbitrary: s i)
  case (Cons c cs)
  then show ?case by (cases i) (auto split: prod.splits simp: prod_eq_iff)
qed simp

lemma query_run_evidenced:
  assumes "i < length cs" "qr_implemented (fst (query_run dbs ops f cs s) ! i)"
  shows "evidenced dbs ops (snd (query_run dbs ops f (take i cs) s)) (cs ! i) f"
proof -
  let ?s = "snd (query_run dbs ops f (take i cs) s)"
  obtain r s1 where q: "hw_state_query dbs (target_of ops) ?s (cs ! i) (Some f) = (r, s1)" by fastforce
  from query_presence [OF q] obtain s2 where
    "hw_state_presence dbs (target_of ops) ?s (cs ! i) (Some f) = (sr_presence r, sr_evidence r, s2)" by blast
  moreover have "is_implemented (sr_presence r)"
    using assms q by (simp add: query_run_nth qr_implemented_def query_of_def)
  ultimately show ?thesis by (rule implemented_evidenced)
qed

lemma query_run_read:
  assumes "i < length cs" "qr_read (fst (query_run dbs ops f cs s) ! i) = HW_READ_OK"
  shows "sd_readable (cs ! i) \<and> (\<exists>x s'. hw_state_read dbs (target_of ops) (snd (query_run dbs ops f (take i cs) s)) (cs ! i) =
      (Some x, HW_READ_OK, s') \<and> qr_value (fst (query_run dbs ops f cs s) ! i) = Some x)"
proof -
  let ?s = "snd (query_run dbs ops f (take i cs) s)"
  obtain r s1 where q: "hw_state_query dbs (target_of ops) ?s (cs ! i) (Some f) = (r, s1)" by fastforce
  have "fst (query_run dbs ops f cs s) ! i = query_of r" using query_run_nth [OF assms(1), of dbs ops f s] q by simp
  moreover from this assms(2) have "sr_read r = HW_READ_OK" by (simp add: query_of_def)
  ultimately show ?thesis using query_read_ok [OF q] by (auto simp: query_of_def)
qed

section \<open>The snapshot\<close>

definition snapshot_descs :: "hw_state_db list \<Rightarrow> (hw_state_db \<times> state_desc) list" where
  "snapshot_descs dbl = concat (map (\<lambda>db. map (Pair db) (filter sd_snapshot (db_states db))) dbl)"

lemma in_snapshot_descs: "(db, c) \<in> set (snapshot_descs dbl) \<longleftrightarrow> db \<in> set dbl \<and> c \<in> set (db_states db) \<and> sd_snapshot c"
  by (auto simp: snapshot_descs_def)

definition keep_result ::
  "(string \<times> nat option) list \<Rightarrow> (hw_state_db \<times> state_desc) \<times> query_result \<Rightarrow> (string \<times> nat option) list" where
  "keep_result out e =
     (case e of ((db, c), r) \<Rightarrow>
        (if qr_read r = HW_READ_OK \<and> qr_implemented r then dict_set out (db_name db @ '':'' @ sd_name c) (qr_value r) else out))"

lemma db_descs_map:
  "db_descs dbl = map (\<lambda>(db, c). (db, StateDesc_from_c c (Some c))) (concat (map (\<lambda>db. map (Pair db) (db_states db)) dbl))"
  by (induction dbl) (simp_all add: db_descs_def StateDb_iter_def)

lemma snapshot_descs_filter:
  "snapshot_descs dbl = filter (\<lambda>(db, c). sd_snapshot c) (concat (map (\<lambda>db. map (Pair db) (db_states db)) dbl))"
  by (induction dbl) (simp_all add: snapshot_descs_def filter_map o_def)

lemma snapshot_fold:
  assumes "hw_ctx hw = Some (ops, s)"
  shows "fold_hw (snapshot_one dbs f) (map (\<lambda>(db, c). (db, StateDesc_from_c c (Some c))) xs) out hw =
    (Inr (foldl keep_result out (zip (filter (\<lambda>(db, c). sd_snapshot c) xs)
        (fst (query_run dbs ops f (map snd (filter (\<lambda>(db, c). sd_snapshot c) xs)) s)))),
     hw\<lparr>hw_ctx := Some (ops, snd (query_run dbs ops f (map snd (filter (\<lambda>(db, c). sd_snapshot c) xs)) s))\<rparr>)"
  using assms
proof (induction xs arbitrary: out hw s)
  case Nil
  then show ?case by (simp add: hw_same)
next
  case (Cons x xs)
  obtain db c where x: "x = (db, c)" by (cases x)
  show ?case
  proof (cases "sd_snapshot c")
    case True
    obtain r s1 where q: "hw_state_query dbs (target_of ops) s c (Some f) = (r, s1)" by fastforce
    let ?hw1 = "hw\<lparr>hw_ctx := Some (ops, s1)\<rparr>"
    have "query dbs hw (StateDesc_from_c c (Some c)) (Some f) = (Inr (query_of r), ?hw1)"
      by (rule query_open [OF Cons.prems _ q]) simp
    then have "snapshot_one dbs f (db, StateDesc_from_c c (Some c)) out hw = (Inr (keep_result out ((db, c), query_of r)), ?hw1)"
      using True by (simp add: snapshot_one_def keep_result_def snapshot_key_def)
    then show ?thesis using True Cons.IH [of ?hw1 s1] q by (auto simp: x split: prod.splits)
  next
    case False
    then have "snapshot_one dbs f (db, StateDesc_from_c c (Some c)) out hw = (Inr out, hw)" by (simp add: snapshot_one_def)
    then show ?thesis using False Cons.IH [OF Cons.prems] by (simp add: x)
  qed
qed

lemma keep_result_in:
  "(k, v) \<in> set (foldl keep_result out es) \<Longrightarrow> (k, v) \<in> set out \<or>
     (\<exists>db c r. ((db, c), r) \<in> set es \<and> qr_read r = HW_READ_OK \<and> qr_implemented r \<and> k = db_name db @ '':'' @ sd_name c \<and> v = qr_value r)"
proof (induction es arbitrary: out)
  case (Cons e es)
  obtain db c r where e: "e = ((db, c), r)" by (metis prod.collapse)
  from Cons.IH [of "keep_result out e"] Cons.prems have "(k, v) \<in> set (keep_result out e) \<or>
     (\<exists>db c r. ((db, c), r) \<in> set es \<and> qr_read r = HW_READ_OK \<and> qr_implemented r \<and> k = db_name db @ '':'' @ sd_name c \<and> v = qr_value r)"
    by simp
  moreover have "(k, v) \<in> set (keep_result out e) \<Longrightarrow> (k, v) \<in> set out \<or>
      qr_read r = HW_READ_OK \<and> qr_implemented r \<and> k = db_name db @ '':'' @ sd_name c \<and> v = qr_value r"
    using set_dict_set [of out "db_name db @ '':'' @ sd_name c" "qr_value r"]
    by (auto simp: e keep_result_def split: if_splits)
  ultimately show ?case unfolding e by auto
qed simp

lemma if_read_pure: "if_read (target_of ops) a g (f, s) = (case hw_read32 ops s a of None \<Rightarrow> (f, s) | Some v \<Rightarrow> (g v f, s))"
  by (simp add: if_read_def target_of_def split: option.splits)

lemma identify_same: "snd (hw_state_identify (target_of ops) s) = s"
proof -
  have "snd (if_read (target_of ops) a g fs) = snd fs" for a g fs
    by (cases fs) (simp add: if_read_pure split: option.split)
  then show ?thesis by (simp add: hw_state_identify_def Let_def target_of_def split: option.splits prod.splits)
qed

lemma identify_hw: "hw_ctx hw = Some (ops, s) \<Longrightarrow> snd (identify hw) = hw"
  using identify_same [of ops s] by (simp add: identify_def checked_open c_call_open hw_same split: option.splits prod.splits)

text \<open>While the target runs, a query changes nothing and its result is a function of the state.\<close>

definition query_now :: "hw_state_db list \<Rightarrow> 's hw_ops \<Rightarrow> 's \<Rightarrow> state_desc \<Rightarrow> cpu_features option \<Rightarrow> query_result" where
  "query_now dbs ops s c f = query_of (fst (hw_state_query dbs (target_of ops) s c f))"

lemma query_running_py:
  assumes "hw_ctx hw = Some (ops, s)" "\<not> hw_board_halted ops s" "pd_ptr desc = Some c"
  shows "query dbs hw desc f = (Inr (query_now dbs ops s c f), hw)"
proof -
  obtain out s' where q: "hw_state_query dbs (target_of ops) s c f = (out, s')" by fastforce
  moreover from query_running [OF assms(2) this] have "s' = s" .
  ultimately show ?thesis using query_open [OF assms(1,3) q] hw_same [OF assms(1)] by (simp add: query_now_def)
qed

definition db_items ::
  "hw_state_db list \<Rightarrow> 's hw_ops \<Rightarrow> 's \<Rightarrow> cpu_features \<Rightarrow> hw_state_db \<Rightarrow> state_desc list \<Rightarrow> (string \<times> nat option) list" where
  "db_items dbs ops s f db cs =
     map (\<lambda>c. (db_name db @ '':'' @ sd_name c, qr_value (query_now dbs ops s c (Some f))))
       (filter (\<lambda>c. sd_snapshot c \<and> qr_read (query_now dbs ops s c (Some f)) = HW_READ_OK \<and>
          qr_implemented (query_now dbs ops s c (Some f))) cs)"

definition snapshot_items ::
  "hw_state_db list \<Rightarrow> 's hw_ops \<Rightarrow> 's \<Rightarrow> cpu_features \<Rightarrow> hw_state_db list \<Rightarrow> (string \<times> nat option) list" where
  "snapshot_items dbs ops s f dbl = concat (map (\<lambda>db. db_items dbs ops s f db (db_states db)) dbl)"

definition dict_of :: "('k \<times> 'v) list \<Rightarrow> ('k \<times> 'v) list" where
  "dict_of xs = foldl (\<lambda>d (k, v). dict_set d k v) [] xs"

lemma snapshot_fold_running:
  assumes "hw_ctx hw = Some (ops, s)" "\<not> hw_board_halted ops s"
  shows "fold_hw (snapshot_one dbs f) (db_descs dbl) out hw =
    (Inr (foldl (\<lambda>d (k, v). dict_set d k v) out (snapshot_items dbs ops s f dbl)), hw)"
proof -
  note q = query_running_py [OF assms]
  have one: "fold_hw (snapshot_one dbs f) (map (Pair db) (map (\<lambda>c. StateDesc_from_c c (Some c)) cs) @ ys) out hw =
      fold_hw (snapshot_one dbs f) ys (foldl (\<lambda>d (k, v). dict_set d k v) out (db_items dbs ops s f db cs)) hw"
    for db cs ys out
    by (induction cs arbitrary: out) (simp_all add: snapshot_one_def q db_items_def snapshot_key_def)
  show ?thesis
  proof (induction dbl arbitrary: out)
    case (Cons db dbl)
    have "db_descs (db # dbl) = map (Pair db) (map (\<lambda>c. StateDesc_from_c c (Some c)) (db_states db)) @ db_descs dbl"
      by (simp add: db_descs_def StateDb_iter_def)
    then show ?case using Cons by (simp only: one) (simp add: snapshot_items_def)
  qed (simp add: db_descs_def snapshot_items_def)
qed

section \<open>Properties\<close>

text \<open>
  C31.  Every entry of a snapshot stands for an element of one of the target's databases that is marked for snapshots and can
  be read, and its value is the one that a read of the element returned in the state of the target when its turn came,
  after the queries for the marked elements before it.  In that state the element is implemented on evidence other than
  the read: its feature requirement is met by the features, or it has none and is architectural, or it has none and
  belongs to a debug block whose four component identification registers hold the CoreSight preamble.
\<close>

theorem snapshot_sound:
  assumes "snapshot dbs hw fo = (Inr out, hw')" "(k, v) \<in> set out"
  shows "\<exists>ops s0 f dbl i db c s x s'. hw_ctx hw = Some (ops, s0) \<and>
    (fo = Some f \<or> fo = None \<and> fst (identify hw) = Inr f) \<and> databases_for dbs f = Inr dbl \<and>
    i < length (snapshot_descs dbl) \<and> snapshot_descs dbl ! i = (db, c) \<and>
    s = snd (query_run dbs ops f (map snd (take i (snapshot_descs dbl))) s0) \<and>
    db \<in> set dbl \<and> c \<in> set (db_states db) \<and> sd_snapshot c \<and> sd_readable c \<and> evidenced dbs ops s c f \<and>
    hw_state_read dbs (target_of ops) s c = (Some x, HW_READ_OK, s') \<and>
    k = db_name db @ '':'' @ sd_name c \<and> v = Some x"
proof -
  obtain ctx where "hw_ctx hw = Some ctx" using assms(1) by (cases "hw_ctx hw") (simp_all add: snapshot_def checked_closed)
  then obtain ops s0 where ctx: "hw_ctx hw = Some (ops, s0)" by (cases ctx) simp
  with assms(1) obtain f hw1 where f: "(case fo of Some f \<Rightarrow> (Inr f, hw) | None \<Rightarrow> identify hw) = (Inr f, hw1)"
    and rest: "hbind (databases_for dbs f, hw1) (\<lambda>dbl. fold_hw (snapshot_one dbs f) (db_descs dbl) []) = (Inr out, hw')"
    by (auto simp: snapshot_def checked_open hbind_Inr_iff)
  have "hw1 = hw" using f identify_hw [OF ctx] by (cases fo) auto
  with rest obtain dbl where dbl: "databases_for dbs f = Inr dbl"
    and fold: "fold_hw (snapshot_one dbs f) (db_descs dbl) [] hw = (Inr out, hw')" by (auto simp: hbind_Inr_iff)
  let ?ds = "snapshot_descs dbl"
  let ?rs = "fst (query_run dbs ops f (map snd ?ds) s0)"
  have "out = foldl keep_result [] (zip ?ds ?rs)"
    using fold snapshot_fold [OF ctx] unfolding db_descs_map snapshot_descs_filter by simp
  with keep_result_in [of k v "[]" "zip ?ds ?rs"] assms(2) obtain db c r where
    r: "((db, c), r) \<in> set (zip ?ds ?rs)" "qr_read r = HW_READ_OK" "qr_implemented r" "k = db_name db @ '':'' @ sd_name c"
      "v = qr_value r" by auto
  from r(1) obtain i where i: "i < length ?ds" "?ds ! i = (db, c)" "?rs ! i = r" by (auto simp: in_set_zip)
  have c: "map snd ?ds ! i = c" "take i (map snd ?ds) = map snd (take i ?ds)" "i < length (map snd ?ds)"
    using i by (simp_all add: take_map)
  note ev = query_run_evidenced [OF c(3), of dbs ops f s0, unfolded i(3) c(1,2), OF r(3)]
  from query_run_read [OF c(3), of dbs ops f s0, unfolded i(3) c(1,2), OF r(2)] obtain x s' where
    "sd_readable c" "hw_state_read dbs (target_of ops) (snd (query_run dbs ops f (map snd (take i ?ds)) s0)) c = (Some x, HW_READ_OK, s')"
    "qr_value r = Some x" by blast
  moreover have "fo = Some f \<or> fo = None \<and> fst (identify hw) = Inr f" using f by (cases fo) auto
  moreover have "db \<in> set dbl \<and> c \<in> set (db_states db) \<and> sd_snapshot c"
    using nth_mem [OF i(1)] i(2) by (simp add: in_snapshot_descs)
  ultimately show ?thesis using ctx dbl i(1,2) ev r(4,5) by blast
qed

definition demo_cpuid :: state_desc where
  "demo_cpuid = \<lparr>sd_name = ''CPUID'', sd_ns = HW_NS_ARCH, sd_access = HW_ACC_MEMORY_MAPPED, sd_encoding = Some ''0xE000ED00'',
     sd_enc_kind = HW_ENC_ABSOLUTE, sd_width = 32, sd_readable = True, sd_writable = False, sd_snapshot = True,
     sd_feature = Some [], sd_component = Some []\<rparr>"

definition demo_fpccr :: state_desc where
  "demo_fpccr = demo_cpuid\<lparr>sd_name := ''FPCCR'', sd_encoding := Some ''0xE000EF34'', sd_feature := Some ''FP_EXTENSION''\<rparr>"

definition demo_db :: hw_state_db where
  "demo_db = \<lparr>db_name = ''armv7m'', db_source = Some ''DDI0403 E.e'', db_states = [demo_cpuid, demo_fpccr], db_aliases = [],
     db_operations = [], db_dbgregs = [], db_components = []\<rparr>"

definition demo_features :: cpu_features where "demo_features = features_of_cpuid 0"

definition demo_running :: "mock hw" where
  "demo_running = demo_hw\<lparr>hw_ctx := Some (mock_ops, mock_connect\<lparr>mk_halted := False\<rparr>)\<rparr>"

lemma demo_running_ctx: "hw_ctx demo_running = Some (mock_ops, mock_connect\<lparr>mk_halted := False\<rparr>)"
  by (simp add: demo_running_def)

lemma demo_running_halted: "\<not> hw_board_halted mock_ops (mock_connect\<lparr>mk_halted := False\<rparr>)"
  by (simp add: hw_board_halted_def mock_ops_def)

text \<open>A fresh target reads zero outside its flash.\<close>

lemma mock_fresh_read:
  assumes "MOCK_FLASH_BASE + MOCK_FLASH_SIZE \<le> a" "a < 2 ^ 32 - 4" "mk_pages s = []"
  shows "hw_read32 mock_ops s a = Some 0"
proof -
  have "mock_read8 s (add32 a k) = Some 0" if "k < 4" for k
  proof -
    have "add32 a k = a + k" using assms(2) that by (simp add: add32_def)
    moreover have "\<not> mock_in_flash (a + k)" using assms(1) by (simp add: mock_in_flash_iff)
    ultimately show ?thesis using assms(3) by (simp add: mock_read8_def)
  qed
  then show ?thesis by (simp add: hw_read32_def mock_ops_def mock_read32_def Let_def)
qed

lemma demo_addr: "strtoul16 ''0xE000ED00'' = 0xE000ED00"
  by (simp add: strtoul16_def digit_value_def is_digit_def is_upper_ascii_def is_lower_ascii_def between_def cp_def)

lemma demo_dbs: "databases_for [demo_db] demo_features = Inr [demo_db]"
  by (simp add: databases_for_def state_db_def find_db_def demo_db_def demo_features_def features_of_cpuid_def
      PARTNO_CORTEX_M7_def PARTNO_CORTEX_M4_def)

lemma demo_query:
  assumes "mk_pages s = []"
  shows "hw_state_query [demo_db] (target_of mock_ops) s demo_cpuid (Some demo_features) =
    (\<lparr>sr_presence = HW_PRESENCE_ARCHITECTURAL, sr_evidence = ''mandated unconditionally by the architecture'',
      sr_read = HW_READ_OK, sr_value = 0, sr_value_is_zero = True\<rparr>, s)"
    "hw_state_query [demo_db] (target_of mock_ops) s demo_fpccr (Some demo_features) =
    (\<lparr>sr_presence = HW_PRESENCE_CONFIG_DENIED, sr_evidence = ''FP_EXTENSION'', sr_read = HW_READ_NOT_ATTEMPTED,
      sr_value = 0, sr_value_is_zero = False\<rparr>, s)"
proof -
  have "hw_read32 mock_ops s 0xE000ED00 = Some 0" by (rule mock_fresh_read) (simp_all add: mock_consts assms)
  then show "hw_state_query [demo_db] (target_of mock_ops) s demo_cpuid (Some demo_features) =
    (\<lparr>sr_presence = HW_PRESENCE_ARCHITECTURAL, sr_evidence = ''mandated unconditionally by the architecture'',
      sr_read = HW_READ_OK, sr_value = 0, sr_value_is_zero = True\<rparr>, s)"
    by (simp add: hw_state_query_def hw_state_presence_def hw_state_read_def demo_cpuid_def target_of_def demo_addr)
qed (simp add: hw_state_query_def hw_state_presence_def hw_state_expected_def demo_fpccr_def demo_cpuid_def demo_features_def
    features_of_cpuid_def Let_def)

lemma demo_items:
  "snapshot_items [demo_db] mock_ops (mock_connect\<lparr>mk_halted := False\<rparr>) demo_features [demo_db] = [(''armv7m:CPUID'', Some 0)]"
proof -
  have "mk_pages (mock_connect\<lparr>mk_halted := False\<rparr>) = []" by (simp add: mock_connect_def)
  note q = demo_query [OF this]
  have "db_states demo_db = [demo_cpuid, demo_fpccr]" "db_name demo_db = ''armv7m''" by (simp_all add: demo_db_def)
  then show ?thesis
    by (simp add: snapshot_items_def db_items_def query_now_def q query_of_def qr_implemented_def) (simp add: demo_cpuid_def)
qed

text \<open>
  C32.  On a running target a snapshot changes nothing and raises nothing: it holds exactly the elements of the
  target's databases that are marked for snapshots, implemented and read successfully, with the
  values read, in order; of two elements with one name the later value counts.
\<close>

theorem snapshot_running:
  assumes "hw_ctx hw = Some (ops, s)" "\<not> hw_board_halted ops s" "databases_for dbs f = Inr dbl"
  shows "snapshot dbs hw (Some f) = (Inr (dict_of (snapshot_items dbs ops s f dbl)), hw)"
  using assms(3) snapshot_fold_running [OF assms(1,2), of dbs f dbl "[]"]
  by (simp add: snapshot_def checked_open [OF assms(1)] dict_of_def)

theorem snapshot_running_witness:
  "snapshot [demo_db] demo_running (Some demo_features) = (Inr [(''armv7m:CPUID'', Some 0)], demo_running)"
  using snapshot_running [OF demo_running_ctx demo_running_halted demo_dbs] by (simp add: demo_items dict_of_def)

lemma demo_snapshot: "snapshot [demo_db] demo_running (Some demo_features) = (Inr [(''armv7m:CPUID'', Some 0)], demo_running)"
proof -
  have "fold_hw (snapshot_one [demo_db] demo_features) (db_descs [demo_db]) [] demo_running = (Inr [(''armv7m:CPUID'', Some 0)], demo_running)"
    using snapshot_fold_running [OF demo_running_ctx demo_running_halted, of "[demo_db]" demo_features "[demo_db]" "[]"]
    by (simp add: demo_items)
  then show ?thesis by (simp add: snapshot_def checked_open [OF demo_running_ctx] demo_dbs)
qed

theorem snapshot_sound_witness:
  "\<exists>i c s x s'. i < length (snapshot_descs [demo_db]) \<and> snapshot_descs [demo_db] ! i = (demo_db, c) \<and>
     evidenced [demo_db] mock_ops s c demo_features \<and>
     hw_state_read [demo_db] (target_of mock_ops) s c = (Some x, HW_READ_OK, s') \<and>
     ''armv7m:CPUID'' = db_name demo_db @ '':'' @ sd_name c \<and> Some (0 :: nat) = Some x"
proof -
  have "(''armv7m:CPUID'', Some 0) \<in> set [(''armv7m:CPUID'', Some (0 :: nat))]" by simp
  from snapshot_sound [OF demo_snapshot this] obtain ops s0 f dbl i db c s x s' where
    w: "hw_ctx demo_running = Some (ops, s0)" "Some demo_features = Some f" "databases_for [demo_db] f = Inr dbl"
    "i < length (snapshot_descs dbl)" "snapshot_descs dbl ! i = (db, c)" "db \<in> set dbl" "evidenced [demo_db] ops s c f"
    "hw_state_read [demo_db] (target_of ops) s c = (Some x, HW_READ_OK, s')" "''armv7m:CPUID'' = db_name db @ '':'' @ sd_name c"
    "Some (0 :: nat) = Some x" by (elim exE conjE) (erule disjE, rule that, assumption+, simp)
  have "ops = mock_ops" "f = demo_features" "dbl = [demo_db]" "db = demo_db"
    using w(1-3,6) demo_dbs demo_running_ctx by auto
  with w(4,5,7-10) show ?thesis by blast
qed

text \<open>Identification.\<close>

lemma identify_pure:
  assumes "hw_read32 ops s SCS_CPUID = Some v"
  shows "\<exists>f. hw_state_identify (target_of ops) s = (Some f, s) \<and> cf_cpuid f = v \<and> cf_partno f = (v div 2 ^ 4) mod 0x1000 \<and>
    cf_variant f = (v div 2 ^ 20) mod 16 \<and> cf_revision f = v mod 16 \<and> cf_overlay f = cf_overlay (features_of_cpuid v) \<and>
    cf_revision_matches f = cf_revision_matches (features_of_cpuid v)"
  using assms by (cases "hw_read32 ops s SCS_MPU_TYPE"; cases "hw_read32 ops s SCS_MVFR0"; cases "hw_read32 ops s DWT_CTRL";
      cases "hw_read32 ops s SCS_ICTR")
    (simp_all add: hw_state_identify_def Let_def if_read_pure target_of_def [of ops, THEN arg_cong [where f = tg_read32], simplified]
      features_of_cpuid_def)

text \<open>
  C34.  The value of CPUID alone decides which databases describe a target: the architecture, and the overlay
  of the Cortex-M7 or the Cortex-M4 if the part number is one of theirs; the pinned revision matches
  only for r0p2 of the one and r0p0 of the other.  Identification changes nothing.
\<close>

theorem identify_selects_databases:
  assumes "hw_ctx hw = Some (ops, s)" "hw_read32 ops s SCS_CPUID = Some v"
  shows "\<exists>f. identify hw = (Inr f, hw) \<and> cf_cpuid f = v \<and>
    databases_for dbs f =
      (case state_db dbs ''armv7m'' of
         Inl e \<Rightarrow> Inl e
       | Inr a \<Rightarrow>
           (if (v div 16) mod 0x1000 = 0xC27 then map_sum id (\<lambda>d. [a, d]) (state_db dbs ''cortex_m7_r0p2'')
            else if (v div 16) mod 0x1000 = 0xC24 then map_sum id (\<lambda>d. [a, d]) (state_db dbs ''cortex_m4_r0p0'')
            else Inr [a])) \<and>
    cf_revision_matches f =
      ((v div 2 ^ 20) mod 16 = 0 \<and>
       ((v div 16) mod 0x1000 = 0xC27 \<and> v mod 16 = 2 \<or> (v div 16) mod 0x1000 = 0xC24 \<and> v mod 16 = 0))"
proof -
  obtain f where f: "hw_state_identify (target_of ops) s = (Some f, s)" "cf_cpuid f = v"
    "cf_overlay f = cf_overlay (features_of_cpuid v)" "cf_revision_matches f = cf_revision_matches (features_of_cpuid v)"
    using identify_pure [OF assms(2)] by blast
  have "identify hw = (Inr f, hw)"
    using f(1) by (simp add: identify_def checked_open [OF assms(1)] c_call_open [OF assms(1)] hw_same [OF assms(1)])
  moreover have "cf_overlay f =
      (if (v div 16) mod 0x1000 = 0xC27 then Some ''cortex_m7_r0p2''
       else if (v div 16) mod 0x1000 = 0xC24 then Some ''cortex_m4_r0p0'' else None)"
    by (simp add: f(3) features_of_cpuid_def PARTNO_CORTEX_M7_def PARTNO_CORTEX_M4_def Let_def)
  moreover have "cf_revision_matches f = ((v div 2 ^ 20) mod 16 = 0 \<and>
       ((v div 16) mod 0x1000 = 0xC27 \<and> v mod 16 = 2 \<or> (v div 16) mod 0x1000 = 0xC24 \<and> v mod 16 = 0))"
    by (simp add: f(4) features_of_cpuid_def PARTNO_CORTEX_M7_def PARTNO_CORTEX_M4_def Let_def)
  ultimately show ?thesis using f(2)
    by (intro exI [of _ f]) (simp add: databases_for_def split: sum.splits)
qed

text \<open>A target that answers every read with one value.\<close>

definition constant_ops :: "nat \<Rightarrow> unit hw_ops" where
  "constant_ops v =
     \<lparr>op_write32 = None, op_write8 = None, op_read32 = Some (\<lambda>s a. Some v), op_read8 = None, op_board_halted = None,
      op_board_run = None, op_board_halt = None, op_board_step = None, op_read_reg = None, op_write_reg = None,
      op_board_reset = None, op_flash_info = None, op_flash_sector = None, op_flash_read = None, op_flash_write = None,
      op_flash_erase = None, op_flash_mass_erase = None\<rparr>"

definition constant_hw :: "nat \<Rightarrow> unit hw" where
  "constant_hw v = \<lparr>hw_ctx = Some (constant_ops v, ()), hw_backend = ''constant''\<rparr>"

lemma constant_ctx: "hw_ctx (constant_hw v) = Some (constant_ops v, ())"
  by (simp add: constant_hw_def)

lemma constant_read: "hw_read32 (constant_ops v) () a = Some v"
  by (simp add: hw_read32_def constant_ops_def)

definition demo_overlay :: hw_state_db where
  "demo_overlay = demo_db\<lparr>db_name := ''cortex_m7_r0p2''\<rparr>"

lemma demo_lookup:
  "state_db [demo_db, demo_overlay] ''armv7m'' = Inr demo_db"
  "state_db [demo_db, demo_overlay] ''cortex_m7_r0p2'' = Inr demo_overlay"
  by (simp_all add: state_db_def find_db_def demo_overlay_def demo_db_def)

theorem identify_selects_databases_witness:
  "\<exists>f. identify (constant_hw 0x410FC272) = (Inr f, constant_hw 0x410FC272) \<and>
     databases_for [demo_db, demo_overlay] f = Inr [demo_db, demo_overlay] \<and> cf_revision_matches f"
proof -
  from identify_selects_databases [OF constant_ctx constant_read [of "0x410FC272" SCS_CPUID], of "[demo_db, demo_overlay]"]
  obtain f where "identify (constant_hw 0x410FC272) = (Inr f, constant_hw 0x410FC272)"
    "databases_for [demo_db, demo_overlay] f = Inr [demo_db, demo_overlay]" "cf_revision_matches f"
    by (elim exE conjE) (simp add: demo_lookup)
  then show ?thesis by blast
qed

text \<open>The component identification registers are all that a verdict takes from the target.\<close>

lemma read_words_agree:
  "(\<And>a. a \<in> set as \<Longrightarrow> hw_read32 ops1 s1 a = hw_read32 ops2 s2 a) \<Longrightarrow>
     fst (read_words (target_of ops1) as s1) = fst (read_words (target_of ops2) as s2)"
  by (induction as) (auto simp: target_of_def split: option.splits prod.splits)

lemma presence_agree:
  assumes "\<And>db c a. db \<in> set dbs \<Longrightarrow> c \<in> set (db_components db) \<Longrightarrow> a \<in> set (cidr_addrs (sc_base c)) \<Longrightarrow>
      hw_read32 ops1 s1 a = hw_read32 ops2 s2 a"
    and "hw_state_presence dbs (target_of ops1) s1 d f = (p1, e1, t1)" "hw_state_presence dbs (target_of ops2) s2 d f = (p2, e2, t2)"
  shows "p1 = p2 \<and> e1 = e2"
proof (cases "first_some (\<lambda>db. find_component db (sd_component d)) dbs")
  case None
  with assms(2,3) show ?thesis
    by (cases "hw_state_expected d f") (auto simp: hw_state_presence_def Let_def split: if_splits bool.splits)
next
  case (Some c)
  then obtain db where "db \<in> set dbs" "c \<in> set (db_components db)" by (auto dest!: first_some_in find_component_in)
  then have "fst (read_words (target_of ops1) (cidr_addrs (sc_base c)) s1) = fst (read_words (target_of ops2) (cidr_addrs (sc_base c)) s2)"
    by (intro read_words_agree assms(1))
  then have "fst (component_present (target_of ops1) (sc_base c) s1) = fst (component_present (target_of ops2) (sc_base c) s2)"
    by (cases "read_words (target_of ops1) (cidr_addrs (sc_base c)) s1"; cases "read_words (target_of ops2) (cidr_addrs (sc_base c)) s2")
      (simp add: component_present_def)
  moreover obtain b u1 u2 where "component_present (target_of ops1) (sc_base c) s1 = (b, u1)"
    "component_present (target_of ops2) (sc_base c) s2 = (b, u2)" using calculation by (metis prod.collapse)
  ultimately show ?thesis using assms(2,3) Some
    by (cases "hw_state_expected d f"; cases b)
      (auto simp: hw_state_presence_def Let_def split: if_splits bool.splits)
qed

text \<open>
  C33.  The read outcome never changes the presence verdict.  Two targets of any kind that answer alike at the component
  identification registers of the databases get the same verdict, on the same evidence, for one
  descriptor and one set of features, whatever else the one or the other answers or refuses.
\<close>

theorem verdict_independent_of_read:
  assumes "hw_ctx hw1 = Some (ops1, s1)" "hw_ctx hw2 = Some (ops2, s2)" "pd_ptr d = Some c"
    and "\<And>db b a. db \<in> set dbs \<Longrightarrow> b \<in> set (db_components db) \<Longrightarrow> a \<in> set (cidr_addrs (sc_base b)) \<Longrightarrow>
      hw_read32 ops1 s1 a = hw_read32 ops2 s2 a"
  shows "\<exists>r1 r2 hw1' hw2'. query dbs hw1 d f = (Inr r1, hw1') \<and> query dbs hw2 d f = (Inr r2, hw2') \<and>
    qr_presence r1 = qr_presence r2 \<and> qr_evidence r1 = qr_evidence r2"
proof -
  obtain o1 t1 o2 t2 where o: "hw_state_query dbs (target_of ops1) s1 c f = (o1, t1)" "hw_state_query dbs (target_of ops2) s2 c f = (o2, t2)"
    by fastforce
  obtain u1 where p1: "hw_state_presence dbs (target_of ops1) s1 c f = (sr_presence o1, sr_evidence o1, u1)"
    using query_presence [OF o(1)] by blast
  obtain u2 where p2: "hw_state_presence dbs (target_of ops2) s2 c f = (sr_presence o2, sr_evidence o2, u2)"
    using query_presence [OF o(2)] by blast
  have "sr_presence o1 = sr_presence o2 \<and> sr_evidence o1 = sr_evidence o2" by (rule presence_agree [OF assms(4) p1 p2])
  with query_open [OF assms(1,3) o(1)] query_open [OF assms(2,3) o(2)] show ?thesis by (simp add: query_of_def)
qed

theorem verdict_independent_of_read_witness:
  "\<exists>r1 r2 hw1' hw2'. query [demo_db] (constant_hw 7) (StateDesc_from_c demo_cpuid (Some demo_cpuid)) None = (Inr r1, hw1') \<and>
     query [demo_db] demo_hw (StateDesc_from_c demo_cpuid (Some demo_cpuid)) None = (Inr r2, hw2') \<and>
     qr_presence r1 = qr_presence r2 \<and> qr_evidence r1 = qr_evidence r2"
  by (rule verdict_independent_of_read [OF constant_ctx demo_ctx from_c_simps(1)]) (simp add: demo_db_def)

text \<open>
  Without features every conditional element is reported as confirmed: a query that is not given the features
  answers that the configuration confirms the element, names the requirement as the evidence and
  counts it as implemented, although no configuration register was looked at, and although the
  same target, asked with its features, may deny it.
\<close>

theorem query_without_features:
  assumes "hw_ctx hw = Some (ops, s)" "pd_ptr d = Some c" "sd_feature c = Some req" "req \<noteq> []"
  shows "\<exists>r hw'. query dbs hw d None = (Inr r, hw') \<and> qr_presence r = HW_PRESENCE_CONFIG_CONFIRMED \<and>
    qr_evidence r = Some req \<and> qr_implemented r"
proof -
  obtain o1 t where o: "hw_state_query dbs (target_of ops) s c None = (o1, t)" by fastforce
  obtain u where "hw_state_presence dbs (target_of ops) s c None = (sr_presence o1, sr_evidence o1, u)"
    using query_presence [OF o] by blast
  then have "sr_presence o1 = HW_PRESENCE_CONFIG_CONFIRMED" "sr_evidence o1 = req"
    using assms(3,4) by (simp_all add: hw_state_presence_def hw_state_expected_def)
  moreover have "or_none (Some req) = Some req" using assms(4) by (cases req) simp_all
  ultimately show ?thesis using query_open [OF assms(1,2) o] by (simp add: query_of_def qr_implemented_def)
qed

theorem query_without_features_witness:
  "\<exists>r hw'. query [demo_db] demo_hw (StateDesc_from_c demo_fpccr (Some demo_fpccr)) None = (Inr r, hw') \<and>
     qr_presence r = HW_PRESENCE_CONFIG_CONFIRMED"
proof -
  have "sd_feature demo_fpccr = Some ''FP_EXTENSION''" "''FP_EXTENSION'' \<noteq> []" by (simp_all add: demo_fpccr_def)
  from query_without_features [OF demo_ctx from_c_simps(1) this] show ?thesis by blast
qed

text \<open>
  C0.  After \<open>close\<close> no method reaches the target any more: the methods of the connection raise \<open>HwError\<close>
  with the same message, the flash methods fail with \<open>HwFlashError\<close> (a verify answers no), and the
  object is unchanged.
\<close>

theorem closed_connection_refuses:
  assumes "hw = Hw_close hw0" "data \<noteq> []" "0 < n"
  shows "Hw_closed hw \<and>
    read32 hw a = (Inl (HwError ''this connection is closed''), hw) \<and>
    write32 hw a v = (Inl (HwError ''this connection is closed''), hw) \<and>
    halt hw = (Inl (HwError ''this connection is closed''), hw) \<and>
    reset hw = (Inl (HwError ''this connection is closed''), hw) \<and>
    identify hw = (Inl (HwError ''this connection is closed''), hw) \<and>
    snapshot dbs hw fo = (Inl (HwError ''this connection is closed''), hw) \<and>
    Flash_read hw a n = Inl (flash_failed ''read'' n a) \<and>
    Flash_write hw a data = (Inl (flash_failed ''write'' (int (length data)) a), hw) \<and>
    Flash_update hw a data = (Inl (flash_failed ''update'' (int (length data)) a), hw) \<and>
    Flash_patch hw a None data = (Inl (flash_failed ''patch'' (int (length data)) a), hw) \<and>
    \<not> Flash_verify hw a data"
proof -
  have c: "hw_ctx hw = None" by (simp add: assms(1) Hw_close_def)
  note closed = checked_closed [OF c]
  have "c_call hw fail g = (fail, hw)" for fail :: 'x and g by (simp add: c_call_def c)
  moreover have "c_get hw fail g = fail" for fail :: 'x and g by (simp add: c_get_def c)
  ultimately show ?thesis using assms(2,3) c
    by (simp add: closed Hw_closed_def read32_def write32_def halt_def reset_def identify_def snapshot_def
        Flash_read_def Flash_write_def Flash_update_def Flash_patch_def Flash_verify_def ok_or_def c_call_def c_get_def)
qed

theorem closed_connection_refuses_witness:
  "Hw_closed (Hw_close demo_hw) \<and> Flash_write (Hw_close demo_hw) 0 [1] = (Inl (flash_failed ''write'' (int (length [1 :: byte])) 0), Hw_close demo_hw)"
proof -
  have "[1 :: byte] \<noteq> []" "(0 :: int) < 1" by simp_all
  from closed_connection_refuses [OF refl this, of demo_hw 0 0 "[]" None] show ?thesis by blast
qed

end
