(* ===== verification/MockMemory.thy ===== *)
theory MockMemory
  imports Bindings
begin

unbundle bit_operations_syntax

text \<open>
  The mock target as a memory: its invariant, what the bytewise accesses do to it, the round trip of a
  32-bit word, and the rule of NOR flash that a write can only clear bits.
\<close>

section \<open>Invariant\<close>

definition page_ok :: "nat \<times> byte list \<Rightarrow> bool" where
  "page_ok p \<longleftrightarrow> fst p mod PAGE_SIZE = 0 \<and> length (snd p) = PAGE_SIZE"

definition mock_wf :: "mock \<Rightarrow> bool" where
  "mock_wf s \<longleftrightarrow> length (mk_flash s) = MOCK_FLASH_SIZE \<and> length (mk_regs s) = 32 \<and>
     list_all page_ok (mk_pages s) \<and> distinct (map fst (mk_pages s)) \<and> length (mk_pages s) \<le> MAX_MEM_PAGES"

lemma mock_connect_wf: "mock_wf mock_connect"
  by (simp add: mock_wf_def mock_connect_def)

lemma page_addr_simps: "page_addr a mod PAGE_SIZE = 0" "page_addr a + a mod PAGE_SIZE = a"
  by (simp_all add: page_addr_def minus_mod_eq_mult_div)

lemma page_addr_eq: "page_addr a = page_addr b \<Longrightarrow> a mod PAGE_SIZE = b mod PAGE_SIZE \<longleftrightarrow> a = b"
  by (metis page_addr_simps(2))

lemma length_dict_set: "length (dict_set d k v) = (if dict_get d k = None then Suc (length d) else length d)"
  by (induction d) (auto split: prod.splits if_splits)

lemma list_all_dict_set: "list_all P d \<Longrightarrow> P (k, v) \<Longrightarrow> list_all P (dict_set d k v)"
  using set_dict_set [of d k v] by (auto simp: list_all_iff)

text \<open>The page found or made: it is well formed, and so is the state with it.\<close>

lemma get_or_create_wf:
  assumes "mock_wf s" "get_or_create_page s a = Some (p, s1)"
  shows "mock_wf s1" "length p = PAGE_SIZE" "dict_get (mk_pages s1) (page_addr a) = Some p" "mk_flash s1 = mk_flash s"
    "mk_regs s1 = mk_regs s"
    "page_addr b \<noteq> page_addr a \<Longrightarrow> dict_get (mk_pages s1) (page_addr b) = dict_get (mk_pages s) (page_addr b)"
    "or_else (dict_get (mk_pages s) (page_addr a)) (replicate PAGE_SIZE 0) = p"
proof -
  have "mock_wf s1 \<and> length p = PAGE_SIZE \<and> dict_get (mk_pages s1) (page_addr a) = Some p \<and> mk_flash s1 = mk_flash s \<and>
      mk_regs s1 = mk_regs s \<and>
      (page_addr b \<noteq> page_addr a \<longrightarrow> dict_get (mk_pages s1) (page_addr b) = dict_get (mk_pages s) (page_addr b)) \<and>
      or_else (dict_get (mk_pages s) (page_addr a)) (replicate PAGE_SIZE 0) = p"
  proof (cases "dict_get (mk_pages s) (page_addr a)")
    case None
    then have "page_addr a \<notin> fst ` set (mk_pages s)" by (simp add: dict_get_None_iff)
    with assms None show ?thesis
      by (auto simp: get_or_create_page_def mock_wf_def Let_def page_ok_def page_addr_simps dict_get_append
          split: if_splits option.splits)
  next
    case (Some q)
    with assms(1) have "page_ok (page_addr a, q)" by (auto simp: mock_wf_def list_all_iff dest!: dict_get_in)
    with assms Some show ?thesis by (auto simp: get_or_create_page_def page_ok_def)
  qed
  then show "mock_wf s1" "length p = PAGE_SIZE" "dict_get (mk_pages s1) (page_addr a) = Some p" "mk_flash s1 = mk_flash s"
    "mk_regs s1 = mk_regs s"
    "page_addr b \<noteq> page_addr a \<Longrightarrow> dict_get (mk_pages s1) (page_addr b) = dict_get (mk_pages s) (page_addr b)"
    "or_else (dict_get (mk_pages s) (page_addr a)) (replicate PAGE_SIZE 0) = p" by blast+
qed

definition byte_at :: "mock \<Rightarrow> nat \<Rightarrow> byte" where
  "byte_at s a = or_else (mock_read8 s a) 0"

lemma read8_byte_at: "mock_read8 s a = Some (byte_at s a)"
  by (simp add: byte_at_def mock_read8_def)

lemma byte_at_page:
  "\<not> mock_in_flash a \<Longrightarrow> byte_at s a = or_else (dict_get (mk_pages s) (page_addr a)) (replicate PAGE_SIZE 0) ! (a mod PAGE_SIZE)"
  by (simp add: byte_at_def mock_read8_def PAGE_SIZE_def split: option.splits)

text \<open>A byte written to memory changes that byte and no other.\<close>

lemma write8_effect:
  assumes "mock_wf s" "\<not> mock_in_flash a" "mock_write8 s a v = (True, s')"
  shows "mock_wf s' \<and> byte_at s' b = (if b = a then v else byte_at s b)"
proof -
  from assms(2,3) obtain p s1 where g: "get_or_create_page s a = Some (p, s1)"
    and s': "s' = s1\<lparr>mk_pages := dict_set (mk_pages s1) (page_addr a) (p[a mod PAGE_SIZE := v])\<rparr>"
    by (auto simp: mock_write8_def split: option.splits)
  note w = get_or_create_wf [OF assms(1) g]
  let ?p = "p[a mod PAGE_SIZE := v]"
  have "page_ok (page_addr a, ?p)" by (simp add: page_ok_def w(2) page_addr_simps)
  with w(1,3) have wf: "mock_wf s'"
    by (simp add: s' mock_wf_def list_all_dict_set distinct_dict_set length_dict_set)
  have "byte_at s' b = (if b = a then v else byte_at s b)"
  proof (cases "mock_in_flash b")
    case True
    then have "b \<noteq> a" using assms(2) by blast
    with True show ?thesis by (simp add: byte_at_def mock_read8_def s' w(4))
  next
    case False
    have lt: "a mod PAGE_SIZE < PAGE_SIZE" "b mod PAGE_SIZE < PAGE_SIZE" by (simp_all add: PAGE_SIZE_def)
    show ?thesis
    proof (cases "page_addr b = page_addr a")
      case True
      have "byte_at s' b = ?p ! (b mod PAGE_SIZE)" unfolding byte_at_page [OF False] by (simp add: s' True)
      moreover have "byte_at s b = p ! (b mod PAGE_SIZE)" unfolding byte_at_page [OF False] True w(7) ..
      ultimately show ?thesis using page_addr_eq [OF True] lt w(2) by (auto simp: nth_list_update)
    next
      case False
      then have "b \<noteq> a" by blast
      with False w(6) [OF False] show ?thesis unfolding byte_at_page [OF \<open>\<not> mock_in_flash b\<close>] by (simp add: s')
    qed
  qed
  with wf show ?thesis by blast
qed

lemma write8_wf: "mock_wf s \<Longrightarrow> mock_wf (snd (mock_write8 s a v))"
proof (cases "mock_in_flash a")
  case True
  assume "mock_wf s"
  with True show ?thesis by (simp add: mock_write8_def mock_wf_def Let_def)
next
  case False
  assume wf: "mock_wf s"
  show ?thesis
  proof (cases "mock_write8 s a v")
    case (Pair b s')
    show ?thesis
    proof (cases b)
      case True
      with write8_effect [OF wf False, of v s' a] Pair show ?thesis by simp
    next
      case f: False
      with Pair False have "s' = s" by (auto simp: mock_write8_def split: option.splits)
      with Pair wf show ?thesis by simp
    qed
  qed
qed

lemma write_bytes_wf: "mock_wf s \<Longrightarrow> mock_wf (snd (write_bytes s a bs))"
proof (induction s a bs rule: write_bytes.induct)
  case (2 s a b bs)
  then show ?case using write8_wf [of s a b] by (auto split: prod.splits bool.splits)
qed simp

lemma add32_Suc: "add32 (add32 a 1) k = add32 a (Suc k)" "add32 (add32 a (Suc 0)) k = add32 a (Suc k)"
  by (simp_all add: add32_def mod_add_left_eq)

text \<open>A run of bytes written to memory.\<close>

lemma write_bytes_effect:
  assumes "mock_wf s" "write_bytes s a bs = (True, s')" "a < 2 ^ 32" "length bs \<le> 4"
    "\<And>k. k < length bs \<Longrightarrow> \<not> mock_in_flash (add32 a k)"
  shows "(\<forall>k < length bs. byte_at s' (add32 a k) = bs ! k) \<and>
    (\<forall>x. (\<forall>k < length bs. x \<noteq> add32 a k) \<longrightarrow> byte_at s' x = byte_at s x)"
  using assms
proof (induction bs arbitrary: s a)
  case (Cons b bs)
  have a0: "add32 a 0 = a" using Cons.prems(3) by (simp add: add32_def)
  from Cons.prems(2) obtain s1 where w: "mock_write8 s a b = (True, s1)" "write_bytes s1 (add32 a 1) bs = (True, s')"
    by (auto split: prod.splits bool.splits)
  have "\<not> mock_in_flash a" using Cons.prems(5) [of 0] a0 by simp
  note e = write8_effect [OF Cons.prems(1) this w(1)]
  have nf: "\<not> mock_in_flash (add32 (add32 a 1) k)" if "k < length bs" for k
    unfolding add32_Suc by (rule Cons.prems(5)) (use that in simp)
  have "add32 a 1 < 2 ^ 32" "length bs \<le> 4" using Cons.prems(4) by (simp_all add: add32_def)
  from Cons.IH [OF conjunct1 [OF e] w(2) this nf] have
    ih: "\<And>k. k < length bs \<Longrightarrow> byte_at s' (add32 a (Suc k)) = bs ! k"
      "\<And>x. \<forall>k < length bs. x \<noteq> add32 a (Suc k) \<Longrightarrow> byte_at s' x = byte_at s1 x" by (simp_all add: add32_Suc)
  have "a \<noteq> add32 a (Suc k)" if "k < length bs" for k
    using that Cons.prems(3,4) by (auto simp: add32_def mod_if)
  then have "byte_at s' a = byte_at s1 a" by (intro ih(2)) blast
  then have first: "byte_at s' (add32 a 0) = b" using e a0 by simp
  show ?case
  proof (intro conjI allI impI)
    fix k assume "k < length (b # bs)"
    then show "byte_at s' (add32 a k) = (b # bs) ! k" using first ih(1) by (cases k) simp_all
  next
    fix x assume x: "\<forall>k < length (b # bs). x \<noteq> add32 a k"
    have "x \<noteq> a" using x [rule_format, of 0] a0 by simp
    moreover have "\<forall>k < length bs. x \<noteq> add32 a (Suc k)" using x by auto
    ultimately show "byte_at s' x = byte_at s x" using ih(2) e by simp
  qed
qed simp

section \<open>Words\<close>

lemma unat_word_byte: "unat (word_of_nat n :: byte) = n mod 256"
  by (simp add: unat_of_nat)

lemma word_bytes_nth: "k < 4 \<Longrightarrow> word_bytes v ! k = word_of_nat (v div 256 ^ k)"
  by (simp add: word_bytes_def)

lemma split_word: "v < 2 ^ 32 \<Longrightarrow>
    v mod 256 + (v div 256) mod 256 * 256 + (v div 256 ^ 2) mod 256 * 256 ^ 2 + (v div 256 ^ 3) mod 256 * 256 ^ 3 = (v :: nat)"
proof -
  assume v: "v < 2 ^ 32"
  define a b c where "a = v div 256" and "b = a div 256" and "c = b div 256"
  have "v = v mod 256 + 256 * a" "a = a mod 256 + 256 * b" "b = b mod 256 + 256 * c" unfolding a_def b_def c_def by simp_all
  moreover have "c < 256" using v by (simp add: a_def b_def c_def less_mult_imp_div_less flip: div_mult2_eq)
  moreover have "v div 256 ^ 2 = b" "v div 256 ^ 3 = c"
    by (simp_all add: a_def b_def c_def flip: div_mult2_eq)
  ultimately show ?thesis by (simp flip: a_def)
qed

lemma write32_read32:
  assumes "mock_wf s" "mock_write32 s a v = (True, s')" "a < 2 ^ 32" "v < 2 ^ 32" "\<And>k. k < 4 \<Longrightarrow> \<not> mock_in_flash (add32 a k)"
  shows "mock_read32 s' a = Some v"
proof -
  have len: "length (word_bytes v) = 4" by (simp add: word_bytes_def)
  have w: "write_bytes s a (word_bytes v) = (True, s')" using assms(2) by (simp add: mock_write32_def)
  have "byte_at s' (add32 a k) = word_of_nat (v div 256 ^ k)" if "k < 4" for k
    using write_bytes_effect [OF assms(1) w assms(3)] assms(5) that by (simp add: len word_bytes_nth)
  then have "unat (byte_at s' (add32 a k)) = (v div 256 ^ k) mod 256" if "k < 4" for k using that by (simp add: unat_word_byte)
  from this [of 0] this [of 1] this [of 2] this [of 3] show ?thesis
    using split_word [OF assms(4)] by (simp add: mock_read32_def Let_def read8_byte_at)
qed

section \<open>Flash bits\<close>

definition clears :: "byte list \<Rightarrow> byte list \<Rightarrow> bool" where
  "clears new old \<longleftrightarrow> list_all2 (\<lambda>n c. n AND c = n) new old"

lemma clears_refl: "clears xs xs"
  by (simp add: clears_def list_all2_conv_all_nth)

lemma clears_trans: "clears xs ys \<Longrightarrow> clears ys zs \<Longrightarrow> clears xs zs"
  unfolding clears_def by (erule list_all2_trans [rotated]) (assumption, metis and.assoc)

lemma clears_update: "clears (xs[i := xs ! i AND v]) xs"
  by (cases "i < length xs") (auto simp: clears_def list_all2_conv_all_nth nth_list_update and.assoc and.commute and.left_commute)

lemma clears_overlay:
  assumes "k + length d \<le> length xs"
  shows "clears (overlay xs k (map2 (AND) (take (length d) (drop k xs)) d)) xs"
proof -
  let ?m = "map2 (AND) (take (length d) (drop k xs)) d"
  have lm: "length ?m = length d" using assms by simp
  have xs: "take k xs @ take (length d) (drop k xs) @ drop (length d) (drop k xs) = xs" by (metis append_take_drop_id)
  have "clears (take k xs @ ?m @ drop (k + length d) xs) (take k xs @ take (length d) (drop k xs) @ drop (length d) (drop k xs))"
    unfolding clears_def using assms
    by (intro list_all2_appendI) (auto simp: list_all2_conv_all_nth and.assoc and.commute and.left_commute add.commute)
  then show ?thesis unfolding xs overlay_def lm .
qed

lemma write8_clears: "clears (mk_flash (snd (mock_write8 s a v))) (mk_flash s)"
proof (cases "mock_in_flash a")
  case True
  then show ?thesis by (simp add: mock_write8_def Let_def clears_update)
next
  case False
  then show ?thesis
    by (auto simp: mock_write8_def get_or_create_page_def Let_def clears_refl split: option.splits if_splits)
qed

lemma write_bytes_clears: "clears (mk_flash (snd (write_bytes s a bs))) (mk_flash s)"
proof (induction s a bs rule: write_bytes.induct)
  case (2 s a b bs)
  obtain ok s1 where w: "mock_write8 s a b = (ok, s1)" by fastforce
  with write8_clears [of s a b] have c: "clears (mk_flash s1) (mk_flash s)" by simp
  show ?case
  proof (cases ok)
    case True
    with 2 [OF w [symmetric]] w c show ?thesis by (auto intro: clears_trans)
  next
    case False
    with w c show ?thesis by simp
  qed
qed (simp add: clears_refl)

lemma flash_write_clears: "mock_wf s \<Longrightarrow> clears (mk_flash (snd (mock_flash_write s a d))) (mk_flash s)"
  by (auto simp: mock_flash_write_def Let_def clears_refl mock_flash_range_ok_def mock_wf_def intro!: clears_overlay)

lemma flash_write_wf: "mock_wf s \<Longrightarrow> mock_wf (snd (mock_flash_write s a d))"
  using flash_write_clears [of s a d]
  by (auto simp: mock_flash_write_def Let_def mock_wf_def clears_def dest: list_all2_lengthD split: if_splits)

lemma flash_erase_wf: "mock_wf s \<Longrightarrow> mock_wf (snd (mock_flash_erase s a n))"
proof (cases "n = 0 \<or> \<not> mock_flash_range_ok a n")
  case False
  let ?k = "a - MOCK_FLASH_BASE"
  let ?q = "(?k + n - 1) div MOCK_FLASH_PAGE"
  have "?k div MOCK_FLASH_PAGE * MOCK_FLASH_PAGE \<le> ?k" by simp
  moreover have "?k < MOCK_FLASH_SIZE" using False by (auto simp: mock_flash_range_ok_def)
  moreover assume "mock_wf s"
  ultimately show ?thesis using False by (auto simp: mock_flash_erase_def Let_def mock_wf_def overlay_def min_def)
qed (auto simp: mock_flash_erase_def)

section \<open>Properties\<close>

text \<open>A call on an open connection whose result is known.\<close>

lemma ok_or_call:
  "hw_ctx hw = Some (ops, s) \<Longrightarrow> f ops s = (b, s') \<Longrightarrow>
     ok_or e (c_call hw False f) = (if b then Inr () else Inl e, hw\<lparr>hw_ctx := Some (ops, s')\<rparr>)"
  by (simp add: ok_or_def c_call_def)

lemma check_open: "hw_ctx hw = Some c \<Longrightarrow> checked hw r = r"
  by (simp add: checked_def Hw_check_def)

lemma write32_open:
  "hw_ctx hw = Some (mock_ops, s) \<Longrightarrow>
     write32 hw a v =
       (let (b, s') = mock_write32 s (c_uint a) (c_uint v)
        in (if b then Inr () else Inl (HwError (''write32 at '' @ fmt_addr a @ '' failed'')), hw\<lparr>hw_ctx := Some (mock_ops, s')\<rparr>))"
  by (simp add: write32_def check_open ok_or_call hw_write32_def mock_ops_def split: prod.splits)

lemma write8_open:
  "hw_ctx hw = Some (mock_ops, s) \<Longrightarrow>
     write8 hw a v =
       (let (b, s') = mock_write8 s (c_uint a) (c_uint8 v)
        in (if b then Inr () else Inl (HwError (''write8 at '' @ fmt_addr a @ '' failed'')), hw\<lparr>hw_ctx := Some (mock_ops, s')\<rparr>))"
  by (simp add: write8_def check_open ok_or_call hw_write8_def mock_ops_def split: prod.splits)

lemma flash_write_open:
  "hw_ctx hw = Some (mock_ops, s) \<Longrightarrow>
     snd (Flash_write hw a d) = hw\<lparr>hw_ctx := Some (mock_ops, snd (mock_flash_write s (c_uint a) d))\<rparr>"
  by (cases hw) (simp add: Flash_write_def ok_or_def c_call_def hw_flash_write_def mock_flash_write_def mock_ops_def split: prod.splits)

text \<open>
  C29.  A word written to the memory of the mock target reads back, at any alignment and across the wrap of the
  address space: if \<open>write32\<close> returns, \<open>read32\<close> at the same address returns the value modulo
  \<open>2^32\<close> (only the flash, where writes can only clear bits, is different).
\<close>

theorem word_roundtrip:
  assumes "hw_ctx hw = Some (mock_ops, s)" "mock_wf s" "write32 hw a v = (Inr (), hw')"
    "\<And>k. k < 4 \<Longrightarrow> \<not> mock_in_flash (add32 (c_uint a) k)"
  shows "read32 hw' a = (Inr (c_uint v), hw')"
proof -
  obtain b s' where w: "mock_write32 s (c_uint a) (c_uint v) = (b, s')" by fastforce
  with assms(3) write32_open [OF assms(1), of a v] have b: "b" "hw' = hw\<lparr>hw_ctx := Some (mock_ops, s')\<rparr>"
    by (auto split: if_splits)
  have "mock_read32 s' (c_uint a) = Some (c_uint v)"
    using write32_read32 [OF assms(2) _ c_uint_bound c_uint_bound assms(4)] w b(1) by simp
  then show ?thesis by (simp add: b(2) read32_def check_open c_get_def hw_read32_def mock_ops_def)
qed

lemma demo_write: "\<exists>s'. mock_write32 mock_connect 0x20000000 5 = (True, s')"
proof -
  have nf: "\<not> mock_in_flash (0x20000000 + k)" if "k < 4" for k
    using that by (simp add: mock_in_flash_iff) (simp add: mock_consts)
  have pa: "page_addr (0x20000000 + k) = 0x20000000" if "k < 4" for k
  proof -
    have "(0x20000000 + k) mod 4096 = k" using that mod_mult_self3 [of 131072 4096 k] by simp
    then show ?thesis by (simp add: page_addr_def PAGE_SIZE_def)
  qed
  have first: "\<exists>p. mock_write8 mock_connect 0x20000000 b = (True, mock_connect\<lparr>mk_pages := [(0x20000000, p)]\<rparr>)" for b
    using nf [of 0] pa [of 0] by (simp add: mock_write8_def get_or_create_page_def mock_connect_def MAX_MEM_PAGES_def Let_def)
  have later: "\<exists>p. mock_write8 (mock_connect\<lparr>mk_pages := [(0x20000000, q)]\<rparr>) (0x20000000 + k) b =
      (True, mock_connect\<lparr>mk_pages := [(0x20000000, p)]\<rparr>)" if "k < 4" for b q k
    using nf [OF that] pa [OF that]
    by (intro exI [of _ "q[(0x20000000 + k) mod PAGE_SIZE := b]"]) (simp add: mock_write8_def get_or_create_page_def)
  have "add32 0x20000000 (Suc 0) = 0x20000000 + 1" "add32 (0x20000000 + 1) (Suc 0) = 0x20000000 + 2"
    "add32 (0x20000000 + 2) (Suc 0) = 0x20000000 + 3" by (simp_all add: add32_def)
  note adds = this [simplified]
  obtain b0 b1 b2 b3 where bs: "word_bytes 5 = [b0, b1, b2, b3]" by (simp add: word_bytes_def upt_rec)
  obtain p0 where w0: "mock_write8 mock_connect 0x20000000 b0 = (True, mock_connect\<lparr>mk_pages := [(0x20000000, p0)]\<rparr>)"
    using first by blast
  obtain p1 where w1: "mock_write8 (mock_connect\<lparr>mk_pages := [(0x20000000, p0)]\<rparr>) 0x20000001 b1 =
      (True, mock_connect\<lparr>mk_pages := [(0x20000000, p1)]\<rparr>)" using later [of 1] by auto
  obtain p2 where w2: "mock_write8 (mock_connect\<lparr>mk_pages := [(0x20000000, p1)]\<rparr>) 0x20000002 b2 =
      (True, mock_connect\<lparr>mk_pages := [(0x20000000, p2)]\<rparr>)" using later [of 2] by auto
  obtain p3 where w3: "mock_write8 (mock_connect\<lparr>mk_pages := [(0x20000000, p2)]\<rparr>) 0x20000003 b3 =
      (True, mock_connect\<lparr>mk_pages := [(0x20000000, p3)]\<rparr>)" using later [of 3] by auto
  show ?thesis unfolding mock_write32_def bs by (simp add: w0 w1 w2 w3 adds)
qed

lemma demo_write_hw: "\<exists>hw'. write32 demo_hw 0x20000000 5 = (Inr (), hw')"
proof -
  have "c_uint 0x20000000 = 0x20000000" "c_uint 5 = 5" by (simp_all add: c_uint_def)
  then show ?thesis using demo_write write32_open [OF demo_ctx, where a = "0x20000000" and v = 5] by auto
qed

theorem word_roundtrip_witness: "\<exists>hw'. write32 demo_hw 0x20000000 5 = (Inr (), hw') \<and> read32 hw' 0x20000000 = (Inr (c_uint 5), hw')"
proof -
  obtain hw' where w: "write32 demo_hw 0x20000000 5 = (Inr (), hw')" using demo_write_hw by blast
  have "\<not> mock_in_flash (add32 (c_uint 0x20000000) k)" if "k < 4" for k
    using that by (simp add: mock_in_flash_iff add32_def c_uint_def) (simp add: mock_consts)
  from word_roundtrip [OF demo_ctx mock_connect_wf w this] w show ?thesis by blast
qed

text \<open>
  C30.  The invariant of the mock target (sizes of flash, register file and pages, aligned and distinct page addresses,
  at most 256 pages) is kept by every operation of its table that changes the state, whether
  it succeeds or fails.
\<close>

theorem mock_invariant:
  assumes "mock_wf s"
  shows "mock_wf (snd (mock_write32 s a v)) \<and> mock_wf (snd (mock_write8 s a b)) \<and> mock_wf (snd (hw_board_run mock_ops s)) \<and>
    mock_wf (snd (hw_board_halt mock_ops s)) \<and> mock_wf (snd (hw_board_step mock_ops s)) \<and>
    mock_wf (mock_write_reg s reg w) \<and> mock_wf (snd (mock_reset s)) \<and> mock_wf (snd (mock_flash_write s a d)) \<and>
    mock_wf (snd (mock_flash_erase s a n)) \<and> mock_wf (snd (mock_mass_erase s))"
proof -
  have "mock_wf (snd (hw_board_run mock_ops s))" "mock_wf (snd (hw_board_halt mock_ops s))" "mock_wf (snd (hw_board_step mock_ops s))"
    using assms by (simp_all add: hw_board_run_def hw_board_halt_def hw_board_step_def mock_ops_def mock_wf_def)
  moreover have "mock_wf (mock_write_reg s reg w)" "mock_wf (snd (mock_reset s))" "mock_wf (snd (mock_mass_erase s))"
    using assms by (simp_all add: mock_write_reg_def mock_reset_def mock_mass_erase_def mock_wf_def)
  ultimately show ?thesis
    using write_bytes_wf [OF assms] write8_wf [OF assms] flash_write_wf [OF assms] flash_erase_wf [OF assms]
    by (simp add: mock_write32_def)
qed

theorem mock_invariant_witness: "mock_wf (snd (mock_write32 mock_connect 0x20000000 5))"
  using mock_invariant [OF mock_connect_wf, where a = "0x20000000" and v = 5] by blast

text \<open>
  C28.  Without an erase no bit of the flash is ever raised: a word, a byte or a block written anywhere, aligned or
  not, successful or not, leaves in every byte of the flash at most the bits that were set before.
\<close>

theorem writes_only_clear:
  assumes "hw_ctx hw = Some (mock_ops, s)" "mock_wf s"
  shows "\<exists>s1 s2 s3. snd (write32 hw a v) = hw\<lparr>hw_ctx := Some (mock_ops, s1)\<rparr> \<and> clears (mk_flash s1) (mk_flash s) \<and>
    snd (write8 hw a v) = hw\<lparr>hw_ctx := Some (mock_ops, s2)\<rparr> \<and> clears (mk_flash s2) (mk_flash s) \<and>
    snd (Flash_write hw a d) = hw\<lparr>hw_ctx := Some (mock_ops, s3)\<rparr> \<and> clears (mk_flash s3) (mk_flash s)"
proof -
  let ?s1 = "snd (mock_write32 s (c_uint a) (c_uint v))"
  let ?s2 = "snd (mock_write8 s (c_uint a) (c_uint8 v))"
  have "snd (write32 hw a v) = hw\<lparr>hw_ctx := Some (mock_ops, ?s1)\<rparr>" "snd (write8 hw a v) = hw\<lparr>hw_ctx := Some (mock_ops, ?s2)\<rparr>"
    by (simp_all add: write32_open [OF assms(1)] write8_open [OF assms(1)] split: prod.splits)
  moreover have "clears (mk_flash ?s1) (mk_flash s)" by (simp add: mock_write32_def write_bytes_clears)
  ultimately show ?thesis
    using flash_write_open [OF assms(1), of a d] write8_clears [of s] flash_write_clears [OF assms(2)] by blast
qed

theorem writes_only_clear_witness:
  "\<exists>s1. snd (write32 demo_hw 0x08000002 5) = demo_hw\<lparr>hw_ctx := Some (mock_ops, s1)\<rparr> \<and> clears (mk_flash s1) (mk_flash mock_connect)"
  using writes_only_clear [OF demo_ctx mock_connect_wf, of "0x08000002" 5 "[]"] by blast

end
