(* ===== verification/Probe.thy ===== *)
theory Probe
  imports StateBindings MockMemory
begin

text \<open>
  The command \<open>libhw-probe\<close> (\<open>cli.py\<close>): connect, halt, identify, and report every element of the databases of
  the target.  What it prints is a list of lines; an error ends the run after the lines printed so
  far.  The arguments are those that the argument parser delivers.
\<close>

section \<open>The command\<close>

type_synonym ('s, 'a) io = "'s hw \<times> string list \<Rightarrow> 'a hw_res \<times> 's hw \<times> string list"

definition io_return :: "'a \<Rightarrow> ('s, 'a) io" where "io_return x st = (Inr x, st)"

definition io_bind :: "('s, 'a) io \<Rightarrow> ('a \<Rightarrow> ('s, 'b) io) \<Rightarrow> ('s, 'b) io" where
  "io_bind m f st = (case m st of (Inl e, st) \<Rightarrow> (Inl e, st) | (Inr x, st) \<Rightarrow> f x st)"

definition say :: "string list \<Rightarrow> ('s, unit) io" where "say ls st = (Inr (), fst st, snd st @ ls)"

definition call :: "('s hw \<Rightarrow> 'a hw_res \<times> 's hw) \<Rightarrow> ('s, 'a) io" where
  "call m st = (case m (fst st) of (r, hw) \<Rightarrow> (r, hw, snd st))"

fun io_fold :: "('a \<Rightarrow> 'b \<Rightarrow> ('s, 'b) io) \<Rightarrow> 'a list \<Rightarrow> 'b \<Rightarrow> ('s, 'b) io" where
  "io_fold f [] b = io_return b"
| "io_fold f (x # xs) b = io_bind (f x b) (io_fold f xs)"

definition ljust :: "nat \<Rightarrow> string \<Rightarrow> string" where
  "ljust w s = s @ replicate (w - length s) (CHR '' '')"

definition py_or_str :: "string option \<Rightarrow> string \<Rightarrow> string" where
  "py_or_str s d = or_else (or_none s) d"

definition target_lines :: "cpu_features \<Rightarrow> string list" where
  "target_lines f =
     [''=== target ==='',
      ''  CPUID            '' @ fmt_addr (int (cf_cpuid f)) @ ''  (PARTNO 0x'' @ zfill 3 (digits 16 (int (cf_partno f))) @ '')'',
      ''  part             '' @ py_or_str (cf_cpu_name f) ''not recognised'' @ '' '' @ part_revision f,
      ''  overlay          '' @ py_or_str (cf_overlay f) ''none pinned''] @
     (if nonempty (cf_overlay f) \<and> \<not> cf_revision_matches f then
        [''  NOTE             the pinned TRM documents '' @ or_else (cf_overlay_revision f) ''None'' @ ''; this part is '' @
           part_revision f @ ''.'',
         ''                   Differences introduced after '' @ or_else (cf_overlay_revision f) ''None'' @ '' are not covered.'']
      else []) @
     [''  FP extension     '' @ (if cf_fp_extension f then ''implemented'' else ''not implemented''),
      ''  MPU regions      '' @ str_nat (cf_mpu_regions f),
      ''  DWT comparators  '' @ str_nat (cf_dwt_numcomp f),
      ''  interrupt lines  '' @ str_nat (interrupt_lines f)]"

definition report_target :: "('s, cpu_features) io" where
  "report_target = io_bind (call identify) (\<lambda>f. io_bind (say (target_lines f)) (\<lambda>u. io_return f))"

text \<open>The counters of one database: presence verdicts, read outcomes, and reads that succeeded without a verdict.\<close>

type_synonym counts = "(string \<times> nat) list \<times> (string \<times> nat) list \<times> nat"

definition count_result :: "query_result \<Rightarrow> counts \<Rightarrow> counts" where
  "count_result r c =
     (case c of (presence, reads, unknown) \<Rightarrow>
        (bump presence (hw_presence_name (qr_presence r)), bump reads (hw_read_status_name (qr_read r)),
         if qr_read r = HW_READ_OK \<and> \<not> qr_implemented r then unknown + 1 else unknown))"

definition value_line :: "py_desc \<Rightarrow> query_result \<Rightarrow> string" where
  "value_line desc r =
     ''    '' @ ljust 18 (pd_name desc) @ '' '' @ ljust 14 (py_or_str (pd_encoding desc) ''-'') @ '' '' @
     fmt_addr (int (or_else (qr_value r) 0)) @ ''  '' @ hw_presence_name (qr_presence r)"

definition report_desc :: "hw_state_db list \<Rightarrow> cpu_features \<Rightarrow> bool \<Rightarrow> py_desc \<Rightarrow> counts \<Rightarrow> ('s, counts) io" where
  "report_desc dbs f verbose desc c =
     io_bind (call (\<lambda>hw. query dbs hw desc (Some f))) (\<lambda>r.
     io_bind (say (if verbose \<and> qr_read r = HW_READ_OK then [value_line desc r] else [])) (\<lambda>u.
       io_return (count_result r c)))"

definition most_common :: "(string \<times> nat) list \<Rightarrow> (string \<times> nat) list" where
  "most_common d = sort_key (\<lambda>kn. - int (snd kn)) d"

definition count_line :: "string \<times> nat \<Rightarrow> string" where
  "count_line kn = ''      '' @ ljust 24 (fst kn) @ '' '' @ str_nat (snd kn)"

definition db_lines :: "hw_state_db \<Rightarrow> counts \<Rightarrow> string list" where
  "db_lines db c =
     (case c of (presence, reads, unknown) \<Rightarrow>
        [CHR 0x0A # ''=== '' @ db_name db @ '' ('' @ StateDb_source db @ ''): '' @ str_nat (length (db_states db)) @ '' state elements ==='',
         ''  implemented (evidence-based):''] @ map count_line (most_common presence) @
        [''  read outcome (independent of the above):''] @ map count_line (most_common reads) @
        (if unknown \<noteq> 0 then
           [''  read succeeded with no presence evidence: '' @ str_nat unknown,
            ''      Not counted as implemented: an unimplemented word in the'',
            ''      PPB generally reads as zero rather than faulting.'']
         else []))"

definition report_db :: "hw_state_db list \<Rightarrow> cpu_features \<Rightarrow> bool \<Rightarrow> hw_state_db \<Rightarrow> unit \<Rightarrow> ('s, unit) io" where
  "report_db dbs f verbose db u =
     io_bind (io_fold (report_desc dbs f verbose) (StateDb_iter db) ([], [], 0)) (\<lambda>c. say (db_lines db c))"

definition report_state :: "hw_state_db list \<Rightarrow> cpu_features \<Rightarrow> bool \<Rightarrow> ('s, unit) io" where
  "report_state dbs f verbose =
     io_bind (call (\<lambda>hw. (databases_for dbs f, hw))) (\<lambda>dbl. io_fold (report_db dbs f verbose) dbl ())"

definition probe_body :: "hw_state_db list \<Rightarrow> bool \<Rightarrow> bool \<Rightarrow> ('s, unit) io" where
  "probe_body dbs verbose resume =
     io_bind (call halted) (\<lambda>h.
     io_bind (if h then io_return ()
              else io_bind (say [''--> halting the target (core register reads need Debug state)'' @ [CHR 0x0A]]) (\<lambda>u. call halt)) (\<lambda>u.
     io_bind report_target (\<lambda>f.
     io_bind (report_state dbs f verbose) (\<lambda>u.
       if resume then io_bind (call run) (\<lambda>u. say [CHR 0x0A # ''--> target resumed''])
       else say [CHR 0x0A # ''--> leaving the target halted (pass --resume to let it run)'']))))"

record probe_args =
  pa_backend :: string
  pa_host :: "string option"
  pa_port :: int
  pa_verbose :: bool
  pa_resume :: bool

fun error_message :: "hw_error \<Rightarrow> string" where
  "error_message (HwError m) = m"
| "error_message (HwConnectError m) = m"
| "error_message (HwFlashError m) = m"
| "error_message (HwStateError m) = m"
| "error_message (PyValueError m) = m"

record 's probe_result =
  pr_code :: int
  pr_out :: "string list"
  pr_err :: "string list"
  pr_hw :: "'s hw option"

text \<open>No \<open>ValueError\<close> can occur here, so every error is an \<open>HwError\<close> and is caught.\<close>

definition probe_main :: "'s registry \<Rightarrow> hw_state_db list \<Rightarrow> probe_args \<Rightarrow> 's probe_result" where
  "probe_main reg dbs a =
     (let out = [''built-in databases: '' @ join '', '' (database_names dbs) @ [CHR 0x0A]]
      in case Hw_init reg (pa_backend a) (pa_host a) (pa_port a) of
           Inl e \<Rightarrow> \<lparr>pr_code = 1, pr_out = out, pr_err = [''error: '' @ error_message e], pr_hw = None\<rparr>
         | Inr hw \<Rightarrow>
             (case probe_body dbs (pa_verbose a) (pa_resume a) (hw, out) of
                (Inl e, hw, out) \<Rightarrow>
                  \<lparr>pr_code = 1, pr_out = out, pr_err = [''error: '' @ error_message e], pr_hw = Some (Hw_close hw)\<rparr>
              | (Inr u, hw, out) \<Rightarrow> \<lparr>pr_code = 0, pr_out = out, pr_err = [], pr_hw = Some (Hw_close hw)\<rparr>))"

section \<open>Lemmas\<close>

lemma io_bind_Inr: "io_bind m f st = (Inr y, st') \<longleftrightarrow> (\<exists>x st1. m st = (Inr x, st1) \<and> f x st1 = (Inr y, st'))"
  by (cases "m st"; cases "fst (m st)") (auto simp: io_bind_def)

text \<open>
  The report of a database, in terms of the results of the queries: one per element, counted by name, a line for
  each that was read if that is asked for.
\<close>

definition value_lines :: "bool \<Rightarrow> py_desc list \<Rightarrow> query_result list \<Rightarrow> string list" where
  "value_lines verbose ds rs =
     (if verbose then map (\<lambda>(d, r). value_line d r) (filter (\<lambda>(d, r). qr_read r = HW_READ_OK) (zip ds rs)) else [])"

definition unbacked :: "query_result list \<Rightarrow> nat" where
  "unbacked rs = length (filter (\<lambda>r. qr_read r = HW_READ_OK \<and> \<not> qr_implemented r) rs)"

lemma count_step:
  "count_result r (p, q, n) =
     (tally p [hw_presence_name (qr_presence r)], tally q [hw_read_status_name (qr_read r)], n + unbacked [r])"
  by (simp add: count_result_def tally_def unbacked_def)

lemma tally_Cons: "tally (tally d [k]) ks = tally d (k # ks)"
  by (simp add: tally_def)

lemma value_lines_Cons: "value_lines verbose (d # ds) (r # rs) = value_lines verbose [d] [r] @ value_lines verbose ds rs"
  by (simp add: value_lines_def)

lemma unbacked_Cons: "unbacked (r # rs) = unbacked [r] + unbacked rs"
  by (simp add: unbacked_def)

lemma value_lines_Nil [simp]: "value_lines verbose [] rs = []"
  by (simp add: value_lines_def)

lemma report_desc_open:
  assumes "hw_ctx hw = Some (ops, s)" "hw_state_query dbs (target_of ops) s c (Some f) = (r, s1)"
  shows "report_desc dbs f verbose (StateDesc_from_c c (Some c)) k (hw, out) =
    (Inr (count_result (query_of r) k), hw\<lparr>hw_ctx := Some (ops, s1)\<rparr>,
     out @ value_lines verbose [StateDesc_from_c c (Some c)] [query_of r])"
  using query_open [OF assms(1) _ assms(2)]
  by (simp add: report_desc_def io_bind_def call_def say_def io_return_def value_lines_def)

lemma report_fold:
  "hw_ctx hw = Some (ops, s) \<Longrightarrow> query_run dbs ops f cs s = (rs, s') \<Longrightarrow>
     io_fold (report_desc dbs f verbose) (map (\<lambda>c. StateDesc_from_c c (Some c)) cs) (p, q, n) (hw, out) =
       (Inr (tally p (map (\<lambda>r. hw_presence_name (qr_presence r)) rs), tally q (map (\<lambda>r. hw_read_status_name (qr_read r)) rs),
          n + unbacked rs),
        hw\<lparr>hw_ctx := Some (ops, s')\<rparr>, out @ value_lines verbose (map (\<lambda>c. StateDesc_from_c c (Some c)) cs) rs)"
proof (induction cs arbitrary: p q n hw out s rs)
  case Nil
  then show ?case by (simp add: io_return_def unbacked_def tally_def hw_same)
next
  case (Cons c cs)
  obtain r s1 where q: "hw_state_query dbs (target_of ops) s c (Some f) = (r, s1)" by fastforce
  with Cons.prems(2) obtain rs1 where rs: "query_run dbs ops f cs s1 = (rs1, s')" "rs = query_of r # rs1"
    by (auto split: prod.splits)
  let ?d = "StateDesc_from_c c (Some c)" and ?hw1 = "hw\<lparr>hw_ctx := Some (ops, s1)\<rparr>"
  note Cons.IH [of ?hw1 s1 rs1, OF _ rs(1)]
  then show ?case
    by (simp add: io_bind_def report_desc_open [OF Cons.prems(1) q] count_step rs(2) tally_Cons
        value_lines_Cons [of verbose ?d "map (\<lambda>c. StateDesc_from_c c (Some c)) cs" "query_of r" rs1] unbacked_Cons [of "query_of r" rs1])
qed

section \<open>Properties\<close>

text \<open>
  C37.  The report of a database on an open connection queries every element once, in order, each in the state that the
  queries before it left, and raises nothing.  It prints the value of each that was read, if that is asked for, and
  then the exact tallies of the verdicts and of the outcomes of these queries, each adding up to the number of elements.
  An element is counted as implemented only on evidence other than its read, in the state in which it was queried, and an
  outcome is counted as a successful read only if the read of the element in that state returned the value.
\<close>

theorem probe_report_exact:
  assumes "hw_ctx hw = Some (ops, s)" "query_run dbs ops f (db_states db) s = (rs, s')"
  shows "report_db dbs f verbose db u (hw, out) =
      (Inr (), hw\<lparr>hw_ctx := Some (ops, s')\<rparr>,
       out @ value_lines verbose (StateDb_iter db) rs @
         db_lines db (tally [] (map (\<lambda>r. hw_presence_name (qr_presence r)) rs),
           tally [] (map (\<lambda>r. hw_read_status_name (qr_read r)) rs), unbacked rs)) \<and>
    length rs = length (db_states db) \<and>
    dict_total (tally [] (map (\<lambda>r. hw_presence_name (qr_presence r)) rs)) = length (db_states db) \<and>
    dict_total (tally [] (map (\<lambda>r. hw_read_status_name (qr_read r)) rs)) = length (db_states db) \<and>
    (\<forall>i < length (db_states db).
      (qr_implemented (rs ! i) \<longrightarrow>
        evidenced dbs ops (snd (query_run dbs ops f (take i (db_states db)) s)) (db_states db ! i) f) \<and>
      (qr_read (rs ! i) = HW_READ_OK \<longrightarrow> sd_readable (db_states db ! i) \<and>
        (\<exists>x t. hw_state_read dbs (target_of ops) (snd (query_run dbs ops f (take i (db_states db)) s)) (db_states db ! i) =
           (Some x, HW_READ_OK, t) \<and> qr_value (rs ! i) = Some x)))"
proof -
  have "length rs = length (db_states db)" using query_run_length [of dbs ops f "db_states db" s] assms(2) by simp
  moreover have "dict_total (tally [] ks) = length ks" for ks :: "string list" using tally_total [of "[]" ks] by (simp add: dict_total_def)
  moreover have "report_db dbs f verbose db u (hw, out) =
      (Inr (), hw\<lparr>hw_ctx := Some (ops, s')\<rparr>,
       out @ value_lines verbose (StateDb_iter db) rs @
         db_lines db (tally [] (map (\<lambda>r. hw_presence_name (qr_presence r)) rs),
           tally [] (map (\<lambda>r. hw_read_status_name (qr_read r)) rs), unbacked rs))"
    by (simp add: report_db_def io_bind_def say_def StateDb_iter_def report_fold [OF assms])
  moreover note query_run_evidenced [of _ "db_states db" dbs ops f s, unfolded assms(2) fst_conv]
    query_run_read [of _ "db_states db" dbs ops f s, unfolded assms(2) fst_conv]
  ultimately show ?thesis by simp
qed

section \<open>The command on the mock target\<close>

text \<open>A query writes DCRSR at most: what such a write keeps, a query keeps.\<close>

lemma query_preserves:
  assumes "\<And>s v. I s \<Longrightarrow> I (snd (hw_write32 ops s DCRSR_ADDR v))" "I s"
    "hw_state_query dbs (target_of ops) s c f = (out, s')"
  shows "I s'"
proof -
  have reg: "I t'" if "I t" "hw_state_read_dbgreg (target_of ops) t reg = (v, why, t')" for t t' reg v why
  proof (cases "hw_write32 ops t DCRSR_ADDR (dr_regsel reg)")
    case (Pair b t1)
    have "t' = t \<or> t' = t1" using that(2) Pair
      by (auto simp: hw_state_read_dbgreg_def dest!: poll_pure split: if_splits option.splits prod.splits bool.splits)
        (simp_all add: target_of_def)
    then show ?thesis using that(1) assms(1) [OF that(1), of "dr_regsel reg"] Pair by auto
  qed
  have rd: "I t'" if "I t" "hw_state_read dbs (target_of ops) t c = (v, why, t')" for t t' v why
    using that by (auto simp: hw_state_read_def target_of_def [of ops, THEN arg_cong [where f = tg_read32], simplified]
        dest: reg split: if_splits option.splits prod.splits)
  show ?thesis using assms(2,3)
    by (auto simp: hw_state_query_def dest!: presence_pure dest: rd split: if_splits prod.splits)
qed

lemma write8_other: "\<not> mock_in_flash a \<Longrightarrow>
    mk_flash (snd (mock_write8 s a v)) = mk_flash s \<and> mk_halted (snd (mock_write8 s a v)) = mk_halted s"
  by (auto simp: mock_write8_def get_or_create_page_def Let_def split: option.splits if_splits)

lemma write_bytes_other:
  "(\<And>k. k < length bs \<Longrightarrow> \<not> mock_in_flash (add32 a k)) \<Longrightarrow> a < 2 ^ 32 \<Longrightarrow>
     mk_flash (snd (write_bytes s a bs)) = mk_flash s \<and> mk_halted (snd (write_bytes s a bs)) = mk_halted s"
proof (induction s a bs rule: write_bytes.induct)
  case (2 s a b bs)
  have a0: "add32 a 0 = a" using 2(3) by (simp add: add32_def)
  have nf: "\<not> mock_in_flash a" using 2(2) [of 0] a0 by simp
  have "\<not> mock_in_flash (add32 (add32 a 1) k)" if "k < length bs" for k
    unfolding add32_Suc by (rule 2(2)) (use that in simp)
  moreover have "add32 a 1 < 2 ^ 32" by (simp add: add32_def)
  moreover obtain ok s1 where w: "mock_write8 s a b = (ok, s1)" by fastforce
  ultimately show ?case using 2(1) [OF w [symmetric]] write8_other [OF nf, of s b] by (cases ok) simp_all
qed simp

lemma dcrsr_write:
  "mk_flash (snd (hw_write32 mock_ops s DCRSR_ADDR v)) = mk_flash s \<and> mk_halted (snd (hw_write32 mock_ops s DCRSR_ADDR v)) = mk_halted s"
proof -
  have "\<not> mock_in_flash (add32 DCRSR_ADDR k)" if "k < length (word_bytes v)" for k
    using that by (simp add: word_bytes_def add32_def DCRSR_ADDR_def mock_in_flash_iff) (simp add: mock_consts)
  moreover have "DCRSR_ADDR < 2 ^ 32" by (simp add: DCRSR_ADDR_def)
  ultimately show ?thesis using write_bytes_other [of "word_bytes v" DCRSR_ADDR s]
    by (simp add: hw_write32_def mock_ops_def mock_write32_def)
qed

text \<open>The states the command goes through on the mock target once it is halted.\<close>

definition on_mock :: "byte list \<Rightarrow> bool \<Rightarrow> mock hw \<times> string list \<Rightarrow> bool" where
  "on_mock fl h st \<longleftrightarrow> (\<exists>s. hw_ctx (fst st) = Some (mock_ops, s) \<and> mk_flash s = fl \<and> mk_halted s = h)"

definition goes ::
  "(mock hw \<times> string list \<Rightarrow> bool) \<Rightarrow> (mock, 'a) io \<Rightarrow> ('a \<Rightarrow> bool) \<Rightarrow> (mock hw \<times> string list \<Rightarrow> bool) \<Rightarrow> bool" where
  "goes P m R Q \<longleftrightarrow> (\<forall>st. P st \<longrightarrow> (\<exists>x st'. m st = (Inr x, st') \<and> R x \<and> Q st'))"

lemma goes_bind: "goes P m R Q \<Longrightarrow> (\<And>x. R x \<Longrightarrow> goes Q (f x) R' S) \<Longrightarrow> goes P (io_bind m f) R' S"
  unfolding goes_def io_bind_def by fastforce

lemma goes_return: "R x \<Longrightarrow> goes P (io_return x) R P"
  by (simp add: goes_def io_return_def)

lemma goes_say: "goes (on_mock fl h) (say ls) (\<lambda>u. True) (on_mock fl h)"
  by (simp add: goes_def say_def on_mock_def)

lemma goes_fold: "(\<And>x b. x \<in> set xs \<Longrightarrow> goes P (f x b) (\<lambda>u. True) P) \<Longrightarrow> goes P (io_fold f xs b) (\<lambda>u. True) P"
proof (induction xs arbitrary: b)
  case (Cons x xs)
  have "goes P (f x b) (\<lambda>u. True) P" by (rule Cons.prems) simp
  moreover have "goes P (io_fold f xs c) (\<lambda>u. True) P" for c by (rule Cons.IH) (rule Cons.prems, simp)
  ultimately show ?case unfolding io_fold.simps by (rule goes_bind)
qed (simp add: goes_return)

lemma goes_call: "(\<And>hw s. hw_ctx hw = Some (mock_ops, s) \<Longrightarrow> mk_flash s = fl \<Longrightarrow> mk_halted s = h \<Longrightarrow>
      \<exists>x s'. m hw = (Inr x, hw\<lparr>hw_ctx := Some (mock_ops, s')\<rparr>) \<and> R x \<and> mk_flash s' = fl \<and> mk_halted s' = h') \<Longrightarrow>
    goes (on_mock fl h) (call m) R (on_mock fl h')"
  unfolding goes_def call_def on_mock_def by (force split: prod.splits)

lemma goes_get: "(\<And>hw s. hw_ctx hw = Some (mock_ops, s) \<Longrightarrow> mk_halted s = h \<Longrightarrow> \<exists>x. m hw = (Inr x, hw) \<and> R x) \<Longrightarrow>
    goes (on_mock fl h) (call m) R (on_mock fl h)"
  unfolding goes_def call_def on_mock_def by (force split: prod.splits)

lemma goes_query: "pd_ptr d = Some c \<Longrightarrow> goes (on_mock fl h) (call (\<lambda>hw. query dbs hw d f)) (\<lambda>r. True) (on_mock fl h)"
proof (rule goes_call)
  fix hw :: "mock hw" and s assume d: "pd_ptr d = Some c" and hw: "hw_ctx hw = Some (mock_ops, s)" "mk_flash s = fl" "mk_halted s = h"
  obtain out s' where q: "hw_state_query dbs (target_of mock_ops) s c f = (out, s')" by fastforce
  have "mk_flash s' = fl \<and> mk_halted s' = h"
    by (rule query_preserves [OF _ _ q, of "\<lambda>s. mk_flash s = fl \<and> mk_halted s = h"]) (use dcrsr_write hw in auto)
  with query_open [OF hw(1) d q]
  show "\<exists>x s'. query dbs hw d f = (Inr x, hw\<lparr>hw_ctx := Some (mock_ops, s')\<rparr>) \<and> True \<and> mk_flash s' = fl \<and> mk_halted s' = h" by blast
qed

lemma goes_report_db: "goes (on_mock fl h) (report_db dbs f verbose db u) (\<lambda>u. True) (on_mock fl h)"
  unfolding report_db_def
proof (intro goes_bind [OF goes_fold] goes_say)
  fix d b assume "d \<in> set (StateDb_iter db)"
  then obtain c where "pd_ptr d = Some c" by (auto simp: StateDb_iter_def)
  from goes_query [OF this] show "goes (on_mock fl h) (report_desc dbs f verbose d b) (\<lambda>u. True) (on_mock fl h)"
    unfolding report_desc_def by (rule goes_bind) (rule goes_bind [OF goes_say], rule goes_return, simp)
qed

lemma mock_reads: "\<exists>v. hw_read32 mock_ops s a = Some v"
  by (simp add: hw_read32_def mock_ops_def mock_read32_def Let_def)

definition overlay_known :: "cpu_features \<Rightarrow> bool" where
  "overlay_known f \<longleftrightarrow> cf_overlay f \<in> {None, Some ''cortex_m7_r0p2'', Some ''cortex_m4_r0p0''}"

lemma goes_identify: "goes (on_mock fl h) (call identify) overlay_known (on_mock fl h)"
proof (rule goes_call)
  fix hw :: "mock hw" and s assume hw: "hw_ctx hw = Some (mock_ops, s)" "mk_flash s = fl" "mk_halted s = h"
  obtain v where "hw_read32 mock_ops s SCS_CPUID = Some v" using mock_reads by blast
  from identify_pure [OF this] obtain f where f: "hw_state_identify (target_of mock_ops) s = (Some f, s)"
    "cf_overlay f = cf_overlay (features_of_cpuid v)" by blast
  have "overlay_known f" by (simp add: overlay_known_def f(2) features_of_cpuid_def Let_def)
  moreover have "identify hw = (Inr f, hw\<lparr>hw_ctx := Some (mock_ops, s)\<rparr>)"
    using f(1) by (simp add: identify_def checked_open [OF hw(1)] c_call_open [OF hw(1)])
  ultimately show "\<exists>x s'. identify hw = (Inr x, hw\<lparr>hw_ctx := Some (mock_ops, s')\<rparr>) \<and> overlay_known x \<and>
      mk_flash s' = fl \<and> mk_halted s' = h" using hw by blast
qed

definition all_databases :: "hw_state_db list \<Rightarrow> bool" where
  "all_databases dbs \<longleftrightarrow> list_all (\<lambda>n. find_db dbs n \<noteq> None) [''armv7m'', ''cortex_m7_r0p2'', ''cortex_m4_r0p0'']"

lemma goes_report_state:
  assumes "all_databases dbs" "overlay_known f"
  shows "goes (on_mock fl h) (report_state dbs f verbose) (\<lambda>u. True) (on_mock fl h)"
proof -
  obtain dbl where "databases_for dbs f = Inr dbl"
    using assms by (auto simp: all_databases_def overlay_known_def databases_for_def state_db_def)
  then have "goes (on_mock fl h) (call (\<lambda>hw. (databases_for dbs f, hw))) (\<lambda>u. True) (on_mock fl h)"
    by (intro goes_get) simp
  then show ?thesis unfolding report_state_def by (rule goes_bind) (intro goes_fold goes_report_db)
qed

lemma goes_report_target: "goes (on_mock fl h) report_target overlay_known (on_mock fl h)"
  unfolding report_target_def by (rule goes_bind [OF goes_identify], rule goes_bind [OF goes_say], rule goes_return)

lemma goes_body:
  assumes "all_databases dbs"
  shows "goes (on_mock fl h) (probe_body dbs verbose resume) (\<lambda>u. True) (on_mock fl (\<not> resume))"
proof -
  have halted: "goes (on_mock fl h) (call halted) (\<lambda>x. x = h) (on_mock fl h)"
    by (rule goes_get) (simp add: halted_def checked_open c_get_def hw_board_halted_def, simp add: mock_ops_def)
  have halt: "goes (on_mock fl h) (call halt) (\<lambda>u. True) (on_mock fl True)"
    by (rule goes_call) (auto simp: halt_def checked_open ok_or_def c_call_def hw_board_halt_def mock_ops_def)
  have run: "goes (on_mock fl True) (call run) (\<lambda>u. True) (on_mock fl False)"
    by (rule goes_call) (auto simp: run_def checked_open ok_or_def c_call_def hw_board_run_def mock_ops_def)
  have first: "goes (on_mock fl h) (if h then io_return () else io_bind (say ls) (\<lambda>u. call halt)) (\<lambda>u. True) (on_mock fl True)" for ls
    using goes_return [of "\<lambda>u. True" "()" "on_mock fl True"] goes_bind [OF goes_say halt] by (cases h) simp_all
  have last: "goes (on_mock fl True) (if resume then io_bind (call run) (\<lambda>u. say ls1) else say ls2) (\<lambda>u. True) (on_mock fl (\<not> resume))"
    for ls1 ls2 by (cases resume) (simp_all add: goes_say goes_bind [OF run])
  show ?thesis unfolding probe_body_def
  proof (rule goes_bind [OF halted], simp only:)
    show "goes (on_mock fl h)
        (io_bind (if h then io_return () else io_bind (say [''--> halting the target (core register reads need Debug state)'' @ [CHR 0x0A]]) (\<lambda>u. call halt)) (\<lambda>u.
         io_bind report_target (\<lambda>f. io_bind (report_state dbs f verbose) (\<lambda>u.
           if resume then io_bind (call run) (\<lambda>u. say [CHR 0x0A # ''--> target resumed''])
           else say [CHR 0x0A # ''--> leaving the target halted (pass --resume to let it run)''])))) (\<lambda>u. True) (on_mock fl (\<not> resume))"
      by (rule goes_bind [OF first], rule goes_bind [OF goes_report_target],
          rule goes_bind [OF goes_report_state [OF assms]], assumption, rule last)
  qed
qed

text \<open>
  C36.  On the mock target the command always gets through, whatever the memory of the target holds, provided the
  three databases are built in: it exits with 0 and no error, the connection is closed, the target is left
  halted unless \<open>--resume\<close> is given, in which case it runs, and the flash is untouched.
\<close>

theorem probe_on_mock:
  assumes "hw_connect reg (pa_backend a) (if nonempty (pa_host a) then pa_host a else None) (c_int (pa_port a)) = Some (mock_ops, s)"
    "all_databases dbs"
  shows "\<exists>s'. mk_flash s' = mk_flash s \<and> mk_halted s' = (\<not> pa_resume a) \<and>
    snd (probe_body dbs (pa_verbose a) (pa_resume a) (\<lparr>hw_ctx = Some (mock_ops, s), hw_backend = pa_backend a\<rparr>, out)) \<in>
      {(hw, ls). hw_ctx hw = Some (mock_ops, s')} \<and>
    pr_code (probe_main reg dbs a) = 0 \<and> pr_err (probe_main reg dbs a) = [] \<and>
    map_option Hw_closed (pr_hw (probe_main reg dbs a)) = Some True"
proof -
  let ?hw = "\<lparr>hw_ctx = Some (mock_ops, s), hw_backend = pa_backend a\<rparr>"
  have b: "\<exists>x st'. probe_body dbs (pa_verbose a) (pa_resume a) (?hw, ls) = (Inr x, st') \<and> on_mock (mk_flash s) (\<not> pa_resume a) st'" for ls
    using goes_body [OF assms(2), of "mk_flash s" "mk_halted s" "pa_verbose a" "pa_resume a"] by (simp add: goes_def on_mock_def)
  obtain x st' where o: "probe_body dbs (pa_verbose a) (pa_resume a) (?hw, out) = (Inr x, st')" "on_mock (mk_flash s) (\<not> pa_resume a) st'"
    using b by blast
  have "Hw_init reg (pa_backend a) (pa_host a) (pa_port a) = Inr ?hw" using assms(1) by (simp add: Hw_init_def)
  moreover obtain y t where "probe_body dbs (pa_verbose a) (pa_resume a)
      (?hw, [''built-in databases: '' @ join '', '' (database_names dbs) @ [CHR 0x0A]]) = (Inr y, t)" using b by blast
  ultimately have "pr_code (probe_main reg dbs a) = 0 \<and> pr_err (probe_main reg dbs a) = [] \<and>
      map_option Hw_closed (pr_hw (probe_main reg dbs a)) = Some True"
    by (cases t) (simp add: probe_main_def Let_def Hw_closed_def Hw_close_def)
  then show ?thesis using o by (auto simp: on_mock_def split: prod.splits)
qed

definition demo_args :: probe_args where
  "demo_args = \<lparr>pa_backend = ''mock'', pa_host = None, pa_port = 0, pa_verbose = True, pa_resume = False\<rparr>"

definition demo_registry :: "mock registry" where
  "demo_registry = [(''stlink'', None), (''mock'', Some (\<lambda>host port. Some (mock_ops, mock_connect)))]"

definition demo_dbs3 :: "hw_state_db list" where
  "demo_dbs3 = [demo_db, demo_overlay, demo_db\<lparr>db_name := ''cortex_m4_r0p0''\<rparr>]"

theorem probe_on_mock_witness: "pr_code (probe_main demo_registry demo_dbs3 demo_args) = 0"
proof -
  have "hw_connect demo_registry (pa_backend demo_args) (if nonempty (pa_host demo_args) then pa_host demo_args else None)
      (c_int (pa_port demo_args)) = Some (mock_ops, mock_connect)"
    by (simp add: demo_registry_def demo_args_def)
  moreover have "all_databases demo_dbs3"
    by (simp add: all_databases_def demo_dbs3_def find_db_def demo_overlay_def demo_db_def)
  ultimately show ?thesis using probe_on_mock [of demo_registry demo_args mock_connect demo_dbs3 "[]"] by blast
qed

theorem probe_report_exact_witness:
  "\<exists>rs s'. query_run [demo_db] mock_ops demo_features (db_states demo_db) mock_connect = (rs, s') \<and> length rs = 2 \<and>
     report_db [demo_db] demo_features True demo_db () (demo_hw, []) =
       (Inr (), demo_hw\<lparr>hw_ctx := Some (mock_ops, s')\<rparr>,
        value_lines True (StateDb_iter demo_db) rs @
          db_lines demo_db (tally [] (map (\<lambda>r. hw_presence_name (qr_presence r)) rs),
            tally [] (map (\<lambda>r. hw_read_status_name (qr_read r)) rs), unbacked rs)) \<and>
     map qr_presence rs = [HW_PRESENCE_ARCHITECTURAL, HW_PRESENCE_CONFIG_DENIED] \<and> map qr_value rs = [Some 0, None]"
proof -
  have m: "mk_pages mock_connect = []" by (simp add: mock_connect_def)
  have d: "db_states demo_db = [demo_cpuid, demo_fpccr]" by (simp add: demo_db_def)
  obtain rs s' where q: "query_run [demo_db] mock_ops demo_features (db_states demo_db) mock_connect = (rs, s')" by fastforce
  with demo_query [OF m] d have "map qr_presence rs = [HW_PRESENCE_ARCHITECTURAL, HW_PRESENCE_CONFIG_DENIED] \<and> map qr_value rs = [Some 0, None]"
    by (auto simp: query_of_def)
  moreover note probe_report_exact [OF demo_ctx q, of True "()" "[]"]
  ultimately show ?thesis using q d by (intro exI [of _ rs] exI [of _ s']) simp
qed

end
