(* ===== verification/Loader.thy ===== *)
theory Loader
  imports Sources Abi Probe
begin

text \<open>
  Where the shared library comes from: the search and the first use of \<open>libhw/_ffi.py\<close>, the
  build hooks of \<open>setup.py\<close> that put a copy of it into the package, and what \<open>cli.py\<close> does without it.  The host is a record that
  every function takes: the tree of files (paths are resolved and there are no symbolic links), the
  environment variable, the expansion of \<open>~\<close> (\<open>None\<close> where \<open>expanduser\<close> raises), the search of the
  dynamic linker, and \<open>dlopen\<close>, which may depend on the tree.  The library itself is a value of the type \<open>'l\<close>.
\<close>

section \<open>The host\<close>

datatype fs_node = File string | Dir

type_synonym fs_tree = "ppath \<Rightarrow> fs_node option"

record 'l host =
  ho_tree :: fs_tree
  ho_env :: "string option"
  ho_expanduser :: "ppath \<Rightarrow> ppath option"
  ho_find_library :: "string \<Rightarrow> string option"
  ho_dlopen :: "fs_tree \<Rightarrow> string \<Rightarrow> 'l option"
  ho_exports :: "'l \<Rightarrow> string \<Rightarrow> bool"

datatype load_error =
    HwLibraryNotFound string
  | RuntimeError string
  | AttributeError string

definition tree_is_file :: "fs_tree \<Rightarrow> ppath \<Rightarrow> bool" where
  "tree_is_file t p = (case t p of Some (File b) \<Rightarrow> True | _ \<Rightarrow> False)"

text \<open>\<open>path / name\<close>, \<open>path.parent\<close> and \<open>path.parents\<close> of an absolute path, nearest first.\<close>

definition child :: "ppath \<Rightarrow> string \<Rightarrow> ppath" where
  "child p name = p\<lparr>parts := parts p @ [name]\<rparr>"

definition parent :: "ppath \<Rightarrow> ppath" where
  "parent p = p\<lparr>parts := butlast (parts p)\<rparr>"

definition parents :: "ppath \<Rightarrow> ppath list" where
  "parents p = map (\<lambda>n. p\<lparr>parts := take n (parts p)\<rparr>) (rev [0..<length (parts p)])"

section \<open>Finding the library\<close>

definition LIBRARY_ENV :: string where "LIBRARY_ENV = ''LIBHW_LIBRARY''"
definition LIBRARY_NAME :: string where "LIBRARY_NAME = ''libhw.so''"

text \<open>\<open>here\<close> is the resolved path of the file \<open>_ffi.py\<close>.\<close>

definition BUNDLED_DIR :: "ppath \<Rightarrow> ppath" where
  "BUNDLED_DIR here = child (parent here) ''_lib''"

definition build_tree_copy :: "ppath \<Rightarrow> ppath" where
  "build_tree_copy p = child (child p ''out'') LIBRARY_NAME"

definition candidate_paths :: "'l host \<Rightarrow> ppath \<Rightarrow> load_error + ppath list" where
  "candidate_paths h here =
     (let override =
        (case ho_env h of
           None \<Rightarrow> Some []
         | Some s \<Rightarrow> if s = [] then Some [] else map_option (\<lambda>p. [p]) (ho_expanduser h (path_of s)));
        built =
        (case find (tree_is_file (ho_tree h)) (map build_tree_copy (parents here)) of
           None \<Rightarrow> []
         | Some c \<Rightarrow> [c]);
        bundled = child (BUNDLED_DIR here) LIBRARY_NAME;
        found = (case ho_find_library h ''hw'' of None \<Rightarrow> [] | Some f \<Rightarrow> if f = [] then [] else [path_of f])
      in case override of
           None \<Rightarrow> Inl (RuntimeError ''Could not determine home directory.'')
         | Some first \<Rightarrow>
             Inr (first @ built @ (if tree_is_file (ho_tree h) bundled then [bundled] else []) @ found))"

text \<open>One attempt: a candidate that is neither a file nor left to the linker is skipped.\<close>

definition attempt :: "'l host \<Rightarrow> ppath \<Rightarrow> 'l option" where
  "attempt h p =
     (if tree_is_file (ho_tree h) p \<or> \<not> is_absolute p then ho_dlopen h (ho_tree h) (path_str p) else None)"

fun try_candidates :: "'l host \<Rightarrow> ppath list \<Rightarrow> 'l option" where
  "try_candidates h [] = None"
| "try_candidates h (p # ps) = (case attempt h p of Some l \<Rightarrow> Some l | None \<Rightarrow> try_candidates h ps)"

definition not_found :: "ppath list \<Rightarrow> string" where
  "not_found tried =
     ''Could not load libhw.so.'' @ nl @
     ''  Tried: '' @ (let s = join '', '' (map path_str tried) in if s = [] then ''(nothing)'' else s) @ nl @
     ''  Build it with '' @ [CHR 0x27] @ ''make'' @ [CHR 0x27] @ '' at the repository root, reinstall this package '' @
     ''so it bundles its own copy, or set '' @ LIBRARY_ENV @ '' to the shared library.''"

definition load_library :: "'l host \<Rightarrow> ppath \<Rightarrow> load_error + 'l" where
  "load_library h here =
     (case candidate_paths h here of
        Inl e \<Rightarrow> Inl e
      | Inr tried \<Rightarrow>
          (case try_candidates h tried of
             Some l \<Rightarrow> Inr l
           | None \<Rightarrow> Inl (HwLibraryNotFound (not_found tried))))"

section \<open>First use\<close>

text \<open>
  The module's global \<open>_lib\<close>, and the signatures its entry points have been given.  A name the library does
  not export raises \<open>AttributeError\<close> when its signature is assigned.
\<close>

record 'l ffi =
  ff_lib :: "'l option"
  ff_sigs :: "string \<Rightarrow> signature option"

definition ffi_start :: "'l ffi" where "ffi_start = \<lparr>ff_lib = None, ff_sigs = (\<lambda>n. None)\<rparr>"

fun bind_from ::
    "(string \<Rightarrow> bool) \<Rightarrow> (string \<times> signature) list \<Rightarrow> (string \<Rightarrow> signature option) \<Rightarrow> string option \<times> (string \<Rightarrow> signature option)"
where
  "bind_from exports [] sigs = (None, sigs)"
| "bind_from exports ((n, s) # rest) sigs =
     (if exports n then bind_from exports rest (sigs(n \<mapsto> s)) else (Some n, sigs))"

definition lib :: "'l host \<Rightarrow> ppath \<Rightarrow> 'l ffi \<Rightarrow> (load_error + 'l) \<times> 'l ffi" where
  "lib h here st =
     (case ff_lib st of
        Some l \<Rightarrow> (Inr l, st)
      | None \<Rightarrow>
          (case load_library h here of
             Inl e \<Rightarrow> (Inl e, st)
           | Inr l \<Rightarrow>
               (case bind_from (ho_exports h l) signatures (\<lambda>n. None) of
                  (Some n, sigs) \<Rightarrow> (Inl (AttributeError n), \<lparr>ff_lib = Some l, ff_sigs = sigs\<rparr>)
                | (None, sigs) \<Rightarrow> (Inr l, \<lparr>ff_lib = Some l, ff_sigs = sigs\<rparr>))))"

section \<open>The build hooks\<close>

text \<open>
  \<open>setup.py\<close> works on the tree alone.  \<open>mk root\<close> stands for the subprocess: the text of its exception, if it
  raises one, and the tree it leaves; \<open>collect\<close> for what \<open>setuptools\<close> does afterwards.
  \<open>HERE\<close> is the resolved directory of \<open>setup.py\<close>.
\<close>

datatype build_error =
    SystemExit string
  | FileExistsError ppath
  | NotADirectoryError ppath
  | IsADirectoryError ppath
  | FileNotFoundError ppath
  | SameFileError ppath

type_synonym make = "ppath \<Rightarrow> fs_tree \<Rightarrow> string option \<times> fs_tree"

definition BUNDLE_DIR :: "ppath \<Rightarrow> ppath" where
  "BUNDLE_DIR here = child (child here ''libhw'') ''_lib''"

definition repo_root :: "fs_tree \<Rightarrow> ppath \<Rightarrow> ppath option" where
  "repo_root t here =
     find (\<lambda>p. tree_is_file t (child p ''Makefile'') \<and> tree_is_file t (child (child p ''include'') ''hw.h''))
       (parents here)"

definition built_library :: "fs_tree \<Rightarrow> ppath \<Rightarrow> ppath option" where
  "built_library t root = (if tree_is_file t (build_tree_copy root) then Some (build_tree_copy root) else None)"

definition no_repository :: "ppath \<Rightarrow> string" where
  "no_repository here =
     ''Cannot find the libhw repository from '' @ path_str here @ ''.'' @ nl @
     ''These bindings are built from the C library in the repository that'' @ nl @
     ''contains them. Install from a checkout, or set LIBHW_LIBRARY at'' @ nl @
     ''runtime to point at an existing libhw.so.''"

definition make_failed :: "string \<Rightarrow> string" where
  "make_failed exc =
     ''Could not build '' @ LIBRARY_NAME @ '': '' @ exc @ nl @
     ''The C library needs a compiler and the libstlink development'' @ nl @
     ''headers (libstlink-dev on Debian/Ubuntu). Build it by hand with'' @ nl @
     [CHR 0x27] @ ''make'' @ [CHR 0x27] @ '' at the repository root and try again.''"

definition ensure_library :: "make \<Rightarrow> ppath \<Rightarrow> fs_tree \<Rightarrow> (build_error + ppath) \<times> fs_tree \<times> string list" where
  "ensure_library mk here t =
     (case repo_root t here of
        None \<Rightarrow> (Inl (SystemExit (no_repository here)), t, [])
      | Some root \<Rightarrow>
          (case built_library t root of
             Some l \<Rightarrow> (Inr l, t, [])
           | None \<Rightarrow>
               (let out = [''libhw: '' @ LIBRARY_NAME @ '' not built yet, running make in '' @ path_str root] in
                case mk root t of
                  (Some exc, t1) \<Rightarrow> (Inl (SystemExit (make_failed exc)), t1, out)
                | (None, t1) \<Rightarrow>
                    (case built_library t1 root of
                       Some l \<Rightarrow> (Inr l, t1, out)
                     | None \<Rightarrow>
                         (Inl (SystemExit (''make finished but '' @ path_str (build_tree_copy root) @ '' is missing'')), t1, out)))))"

text \<open>
  \<open>mkdir (parents=True, exist_ok=True)\<close>: an existing directory is left alone, missing parents are made
  first.
\<close>

function mkdir_parents :: "fs_tree \<Rightarrow> ppath \<Rightarrow> build_error + fs_tree" where
  "mkdir_parents t p =
     (case t p of
        Some Dir \<Rightarrow> Inr t
      | Some (File b) \<Rightarrow> Inl (FileExistsError p)
      | None \<Rightarrow>
          if parts p = [] then Inl (FileNotFoundError p)
          else (case t (parent p) of
                  Some Dir \<Rightarrow> Inr (t(p \<mapsto> Dir))
                | Some (File b) \<Rightarrow> Inl (NotADirectoryError p)
                | None \<Rightarrow>
                    (case mkdir_parents t (parent p) of
                       Inl e \<Rightarrow> Inl e
                     | Inr t1 \<Rightarrow> Inr (t1(p \<mapsto> Dir)))))"
  by pat_completeness auto
termination by (relation "measure (\<lambda>(t, p). length (parts p))") (auto simp: parent_def)

declare mkdir_parents.simps [simp del]

text \<open>\<open>shutil.copy2\<close>: into a directory, the copy keeps the name of the source.\<close>

definition copy2 :: "fs_tree \<Rightarrow> ppath \<Rightarrow> ppath \<Rightarrow> build_error + fs_tree" where
  "copy2 t src dst =
     (let dst = (if t dst = Some Dir then child dst (path_name src) else dst) in
      if t src \<noteq> None \<and> src = dst then Inl (SameFileError src)
      else (case t src of
              None \<Rightarrow> Inl (FileNotFoundError src)
            | Some Dir \<Rightarrow> Inl (IsADirectoryError src)
            | Some (File b) \<Rightarrow>
                if t dst = Some Dir then Inl (IsADirectoryError dst)
                else if t (parent dst) = Some Dir then Inr (t(dst \<mapsto> File b))
                else Inl (FileNotFoundError dst)))"

definition build_py_run ::
    "make \<Rightarrow> (fs_tree \<Rightarrow> fs_tree) \<Rightarrow> ppath \<Rightarrow> fs_tree \<Rightarrow> (build_error + unit) \<times> fs_tree \<times> string list"
where
  "build_py_run mk collect here t =
     (case ensure_library mk here t of
        (Inl e, t1, out) \<Rightarrow> (Inl e, t1, out)
      | (Inr l, t1, out) \<Rightarrow>
          (case mkdir_parents t1 (BUNDLE_DIR here) of
             Inl e \<Rightarrow> (Inl e, t1, out)
           | Inr t2 \<Rightarrow>
               (let target = child (BUNDLE_DIR here) LIBRARY_NAME in
                case copy2 t2 l target of
                  Inl e \<Rightarrow> (Inl e, t2, out)
                | Inr t3 \<Rightarrow>
                    (Inr (), collect t3, out @ [''libhw: bundled '' @ path_str l @ '' -> '' @ path_str target]))))"

text \<open>The tag of the wheel, from the one \<open>setuptools\<close> computes, and the commands that are replaced.\<close>

definition get_tag :: "string \<times> string \<times> string \<Rightarrow> string \<times> string \<times> string" where
  "get_tag tag = (case tag of (_, _, plat) \<Rightarrow> (''py3'', ''none'', plat))"

definition cmdclass :: "bool \<Rightarrow> bool \<Rightarrow> string list" where
  "cmdclass in_setuptools in_wheel =
     (if in_setuptools \<or> in_wheel then [''build_py'', ''bdist_wheel''] else [''build_py''])"

section \<open>Paths and trees\<close>

lemma parent_child [simp]: "parent (child p n) = p"
  by (simp add: parent_def child_def)

lemma parents_child [simp]: "parents (child p n) = p # parents p"
  by (simp add: parents_def child_def)

lemma child_eq_iff [simp]: "child p n = child q m \<longleftrightarrow> p = q \<and> n = m"
  by (cases p; cases q) (auto simp: child_def)

lemma child_neq [simp]: "child p n \<noteq> p" "p \<noteq> child p n"
  by (cases p; simp add: child_def)+

lemma tree_is_file_iff: "tree_is_file t p \<longleftrightarrow> (\<exists>b. t p = Some (File b))"
  by (simp add: tree_is_file_def split: option.splits fs_node.splits)

text \<open>Making a directory leaves every file alone and adds nothing but directories, none of them deeper.\<close>

lemma mkdir_parents_Inr:
  assumes "mkdir_parents t p = Inr t'"
  shows "t' p = Some Dir"
    and "t' q = t q \<or> (t q = None \<and> t' q = Some Dir \<and> length (parts q) \<le> length (parts p))"
proof -
  have "t' p = Some Dir \<and>
        (\<forall>q. t' q = t q \<or> (t q = None \<and> t' q = Some Dir \<and> length (parts q) \<le> length (parts p)))"
    using assms
  proof (induction t p arbitrary: t' rule: mkdir_parents.induct)
    case (1 t p)
    show ?case
    proof (cases "t p = None \<and> parts p \<noteq> [] \<and> t (parent p) = None")
      case True
      with "1.prems" obtain t1 where t1: "mkdir_parents t (parent p) = Inr t1" and t': "t' = t1(p \<mapsto> Dir)"
        by (subst (asm) mkdir_parents.simps) (auto split: sum.splits)
      from True "1.IH" [OF _ _ _ t1]
      have "\<forall>q. t1 q = t q \<or> (t q = None \<and> t1 q = Some Dir \<and> length (parts q) \<le> length (parts (parent p)))" by blast
      moreover have "length (parts (parent p)) \<le> length (parts p)" by (simp add: parent_def)
      ultimately show ?thesis using True unfolding t' by (auto intro: order_trans)
    next
      case False
      with "1.prems" show ?thesis
        by (subst (asm) mkdir_parents.simps) (auto split: option.splits fs_node.splits if_splits)
    qed
  qed
  then show "t' p = Some Dir"
    and "t' q = t q \<or> (t q = None \<and> t' q = Some Dir \<and> length (parts q) \<le> length (parts p))" by auto
qed

lemma copy2_Inr:
  "copy2 t src dst = Inr t' \<Longrightarrow>
   \<exists>b. t src = Some (File b) \<and> src \<noteq> (if t dst = Some Dir then child dst (path_name src) else dst) \<and>
       t' = t((if t dst = Some Dir then child dst (path_name src) else dst) \<mapsto> File b)"
  by (auto simp: copy2_def Let_def split: option.splits fs_node.splits if_splits)

section \<open>The search\<close>

lemma try_candidates_Some:
  "try_candidates h ps = Some l \<longleftrightarrow>
   (\<exists>pre p post. ps = pre @ p # post \<and> attempt h p = Some l \<and> list_all (\<lambda>q. attempt h q = None) pre)"
proof (induction ps)
  case (Cons q qs)
  show ?case
  proof (cases "attempt h q")
    case None
    then show ?thesis using Cons by (auto simp: Cons_eq_append_conv) (metis list.pred_inject(2))+
  next
    case (Some l')
    then show ?thesis by (fastforce simp: Cons_eq_append_conv)
  qed
qed simp

lemma try_candidates_None: "try_candidates h ps = None \<longleftrightarrow> list_all (\<lambda>p. attempt h p = None) ps"
  by (induction ps) (auto split: option.splits)

text \<open>
  Loading the library.  It is the first candidate that loads: a candidate that is neither a file nor a
  name for the linker, and one that \<open>dlopen\<close> refuses, is passed over, and no later one is tried once one has loaded.
  The error names every path tried, and is raised exactly if none of them loads.
\<close>

lemma load_library_exact:
  "(load_library h here = Inr l \<longleftrightarrow>
      (\<exists>pre p post. candidate_paths h here = Inr (pre @ p # post) \<and> list_all (\<lambda>q. attempt h q = None) pre \<and>
                    attempt h p = Some l)) \<and>
   (load_library h here = Inl (HwLibraryNotFound m) \<longleftrightarrow>
      (\<exists>tried. candidate_paths h here = Inr tried \<and> list_all (\<lambda>p. attempt h p = None) tried \<and> m = not_found tried))"
proof (cases "candidate_paths h here")
  case (Inl e)
  then show ?thesis by (auto simp: load_library_def candidate_paths_def Let_def split: option.splits)
next
  case (Inr tried)
  then have "load_library h here = Inr l \<longleftrightarrow> try_candidates h tried = Some l"
    and "load_library h here = Inl (HwLibraryNotFound m) \<longleftrightarrow> try_candidates h tried = None \<and> m = not_found tried"
    by (auto simp: load_library_def split: option.split)
  with Inr show ?thesis unfolding try_candidates_Some try_candidates_None by (auto 4 0)
qed

text \<open>Without an override the nearest build tree comes first.\<close>

lemma find_first:
  assumes "x \<in> set xs" and "P (f x)" and "\<forall>y \<in> set (takeWhile (\<lambda>y. y \<noteq> x) xs). \<not> P (f y)"
  shows "find P (map f xs) = Some (f x)"
  using assms
proof (induction xs)
  case (Cons y ys)
  then show ?case by (cases "y = x") auto
qed simp

lemma built_first:
  assumes "ho_env h = None" and "root \<in> set (parents here)" and "tree_is_file (ho_tree h) (build_tree_copy root)"
    and "\<forall>q \<in> set (takeWhile (\<lambda>q. q \<noteq> root) (parents here)). \<not> tree_is_file (ho_tree h) (build_tree_copy q)"
    and "ho_dlopen h (ho_tree h) (path_str (build_tree_copy root)) = Some l"
  shows "load_library h here = Inr l"
  using assms find_first [of root "parents here" "tree_is_file (ho_tree h)" build_tree_copy]
  by (simp add: load_library_def candidate_paths_def attempt_def Let_def)

text \<open>An installed package with no build tree above it loads the copy it carries.\<close>

lemma bundled_first:
  assumes "ho_env h = None" and "\<forall>q \<in> set (parents here). \<not> tree_is_file (ho_tree h) (build_tree_copy q)"
    and "tree_is_file (ho_tree h) (child (BUNDLED_DIR here) LIBRARY_NAME)"
    and "ho_dlopen h (ho_tree h) (path_str (child (BUNDLED_DIR here) LIBRARY_NAME)) = Some l"
  shows "load_library h here = Inr l"
proof -
  have "find (tree_is_file (ho_tree h)) (map build_tree_copy (parents here)) = None"
    using assms(2) by (auto simp: find_None_iff)
  then show ?thesis using assms by (simp add: load_library_def candidate_paths_def attempt_def Let_def)
qed

section \<open>Binding\<close>

lemma bind_from_exact:
  "distinct (map fst sl) \<Longrightarrow>
   bind_from ex sl sigs =
     (map_option fst (find (\<lambda>(n, s). \<not> ex n) sl), sigs ++ map_of (takeWhile (\<lambda>(n, s). ex n) sl))"
proof (induction sl arbitrary: sigs)
  case (Cons a sl)
  obtain n s where a: "a = (n, s)" by (cases a)
  have "n \<notin> dom (map_of (takeWhile (\<lambda>(n, s). ex n) sl))"
    using Cons.prems by (auto simp: a dom_map_of_conv_image_fst dest!: set_takeWhileD)
  then have "sigs(n \<mapsto> s) ++ map_of (takeWhile (\<lambda>(n, s). ex n) sl) =
      sigs ++ (\<lambda>k. if k = n then Some s else map_of (takeWhile (\<lambda>(n, s). ex n) sl) k)"
    by (intro ext) (auto simp: map_add_def dom_def split: option.splits)
  with Cons show ?case by (simp add: a)
qed simp

text \<open>
  C40. The first use of the library.  The entry points get their signatures in order up to the first name the
  library does not export.  If there is one the call raises \<open>AttributeError\<close>; but the library stays installed, so
  every later call, wherever the library might be found by then, returns it with the signatures it has and raises nothing.
\<close>

theorem lib_first_use:
  assumes "ff_lib st = None" and "load_library h here = Inr l"
  shows "ff_sigs (snd (lib h here st)) = map_of (takeWhile (\<lambda>(n, s). ho_exports h l n) signatures) \<and>
         fst (lib h here st) =
           (case find (\<lambda>(n, s). \<not> ho_exports h l n) signatures of
              None \<Rightarrow> Inr l
            | Some (n, s) \<Rightarrow> Inl (AttributeError n)) \<and>
         lib h' here' (snd (lib h here st)) = (Inr l, snd (lib h here st))"
  using assms by (auto simp: lib_def bind_from_exact [OF signature_names] split: option.splits)


section \<open>Building, then loading\<close>

lemma ensure_library_Inr:
  assumes "ensure_library mk here t = (Inr l, t1, out)"
  obtains root where "repo_root t here = Some root" and "l = build_tree_copy root" and "tree_is_file t1 l"
    and "t1 = t \<and> tree_is_file t l \<or> mk root t = (None, t1) \<and> \<not> tree_is_file t l"
  using assms
  by (auto simp: ensure_library_def built_library_def Let_def split: option.splits if_splits prod.splits)

text \<open>Where the bundled copy goes: if a directory has its name, into the directory.\<close>

definition bundle_dest :: "fs_tree \<Rightarrow> ppath \<Rightarrow> ppath" where
  "bundle_dest t here =
     (let target = child (BUNDLE_DIR here) LIBRARY_NAME in
      if t target = Some Dir then child target LIBRARY_NAME else target)"

text \<open>
  The tree \<open>t1\<close> is the one the library is found in: the given one if it was built already, else the one that
  \<open>make\<close> leaves.  The bundled copy is byte for byte the built library, and apart from it only missing directories appear.
\<close>

lemma build_py_run_Inr:
  assumes "build_py_run mk collect here t = (Inr u, t', out)"
  obtains root b t1 t3 where "repo_root t here = Some root"
    and "t1 = t \<and> tree_is_file t (build_tree_copy root) \<or> mk root t = (None, t1) \<and> \<not> tree_is_file t (build_tree_copy root)"
    and "t1 (build_tree_copy root) = Some (File b)" and "t3 (build_tree_copy root) = Some (File b)"
    and "t3 (bundle_dest t1 here) = Some (File b)" and "t' = collect t3"
    and "\<forall>p. p = bundle_dest t1 here \<or> t3 p = t1 p \<or> (t1 p = None \<and> t3 p = Some Dir)"
proof -
  define target where "target = child (BUNDLE_DIR here) LIBRARY_NAME"
  obtain l t1 out1 t2 t3 where ens: "ensure_library mk here t = (Inr l, t1, out1)"
    and mkdir: "mkdir_parents t1 (BUNDLE_DIR here) = Inr t2" and copy: "copy2 t2 l target = Inr t3"
    and t': "t' = collect t3"
    using assms by (auto simp: build_py_run_def target_def Let_def split: prod.splits sum.splits)
  obtain root where root: "repo_root t here = Some root" and l: "l = build_tree_copy root" and is_built: "tree_is_file t1 l"
    and made: "t1 = t \<and> tree_is_file t l \<or> mk root t = (None, t1) \<and> \<not> tree_is_file t l"
    using ensure_library_Inr [OF ens] by blast
  have name: "path_name l = LIBRARY_NAME" by (simp add: l build_tree_copy_def path_name_def child_def)
  note same = mkdir_parents_Inr(2) [OF mkdir]
  have deep: "length (parts (BUNDLE_DIR here)) < length (parts target)" by (simp add: target_def child_def)
  then have dest: "(if t2 target = Some Dir then child target (path_name l) else target) = bundle_dest t1 here"
    using same [of target] by (auto simp: bundle_dest_def target_def [symmetric] name)
  obtain b where b: "t2 l = Some (File b)" and ne: "l \<noteq> bundle_dest t1 here" and t3: "t3 = t2(bundle_dest t1 here \<mapsto> File b)"
    using copy2_Inr [OF copy] unfolding dest by blast
  have "t1 l = Some (File b)" using same [of l] b by auto
  moreover have "t3 l = Some (File b)" using b ne by (simp add: t3)
  moreover have "\<forall>p. p = bundle_dest t1 here \<or> t3 p = t1 p \<or> (t1 p = None \<and> t3 p = Some Dir)"
    using same by (auto simp: t3)
  ultimately show thesis using that [of root t1 b t3] root made t' by (simp add: l t3)
qed


lemma repo_root_parents: "repo_root t here = Some root \<Longrightarrow> root \<in> set (parents here)"
  by (auto simp: repo_root_def find_Some_iff)

text \<open>The file \<open>_ffi.py\<close> of the package beside \<open>setup.py\<close>.\<close>

definition ffi_file :: "ppath \<Rightarrow> ppath" where
  "ffi_file here = child (child here ''libhw'') ''_ffi.py''"

lemma ffi_file_simps [simp]:
  "parents (ffi_file here) = child here ''libhw'' # here # parents here" "BUNDLED_DIR (ffi_file here) = BUNDLE_DIR here"
  by (simp_all add: ffi_file_def BUNDLED_DIR_def BUNDLE_DIR_def)

text \<open>
  C39. The package finds what its build hook provides.  After a successful build, on a host where no build
  tree is nearer to the package than the repository and no override is set, the package loads the library of that
  repository, running \<open>make\<close> first if it was missing; and the copy that the package carries, which an installed wheel falls back on, is
  the same file, byte for byte.  The commands of \<open>setuptools\<close> that follow may add files but not change one.
\<close>

theorem built_library_is_loaded:
  assumes run: "build_py_run mk collect here t = (Inr u, t', out)"
    and keep: "\<forall>t p n. t p = Some n \<longrightarrow> collect t p = Some n"
    and root: "repo_root t here = Some root"
    and env: "ho_env h = None" and tree: "ho_tree h = t'"
    and near: "\<forall>q \<in> set (takeWhile (\<lambda>q. q \<noteq> root) (parents (ffi_file here))). \<not> tree_is_file t' (build_tree_copy q)"
    and opens: "ho_dlopen h t' (path_str (build_tree_copy root)) = Some l"
    and target: "t' (child (BUNDLED_DIR (ffi_file here)) LIBRARY_NAME) \<noteq> Some Dir"
  shows "load_library h (ffi_file here) = Inr l \<and>
         (\<exists>b. t' (build_tree_copy root) = Some (File b) \<and>
              t' (child (BUNDLED_DIR (ffi_file here)) LIBRARY_NAME) = Some (File b))"
proof -
  let ?target = "child (BUNDLE_DIR here) LIBRARY_NAME"
  obtain b t1 t3 where built: "t3 (build_tree_copy root) = Some (File b)"
    and dest: "t3 (bundle_dest t1 here) = Some (File b)" and t': "t' = collect t3"
    and rest: "\<forall>p. p = bundle_dest t1 here \<or> t3 p = t1 p \<or> (t1 p = None \<and> t3 p = Some Dir)"
    using build_py_run_Inr [OF run] root by (metis option.inject)
  have "t1 ?target \<noteq> Some Dir"
  proof
    assume "t1 ?target = Some Dir"
    then have "t3 ?target = Some Dir" using spec [OF rest, of ?target] by (auto simp: bundle_dest_def Let_def)
    with keep target show False by (simp add: t')
  qed
  with dest have bundled: "t3 ?target = Some (File b)" by (simp add: bundle_dest_def Let_def)
  have "load_library h (ffi_file here) = Inr l"
  proof (rule built_first [OF env])
    show "root \<in> set (parents (ffi_file here))" using repo_root_parents [OF root] by simp
    show "tree_is_file (ho_tree h) (build_tree_copy root)" using built keep by (auto simp: tree t' tree_is_file_iff)
  qed (use near opens tree in auto)
  then show ?thesis using built bundled keep by (auto simp: t')
qed

text \<open>A checkout at \<open>/repo\<close> in which the library has not been built, and a host on it.\<close>

definition absolute :: "string list \<Rightarrow> ppath" where "absolute ps = \<lparr>is_absolute = True, parts = ps\<rparr>"

definition demo_here :: ppath where "demo_here = absolute [''repo'', ''utils'', ''python'']"

definition demo_tree :: fs_tree where
  "demo_tree =
     map_of [(absolute [''repo'', ''Makefile''], File ''all:''), (absolute [''repo'', ''include'', ''hw.h''], File []),
             (absolute [''repo'', ''utils'', ''python'', ''libhw''], Dir)]"

definition demo_make :: make where
  "demo_make root t = (None, t(child root ''out'' \<mapsto> Dir, build_tree_copy root \<mapsto> File ''ELF''))"

definition demo_after :: fs_tree where
  "demo_after =
     demo_tree(absolute [''repo'', ''out''] \<mapsto> Dir, absolute [''repo'', ''out'', ''libhw.so''] \<mapsto> File ''ELF'',
               absolute [''repo'', ''utils'', ''python'', ''libhw'', ''_lib''] \<mapsto> Dir,
               absolute [''repo'', ''utils'', ''python'', ''libhw'', ''_lib'', ''libhw.so''] \<mapsto> File ''ELF'')"

definition demo_host :: "fs_tree \<Rightarrow> string host" where
  "demo_host t =
     \<lparr>ho_tree = t, ho_env = None, ho_expanduser = Some, ho_find_library = (\<lambda>n. None),
      ho_dlopen = (\<lambda>t s. if s = ''/repo/out/libhw.so'' then Some s else None), ho_exports = (\<lambda>l n. True)\<rparr>"

lemma absolute_simps [simp]:
  "absolute ps = absolute qs \<longleftrightarrow> ps = qs" "child (absolute ps) n = absolute (ps @ [n])"
  "parent (absolute ps) = absolute (butlast ps)" "parts (absolute ps) = ps"
  "parents (absolute []) = []" "path_str (absolute ps) = ''/'' @ join ''/'' ps"
  by (simp_all add: absolute_def child_def parent_def parents_def path_str_def)

lemma parents_absolute [simp]: "parents (absolute (p # ps)) = map absolute (rev (map (\<lambda>n. take n (p # ps)) [0..<Suc (length ps)]))"
  by (simp add: parents_def absolute_def rev_map)

lemmas demo_defs = build_tree_copy_def BUNDLE_DIR_def LIBRARY_NAME_def

lemma demo_root: "repo_root demo_tree demo_here = Some (absolute [''repo''])"
  by (simp add: repo_root_def demo_here_def demo_tree_def tree_is_file_def)

lemma demo_ensure:
  "ensure_library demo_make demo_here demo_tree =
     (Inr (absolute [''repo'', ''out'', ''libhw.so'']),
      demo_tree(absolute [''repo'', ''out''] \<mapsto> Dir, absolute [''repo'', ''out'', ''libhw.so''] \<mapsto> File ''ELF''),
      [''libhw: libhw.so not built yet, running make in /repo''])"
  by (simp add: ensure_library_def demo_root built_library_def demo_make_def demo_defs tree_is_file_def Let_def)
     (simp add: demo_tree_def join_def)

lemma demo_run:
  "build_py_run demo_make id demo_here demo_tree =
     (Inr (), demo_after,
      [''libhw: libhw.so not built yet, running make in /repo'',
       ''libhw: bundled /repo/out/libhw.so -> /repo/utils/python/libhw/_lib/libhw.so''])"
  by (simp add: build_py_run_def demo_ensure)
     (simp add: demo_here_def demo_tree_def demo_after_def mkdir_parents.simps copy2_def demo_defs Let_def join_def
                path_name_def fun_upd_twist)

theorem built_library_is_loaded_witness:
  "load_library (demo_host demo_after) (ffi_file demo_here) = Inr ''/repo/out/libhw.so'' \<and>
   (\<exists>b. demo_after (build_tree_copy (absolute [''repo''])) = Some (File b) \<and>
        demo_after (child (BUNDLED_DIR (ffi_file demo_here)) LIBRARY_NAME) = Some (File b))"
  by (rule built_library_is_loaded [OF demo_run])
     (simp_all add: demo_root, simp_all add: demo_here_def demo_host_def demo_after_def demo_tree_def demo_defs tree_is_file_def join_def)

text \<open>The same host with an older library, which has no \<open>hw_presence_name\<close>.\<close>

definition old_host :: "string host" where
  "old_host = (demo_host demo_after)\<lparr>ho_exports := (\<lambda>l n. n \<noteq> ''hw_presence_name'')\<rparr>"

lemma old_load: "load_library old_host (ffi_file demo_here) = Inr ''/repo/out/libhw.so''"
  by (rule built_first [where root = "absolute [''repo'']"])
     (simp_all add: old_host_def demo_here_def demo_host_def demo_after_def demo_tree_def demo_defs tree_is_file_def join_def)

lemma old_missing: "find (\<lambda>(n, s). \<not> ho_exports old_host l n) signatures = Some (''hw_presence_name'', [CT_int], Some CT_char_p)"
  by (simp add: old_host_def signatures_def core_signatures_def flash_signatures_def state_signatures_def)

theorem lib_first_use_witness:
  "fst (lib old_host (ffi_file demo_here) ffi_start) = Inl (AttributeError ''hw_presence_name'') \<and>
   fst (lib old_host (ffi_file demo_here) (snd (lib old_host (ffi_file demo_here) ffi_start))) = Inr ''/repo/out/libhw.so''"
  using lib_first_use [of ffi_start old_host "ffi_file demo_here" _ old_host "ffi_file demo_here", OF _ old_load]
  by (simp add: ffi_start_def old_missing)


section \<open>The probe without its library\<close>

text \<open>
  \<open>main\<close> of \<open>cli.py\<close> uses the library twice: for the names of the databases, before the \<open>try\<close>, and for the
  connection, inside it.  What the library \<open>l\<close> holds are its backends \<open>reg l\<close> and its tables \<open>dbs l\<close>.
  An exception that no handler catches ends the process.
\<close>

datatype 's probe_end =
    Exit "'s probe_result"
  | Uncaught load_error

definition probe_command ::
    "'l host \<Rightarrow> ppath \<Rightarrow> ('l \<Rightarrow> 's registry) \<Rightarrow> ('l \<Rightarrow> hw_state_db list) \<Rightarrow> probe_args \<Rightarrow> 'l ffi \<Rightarrow> 's probe_end \<times> 'l ffi"
where
  "probe_command h here reg dbs a st =
     (case lib h here st of
        (Inl e, st) \<Rightarrow> (Uncaught e, st)
      | (Inr l, st) \<Rightarrow>
          (let out = [''built-in databases: '' @ join '', '' (database_names (dbs l)) @ [CHR 0x0A]] in
           case lib h here st of
             (Inl (HwLibraryNotFound m), st) \<Rightarrow>
               (Exit \<lparr>pr_code = 2, pr_out = out, pr_err = [''error: '' @ m], pr_hw = None\<rparr>, st)
           | (Inl e, st) \<Rightarrow> (Uncaught e, st)
           | (Inr l, st) \<Rightarrow> (Exit (probe_main (reg l) (dbs l) a), st)))"

lemma probe_main_code: "pr_code (probe_main reg dbs a) = 0 \<or> pr_code (probe_main reg dbs a) = 1"
  by (auto simp: probe_main_def Let_def split: sum.split prod.split)

lemma lib_installed: "lib h here st = (Inr l, st1) \<Longrightarrow> ff_lib st1 = Some l"
  by (auto simp: lib_def split: option.splits sum.splits prod.splits)

lemma lib_again: "ff_lib st = Some l \<Longrightarrow> lib h here st = (Inr l, st)"
  by (simp add: lib_def)

text \<open>
  The exit status of the probe.  Status 2, which the handler of a library that is not found returns, is
  never reached: the names of the databases are asked for before the handlers are in place, so when the library
  cannot be loaded the exception leaves the command.  With a library the status is that of the report, 0 or 1.
\<close>

theorem probe_never_exits_2:
  "case probe_command h here reg dbs a st of
     (Uncaught e, st1) \<Rightarrow> lib h here st = (Inl e, st1)
   | (Exit r, st1) \<Rightarrow> (\<exists>l. lib h here st = (Inr l, st1) \<and> r = probe_main (reg l) (dbs l) a \<and> pr_code r \<in> {0, 1})"
proof (cases "lib h here st")
  case (Pair r st1)
  then show ?thesis
  proof (cases r)
    case (Inl e)
    with Pair show ?thesis by (simp add: probe_command_def)
  next
    case (Inr l)
    with Pair have "lib h here st1 = (Inr l, st1)" using lib_installed lib_again by metis
    with Pair Inr show ?thesis using probe_main_code [of "reg l" "dbs l" a] by (simp add: probe_command_def Let_def)
  qed
qed

text \<open>A host without any library.\<close>

lemma bare_host:
  "probe_command (demo_host demo_tree) (ffi_file demo_here) reg dbs a ffi_start =
     (Uncaught (HwLibraryNotFound (not_found [])), ffi_start)"
proof -
  have "candidate_paths (demo_host demo_tree) (ffi_file demo_here) = Inr []"
    by (simp add: candidate_paths_def demo_host_def demo_here_def demo_tree_def demo_defs tree_is_file_def)
  then have "load_library (demo_host demo_tree) (ffi_file demo_here) = Inl (HwLibraryNotFound (not_found []))"
    by (simp add: load_library_def)
  then show ?thesis by (simp add: probe_command_def lib_def ffi_start_def)
qed

end
