(* ===== verification/Samples.thy ===== *)
theory Samples
  imports Probe
begin

unbundle bit_operations_syntax

text \<open>
  The two programs under \<open>examples/\<close>, and what they show of the library: \<open>flash_patch.py\<close> writes an image,
  patches it and prints what the patch cost; \<open>state_dump.py\<close> reports the state of a target.  What they print is a list of lines.
\<close>

section \<open>The cost of a patch of the mock flash\<close>

text \<open>
  C22. A patch given no old image, or the bytes the region really holds, reports exactly what the change costs: one
  count per erase block the region meets, per block whose bytes change, per block in which some bit has to be set,
  and the bytes programmed, which are the whole block if it is erased and otherwise the span that
  differs, widened to the write granularity.
\<close>

theorem flash_patch_cost:
  assumes "hw_ctx hw = Some (mock_ops, s)" "mock_ok s" "flash_range_ok mock_info a (length d)"
    "old = None \<or> old = Some (flash_part s a (length d))"
  shows "\<exists>s'. Flash_patch hw (int a) old d =
      (Inr (patch_cost MOCK_FLASH_ALIGN (mock_mem s) a d (mock_sector ` {a..<a + length d})), hw\<lparr>hw_ctx := Some (mock_ops, s')\<rparr>) \<and>
    mock_ok s' \<and> mk_flash s' = overlay (mk_flash s) (a - MOCK_FLASH_BASE) d"
proof -
  have r: "d \<noteq> []" "MOCK_FLASH_BASE \<le> a" "a + length d \<le> MOCK_FLASH_BASE + MOCK_FLASH_SIZE" "c_uint (int a) = a"
    using region_bounds_mock [OF assms(3)] by blast+
  note acc = accurate_part [OF assms(2) r(2,3) assms(4)]
  have al: "fi_write_align mock_info = MOCK_FLASH_ALIGN" by (simp add: mock_info_def)
  from mock.patch_cost_exact [OF assms(2,3) acc(2,1)] obtain s' where
    s': "hw_flash_patch mock_ops s a old d =
      (True, patch_cost MOCK_FLASH_ALIGN (mock_mem s) a d (mock_sector ` {a..<a + length d}), s')"
    "mock_ok s'" "mock_mem s' = upd_range (mock_mem s) a d" unfolding al by blast
  have "mk_flash s' = overlay (mk_flash s) (a - MOCK_FLASH_BASE) d"
    using flash_of_mem [OF assms(2) s'(2) r(2,3)] s'(3) by blast
  with patch_call [OF r(1) assms(1), of "int a" old True _ s'] s' acc(2) r(4) show ?thesis by (intro exI [of _ s']) simp
qed

section \<open>The programs\<close>

datatype sample_error =
    Raised hw_error
  | Assertion_failed
  | Index_out_of_range

type_synonym ('s, 'a) run = "'s hw \<times> string list \<Rightarrow> (sample_error + 'a) \<times> 's hw \<times> string list"

definition run_bind :: "('s, 'a) run \<Rightarrow> ('a \<Rightarrow> ('s, 'b) run) \<Rightarrow> ('s, 'b) run" where
  "run_bind m f st = (case m st of (Inl e, st) \<Rightarrow> (Inl e, st) | (Inr x, st) \<Rightarrow> f x st)"

definition run_io :: "('s, 'a) io \<Rightarrow> ('s, 'a) run" where
  "run_io m st = (case m st of (Inl e, st) \<Rightarrow> (Inl (Raised e), st) | (Inr x, st) \<Rightarrow> (Inr x, st))"

definition run_say :: "string list \<Rightarrow> ('s, unit) run" where
  "run_say ls st = (Inr (), fst st, snd st @ ls)"

definition run_assert :: "('s hw \<Rightarrow> bool) \<Rightarrow> ('s, unit) run" where
  "run_assert P st = (if P (fst st) then Inr () else Inl Assertion_failed, st)"

definition first_image :: "nat \<Rightarrow> byte list" where
  "first_image page = map (\<lambda>i. word_of_nat ((i * 7 + 11) mod 256)) [0..<4 * page]"

text \<open>The two edits; \<open>None\<close> is the \<open>IndexError\<close> of an image that is too short.\<close>

definition second_image :: "nat \<Rightarrow> byte list \<Rightarrow> byte list option" where
  "second_image page old =
     (if 64 < length old \<and> 2 * page + 8 < length old then
        (let new = old[64 := old ! 64 AND 0xF0]
         in Some (new[2 * page + 8 := new ! (2 * page + 8) OR 0xFF]))
      else None)"

definition stats_lines :: "patch_stats \<Rightarrow> string list" where
  "stats_lines st =
     [''    sectors spanned : '' @ str_nat (sectors_total st),
      ''    sectors changed : '' @ str_nat (sectors_changed st),
      ''    sectors erased  : '' @ str_nat (sectors_erased st),
      ''    bytes written   : '' @ str_nat (bytes_written st)]"

definition flash_patch_body :: "('s, unit) run" where
  "flash_patch_body =
     run_bind (run_io (call (\<lambda>hw. (Flash_info hw, hw)))) (\<lambda>info.
     run_bind (run_say [''flash: '' @ fmt_addr (int (fi_base info)) @ '' + '' @ str_nat (fi_size info) @ '' bytes, '' @
         str_nat (fi_page_size info) @ ''-byte pages, '' @ str_nat (fi_write_align info) @ ''-byte writes'']) (\<lambda>_.
     (let addr = int (fi_base info); old = first_image (fi_page_size info) in
     run_bind (run_say [''--> writing '' @ str_nat (length old) @ '' bytes'']) (\<lambda>_.
     run_bind (run_io (call Flash_mass_erase)) (\<lambda>_.
     run_bind (run_io (call (\<lambda>hw. Flash_update hw addr old))) (\<lambda>_.
     run_bind (run_assert (\<lambda>hw. Flash_verify hw addr old)) (\<lambda>_.
     (case second_image (fi_page_size info) old of
        None \<Rightarrow> (\<lambda>st. (Inl Index_out_of_range, st))
      | Some new \<Rightarrow>
          run_bind (run_say [''--> patching'']) (\<lambda>_.
          run_bind (run_io (call (\<lambda>hw. Flash_patch hw addr (Some old) new))) (\<lambda>stats.
          run_bind (run_say (stats_lines stats)) (\<lambda>_.
          run_bind (run_say [''    (a blind rewrite would have programmed '' @ str_nat (length new) @ '' bytes)'']) (\<lambda>_.
          run_bind (run_io (call (\<lambda>hw. (Flash_read hw addr (int (length new)), hw)))) (\<lambda>d.
          run_bind (run_assert (\<lambda>hw. d = new)) (\<lambda>_.
          run_say [''--> verified'']))))))))))))))"

text \<open>
  \<open>main\<close>: the exit status, or the exception that ends the program, the lines printed, and the connection, which
  \<open>with\<close> closes on every way out.
\<close>

definition libhw_connect :: "'s registry \<Rightarrow> string \<Rightarrow> string option \<Rightarrow> int \<Rightarrow> hw_error + 's hw" where
  "libhw_connect reg backend host port = Hw_init reg backend host port"

definition backend_of :: "string list \<Rightarrow> string" where
  "backend_of argv = (if 1 < length argv then argv ! 1 else ''mock'')"

definition with_sample ::
    "'s registry \<Rightarrow> string list \<Rightarrow> string list \<Rightarrow> ('s, unit) run \<Rightarrow> (sample_error + int) \<times> string list \<times> 's hw option"
where
  "with_sample reg argv out body =
     (case libhw_connect reg (backend_of argv) None 0 of
        Inl e \<Rightarrow> (Inl (Raised e), out, None)
      | Inr hw \<Rightarrow>
          (case body (hw, out) of
             (Inl e, hw, out) \<Rightarrow> (Inl e, out, Some (Hw_close hw))
           | (Inr u, hw, out) \<Rightarrow> (Inr 0, out, Some (Hw_close hw))))"

definition flash_patch_main :: "'s registry \<Rightarrow> string list \<Rightarrow> (sample_error + int) \<times> string list \<times> 's hw option" where
  "flash_patch_main reg argv = with_sample reg argv [] flash_patch_body"

text \<open>\<open>state_dump.py\<close>.\<close>

definition dump_target_lines :: "cpu_features \<Rightarrow> string list" where
  "dump_target_lines f =
     [''=== target ==='',
      ''  CPUID            '' @ fmt_addr (int (cf_cpuid f)) @ ''  (PARTNO 0x'' @ zfill 3 (digits 16 (int (cf_partno f))) @ '')'',
      ''  part             '' @ py_or_str (cf_cpu_name f) ''not recognised'' @ '' '' @ part_revision f,
      ''  overlay          '' @ py_or_str (cf_overlay f) ''none pinned''] @
     (if nonempty (cf_overlay f) \<and> \<not> cf_revision_matches f then
        [''  NOTE             the pinned TRM documents '' @ or_else (cf_overlay_revision f) ''None'' @ ''; this part is '' @
           part_revision f]
      else []) @
     [''  FP extension     '' @ (if cf_fp_extension f then ''yes'' else ''no''),
      ''  MPU regions      '' @ str_nat (cf_mpu_regions f),
      ''  DWT comparators  '' @ str_nat (cf_dwt_numcomp f),
      ''  interrupt lines  '' @ str_nat (interrupt_lines f)]"

definition dump_count_line :: "string \<times> nat \<Rightarrow> string" where
  "dump_count_line kn = ''      '' @ ljust 22 (fst kn) @ '' '' @ str_nat (snd kn)"

type_synonym dump_counts = "(string \<times> nat) list \<times> (string \<times> nat) list"

definition dump_desc :: "hw_state_db list \<Rightarrow> cpu_features \<Rightarrow> py_desc \<Rightarrow> dump_counts \<Rightarrow> ('s, dump_counts) io" where
  "dump_desc dbs f desc c =
     io_bind (call (\<lambda>hw. query dbs hw desc (Some f))) (\<lambda>r.
       io_return (bump (fst c) (hw_presence_name (qr_presence r)), bump (snd c) (hw_read_status_name (qr_read r))))"

definition dump_db_lines :: "hw_state_db \<Rightarrow> dump_counts \<Rightarrow> string list" where
  "dump_db_lines db c =
     [CHR 0x0A # ''=== '' @ db_name db @ '' ('' @ StateDb_source db @ ''): '' @ str_nat (StateDb_len db) @ '' elements ==='',
      ''  implemented (evidence-based):''] @ map dump_count_line (most_common (fst c)) @
     [''  read outcome (independent):''] @ map dump_count_line (most_common (snd c))"

definition dump_db :: "hw_state_db list \<Rightarrow> cpu_features \<Rightarrow> hw_state_db \<Rightarrow> unit \<Rightarrow> ('s, unit) io" where
  "dump_db dbs f db u = io_bind (io_fold (dump_desc dbs f) (StateDb_iter db) ([], [])) (\<lambda>c. say (dump_db_lines db c))"

definition state_dump_body :: "hw_state_db list \<Rightarrow> ('s, unit) io" where
  "state_dump_body dbs =
     io_bind (call halted) (\<lambda>h.
     io_bind (if h then io_return () else call halt) (\<lambda>_.
     io_bind (call identify) (\<lambda>f.
     io_bind (say (dump_target_lines f)) (\<lambda>_.
     io_bind (call (\<lambda>hw. (databases_for dbs f, hw))) (\<lambda>dbl.
       io_fold (dump_db dbs f) dbl ())))))"

definition state_dump_main :: "'s registry \<Rightarrow> hw_state_db list \<Rightarrow> string list \<Rightarrow> (sample_error + int) \<times> string list \<times> 's hw option" where
  "state_dump_main reg dbs argv =
     with_sample reg argv [''built-in databases: '' @ join '', '' (database_names dbs) @ [CHR 0x0A]] (run_io (state_dump_body dbs))"

section \<open>The images\<close>

text \<open>A list of length 4096 is never written out: the images are known by their elements.\<close>

lemma first_image_length [simp]: "length (first_image page) = 4 * page"
  by (simp add: first_image_def)

lemma first_image_nth: "i < 4 * page \<Longrightarrow> first_image page ! i = word_of_nat ((i * 7 + 11) mod 256)"
  by (simp add: first_image_def)

lemma second_image_facts:
  obtains new where "second_image MOCK_FLASH_PAGE (first_image MOCK_FLASH_PAGE) = Some new" "length new = 4096"
    "new ! 64 = 0xC0" "first_image MOCK_FLASH_PAGE ! 64 = 0xCB"
    "new ! 2056 = 0xFF" "first_image MOCK_FLASH_PAGE ! 2056 = 0x43"
    "\<And>i. i < 4096 \<Longrightarrow> i \<noteq> 64 \<Longrightarrow> i \<noteq> 2056 \<Longrightarrow> new ! i = first_image MOCK_FLASH_PAGE ! i"
proof -
  let ?old = "first_image MOCK_FLASH_PAGE"
  have page: "2 * MOCK_FLASH_PAGE + 8 = 2056" "4 * MOCK_FLASH_PAGE = 4096" by (simp_all add: MOCK_FLASH_PAGE_def)
  have len: "length ?old = 4096" by (simp add: MOCK_FLASH_PAGE_def)
  have o: "?old ! 64 = 0xCB" "?old ! 2056 = 0x43"
    using first_image_nth [of 64 MOCK_FLASH_PAGE] first_image_nth [of 2056 MOCK_FLASH_PAGE] by (simp_all add: page(2))
  let ?new = "?old[64 := ?old ! 64 AND 0xF0, 2056 := ?old[64 := ?old ! 64 AND 0xF0] ! 2056 OR 0xFF]"
  have "second_image MOCK_FLASH_PAGE ?old = Some ?new"
    unfolding second_image_def page(1) len by (simp add: Let_def)
  moreover have "length ?new = 4096" unfolding length_list_update by (rule len)
  moreover have "64 < length ?old" "2056 < length ?old" unfolding len by simp_all
  then have "?new ! 64 = 0xC0" "?new ! 2056 = 0xFF" by (simp_all only: nth_list_update length_list_update o) simp_all
  ultimately show thesis using that o by (simp add: len)
qed

section \<open>What the patch of the sample costs\<close>

text \<open>The blocks of the image, by number, and their contents by offset.\<close>

definition block :: "nat \<Rightarrow> nat \<times> nat" where "block k = (MOCK_FLASH_BASE + k * 1024, 1024)"

lemma sample_blocks: "mock_sector ` {MOCK_FLASH_BASE..<MOCK_FLASH_BASE + 4096} = {block 0, block 1, block 2, block 3}"
proof -
  have "mock_sector x = block ((x - MOCK_FLASH_BASE) div 1024)" for x
    by (simp add: mock_sector_def block_def MOCK_FLASH_PAGE_def)
  moreover have "(\<lambda>x. (x - MOCK_FLASH_BASE) div 1024) ` {MOCK_FLASH_BASE..<MOCK_FLASH_BASE + 4096} = {0, 1, 2, 3}"
  proof
    show "(\<lambda>x. (x - MOCK_FLASH_BASE) div 1024) ` {MOCK_FLASH_BASE..<MOCK_FLASH_BASE + 4096} \<subseteq> {0, 1, 2, 3}"
    proof
      fix k assume "k \<in> (\<lambda>x. (x - MOCK_FLASH_BASE) div 1024) ` {MOCK_FLASH_BASE..<MOCK_FLASH_BASE + 4096}"
      then have "k < 4" by (auto simp: less_mult_imp_div_less)
      then show "k \<in> {0, 1, 2, 3}" by auto
    qed
    have "k \<in> (\<lambda>x. (x - MOCK_FLASH_BASE) div 1024) ` {MOCK_FLASH_BASE..<MOCK_FLASH_BASE + 4096}" if "k < 4" for k
      using that by (intro image_eqI [of _ _ "MOCK_FLASH_BASE + k * 1024"]) auto
    then show "{0, 1, 2, 3} \<subseteq> (\<lambda>x. (x - MOCK_FLASH_BASE) div 1024) ` {MOCK_FLASH_BASE..<MOCK_FLASH_BASE + 4096}" by auto
  qed
  ultimately have "mock_sector ` {MOCK_FLASH_BASE..<MOCK_FLASH_BASE + 4096} = block ` {0, 1, 2, 3}"
    by (metis (no_types, lifting) image_cong image_image)
  then show ?thesis by simp
qed

lemma block_eq [simp]: "block i = block j \<longleftrightarrow> i = j"
  by (simp add: block_def)

lemma block_contents:
  assumes M: "\<forall>i<4096. M (MOCK_FLASH_BASE + i) = old ! i" and len: "length new = 4096" and k: "k < 4"
  shows "length (block_now M (block k)) = 1024" "length (block_then M MOCK_FLASH_BASE new (block k)) = 1024"
    "j < 1024 \<Longrightarrow> block_now M (block k) ! j = old ! (k * 1024 + j)"
    "j < 1024 \<Longrightarrow> block_then M MOCK_FLASH_BASE new (block k) ! j = new ! (k * 1024 + j)"
proof -
  show "length (block_now M (block k)) = 1024" "length (block_then M MOCK_FLASH_BASE new (block k)) = 1024"
    by (simp_all add: block_now_def block_then_def block_def)
  assume j: "j < 1024"
  then have i: "k * 1024 + j < 4096" using k by linarith
  have "[MOCK_FLASH_BASE + k * 1024..<MOCK_FLASH_BASE + k * 1024 + 1024] ! j = MOCK_FLASH_BASE + (k * 1024 + j)"
    using j by (subst nth_upt) simp_all
  moreover have "M (MOCK_FLASH_BASE + k * 1024 + j) = old ! (k * 1024 + j)" using M i by (simp add: add.assoc)
  ultimately show "block_now M (block k) ! j = old ! (k * 1024 + j)"
    "block_then M MOCK_FLASH_BASE new (block k) ! j = new ! (k * 1024 + j)"
    using j i M len by (simp_all add: block_now_def block_then_def block_def upd_range_def)
qed

lemma sample_cost:
  assumes M: "\<forall>i<4096. M (MOCK_FLASH_BASE + i) = first_image MOCK_FLASH_PAGE ! i"
    and new: "second_image MOCK_FLASH_PAGE (first_image MOCK_FLASH_PAGE) = Some new"
  shows "patch_cost MOCK_FLASH_ALIGN M MOCK_FLASH_BASE new (mock_sector ` {MOCK_FLASH_BASE..<MOCK_FLASH_BASE + length new}) =
    \<lparr>sectors_total = 4, sectors_changed = 2, sectors_erased = 1, bytes_written = 1028\<rparr>"
proof -
  let ?old = "first_image MOCK_FLASH_PAGE"
  have len: "length new = 4096" and v: "new ! 64 = 0xC0" "?old ! 64 = 0xCB" "new ! 2056 = 0xFF" "?old ! 2056 = 0x43"
    and same: "i < 4096 \<Longrightarrow> i \<noteq> 64 \<Longrightarrow> i \<noteq> 2056 \<Longrightarrow> new ! i = ?old ! i" for i
    using second_image_facts new by (metis option.inject)+
  note c = block_contents [OF M len]
  have eq: "block_then M MOCK_FLASH_BASE new (block k) ! j = block_now M (block k) ! j"
    if "k < 4" "j < 1024" "k * 1024 + j \<noteq> 64" "k * 1024 + j \<noteq> 2056" for k j
    using c(3,4) [OF that(1,2)] same [of "k * 1024 + j"] that by simp
  have at0: "block_then M MOCK_FLASH_BASE new (block 0) ! 64 = 0xC0" "block_now M (block 0) ! 64 = 0xCB"
    using c(3,4) [of 0 64] v by simp_all
  have at2: "block_then M MOCK_FLASH_BASE new (block 2) ! 8 = 0xFF" "block_now M (block 2) ! 8 = 0x43"
    using c(3,4) [of 2 8] v by simp_all
  have no: "\<not> changes M MOCK_FLASH_BASE new (block k)" if "k = 1 \<or> k = 3" for k
    unfolding changes_def not_not using that c(1,2) [of k] by (intro nth_equalityI) (auto intro!: eq)
  have ch: "changes M MOCK_FLASH_BASE new (block 0)" "changes M MOCK_FLASH_BASE new (block 2)"
    using at0 at2 by (auto simp: changes_def)
  have "(block_then M MOCK_FLASH_BASE new (block 2) ! 8, block_now M (block 2) ! 8) \<in>
      set (zip (block_then M MOCK_FLASH_BASE new (block 2)) (block_now M (block 2)))"
    unfolding set_zip using c(1,2) [of 2] by (intro CollectI exI [of _ 8]) simp
  then have er2: "sets_bits M MOCK_FLASH_BASE new (block 2)"
    unfolding at2 sets_bits_def need_erase_def list_ex_iff by (rule bexI [rotated]) simp
  have "block_then M MOCK_FLASH_BASE new (block 0) ! j AND block_now M (block 0) ! j = block_then M MOCK_FLASH_BASE new (block 0) ! j"
    if "j < 1024" for j
    using eq [of 0 j] that at0 by (cases "j = 64") auto
  then have er0: "\<not> sets_bits M MOCK_FLASH_BASE new (block 0)"
    using c(1,2) [of 0] by (auto simp: sets_bits_def need_erase_def list_ex_iff set_zip)
  have "differing M MOCK_FLASH_BASE new (block 0) = {64}"
  proof
    show "differing M MOCK_FLASH_BASE new (block 0) \<subseteq> {64}"
      using eq [of 0] by (auto simp: differing_def) (metis add_0 block_def mult_0 snd_conv)
    show "{64} \<subseteq> differing M MOCK_FLASH_BASE new (block 0)" using at0 by (simp add: differing_def) (simp add: block_def)
  qed
  then have p0: "programmed MOCK_FLASH_ALIGN M MOCK_FLASH_BASE new (block 0) = 4"
    using ch(1) er0 by (simp add: programmed_def MOCK_FLASH_ALIGN_def)
  have p2: "programmed MOCK_FLASH_ALIGN M MOCK_FLASH_BASE new (block 2) = 1024"
    using ch(2) er2 by (simp add: programmed_def) (simp add: block_def)
  have p: "programmed MOCK_FLASH_ALIGN M MOCK_FLASH_BASE new (block k) = 0" if "k = 1 \<or> k = 3" for k
    using no [OF that] by (simp add: programmed_def)
  show ?thesis unfolding len sample_blocks
    using no [of 1] no [of 3] ch er0 er2 p0 p2 p [of 1] p [of 3]
    by (simp add: patch_cost_insert patch_cost_empty no_stats_def)
qed


section \<open>The sample on the mock target\<close>

text \<open>One lemma per call, with the memory before and after.\<close>

lemma update_runs:
  assumes "hw_ctx hw = Some (mock_ops, s)" "mock_ok s" "flash_range_ok mock_info a (length d)"
  shows "\<exists>s'. Flash_update hw (int a) d = (Inr (), hw\<lparr>hw_ctx := Some (mock_ops, s')\<rparr>) \<and> mock_ok s' \<and>
    mock_mem s' = upd_range (mock_mem s) a d"
proof -
  have r: "d \<noteq> []" "c_uint (int a) = a" using region_bounds_mock [OF assms(3)] by blast+
  obtain s' where s': "hw_flash_update mock_ops s a d = (True, s')" "mock_ok s'" "mock_mem s' = upd_range (mock_mem s) a d"
    using mock.update_exact [OF assms(2,3)] by blast
  with update_call [OF r(1) assms(1), of "int a" True s'] r(2) show ?thesis by (intro exI [of _ s']) simp
qed

lemma patch_runs:
  assumes "hw_ctx hw = Some (mock_ops, s)" "mock_ok s" "flash_range_ok mock_info a (length d)" "length old = length d"
    and "\<forall>x. a \<le> x \<and> x < a + length d \<longrightarrow> old ! (x - a) = mock_mem s x"
  shows "\<exists>s'. Flash_patch hw (int a) (Some old) d =
      (Inr (patch_cost MOCK_FLASH_ALIGN (mock_mem s) a d (mock_sector ` {a..<a + length d})), hw\<lparr>hw_ctx := Some (mock_ops, s')\<rparr>) \<and>
    mock_ok s' \<and> mock_mem s' = upd_range (mock_mem s) a d"
proof -
  have r: "d \<noteq> []" "c_uint (int a) = a" using region_bounds_mock [OF assms(3)] by blast+
  have al: "fi_write_align mock_info = MOCK_FLASH_ALIGN" by (simp add: mock_info_def)
  have acc: "accurate (mock_mem s) a (Some old) d" using assms(5) by (simp add: accurate_def)
  have len: "Some old = Some u \<Longrightarrow> length u = length d" for u using assms(4) by simp
  obtain s' where "hw_flash_patch mock_ops s a (Some old) d =
      (True, patch_cost MOCK_FLASH_ALIGN (mock_mem s) a d (mock_sector ` {a..<a + length d}), s')"
    "mock_ok s'" "mock_mem s' = upd_range (mock_mem s) a d"
    using mock.patch_cost_exact [OF assms(2,3) len acc] unfolding al by blast
  with patch_call [OF r(1) assms(1), of "int a" "Some old" True _ s'] assms(4) r(2) show ?thesis
    by (intro exI [of _ s']) simp
qed

lemma read_runs:
  assumes "hw_ctx hw = Some (mock_ops, s)" "mock_ok s" "flash_range_ok mock_info a (length d)"
    and "\<forall>x. a \<le> x \<and> x < a + length d \<longrightarrow> mock_mem s x = d ! (x - a)"
  shows "Flash_read hw (int a) (int (length d)) = Inr d" "Flash_verify hw (int a) d"
proof -
  have r: "d \<noteq> []" "c_uint (int a) = a" using region_bounds_mock [OF assms(3)] by blast+
  have "map (mock_mem s) [a..<a + length d] = d" using assms(4) by (intro nth_equalityI) auto
  then have "hw_flash_read mock_ops s a (length d) = Some d" using mock.read_law [OF assms(2,3)] by simp
  with assms(1) r show "Flash_read hw (int a) (int (length d)) = Inr d" by (simp add: Flash_read_def c_get_def)
  have "hw_flash_verify mock_ops s a d" unfolding mock.verify_iff_mem [OF assms(2,3)] by (rule assms(4))
  with assms(1) r show "Flash_verify hw (int a) d" by (simp add: Flash_verify_def c_get_def)
qed

definition sample_lines :: "string list" where
  "sample_lines =
     [''flash: 0x08000000 + 262144 bytes, 1024-byte pages, 4-byte writes'', ''--> writing 4096 bytes'', ''--> patching'',
      ''    sectors spanned : 4'', ''    sectors changed : 2'', ''    sectors erased  : 1'', ''    bytes written   : 1028'',
      ''    (a blind rewrite would have programmed 4096 bytes)'', ''--> verified'']"

lemmas print_nat = str_nat_def digits_def digits_rev.simps digit_char_def char_of_def

lemma sample_numbers:
  "str_nat MOCK_FLASH_SIZE = ''262144''" "str_nat MOCK_FLASH_PAGE = ''1024''" "str_nat MOCK_FLASH_ALIGN = ''4''"
  "str_nat 4096 = ''4096''" "fmt_addr (int MOCK_FLASH_BASE) = ''0x08000000''"
  by (simp_all add: mock_consts print_nat fmt_addr_def hex08_def zfill_def)

lemma sample_stats:
  "stats_lines \<lparr>sectors_total = 4, sectors_changed = 2, sectors_erased = 1, bytes_written = 1028\<rparr> =
     [''    sectors spanned : 4'', ''    sectors changed : 2'', ''    sectors erased  : 1'', ''    bytes written   : 1028'']"
  by (simp add: stats_lines_def print_nat)

lemma sample_body:
  assumes hw: "hw_ctx hw = Some (mock_ops, s)" and ok: "mock_ok s"
    and new: "second_image MOCK_FLASH_PAGE (first_image MOCK_FLASH_PAGE) = Some new"
  shows "\<exists>s'. flash_patch_body (hw, out) = (Inr (), hw\<lparr>hw_ctx := Some (mock_ops, s')\<rparr>, out @ sample_lines) \<and>
    mock_ok s' \<and> mk_flash s' = overlay (replicate MOCK_FLASH_SIZE 0xFF) 0 new"
proof -
  let ?a = MOCK_FLASH_BASE and ?old = "first_image MOCK_FLASH_PAGE"
  have len: "length new = 4096" "length ?old = 4096"
    using second_image_facts new by (metis option.inject) (simp add: MOCK_FLASH_PAGE_def)
  have rng: "flash_range_ok mock_info ?a (length new)" "flash_range_ok mock_info ?a (length ?old)"
    unfolding len by (simp_all add: range_mock_iff MOCK_FLASH_SIZE_def)
  have info: "Flash_info hw = Inr mock_info" using hw mock.info_law [OF ok] by (simp add: Flash_info_def c_get_def)
  define s1 where "s1 = s\<lparr>mk_flash := replicate MOCK_FLASH_SIZE 0xFF\<rparr>"
  have er: "Flash_mass_erase hw = (Inr (), hw\<lparr>hw_ctx := Some (mock_ops, s1)\<rparr>)"
    using hw by (simp add: Flash_mass_erase_def c_call_def ok_or_def hw_flash_mass_erase_def) (simp add: mock_ops_def mock_mass_erase_def s1_def)
  have ok1: "mock_ok s1" by (simp add: mock_ok_def s1_def)
  obtain s2 where up: "Flash_update (hw\<lparr>hw_ctx := Some (mock_ops, s1)\<rparr>) (int ?a) ?old = (Inr (), hw\<lparr>hw_ctx := Some (mock_ops, s2)\<rparr>)"
    and ok2: "mock_ok s2" and m2: "mock_mem s2 = upd_range (mock_mem s1) ?a ?old"
    using update_runs [of "hw\<lparr>hw_ctx := Some (mock_ops, s1)\<rparr>", OF _ ok1 rng(2)] by auto
  have at2: "\<forall>x. ?a \<le> x \<and> x < ?a + length ?old \<longrightarrow> mock_mem s2 x = ?old ! (x - ?a)" by (simp add: m2 upd_range_def)
  have ve: "Flash_verify (hw\<lparr>hw_ctx := Some (mock_ops, s2)\<rparr>) (int ?a) ?old"
    by (rule read_runs(2) [OF _ ok2 rng(2) at2]) simp
  have "\<forall>i<4096. mock_mem s2 (?a + i) = ?old ! i" using at2 len(2) by simp
  note cost = sample_cost [OF this new]
  have "\<forall>x. ?a \<le> x \<and> x < ?a + length new \<longrightarrow> ?old ! (x - ?a) = mock_mem s2 x" using at2 len by simp
  then obtain s3 where pa: "Flash_patch (hw\<lparr>hw_ctx := Some (mock_ops, s2)\<rparr>) (int ?a) (Some ?old) new =
      (Inr \<lparr>sectors_total = 4, sectors_changed = 2, sectors_erased = 1, bytes_written = 1028\<rparr>, hw\<lparr>hw_ctx := Some (mock_ops, s3)\<rparr>)"
    and ok3: "mock_ok s3" and m3: "mock_mem s3 = upd_range (mock_mem s2) ?a new"
    using patch_runs [of "hw\<lparr>hw_ctx := Some (mock_ops, s2)\<rparr>" s2 ?a new ?old] ok2 rng(1) len unfolding cost by auto
  have at3: "\<forall>x. ?a \<le> x \<and> x < ?a + length new \<longrightarrow> mock_mem s3 x = new ! (x - ?a)" by (simp add: m3 upd_range_def)
  have re: "Flash_read (hw\<lparr>hw_ctx := Some (mock_ops, s3)\<rparr>) (int ?a) (int (length new)) = Inr new"
    by (rule read_runs(1) [OF _ ok3 rng(1) at3]) simp
  have "mock_mem s3 = upd_range (mock_mem s1) ?a new" using len by (auto simp: m3 m2 upd_range_def fun_eq_iff)
  then have "mk_flash s3 = overlay (mk_flash s1) (?a - ?a) new"
    using flash_of_mem [OF ok1 ok3, of ?a new] rng(1) by (simp add: range_mock_iff)
  then have fl: "mk_flash s3 = overlay (replicate MOCK_FLASH_SIZE 0xFF) 0 new" by (simp add: s1_def)
  have fields: "fi_base mock_info = ?a" "fi_size mock_info = MOCK_FLASH_SIZE" "fi_page_size mock_info = MOCK_FLASH_PAGE"
    "fi_write_align mock_info = MOCK_FLASH_ALIGN" by (simp_all add: mock_info_def)
  have "flash_patch_body (hw, out) = (Inr (), hw\<lparr>hw_ctx := Some (mock_ops, s3)\<rparr>, out @ sample_lines)"
    unfolding flash_patch_body_def run_bind_def run_io_def call_def run_say_def run_assert_def Let_def
      fst_conv snd_conv prod.case sum.case info fields er up new option.case pa len sample_numbers sample_stats
      sample_lines_def
    using re by (simp add: ve len)
  then show ?thesis using ok3 fl by auto
qed

text \<open>
  C23. The sample \<open>flash_patch.py\<close> on the mock target.  Whatever the flash held before, the program ends with
  status 0 and the connection closed, and prints that the patch spans four blocks, changes two, erases one and programs 1028
  bytes instead of 4096; both assertions hold, and the flash then holds the patched image and is erased above it.
\<close>

theorem flash_patch_sample:
  assumes "hw_connect reg (backend_of argv) None (c_int 0) = Some (mock_ops, s)" "mock_ok s"
  shows "\<exists>s' new. second_image MOCK_FLASH_PAGE (first_image MOCK_FLASH_PAGE) = Some new \<and>
    flash_patch_body (\<lparr>hw_ctx = Some (mock_ops, s), hw_backend = backend_of argv\<rparr>, []) =
      (Inr (), \<lparr>hw_ctx = Some (mock_ops, s'), hw_backend = backend_of argv\<rparr>, sample_lines) \<and>
    mk_flash s' = overlay (replicate MOCK_FLASH_SIZE 0xFF) 0 new \<and>
    flash_patch_main reg argv = (Inr 0, sample_lines, Some \<lparr>hw_ctx = None, hw_backend = backend_of argv\<rparr>)"
proof -
  let ?hw = "\<lparr>hw_ctx = Some (mock_ops, s), hw_backend = backend_of argv\<rparr>"
  obtain new where new: "second_image MOCK_FLASH_PAGE (first_image MOCK_FLASH_PAGE) = Some new"
    using second_image_facts by blast
  from sample_body [OF _ assms(2) this, of ?hw "[]"] obtain s' where
    b: "flash_patch_body (?hw, []) = (Inr (), \<lparr>hw_ctx = Some (mock_ops, s'), hw_backend = backend_of argv\<rparr>, sample_lines)"
    "mk_flash s' = overlay (replicate MOCK_FLASH_SIZE 0xFF) 0 new" by auto
  have "Hw_init reg (backend_of argv) None 0 = Inr ?hw" using assms(1) by (simp add: Hw_init_def)
  with b(1) have "flash_patch_main reg argv = (Inr 0, sample_lines, Some \<lparr>hw_ctx = None, hw_backend = backend_of argv\<rparr>)"
    by (simp add: flash_patch_main_def with_sample_def libhw_connect_def Hw_close_def)
  with new b show ?thesis by blast
qed

theorem flash_patch_sample_witness:
  "flash_patch_main demo_registry [''flash_patch.py''] = (Inr 0, sample_lines, Some \<lparr>hw_ctx = None, hw_backend = ''mock''\<rparr>)"
  using flash_patch_sample [of demo_registry "[''flash_patch.py'']" mock_connect] demo_ok
  by (auto simp: demo_registry_def backend_of_def)

text \<open>What a fresh flash costs to program: three bytes in the last word of a block and one in the next.\<close>

theorem flash_patch_cost_witness:
  "\<exists>s'. Flash_patch demo_hw (int (MOCK_FLASH_BASE + 1022)) None [1, 2, 3] =
      (Inr (patch_cost MOCK_FLASH_ALIGN (mock_mem mock_connect) (MOCK_FLASH_BASE + 1022) [1, 2, 3]
         (mock_sector ` {MOCK_FLASH_BASE + 1022..<MOCK_FLASH_BASE + 1022 + length [1, 2, 3 :: byte]})), demo_hw\<lparr>hw_ctx := Some (mock_ops, s')\<rparr>)"
  using flash_patch_cost [OF demo_ctx demo_ok demo_range disjI1 [OF refl]] by blast

section \<open>The other sample on the mock target\<close>

lemma goes_dump_db: "goes (on_mock fl h) (dump_db dbs f db u) (\<lambda>u. True) (on_mock fl h)"
  unfolding dump_db_def
proof (intro goes_bind [OF goes_fold] goes_say)
  fix d b assume "d \<in> set (StateDb_iter db)"
  then obtain c where "pd_ptr d = Some c" by (auto simp: StateDb_iter_def)
  from goes_query [OF this] show "goes (on_mock fl h) (dump_desc dbs f d b) (\<lambda>u. True) (on_mock fl h)"
    unfolding dump_desc_def by (rule goes_bind) (rule goes_return, simp)
qed

lemma databases_known: "all_databases dbs \<Longrightarrow> overlay_known f \<Longrightarrow> \<exists>dbl. databases_for dbs f = Inr dbl"
  by (auto simp: all_databases_def overlay_known_def databases_for_def state_db_def)

text \<open>
  On the mock target the report goes through, whatever the memory holds: status 0, the connection
  closed, the target left halted.
\<close>

lemma state_dump_runs:
  assumes "all_databases dbs"
  shows "goes (on_mock fl h) (state_dump_body dbs) (\<lambda>u. True) (on_mock fl True)"
proof -
  have dbl: "goes (on_mock fl True) (call (\<lambda>hw. (databases_for dbs f, hw))) (\<lambda>u. True) (on_mock fl True)" if "overlay_known f" for f
    using databases_known [OF assms that] by (intro goes_get) simp
  have halted: "goes (on_mock fl h) (call halted) (\<lambda>x. x = h) (on_mock fl h)"
    by (rule goes_get) (simp add: halted_def checked_open c_get_def hw_board_halted_def, simp add: mock_ops_def)
  have halt: "goes (on_mock fl h) (call halt) (\<lambda>u. True) (on_mock fl True)"
    by (rule goes_call) (auto simp: halt_def checked_open ok_or_def c_call_def hw_board_halt_def mock_ops_def)
  have first: "goes (on_mock fl h) (if h then io_return () else call halt) (\<lambda>u. True) (on_mock fl True)"
    using goes_return [of "\<lambda>u. True" "()" "on_mock fl True"] halt by (cases h) simp_all
  have rest: "goes (on_mock fl h) (io_bind (if h then io_return () else call halt) (\<lambda>_. io_bind (call identify) (\<lambda>f.
      io_bind (say (dump_target_lines f)) (\<lambda>_. io_bind (call (\<lambda>hw. (databases_for dbs f, hw))) (\<lambda>dbl. io_fold (dump_db dbs f) dbl ())))))
    (\<lambda>u. True) (on_mock fl True)"
    by (rule goes_bind [OF first], rule goes_bind [OF goes_identify], rule goes_bind [OF goes_say], rule goes_bind [OF dbl], assumption)
      (intro goes_fold goes_dump_db)
  show ?thesis unfolding state_dump_body_def
    by (rule goes_bind [OF halted]) (simp only: rest)
qed

lemma state_dump_exits:
  assumes "hw_connect reg (backend_of argv) None (c_int 0) = Some (mock_ops, s)" "all_databases dbs"
  shows "fst (state_dump_main reg dbs argv) = Inr 0 \<and> map_option Hw_closed (snd (snd (state_dump_main reg dbs argv))) = Some True"
proof -
  let ?hw = "\<lparr>hw_ctx = Some (mock_ops, s), hw_backend = backend_of argv\<rparr>"
  have "Hw_init reg (backend_of argv) None 0 = Inr ?hw" using assms(1) by (simp add: Hw_init_def)
  moreover have on: "on_mock (mk_flash s) (mk_halted s) (?hw, out)" for out by (simp add: on_mock_def)
  obtain y t where "state_dump_body dbs (?hw, [''built-in databases: '' @ join '', '' (database_names dbs) @ [CHR 0x0A]]) = (Inr y, t)"
    using state_dump_runs [OF assms(2), of "mk_flash s" "mk_halted s"] on unfolding goes_def by blast
  ultimately show ?thesis
    by (cases t) (simp add: state_dump_main_def with_sample_def libhw_connect_def run_io_def Hw_closed_def Hw_close_def)
qed

end
