(* ===== verification/ReadWindow.thy ===== *)
theory ReadWindow
  imports FlashCore
begin

text \<open>
  Bulk reads of targets that only read whole words: the window of the next read, shared by the ST-Link and the
  OpenOCD backend, whose loops read the enclosing aligned window and copy out the part asked for.
\<close>

text \<open>The address of the window, the bytes to skip in it, and its length, at most \<open>room\<close>.\<close>

definition read_window :: "nat \<Rightarrow> nat \<Rightarrow> nat \<Rightarrow> nat \<Rightarrow> nat \<times> nat \<times> nat" where
  "read_window room addr len done' =
     (let cur = add32 addr (done' mod 2 ^ 32); skip = cur mod 4; chunk = min (len - done' + skip) room
      in (cur - skip, skip, chunk + 3 - (chunk + 3) mod 4))"

lemma round4: "n \<le> n + 3 - (n + 3) mod 4" "(n + 3 - (n + 3) mod 4) mod 4 = (0::nat)" "n + 3 - (n + 3) mod 4 \<le> n + 3"
proof -
  have "(n + 3) mod 4 \<le> 3" using mod_less_divisor [of 4 "n + 3"] by linarith
  then show "n \<le> n + 3 - (n + 3) mod 4" by linarith
qed (simp_all add: mod_eq_0_iff_dvd dvd_minus_mod)

lemma round4_le: "n \<le> m \<Longrightarrow> 4 dvd m \<Longrightarrow> n + 3 - (n + 3) mod 4 \<le> (m :: nat)"
  by (auto elim!: dvdE) presburger

text \<open>Every window has at least one byte that is wanted, so the loops end.\<close>

lemma read_window_grows:
  assumes "read_window room addr len k = (a, skip, chunk)" "k < len" "4 \<le> room"
  shows "0 < min (chunk - skip) (len - k)"
proof -
  let ?c = "min (len - k + skip) room"
  have s: "skip = add32 addr (k mod 2 ^ 32) mod 4" "chunk = ?c + 3 - (?c + 3) mod 4"
    using assms(1) unfolding read_window_def Let_def by auto
  have "skip < 4" by (simp add: s(1))
  then have "skip < ?c" using assms(2,3) by simp
  also have "?c \<le> chunk" unfolding s(2) by (rule round4)
  finally show ?thesis using assms(2) by simp
qed

text \<open>The window stays inside a range of whole words that holds the region.\<close>

lemma read_window_inside:
  assumes "read_window room addr len k = (a, skip, chunk)" "k < len" "lo \<le> addr" "addr + len \<le> hi"
    and "4 dvd lo" "4 dvd hi" "hi \<le> 2 ^ 32" "4 dvd room"
  shows "lo \<le> a \<and> a + chunk \<le> hi \<and> 4 dvd a \<and> 4 dvd chunk \<and> chunk \<le> room \<and> a + skip = addr + k"
proof -
  let ?c = "min (len - k + skip) room"
  have "k mod 2 ^ 32 = k" "(addr + k) mod 2 ^ 32 = addr + k" using assms(2,4,7) by simp_all
  then have add: "add32 addr (k mod 2 ^ 32) = addr + k" by (simp only: add32_def)
  have w: "skip = (addr + k) mod 4" "a = addr + k - skip" "chunk = ?c + 3 - (?c + 3) mod 4"
    using assms(1) unfolding read_window_def Let_def add by auto
  have s: "skip \<le> addr + k" unfolding w(1) by simp
  have a: "4 dvd a" "a + skip = addr + k" using w s by (simp_all add: dvd_minus_mod)
  have "4 dvd hi - a" using assms(6) a(1) by (simp add: dvd_diff_nat)
  moreover have "?c \<le> hi - a" using assms(2,4) a(2) by auto
  ultimately have "chunk \<le> hi - a" unfolding w(3) by (intro round4_le)
  moreover have "lo \<le> a"
  proof (rule ccontr)
    assume "\<not> lo \<le> a"
    then have "lo - a \<le> skip" "0 < lo - a" using a(2) assms(3) by linarith+
    moreover have "skip < 4" by (simp add: w(1))
    moreover have "4 dvd lo - a" using assms(5) a(1) by (simp add: dvd_diff_nat)
    ultimately show False by (metis dvd_imp_le le_trans not_le)
  qed
  moreover have "a \<le> hi" using a(2) assms(2,4) by simp
  moreover have "chunk \<le> room" unfolding w(3) by (intro round4_le) (simp_all add: assms(8))
  moreover have "4 dvd chunk" unfolding w(3) by (simp add: dvd_minus_mod)
  ultimately show ?thesis using a by simp
qed

text \<open>What is copied out of a window.\<close>

lemma take_part: "take n xs = map f [a..<a + n] \<Longrightarrow> skip + c \<le> n \<Longrightarrow> take c (drop skip xs) = map f [a + skip..<a + skip + c]"
proof -
  assume h: "take n xs = map f [a..<a + n]" "skip + c \<le> n"
  have "take c (drop skip xs) = take c (drop skip (take n xs))" using h(2) by (simp add: drop_take min_def)
  also have "\<dots> = map f (take c (drop skip [a..<a + n]))" by (simp add: h(1) take_map drop_map)
  also have "take c (drop skip [a..<a + n]) = [a + skip..<a + skip + c]" using h(2) by (simp add: take_upt)
  finally show ?thesis .
qed

text \<open>The part copied and the rest of the region.\<close>

lemma upt_part: "k + c \<le> (n::nat) \<Longrightarrow> [addr + k..<addr + n] = [addr + k..<addr + k + c] @ [addr + (k + c)..<addr + n]"
  by (metis add.assoc add_le_cancel_left le_add1 le_iff_add upt_add_eq_append)

end
