(* ===== verification/Stlink.thy ===== *)
theory Stlink
  imports PatchCost ReadWindow
begin

text \<open>
  The ST-Link backend \<open>backends/stlink/hw_stlink.c\<close>.  What it adds to \<open>libstlink\<close> is the geometry of the flash (the table
  of unequal sectors, the program granularity), the bulk read in aligned windows, and programming without an erase.  The
  library itself is an argument: a record of the entry points the backend calls, over the fields of \<open>stlink_t\<close> it uses.
\<close>

section \<open>The library\<close>

text \<open>The families the code names; every other one takes the default branch.\<close>

datatype stm32_flash_type =
  F0_F1_F3 | F1_XL | F2_F4 | F7 | G0 | G4 | H7 | L4 | L5_U5_H5 | WB_WL | Other_flash nat

text \<open>\<open>sl_lib\<close> is everything else the library and the target keep; \<open>sl_halted\<close> is \<open>core_stat == TARGET_HALTED\<close>.\<close>

record 'l stlink =
  sl_flash_type :: stm32_flash_type
  sl_flash_base :: nat
  sl_flash_size :: nat
  sl_flash_pgsz :: nat
  sl_q_buf :: "byte list"
  sl_halted :: bool
  sl_lib :: 'l

record ('l, 'f) libstlink =
  st_open_usb :: "'l stlink option"
  st_exit_debug_mode :: "'l stlink \<Rightarrow> 'l stlink"
  st_close :: "'l stlink \<Rightarrow> 'l stlink"
  st_force_debug :: "'l stlink \<Rightarrow> int \<times> 'l stlink"
  st_write_mem32 :: "'l stlink \<Rightarrow> nat \<Rightarrow> nat \<Rightarrow> int \<times> 'l stlink"
  st_write_mem8 :: "'l stlink \<Rightarrow> nat \<Rightarrow> nat \<Rightarrow> int \<times> 'l stlink"
  st_read_mem32 :: "'l stlink \<Rightarrow> nat \<Rightarrow> nat \<Rightarrow> int \<times> 'l stlink"
  st_status :: "'l stlink \<Rightarrow> 'l stlink"
  st_run :: "'l stlink \<Rightarrow> int \<times> 'l stlink"
  st_step :: "'l stlink \<Rightarrow> int \<times> 'l stlink"
  st_read_reg :: "'l stlink \<Rightarrow> int \<Rightarrow> int \<times> nat list \<times> 'l stlink"
  st_write_reg :: "'l stlink \<Rightarrow> nat \<Rightarrow> int \<Rightarrow> 'l stlink"
  st_reset :: "'l stlink \<Rightarrow> int \<times> 'l stlink"
  st_loader_zero :: 'f
  st_loader_start :: "'l stlink \<Rightarrow> 'f \<Rightarrow> int \<times> 'f \<times> 'l stlink"
  st_loader_write :: "'l stlink \<Rightarrow> 'f \<Rightarrow> nat \<Rightarrow> byte list \<Rightarrow> int \<times> 'f \<times> 'l stlink"
  st_loader_stop :: "'l stlink \<Rightarrow> 'f \<Rightarrow> int \<times> 'f \<times> 'l stlink"
  st_erase_section :: "'l stlink \<Rightarrow> nat \<Rightarrow> nat \<Rightarrow> int \<times> 'l stlink"
  st_erase_mass :: "'l stlink \<Rightarrow> int \<times> 'l stlink"

section \<open>Operations\<close>

text \<open>An operation is given the value it returns and the handle after the call; a read that fails has no value.\<close>

definition stlink_connect :: "('l, 'f) libstlink \<Rightarrow> 'l stlink option" where
  "stlink_connect lib =
     (case st_open_usb lib of
        None \<Rightarrow> None
      | Some sl \<Rightarrow> (case st_force_debug lib sl of (rc, sl) \<Rightarrow> if rc \<noteq> 0 then None else Some sl))"

definition stlink_close :: "('l, 'f) libstlink \<Rightarrow> 'l stlink \<Rightarrow> 'l stlink" where
  "stlink_close lib sl = st_close lib (st_exit_debug_mode lib sl)"

definition stlink_write32 :: "('l, 'f) libstlink \<Rightarrow> 'l stlink \<Rightarrow> nat \<Rightarrow> nat \<Rightarrow> bool \<times> 'l stlink" where
  "stlink_write32 lib sl addr v =
     (case st_write_mem32 lib (sl\<lparr>sl_q_buf := overlay (sl_q_buf sl) 0 (word_bytes v)\<rparr>) addr 4 of (rc, sl) \<Rightarrow> (rc = 0, sl))"

definition stlink_write8 :: "('l, 'f) libstlink \<Rightarrow> 'l stlink \<Rightarrow> nat \<Rightarrow> byte \<Rightarrow> bool \<times> 'l stlink" where
  "stlink_write8 lib sl addr v =
     (case st_write_mem8 lib (sl\<lparr>sl_q_buf := (sl_q_buf sl)[0 := v]\<rparr>) addr 1 of (rc, sl) \<Rightarrow> (rc = 0, sl))"

definition stlink_read8 :: "('l, 'f) libstlink \<Rightarrow> 'l stlink \<Rightarrow> nat \<Rightarrow> byte option \<times> 'l stlink" where
  "stlink_read8 lib sl addr =
     (case st_read_mem32 lib sl (addr - addr mod 4) 4 of
        (rc, sl) \<Rightarrow> (if rc \<noteq> 0 then None else Some (sl_q_buf sl ! (addr mod 4)), sl))"

definition bytes_word :: "byte list \<Rightarrow> nat" where
  "bytes_word b = foldr (\<lambda>x w. unat x + 256 * w) b 0"

definition stlink_read32 :: "('l, 'f) libstlink \<Rightarrow> 'l stlink \<Rightarrow> nat \<Rightarrow> nat option \<times> 'l stlink" where
  "stlink_read32 lib sl addr =
     (case st_read_mem32 lib sl addr 4 of
        (rc, sl) \<Rightarrow> (if rc \<noteq> 0 then None else Some (bytes_word (take 4 (sl_q_buf sl))), sl))"

definition stlink_board_halted :: "('l, 'f) libstlink \<Rightarrow> 'l stlink \<Rightarrow> bool \<times> 'l stlink" where
  "stlink_board_halted lib sl = (let sl = st_status lib sl in (sl_halted sl, sl))"

definition stlink_board_run :: "('l, 'f) libstlink \<Rightarrow> 'l stlink \<Rightarrow> bool \<times> 'l stlink" where
  "stlink_board_run lib sl = (case st_run lib sl of (rc, sl) \<Rightarrow> (rc = 0, sl))"

definition stlink_board_halt :: "('l, 'f) libstlink \<Rightarrow> 'l stlink \<Rightarrow> bool \<times> 'l stlink" where
  "stlink_board_halt lib sl = (case st_force_debug lib sl of (rc, sl) \<Rightarrow> (rc = 0, sl))"

definition stlink_board_step :: "('l, 'f) libstlink \<Rightarrow> 'l stlink \<Rightarrow> bool \<times> 'l stlink" where
  "stlink_board_step lib sl = (case st_step lib sl of (rc, sl) \<Rightarrow> (rc = 0, sl))"

definition stlink_read_reg :: "('l, 'f) libstlink \<Rightarrow> 'l stlink \<Rightarrow> int \<Rightarrow> nat \<times> 'l stlink" where
  "stlink_read_reg lib sl reg =
     (case st_read_reg lib sl reg of
        (rc, r, sl) \<Rightarrow> (if rc \<noteq> 0 then 0 else if 0 \<le> reg \<and> reg < 16 then r ! nat reg else 0, sl))"

definition stlink_write_reg :: "('l, 'f) libstlink \<Rightarrow> 'l stlink \<Rightarrow> int \<Rightarrow> nat \<Rightarrow> 'l stlink" where
  "stlink_write_reg lib sl reg v = st_write_reg lib sl (v mod 2 ^ 32) reg"

text \<open>What the reset itself returns is not looked at.\<close>

definition stlink_board_reset :: "('l, 'f) libstlink \<Rightarrow> 'l stlink \<Rightarrow> bool \<times> 'l stlink" where
  "stlink_board_reset lib sl = (True, snd (st_reset lib sl))"

section \<open>Flash\<close>

definition stlink_write_granularity :: "stm32_flash_type \<Rightarrow> nat" where
  "stlink_write_granularity t =
     (if t = H7 then 32
      else if t \<in> {G0, G4, L4, L5_U5_H5, WB_WL} then 8
      else if t \<in> {F0_F1_F3, F1_XL} then 2
      else 4)"

definition stlink_flash_info :: "'l stlink \<Rightarrow> flash_info option" where
  "stlink_flash_info sl =
     (if sl_flash_size sl = 0 \<or> sl_flash_pgsz sl = 0 then None
      else Some \<lparr>fi_base = sl_flash_base sl, fi_size = sl_flash_size sl, fi_page_size = sl_flash_pgsz sl,
        fi_write_align = stlink_write_granularity (sl_flash_type sl)\<rparr>)"

definition f2_f4_map :: "nat list" where "f2_f4_map = [16, 16, 16, 16, 64, 128, 128, 128, 128, 128, 128, 128]"
definition f7_map :: "nat list" where "f7_map = [32, 32, 32, 32, 128, 256, 256, 256]"

definition stlink_map :: "stm32_flash_type \<Rightarrow> nat list option" where
  "stlink_map t = (if t = F2_F4 then Some f2_f4_map else if t = F7 then Some f7_map else None)"

text \<open>The loop over the sectors of a bank, sizes in KB, from a cursor.\<close>

fun find_in_map :: "nat list \<Rightarrow> nat \<Rightarrow> nat \<Rightarrow> (nat \<times> nat) option" where
  "find_in_map [] cursor x = None"
| "find_in_map (m # ms) cursor x =
     (if x < cursor + m * 1024 then Some (cursor, m * 1024) else find_in_map ms (cursor + m * 1024) x)"

definition stlink_sector_map :: "'l stlink \<Rightarrow> nat \<Rightarrow> (nat \<times> nat) option" where
  "stlink_sector_map sl addr =
     (case stlink_map (sl_flash_type sl) of
        None \<Rightarrow> None
      | Some ms \<Rightarrow>
          (let offset = addr - sl_flash_base sl; bank = offset div (1024 * 1024) * (1024 * 1024)
           in map_option (\<lambda>(c, z). (add32 (add32 (sl_flash_base sl) bank) c, z)) (find_in_map ms 0 (offset - bank))))"

definition stlink_flash_sector :: "'l stlink \<Rightarrow> nat \<Rightarrow> (nat \<times> nat) option" where
  "stlink_flash_sector sl addr =
     (if addr < sl_flash_base sl \<or> sl_flash_size sl \<le> addr - sl_flash_base sl then None
      else
        (case stlink_sector_map sl addr of
           Some s \<Rightarrow> Some s
         | None \<Rightarrow>
             (let p = sl_flash_pgsz sl
              in if p = 0 then None else Some (add32 (sl_flash_base sl) ((addr - sl_flash_base sl) div p * p), p))))"

definition STLINK_FLASH_READ_CHUNK :: nat where "STLINK_FLASH_READ_CHUNK = 1024"

lemma chunk_ok: "4 \<le> STLINK_FLASH_READ_CHUNK" "4 dvd STLINK_FLASH_READ_CHUNK" "STLINK_FLASH_READ_CHUNK = 1024"
  by (simp_all add: STLINK_FLASH_READ_CHUNK_def)

function stlink_read_loop ::
  "('l, 'f) libstlink \<Rightarrow> nat \<Rightarrow> nat \<Rightarrow> nat \<Rightarrow> 'l stlink \<Rightarrow> byte list option \<times> 'l stlink" where
  "stlink_read_loop lib addr len k sl =
     (if k < len then
        (case read_window STLINK_FLASH_READ_CHUNK addr len k of
           (a, skip, chunk) \<Rightarrow>
             (case st_read_mem32 lib sl a (chunk mod 2 ^ 16) of
                (rc, sl) \<Rightarrow>
                  (if rc \<noteq> 0 then (None, sl)
                   else
                     (let copy = min (chunk - skip) (len - k); part = take copy (drop skip (sl_q_buf sl))
                      in case stlink_read_loop lib addr len (k + copy) sl of
                           (r, sl) \<Rightarrow> (map_option ((@) part) r, sl)))))
      else (Some [], sl))"
  by pat_completeness auto
termination by (relation "measure (\<lambda>(lib, addr, len, k, sl). len - k)") (auto simp: diff_less_mono2 dest!: read_window_grows [OF sym _ chunk_ok(1)])

declare stlink_read_loop.simps [simp del]

definition stlink_flash_read :: "('l, 'f) libstlink \<Rightarrow> 'l stlink \<Rightarrow> nat \<Rightarrow> nat \<Rightarrow> byte list option \<times> 'l stlink" where
  "stlink_flash_read lib sl addr len = stlink_read_loop lib addr len 0 sl"

text \<open>The loader is stopped whether or not the write succeeded, and every step has to.\<close>

definition stlink_flash_write :: "('l, 'f) libstlink \<Rightarrow> 'l stlink \<Rightarrow> nat \<Rightarrow> byte list \<Rightarrow> bool \<times> 'l stlink" where
  "stlink_flash_write lib sl addr buf =
     (if buf = [] then (True, sl)
      else
        (case st_loader_start lib sl (st_loader_zero lib) of
           (rc0, fl, sl) \<Rightarrow>
             (if rc0 \<noteq> 0 then (False, sl)
              else
                (case st_loader_write lib sl fl addr buf of
                   (rc1, fl, sl) \<Rightarrow> (case st_loader_stop lib sl fl of (rc2, fl, sl) \<Rightarrow> (rc1 = 0 \<and> rc2 = 0, sl))))))"

definition stlink_flash_erase :: "('l, 'f) libstlink \<Rightarrow> 'l stlink \<Rightarrow> nat \<Rightarrow> nat \<Rightarrow> bool \<times> 'l stlink" where
  "stlink_flash_erase lib sl addr len =
     (if len = 0 then (True, sl) else case st_erase_section lib sl addr (len mod 2 ^ 32) of (rc, sl) \<Rightarrow> (rc = 0, sl))"

definition stlink_mass_erase :: "('l, 'f) libstlink \<Rightarrow> 'l stlink \<Rightarrow> bool \<times> 'l stlink" where
  "stlink_mass_erase lib sl = (case st_erase_mass lib sl of (rc, sl) \<Rightarrow> (rc = 0, sl))"

text \<open>The table.  As in \<open>FlashCore\<close> a read is given its value only; the handle it leaves is looked at below.\<close>

definition stlink_ops :: "('l, 'f) libstlink \<Rightarrow> 'l stlink hw_ops" where
  "stlink_ops lib =
     \<lparr>op_write32 = Some (stlink_write32 lib), op_write8 = Some (stlink_write8 lib),
      op_read32 = Some (\<lambda>sl a. fst (stlink_read32 lib sl a)), op_read8 = Some (\<lambda>sl a. fst (stlink_read8 lib sl a)),
      op_board_halted = Some (\<lambda>sl. fst (stlink_board_halted lib sl)), op_board_run = Some (stlink_board_run lib),
      op_board_halt = Some (stlink_board_halt lib), op_board_step = Some (stlink_board_step lib),
      op_read_reg = Some (\<lambda>sl r. fst (stlink_read_reg lib sl r)), op_write_reg = Some (stlink_write_reg lib),
      op_board_reset = Some (stlink_board_reset lib),
      op_flash_info = Some stlink_flash_info, op_flash_sector = Some stlink_flash_sector,
      op_flash_read = Some (\<lambda>sl a n. fst (stlink_flash_read lib sl a n)), op_flash_write = Some (stlink_flash_write lib),
      op_flash_erase = Some (stlink_flash_erase lib), op_flash_mass_erase = Some (stlink_mass_erase lib)\<rparr>"

section \<open>The blocks\<close>

text \<open>What the handle has to say of the flash: a size that ends with a block, below \<open>2^32\<close>, whole words.\<close>

fun bounds :: "nat \<Rightarrow> nat list \<Rightarrow> nat list" where
  "bounds c [] = [c]"
| "bounds c (m # ms) = c # bounds (c + m * 1024) ms"

definition geometry_ok :: "'l stlink \<Rightarrow> bool" where
  "geometry_ok sl \<longleftrightarrow>
     sl_flash_pgsz sl \<noteq> 0 \<and> sl_flash_size sl \<noteq> 0 \<and> sl_flash_base sl + sl_flash_size sl < 2 ^ 32 \<and>
     4 dvd sl_flash_base sl \<and> 4 dvd sl_flash_size sl \<and> stlink_write_granularity (sl_flash_type sl) dvd sl_flash_base sl \<and>
     (case stlink_map (sl_flash_type sl) of
        Some ms \<Rightarrow> sl_flash_size sl mod (1024 * 1024) \<in> set (bounds 0 ms)
      | None \<Rightarrow> sl_flash_pgsz sl dvd sl_flash_size sl \<and> stlink_write_granularity (sl_flash_type sl) dvd sl_flash_pgsz sl)"

text \<open>The block of an address, in unbounded numbers.\<close>

definition stlink_block :: "'l stlink \<Rightarrow> nat \<Rightarrow> nat \<times> nat" where
  "stlink_block sl a =
     (case stlink_map (sl_flash_type sl) of
        Some ms \<Rightarrow>
          (let bank = (a - sl_flash_base sl) div (1024 * 1024) * (1024 * 1024)
           in case find_in_map ms 0 (a - sl_flash_base sl - bank) of
                Some (c, z) \<Rightarrow> (sl_flash_base sl + bank + c, z)
              | None \<Rightarrow> (a, 0))
      | None \<Rightarrow>
          (sl_flash_base sl + (a - sl_flash_base sl) div sl_flash_pgsz sl * sl_flash_pgsz sl, sl_flash_pgsz sl))"

text \<open>The loop finds the sector that holds the offset, and no bound of the table lies inside a sector.\<close>

lemma find_in_map_found:
  "c \<le> x \<Longrightarrow> x < c + 1024 * sum_list ms \<Longrightarrow>
     \<exists>s z. find_in_map ms c x = Some (s, z) \<and> s \<le> x \<and> x < s + z \<and> c \<le> s \<and> s + z \<le> c + 1024 * sum_list ms"
proof (induction ms arbitrary: c)
  case (Cons m ms)
  show ?case
  proof (cases "x < c + m * 1024")
    case True
    with Cons.prems show ?thesis by simp
  next
    case False
    then have "c + m * 1024 \<le> x" "x < c + m * 1024 + 1024 * sum_list ms" using Cons.prems by (simp_all add: algebra_simps)
    from Cons.IH [OF this] False show ?thesis by (auto simp: algebra_simps)
  qed
qed simp

lemma bounds_ge: "b \<in> set (bounds c ms) \<Longrightarrow> c \<le> b"
  by (induction ms arbitrary: c) force+

lemma find_in_map_inside:
  "find_in_map ms c x = Some (s, z) \<Longrightarrow> c \<le> x \<Longrightarrow>
     (\<forall>b \<in> set (bounds c ms). b \<le> s \<or> s + z \<le> b) \<and> (\<forall>y. s \<le> y \<and> y < s + z \<longrightarrow> find_in_map ms c y = Some (s, z)) \<and>
     c \<le> s \<and> (1024 dvd c \<longrightarrow> 1024 dvd s) \<and> 1024 dvd z"
proof (induction ms arbitrary: c)
  case (Cons m ms)
  show ?case
  proof (cases "x < c + m * 1024")
    case True
    then have s: "s = c" "z = m * 1024" using Cons.prems by simp_all
    show ?thesis unfolding s using bounds_ge [of _ "c + m * 1024" ms] by auto
  next
    case False
    with Cons.prems have f: "find_in_map ms (c + m * 1024) x = Some (s, z)" "c + m * 1024 \<le> x" by simp_all
    from Cons.IH [OF f] have
      "(\<forall>b \<in> set (bounds (c + m * 1024) ms). b \<le> s \<or> s + z \<le> b)"
      "\<forall>y. s \<le> y \<and> y < s + z \<longrightarrow> find_in_map ms (c + m * 1024) y = Some (s, z)"
      "c + m * 1024 \<le> s" "1024 dvd c + m * 1024 \<longrightarrow> 1024 dvd s" "1024 dvd z" by blast+
    then show ?thesis by auto
  qed
qed simp

lemma stlink_map_total: "stlink_map t = Some ms \<Longrightarrow> 1024 * sum_list ms = 1024 * 1024"
  by (auto simp: stlink_map_def f2_f4_map_def f7_map_def split: if_splits)

lemma stlink_map_granularity: "stlink_map t = Some ms \<Longrightarrow> stlink_write_granularity t = 4"
  by (auto simp: stlink_map_def stlink_write_granularity_def split: if_splits)

text \<open>The address of an offset, by bank.\<close>

lemma bank_unique: "(q::nat) * K \<le> y \<Longrightarrow> y < q * K + K \<Longrightarrow> y div K = q"
  by (metis add.commute div_nat_eqI mult.commute mult_Suc_right)

lemma stlink_block_map:
  fixes a :: nat
  assumes g: "geometry_ok sl" and m: "stlink_map (sl_flash_type sl) = Some ms"
    and a: "sl_flash_base sl \<le> a" "a < sl_flash_base sl + sl_flash_size sl" and b: "stlink_block sl a = (sb, ss)"
  defines "K \<equiv> (1024 * 1024 :: nat)"
  defines "q \<equiv> (a - sl_flash_base sl) div K"
  obtains c where "find_in_map ms 0 (a - sl_flash_base sl - q * K) = Some (c, ss)" "sb = sl_flash_base sl + q * K + c"
    "c \<le> a - sl_flash_base sl - q * K" "a - sl_flash_base sl - q * K < c + ss" "c + ss \<le> K"
    "q * K + c + ss \<le> sl_flash_size sl" "1024 dvd c" "1024 dvd ss"
    "\<forall>y. c \<le> y \<and> y < c + ss \<longrightarrow> find_in_map ms 0 y = Some (c, ss)"
proof -
  let ?o = "a - sl_flash_base sl" and ?Z = "sl_flash_size sl"
  have r: "?o - q * K = ?o mod K" by (simp add: q_def minus_div_mult_eq_mod)
  have K: "0 < K" "1024 * sum_list ms = K" using stlink_map_total [OF m] by (simp_all add: K_def)
  obtain c z where f: "find_in_map ms 0 (?o - q * K) = Some (c, z)" and in1: "c \<le> ?o - q * K" "?o - q * K < c + z" "c + z \<le> K"
    using find_in_map_found [of 0 "?o - q * K" ms] K r by auto
  note ins = find_in_map_inside [OF f le0]
  have z: "ss = z" "sb = sl_flash_base sl + q * K + c"
    using b f unfolding stlink_block_def m q_def K_def by (simp_all add: Let_def)
  have zz: "?Z mod K \<in> set (bounds 0 ms)" using g m by (simp add: geometry_ok_def K_def)
  have o: "?o < ?Z" using a by linarith
  have "q \<le> ?Z div K" unfolding q_def using o by (intro div_le_mono) simp
  have top: "q * K + c + z \<le> ?Z"
  proof (cases "q = ?Z div K")
    case True
    then have Z: "?Z = q * K + ?Z mod K" by simp
    have "q * K \<le> ?o" by (simp add: q_def)
    with Z have "?o - q * K < ?Z mod K" using o by linarith
    moreover have "?Z mod K \<le> c \<or> c + z \<le> ?Z mod K" using ins zz by blast
    ultimately show ?thesis using in1 Z by linarith
  next
    case False
    with \<open>q \<le> ?Z div K\<close> have "Suc q \<le> ?Z div K" by simp
    then have "Suc q * K \<le> ?Z div K * K" by (rule mult_le_mono1)
    also have "\<dots> \<le> ?Z" by simp
    finally show ?thesis using in1 by simp
  qed
  show thesis by (rule that [of c]) (use f in1 top ins z in auto)
qed

lemma granularity_dvd: "stlink_write_granularity t dvd 32" "0 < stlink_write_granularity t"
  by (simp_all add: stlink_write_granularity_def)

lemma stlink_block_in:
  assumes g: "geometry_ok sl" and a: "sl_flash_base sl \<le> a" "a < sl_flash_base sl + sl_flash_size sl"
    and b: "stlink_block sl a = (sb, ss)"
  shows "sb \<le> a \<and> a < sb + ss \<and> sl_flash_base sl \<le> sb \<and> sb + ss \<le> sl_flash_base sl + sl_flash_size sl \<and>
    stlink_write_granularity (sl_flash_type sl) dvd sb \<and> stlink_write_granularity (sl_flash_type sl) dvd ss"
proof (cases "stlink_map (sl_flash_type sl)")
  case None
  let ?p = "sl_flash_pgsz sl" and ?o = "a - sl_flash_base sl"
  have p: "0 < ?p" "?p dvd sl_flash_size sl" "stlink_write_granularity (sl_flash_type sl) dvd ?p"
    using g None by (simp_all add: geometry_ok_def)
  have s: "sb = sl_flash_base sl + ?o div ?p * ?p" "ss = ?p" using b None by (auto simp: stlink_block_def)
  from p(2) obtain k where k: "sl_flash_size sl = k * ?p" by (metis dvd_def mult.commute)
  have "?o < k * ?p" using a k by linarith
  then have "?o div ?p < k" by (simp add: less_mult_imp_div_less)
  then have "Suc (?o div ?p) * ?p \<le> k * ?p" by (intro mult_le_mono1) simp
  moreover have "?o div ?p * ?p \<le> ?o" "?o < ?o div ?p * ?p + ?p"
    using dividend_less_div_times [OF p(1), of ?o] by simp_all
  moreover have "stlink_write_granularity (sl_flash_type sl) dvd sb" unfolding s using g p(3) by (simp add: geometry_ok_def)
  moreover have "Suc (?o div ?p) * ?p = ?o div ?p * ?p + ?p" by simp
  ultimately show ?thesis using a p(3) k unfolding s by (intro conjI) linarith+
next
  case (Some ms)
  have gr: "stlink_write_granularity (sl_flash_type sl) = 4" by (rule stlink_map_granularity [OF Some])
  define k where "k = (a - sl_flash_base sl) div (1024 * 1024) * (1024 * 1024)"
  obtain c where c: "sb = sl_flash_base sl + k + c" "c \<le> a - sl_flash_base sl - k" "a - sl_flash_base sl - k < c + ss"
    "k + c + ss \<le> sl_flash_size sl" "1024 dvd c" "1024 dvd ss"
    using stlink_block_map [OF g Some a b] unfolding k_def by blast
  have k: "k \<le> a - sl_flash_base sl" "4 dvd k" by (simp_all add: k_def dvd_mult)
  have four: "4 dvd n" if "1024 dvd n" for n :: nat using that by (rule dvd_trans [rotated]) simp
  have "4 dvd sb" unfolding c(1) using g k(2) four [OF c(5)] by (simp add: geometry_ok_def)
  with four [OF c(6)] c(1-4) k(1) a show ?thesis unfolding gr by (intro conjI) linarith+
qed

lemma stlink_block_same:
  assumes g: "geometry_ok sl" and a: "sl_flash_base sl \<le> a" "a < sl_flash_base sl + sl_flash_size sl"
    and b: "stlink_block sl a = (sb, ss)" and x: "sb \<le> x" "x < sb + ss"
  shows "stlink_block sl x = (sb, ss)"
proof (cases "stlink_map (sl_flash_type sl)")
  case None
  with b have s: "sb = sl_flash_base sl + (a - sl_flash_base sl) div sl_flash_pgsz sl * sl_flash_pgsz sl" "ss = sl_flash_pgsz sl"
    by (auto simp: stlink_block_def)
  with x have "(x - sl_flash_base sl) div sl_flash_pgsz sl = (a - sl_flash_base sl) div sl_flash_pgsz sl"
    by (intro bank_unique) auto
  with None s show ?thesis by (simp add: stlink_block_def)
next
  case (Some ms)
  from stlink_block_map [OF g Some a b] obtain c where
    c: "sb = sl_flash_base sl + (a - sl_flash_base sl) div (1024 * 1024) * (1024 * 1024) + c" "c + ss \<le> 1024 * 1024"
    "\<forall>y. c \<le> y \<and> y < c + ss \<longrightarrow> find_in_map ms 0 y = Some (c, ss)" by blast
  define q where "q = (a - sl_flash_base sl) div (1024 * 1024)"
  have "(x - sl_flash_base sl) div (1024 * 1024) = q" using x c(1,2) by (intro bank_unique) (auto simp: q_def)
  moreover have "find_in_map ms 0 (x - sl_flash_base sl - q * (1024 * 1024)) = Some (c, ss)"
    using x c(1) by (intro c(3) [rule_format]) (auto simp: q_def)
  ultimately show ?thesis using Some c(1) by (simp add: stlink_block_def q_def Let_def)
qed

lemma stlink_flash_sector_block:
  assumes g: "geometry_ok sl" and a: "sl_flash_base sl \<le> a" "a < sl_flash_base sl + sl_flash_size sl"
  shows "stlink_flash_sector sl a = Some (stlink_block sl a)"
proof -
  obtain sb ss where b: "stlink_block sl a = (sb, ss)" by (cases "stlink_block sl a")
  have lt: "sb < 2 ^ 32" using stlink_block_in [OF g a b] g by (simp add: geometry_ok_def)
  show ?thesis
  proof (cases "stlink_map (sl_flash_type sl)")
    case None
    with b g a lt show ?thesis
      by (auto simp: stlink_flash_sector_def stlink_sector_map_def stlink_block_def geometry_ok_def Let_def add32_def)
  next
    case (Some ms)
    from stlink_block_map [OF g Some a b] obtain c where
      c: "find_in_map ms 0 (a - sl_flash_base sl - (a - sl_flash_base sl) div (1024 * 1024) * (1024 * 1024)) = Some (c, ss)"
      "sb = sl_flash_base sl + (a - sl_flash_base sl) div (1024 * 1024) * (1024 * 1024) + c" by blast
    have "add32 (add32 (sl_flash_base sl) ((a - sl_flash_base sl) div (1024 * 1024) * (1024 * 1024))) c = sb"
      using lt unfolding c(2) by (simp only: add32_def mod_less mod_add_left_eq)
    then show ?thesis unfolding stlink_flash_sector_def stlink_sector_map_def b
      using a Some c(1) by (simp only: option.case Let_def option.map prod.case) auto
  qed
qed

text \<open>
  C24. The erase blocks the backend reports partition the flash: for every family, uniform or not, the sector of an
  address inside the flash contains it, lies inside the flash, starts and ends on the program granularity, and
  is the sector of every other address of it; outside the flash there is none.
\<close>

theorem stlink_sectors_partition:
  assumes "geometry_ok sl"
  shows "\<forall>a. (if sl_flash_base sl \<le> a \<and> a < sl_flash_base sl + sl_flash_size sl
    then \<exists>sb ss. stlink_flash_sector sl a = Some (sb, ss) \<and> sb \<le> a \<and> a < sb + ss \<and> sl_flash_base sl \<le> sb \<and>
      sb + ss \<le> sl_flash_base sl + sl_flash_size sl \<and> stlink_write_granularity (sl_flash_type sl) dvd sb \<and>
      stlink_write_granularity (sl_flash_type sl) dvd ss \<and> (\<forall>x \<in> {sb..<sb + ss}. stlink_flash_sector sl x = Some (sb, ss))
    else stlink_flash_sector sl a = None)"
proof (intro allI)
  fix a
  obtain sb ss where b: "stlink_block sl a = (sb, ss)" by (cases "stlink_block sl a")
  show "if sl_flash_base sl \<le> a \<and> a < sl_flash_base sl + sl_flash_size sl
    then \<exists>sb ss. stlink_flash_sector sl a = Some (sb, ss) \<and> sb \<le> a \<and> a < sb + ss \<and> sl_flash_base sl \<le> sb \<and>
      sb + ss \<le> sl_flash_base sl + sl_flash_size sl \<and> stlink_write_granularity (sl_flash_type sl) dvd sb \<and>
      stlink_write_granularity (sl_flash_type sl) dvd ss \<and> (\<forall>x \<in> {sb..<sb + ss}. stlink_flash_sector sl x = Some (sb, ss))
    else stlink_flash_sector sl a = None"
  proof (cases "sl_flash_base sl \<le> a \<and> a < sl_flash_base sl + sl_flash_size sl")
    case True
    note i = stlink_block_in [OF assms _ _ b] stlink_block_same [OF assms _ _ b]
    have "stlink_flash_sector sl x = Some (sb, ss)" if "x \<in> {sb..<sb + ss}" for x
      using stlink_flash_sector_block [OF assms, of x] i that True by force
    moreover have "stlink_flash_sector sl a = Some (sb, ss)" using stlink_flash_sector_block [OF assms, of a] True b by simp
    ultimately show ?thesis using True i(1) by simp
  next
    case False
    then show ?thesis by (auto simp: stlink_flash_sector_def)
  qed
qed

section \<open>What the library promises\<close>

text \<open>
  The flash of a connected target, as seen by \<open>libstlink\<close>: \<open>ok\<close> holds of a handle that is usable, \<open>mem\<close> is the
  contents behind it.  The four clauses are the documented behaviour of the entry points on a part of the F2/F4 or F7
  family: a read of whole words fills the buffer; the loader programs, which on these families may clear further bits of a
  cell that is not erased; a section that is one sector of the part is erased to ones; the core can be halted.  None of
  them changes the flash beyond that.  Families that refuse to program a cell twice are left out.  The sectors are those of
  the reference manuals, written down here independently of the tables of the backend: four of 16 KB, one of 64 KB and
  then 128 KB ones in each bank of 1 MB for F2/F4; four of 32 KB, one of 128 KB and then 256 KB ones for F7.
\<close>

definition doc_sector :: "stm32_flash_type \<Rightarrow> nat \<Rightarrow> nat \<times> nat" where
  "doc_sector t x =
     (let KB = 1024 :: nat
      in if t = F7 then
           (if x < 128 * KB then (x div (32 * KB) * (32 * KB), 32 * KB)
            else if x < 256 * KB then (128 * KB, 128 * KB)
            else (x div (256 * KB) * (256 * KB), 256 * KB))
         else
           (let bank = x div (1024 * KB) * (1024 * KB); r = x mod (1024 * KB)
            in if r < 64 * KB then (bank + r div (16 * KB) * (16 * KB), 16 * KB)
               else if r < 128 * KB then (bank + 64 * KB, 64 * KB)
               else (bank + r div (128 * KB) * (128 * KB), 128 * KB)))"

definition doc_block :: "'l stlink \<Rightarrow> nat \<Rightarrow> nat \<times> nat" where
  "doc_block sl a = (case doc_sector (sl_flash_type sl) (a - sl_flash_base sl) of (s, z) \<Rightarrow> (sl_flash_base sl + s, z))"

text \<open>A part of one of the two families; on F7 the table of the backend holds for parts of up to 1 MB.\<close>

definition sectored_part :: "'l stlink \<Rightarrow> bool" where
  "sectored_part sl \<longleftrightarrow> sl_flash_type sl = F2_F4 \<or> sl_flash_type sl = F7 \<and> sl_flash_size sl \<le> 1024 * 1024"

definition keeps :: "('l stlink \<Rightarrow> bool) \<Rightarrow> ('l stlink \<Rightarrow> nat \<Rightarrow> byte) \<Rightarrow> 'l stlink \<Rightarrow> 'l stlink \<Rightarrow> bool" where
  "keeps ok mem sl sl' \<longleftrightarrow> ok sl' \<and> mem sl' = mem sl"

definition same_geometry :: "'l stlink \<Rightarrow> 'l stlink \<Rightarrow> bool" where
  "same_geometry sl sl' \<longleftrightarrow> sl_flash_type sl' = sl_flash_type sl \<and> sl_flash_base sl' = sl_flash_base sl \<and>
     sl_flash_size sl' = sl_flash_size sl \<and> sl_flash_pgsz sl' = sl_flash_pgsz sl"

definition inside :: "'l stlink \<Rightarrow> nat \<Rightarrow> nat \<Rightarrow> bool" where
  "inside sl a n \<longleftrightarrow> sl_flash_base sl \<le> a \<and> a + n \<le> sl_flash_base sl + sl_flash_size sl"

definition lib_reads :: "('l, 'f) libstlink \<Rightarrow> ('l stlink \<Rightarrow> bool) \<Rightarrow> ('l stlink \<Rightarrow> nat \<Rightarrow> byte) \<Rightarrow> bool" where
  "lib_reads lib ok mem \<longleftrightarrow>
     (\<forall>sl a n. ok sl \<and> inside sl a n \<and> 4 dvd a \<and> 4 dvd n \<and> n \<le> 1024 \<longrightarrow>
        (case st_read_mem32 lib sl a n of
           (rc, sl') \<Rightarrow> rc = 0 \<and> keeps ok mem sl sl' \<and> take n (sl_q_buf sl') = map (mem sl) [a..<a + n]))"

definition lib_programs :: "('l, 'f) libstlink \<Rightarrow> ('l stlink \<Rightarrow> bool) \<Rightarrow> ('l stlink \<Rightarrow> nat \<Rightarrow> byte) \<Rightarrow> bool" where
  "lib_programs lib ok mem \<longleftrightarrow>
     (\<forall>sl a d. ok sl \<and> inside sl a (length d) \<and> 4 dvd a \<and> 4 dvd length d \<longrightarrow>
        (\<exists>f1 s1 f2 s2 f3 s3. st_loader_start lib sl (st_loader_zero lib) = (0, f1, s1) \<and> st_loader_write lib s1 f1 a d = (0, f2, s2) \<and>
           st_loader_stop lib s2 f2 = (0, f3, s3) \<and> ok s3 \<and>
           (\<forall>b. mem s3 b = (if a \<le> b \<and> b < a + length d then mem sl b AND d ! (b - a) else mem sl b))))"

definition lib_erases :: "('l, 'f) libstlink \<Rightarrow> ('l stlink \<Rightarrow> bool) \<Rightarrow> ('l stlink \<Rightarrow> nat \<Rightarrow> byte) \<Rightarrow> bool" where
  "lib_erases lib ok mem \<longleftrightarrow>
     (\<forall>sl a sb ss. ok sl \<and> inside sl a 1 \<and> doc_block sl a = (sb, ss) \<longrightarrow>
        (case st_erase_section lib sl sb ss of
           (rc, sl') \<Rightarrow> rc = 0 \<and> ok sl' \<and> (\<forall>b. mem sl' b = (if sb \<le> b \<and> b < sb + ss then - 1 else mem sl b))))"

definition lib_halts :: "('l, 'f) libstlink \<Rightarrow> ('l stlink \<Rightarrow> bool) \<Rightarrow> ('l stlink \<Rightarrow> nat \<Rightarrow> byte) \<Rightarrow> bool" where
  "lib_halts lib ok mem \<longleftrightarrow>
     (\<forall>sl. ok sl \<longrightarrow> keeps ok mem sl (st_status lib sl) \<and> (case st_force_debug lib sl of (rc, sl') \<Rightarrow> rc = 0 \<and> keeps ok mem sl sl'))"

text \<open>The handles of one connection: they agree on the geometry, which is that of a part of the two families.\<close>

definition stlink_target ::
  "('l, 'f) libstlink \<Rightarrow> 'l stlink \<Rightarrow> ('l stlink \<Rightarrow> bool) \<Rightarrow> ('l stlink \<Rightarrow> nat \<Rightarrow> byte) \<Rightarrow> bool" where
  "stlink_target lib sl0 ok mem \<longleftrightarrow> sectored_part sl0 \<and> (\<forall>sl. ok sl \<longrightarrow> same_geometry sl0 sl) \<and>
     lib_reads lib ok mem \<and> lib_programs lib ok mem \<and> lib_erases lib ok mem \<and> lib_halts lib ok mem"

section \<open>The tables of the backend against the layout of the parts\<close>

lemma div_step: "k * m \<le> x \<Longrightarrow> x < k * m + m \<Longrightarrow> x div m * m = k * m" for k m x :: nat
  by (metis bank_unique)

lemma f2_f4_map_doc:
  assumes "r < 1048576"
  shows "find_in_map f2_f4_map 0 r =
    Some (if r < 65536 then (r div 16384 * 16384, 16384) else if r < 131072 then (65536, 65536)
          else (r div 131072 * 131072, 131072))"
  using assms div_step [of 0 16384 r] div_step [of 1 16384 r] div_step [of 2 16384 r] div_step [of 3 16384 r]
    div_step [of 1 131072 r] div_step [of 2 131072 r] div_step [of 3 131072 r] div_step [of 4 131072 r]
    div_step [of 5 131072 r] div_step [of 6 131072 r] div_step [of 7 131072 r]
  by (simp add: f2_f4_map_def)

lemma f7_map_doc:
  assumes "r < 1048576"
  shows "find_in_map f7_map 0 r =
    Some (if r < 131072 then (r div 32768 * 32768, 32768) else if r < 262144 then (131072, 131072)
          else (r div 262144 * 262144, 262144))"
  using assms div_step [of 0 32768 r] div_step [of 1 32768 r] div_step [of 2 32768 r] div_step [of 3 32768 r]
    div_step [of 1 262144 r] div_step [of 2 262144 r] div_step [of 3 262144 r]
  by (simp add: f7_map_def)

text \<open>The block that the tables give is the sector of the part.\<close>

lemma stlink_block_doc:
  assumes "sectored_part sl" "inside sl a 1"
  shows "stlink_block sl a = doc_block sl a"
proof -
  let ?x = "a - sl_flash_base sl"
  have r: "?x - ?x div 1048576 * 1048576 = ?x mod 1048576" "?x mod 1048576 < 1048576"
    by (simp_all add: minus_div_mult_eq_mod)
  show ?thesis
  proof (cases "sl_flash_type sl = F7")
    case True
    then have "?x < 1048576" using assms by (auto simp: sectored_part_def inside_def)
    then have "stlink_block sl a = (case find_in_map f7_map 0 ?x of Some (c, z) \<Rightarrow> (sl_flash_base sl + c, z) | None \<Rightarrow> (a, 0))"
      by (simp add: stlink_block_def stlink_map_def True Let_def split: option.split)
    then show ?thesis using f7_map_doc [OF \<open>?x < 1048576\<close>] True
      by (simp add: doc_block_def doc_sector_def)
  next
    case False
    then have t: "sl_flash_type sl = F2_F4" using assms(1) by (simp add: sectored_part_def)
    have "stlink_block sl a = (case find_in_map f2_f4_map 0 (?x mod 1048576) of
        Some (c, z) \<Rightarrow> (sl_flash_base sl + ?x div 1048576 * 1048576 + c, z) | None \<Rightarrow> (a, 0))"
      using r(1) by (simp add: stlink_block_def stlink_map_def t Let_def)
    then show ?thesis using f2_f4_map_doc [OF r(2)] t
      by (simp add: doc_block_def doc_sector_def Let_def)
  qed
qed

lemma sectored_granularity: "sectored_part sl \<Longrightarrow> stlink_write_granularity (sl_flash_type sl) = 4"
  by (auto simp: sectored_part_def stlink_write_granularity_def)

section \<open>The laws of the flash\<close>

lemma same_geometry_simps:
  assumes "same_geometry sl sl'"
  shows "geometry_ok sl' = geometry_ok sl" "stlink_block sl' = stlink_block sl" "inside sl' = inside sl"
    "stlink_flash_info sl' = stlink_flash_info sl" "sectored_part sl' = sectored_part sl"
proof -
  have f: "sl_flash_type sl' = sl_flash_type sl" "sl_flash_base sl' = sl_flash_base sl"
    "sl_flash_size sl' = sl_flash_size sl" "sl_flash_pgsz sl' = sl_flash_pgsz sl"
    using assms by (simp_all add: same_geometry_def)
  show "geometry_ok sl' = geometry_ok sl" unfolding geometry_ok_def f by (rule refl)
  show "stlink_block sl' = stlink_block sl" by (rule ext) (simp only: stlink_block_def f)
  show "inside sl' = inside sl" by (intro ext) (simp only: inside_def f)
  show "stlink_flash_info sl' = stlink_flash_info sl" unfolding stlink_flash_info_def f by (rule refl)
  show "sectored_part sl' = sectored_part sl" unfolding sectored_part_def f by (rule refl)
qed

lemma lib_reads_step:
  assumes "lib_reads lib ok mem" "ok sl" "inside sl a n \<and> 4 dvd a \<and> 4 dvd n \<and> n \<le> 1024" "st_read_mem32 lib sl a n = (rc, sl')"
  shows "rc = 0" "ok sl'" "mem sl' = mem sl" "take n (sl_q_buf sl') = map (mem sl) [a..<a + n]"
  using assms(1) [unfolded lib_reads_def, rule_format, of sl a n] assms(2-4) by (simp_all add: keeps_def)

lemma stlink_read_loop_exact:
  assumes lib: "lib_reads lib ok mem" and geo: "\<And>sl. ok sl \<Longrightarrow> same_geometry sl0 sl" and g: "geometry_ok sl0"
    and ins: "inside sl0 addr len"
  shows "ok sl \<Longrightarrow> k \<le> len \<Longrightarrow> \<exists>sl'. stlink_read_loop lib addr len k sl = (Some (map (mem sl) [addr + k..<addr + len]), sl') \<and> keeps ok mem sl sl'"
proof (induction "len - k" arbitrary: k sl rule: less_induct)
  case less
  show ?case
  proof (cases "k < len")
    case True
    obtain a skip chunk where w: "read_window STLINK_FLASH_READ_CHUNK addr len k = (a, skip, chunk)" by (cases "read_window STLINK_FLASH_READ_CHUNK addr len k")
    have geom: "4 dvd sl_flash_base sl0" "4 dvd sl_flash_base sl0 + sl_flash_size sl0" "sl_flash_base sl0 + sl_flash_size sl0 \<le> 2 ^ 32"
      using g by (simp_all add: geometry_ok_def)
    have win: "inside sl0 a chunk \<and> 4 dvd a \<and> 4 dvd chunk \<and> chunk \<le> 1024 \<and> a + skip = addr + k"
      using read_window_inside [OF w True _ _ geom] ins by (simp add: inside_def chunk_ok)
    note grow = read_window_grows [OF w True chunk_ok(1)]
    let ?c = "min (chunk - skip) (len - k)"
    obtain rc s1 where r: "st_read_mem32 lib sl a chunk = (rc, s1)" by (cases "st_read_mem32 lib sl a chunk")
    have "inside sl a chunk \<and> 4 dvd a \<and> 4 dvd chunk \<and> chunk \<le> 1024"
      using win same_geometry_simps(3) [OF geo [OF less.prems(1)]] by simp
    note s1 = lib_reads_step [OF lib less.prems(1) this r]
    have "skip + ?c \<le> chunk" using grow by linarith
    then have part: "take ?c (drop skip (sl_q_buf s1)) = map (mem sl) [addr + k..<addr + k + ?c]"
      using take_part [OF s1(4)] win by simp
    have "len - (k + ?c) < len - k" "k + ?c \<le> len" using grow True by linarith+
    from less.hyps [OF this(1) s1(2) this(2)] obtain s2 where
      s2: "stlink_read_loop lib addr len (k + ?c) s1 = (Some (map (mem s1) [addr + (k + ?c)..<addr + len]), s2)" "keeps ok mem s1 s2" by blast
    note upt = upt_part [OF \<open>k + ?c \<le> len\<close>, of addr]
    have "chunk mod 2 ^ 16 = chunk" using win by simp
    then have "stlink_read_loop lib addr len k sl = (Some (map (mem sl) [addr + k..<addr + len]), s2)"
      unfolding upt stlink_read_loop.simps [of lib addr len k sl] using True w r s1(1,3) s2(1) part by (simp add: Let_def)
    moreover have "keeps ok mem sl s2" using s2(2) s1(3) by (simp add: keeps_def)
    ultimately show ?thesis by blast
  next
    case False
    with less.prems show ?thesis by (simp add: stlink_read_loop.simps keeps_def)
  qed
qed

text \<open>The backend provides the laws the composite operations need, blocks and all.\<close>

definition stlink_info :: "'l stlink \<Rightarrow> flash_info" where
  "stlink_info sl = \<lparr>fi_base = sl_flash_base sl, fi_size = sl_flash_size sl, fi_page_size = sl_flash_pgsz sl,
     fi_write_align = stlink_write_granularity (sl_flash_type sl)\<rparr>"

lemma in_stlink_flash: "in_flash (stlink_info sl) a \<longleftrightarrow> inside sl a 1"
  by (auto simp: in_flash_def stlink_info_def inside_def)

lemma range_stlink: "flash_range_ok (stlink_info sl) a n \<longleftrightarrow> 0 < n \<and> inside sl a n"
  by (auto simp: flash_range_ok_def stlink_info_def inside_def)

lemma stlink_read_law:
  assumes "stlink_target lib sl0 ok mem" "geometry_ok sl0" "ok sl" "flash_range_ok (stlink_info sl0) a n"
  shows "hw_flash_read (stlink_ops lib) sl a n = Some (map (mem sl) [a..<a + n])"
proof -
  have "lib_reads lib ok mem" "\<And>sl. ok sl \<Longrightarrow> same_geometry sl0 sl" using assms(1) by (simp_all add: stlink_target_def)
  moreover have "inside sl0 a n" "0 < n" using assms(4) by (simp_all add: range_stlink)
  ultimately show ?thesis using stlink_read_loop_exact [of lib ok mem sl0 a n sl 0] assms(2,3)
    by (auto simp: hw_flash_read_def stlink_ops_def stlink_flash_read_def)
qed

lemma stlink_write_law:
  assumes "stlink_target lib sl0 ok mem" "ok sl" "flash_range_ok (stlink_info sl0) a (length d)"
    "fi_write_align (stlink_info sl0) dvd a" "fi_write_align (stlink_info sl0) dvd length d"
  shows "\<exists>s'. hw_flash_write (stlink_ops lib) sl a d = (True, s') \<and> ok s' \<and>
    (\<forall>b. mem s' b = (if a \<le> b \<and> b < a + length d then mem sl b AND d ! (b - a) else mem sl b))"
proof -
  have t: "lib_programs lib ok mem" "same_geometry sl0 sl" "stlink_write_granularity (sl_flash_type sl0) = 4"
    using assms(1,2) by (simp_all add: stlink_target_def sectored_granularity)
  have "inside sl a (length d)" "d \<noteq> []" "sl_flash_type sl = sl_flash_type sl0"
    using assms(3) same_geometry_simps(3) [OF t(2)] t(2) by (auto simp: range_stlink same_geometry_def)
  with t(1) assms obtain f1 s1 f2 s2 f3 s3 where
    "st_loader_start lib sl (st_loader_zero lib) = (0, f1, s1)" "st_loader_write lib s1 f1 a d = (0, f2, s2)"
    "st_loader_stop lib s2 f2 = (0, f3, s3)" "ok s3"
    "\<forall>b. mem s3 b = (if a \<le> b \<and> b < a + length d then mem sl b AND d ! (b - a) else mem sl b)"
    unfolding lib_programs_def stlink_info_def by (simp only: flash_info.simps t(3)) metis
  with \<open>d \<noteq> []\<close> show ?thesis by (simp add: hw_flash_write_def stlink_ops_def stlink_flash_write_def)
qed

lemma stlink_erase_law:
  assumes "stlink_target lib sl0 ok mem" "geometry_ok sl0" "ok sl" "in_flash (stlink_info sl0) a" "stlink_block sl0 a = (sb, ss)"
  shows "\<exists>s'. hw_flash_erase (stlink_ops lib) sl sb ss = (True, s') \<and> ok s' \<and>
    (\<forall>b. mem s' b = (if sb \<le> b \<and> b < sb + ss then - 1 else mem sl b))"
proof -
  have t: "lib_erases lib ok mem" "same_geometry sl0 sl" "sectored_part sl0" using assms(1,3) by (simp_all add: stlink_target_def)
  have i: "inside sl a 1" "doc_block sl a = (sb, ss)"
    using assms(4,5) same_geometry_simps [OF t(2)] stlink_block_doc [of sl a] t(3) by (simp_all add: in_stlink_flash)
  have b: "0 < ss" "ss mod 2 ^ 32 = ss"
    using stlink_block_in [OF assms(2) _ _ assms(5)] assms(4,2) by (auto simp: in_stlink_flash inside_def geometry_ok_def)
  obtain rc s' where r: "st_erase_section lib sl sb ss = (rc, s')" by (cases "st_erase_section lib sl sb ss")
  with t(1) assms(3) i have "rc = 0 \<and> ok s' \<and> (\<forall>b. mem s' b = (if sb \<le> b \<and> b < sb + ss then - 1 else mem sl b))"
    unfolding lib_erases_def by fastforce
  with r b show ?thesis by (simp add: hw_flash_erase_def stlink_ops_def stlink_flash_erase_def)
qed

lemma stlink_nor_blocks:
  assumes t: "stlink_target lib sl0 ok mem" and g: "geometry_ok sl0"
  shows "nor_blocks (stlink_ops lib) ok mem (stlink_info sl0) (stlink_block sl0)"
proof
  let ?info = "stlink_info sl0"
  have halts: "lib_halts lib ok mem" and geo: "\<And>sl. ok sl \<Longrightarrow> same_geometry sl0 sl" using t by (auto simp: stlink_target_def)
  note sg = same_geometry_simps [OF geo]
  show "fi_base ?info + fi_size ?info < 2 ^ 32" "0 < fi_write_align ?info"
    using g granularity_dvd by (simp_all add: stlink_info_def geometry_ok_def)
  show "op_flash_erase (stlink_ops lib) \<noteq> None" "op_flash_write (stlink_ops lib) \<noteq> None" by (simp_all add: stlink_ops_def)
  show "hw_flash_info (stlink_ops lib) sl = Some ?info" if "ok sl" for sl
    using sg(4) [OF that] g granularity_dvd(2) [of "sl_flash_type sl0"]
    by (simp add: hw_flash_info_def stlink_ops_def) (simp add: stlink_flash_info_def stlink_info_def geometry_ok_def)
  show "hw_flash_sector (stlink_ops lib) sl a = Some (stlink_block sl0 a)" if "ok sl" "in_flash ?info a" for sl a
    using stlink_flash_sector_block [of sl a] sg [OF that(1)] g that(2) geo [OF that(1)]
    by (simp add: hw_flash_sector_def stlink_ops_def in_stlink_flash inside_def same_geometry_def)
  show "sb \<le> a \<and> a < sb + ss \<and> fi_base ?info \<le> sb \<and> sb + ss \<le> fi_base ?info + fi_size ?info \<and>
      fi_write_align ?info dvd sb \<and> fi_write_align ?info dvd ss"
    if "in_flash ?info a" "stlink_block sl0 a = (sb, ss)" for a sb ss
    using stlink_block_in [OF g _ _ that(2)] that(1) unfolding in_stlink_flash inside_def by (simp add: stlink_info_def)
  show "\<exists>s'. flash_halt_target (stlink_ops lib) sl = (True, s') \<and> ok s' \<and> mem s' = mem sl" if "ok sl" for sl
    using halts that
    by (auto simp: lib_halts_def flash_halt_target_def hw_board_halted_def hw_board_halt_def stlink_ops_def stlink_board_halt_def
        keeps_def split: prod.splits)
  show "stlink_block sl0 x = (sb, ss)" if "in_flash ?info a" "stlink_block sl0 a = (sb, ss)" "sb \<le> x" "x < sb + ss" for a sb ss x
    using stlink_block_same [OF g _ _ that(2-4)] that(1) by (simp add: in_stlink_flash inside_def)
qed (simp_all only: stlink_read_law [OF t g] stlink_write_law [OF t] stlink_erase_law [OF t g])

text \<open>
  C25. On a part of the F2/F4 family, or of the F7 family with up to 1 MB, whose size ends with a sector, and given a
  library that reads, programs and erases the sectors of the reference manual, an update and a patch through the ST-Link
  write exactly their region: every other byte of the flash is kept, both succeed, the bytes read back are those written,
  and a patch with no old image or an accurate one reports its exact cost, counted over the sectors of the part.
\<close>

theorem stlink_flash_exact:
  assumes "stlink_target lib sl0 ok mem" "geometry_ok sl0" "ok sl" "inside sl0 a (length d)" "d \<noteq> []"
    "old = None \<or> old = Some (map (mem sl) [a..<a + length d])"
  shows "(\<exists>sl'. hw_flash_update (stlink_ops lib) sl a d = (True, sl') \<and> ok sl' \<and> mem sl' = upd_range (mem sl) a d) \<and>
    (\<exists>sl'. hw_flash_patch (stlink_ops lib) sl a old d =
        (True, patch_cost 4 (mem sl) a d (doc_block sl0 ` {a..<a + length d}), sl') \<and>
      ok sl' \<and> mem sl' = upd_range (mem sl) a d \<and> fst (stlink_flash_read lib sl' a (length d)) = Some d)"
proof -
  note nor = stlink_nor_blocks [OF assms(1,2)]
  have r: "flash_range_ok (stlink_info sl0) a (length d)" using assms(4,5) by (simp add: range_stlink)
  have len: "length u = length d" if "old = Some u" for u using assms(6) that by auto
  have acc: "accurate (mem sl) a old d" using assms(6) by (auto simp: accurate_def)
  have part: "sectored_part sl0" using assms(1) by (simp add: stlink_target_def)
  have al: "fi_write_align (stlink_info sl0) = 4" using sectored_granularity [OF part] by (simp add: stlink_info_def)
  have blk: "stlink_block sl0 ` {a..<a + length d} = doc_block sl0 ` {a..<a + length d}"
    using assms(4) by (intro image_cong refl stlink_block_doc [OF part]) (auto simp: inside_def)
  obtain sl' where p: "hw_flash_patch (stlink_ops lib) sl a old d =
      (True, patch_cost 4 (mem sl) a d (doc_block sl0 ` {a..<a + length d}), sl')"
    "ok sl'" "mem sl' = upd_range (mem sl) a d"
    using nor_blocks.patch_cost_exact [OF nor assms(3) r len acc] unfolding al blk by blast
  have lib: "lib_reads lib ok mem" "\<And>sl. ok sl \<Longrightarrow> same_geometry sl0 sl" using assms(1) by (simp_all add: stlink_target_def)
  have "map (mem sl') [a..<a + length d] = d" unfolding p(3) by (intro nth_equalityI) (simp_all add: upd_range_def)
  then have "fst (stlink_flash_read lib sl' a (length d)) = Some d"
    using stlink_read_loop_exact [OF lib assms(2,4) p(2) le0] by (auto simp: stlink_flash_read_def)
  with p nor_flash.update_exact [OF nor_blocks.axioms(1) [OF nor] assms(3) r] show ?thesis by blast
qed

text \<open>A library over a plain memory, on an F4 part with 512 KB.\<close>

definition plain_lib :: "(nat \<Rightarrow> byte, unit) libstlink" where
  "plain_lib =
     \<lparr>st_open_usb = None, st_exit_debug_mode = (\<lambda>sl. sl), st_close = (\<lambda>sl. sl), st_force_debug = (\<lambda>sl. (0, sl\<lparr>sl_halted := True\<rparr>)),
      st_write_mem32 = (\<lambda>sl a n. (- 1, sl)), st_write_mem8 = (\<lambda>sl a n. (- 1, sl)),
      st_read_mem32 = (\<lambda>sl a n. (0, sl\<lparr>sl_q_buf := map (sl_lib sl) [a..<a + n]\<rparr>)),
      st_status = (\<lambda>sl. sl), st_run = (\<lambda>sl. (0, sl\<lparr>sl_halted := False\<rparr>)), st_step = (\<lambda>sl. (0, sl)),
      st_read_reg = (\<lambda>sl r. (- 1, [], sl)), st_write_reg = (\<lambda>sl v r. sl), st_reset = (\<lambda>sl. (0, sl)),
      st_loader_zero = (), st_loader_start = (\<lambda>sl f. (0, f, sl)),
      st_loader_write = (\<lambda>sl f a d. (0, f, sl\<lparr>sl_lib := (\<lambda>b. if a \<le> b \<and> b < a + length d then sl_lib sl b AND d ! (b - a) else sl_lib sl b)\<rparr>)),
      st_loader_stop = (\<lambda>sl f. (0, f, sl)),
      st_erase_section = (\<lambda>sl a n. (0, sl\<lparr>sl_lib := (\<lambda>b. if a \<le> b \<and> b < a + n then - 1 else sl_lib sl b)\<rparr>)),
      st_erase_mass = (\<lambda>sl. (0, sl\<lparr>sl_lib := (\<lambda>b. - 1)\<rparr>))\<rparr>"

definition plain_f4 :: "(nat \<Rightarrow> byte) stlink" where
  "plain_f4 =
     \<lparr>sl_flash_type = F2_F4, sl_flash_base = 0x08000000, sl_flash_size = 512 * 1024, sl_flash_pgsz = 16 * 1024,
      sl_q_buf = [], sl_halted = False, sl_lib = (\<lambda>b. 0)\<rparr>"

lemma plain_target: "stlink_target plain_lib plain_f4 (same_geometry plain_f4) sl_lib"
  by (auto simp: stlink_target_def sectored_part_def plain_f4_def lib_reads_def lib_programs_def lib_erases_def lib_halts_def plain_lib_def keeps_def same_geometry_def)

lemma plain_geometry: "geometry_ok plain_f4"
  by (simp add: geometry_ok_def plain_f4_def stlink_write_granularity_def stlink_map_def f2_f4_map_def)

theorem stlink_sectors_partition_witness: "stlink_flash_sector plain_f4 0x08012345 = Some (0x08010000, 64 * 1024)"
proof -
  have "stlink_flash_sector plain_f4 0x08010000 = Some (0x08010000, 64 * 1024)"
    by (simp add: stlink_flash_sector_def stlink_sector_map_def stlink_map_def f2_f4_map_def plain_f4_def Let_def add32_def)
  moreover have "sl_flash_base plain_f4 \<le> 0x08010000 \<and> 0x08010000 < sl_flash_base plain_f4 + sl_flash_size plain_f4"
    by (simp add: plain_f4_def)
  ultimately show ?thesis using stlink_sectors_partition [OF plain_geometry, rule_format, of "0x08010000"] by auto
qed

theorem stlink_flash_exact_witness:
  "\<exists>sl'. hw_flash_update (stlink_ops plain_lib) plain_f4 0x0800FFFF [1, 2] = (True, sl') \<and> sl_lib sl' 0x08010000 = 2"
proof -
  have "inside plain_f4 0x0800FFFF (length [1 :: byte, 2])" by (simp add: inside_def plain_f4_def)
  from stlink_flash_exact [OF plain_target plain_geometry _ this, of plain_f4 None] obtain sl' where
    "hw_flash_update (stlink_ops plain_lib) plain_f4 0x0800FFFF [1, 2] = (True, sl')" "sl_lib sl' = upd_range (sl_lib plain_f4) 0x0800FFFF [1, 2]"
    by (auto simp: same_geometry_def)
  then show ?thesis by (simp add: upd_range_def)
qed

end
