(* ===== verification/Openocd.thy ===== *)
theory Openocd
  imports PyStr ReadWindow
begin

text \<open>
  The OpenOCD backend \<open>backends/openocd/hw_openocd.c\<close>: a TCL channel on which a command ends with the byte \<open>0x1a\<close> and so does
  its reply, and the operations that print commands and parse replies.  The server is an argument: from a command it makes the
  events that will reach the socket.  Sending is all or nothing and memory suffices; text is Latin-1.
\<close>

section \<open>Strings of C\<close>

definition c_string :: "string \<Rightarrow> string" where "c_string s = takeWhile (\<lambda>c. c \<noteq> CHR 0x00) s"

text \<open>\<open>strchr\<close> and \<open>strstr\<close> give the rest of the string from the place found.\<close>

definition strchr :: "string \<Rightarrow> char \<Rightarrow> string option" where
  "strchr s c = (case dropWhile (\<lambda>d. d \<noteq> c) s of [] \<Rightarrow> None | r \<Rightarrow> Some r)"

fun strstr :: "string \<Rightarrow> string \<Rightarrow> string option" where
  "strstr [] p = (if p = [] then Some [] else None)"
| "strstr (c # s) p = (if starts_with (c # s) p then Some (c # s) else strstr s p)"

definition c_isspace :: "char \<Rightarrow> bool" where "c_isspace c \<longleftrightarrow> c = CHR '' '' \<or> between 9 13 c"

definition is_xdigit :: "char \<Rightarrow> bool" where "is_xdigit c \<longleftrightarrow> digit_value 16 c \<noteq> None"

text \<open>The digits of a base: their value and what follows.\<close>

fun scan_digits :: "nat \<Rightarrow> nat \<Rightarrow> string \<Rightarrow> nat \<times> string" where
  "scan_digits b acc [] = (acc, [])"
| "scan_digits b acc (c # s) = (case digit_value b c of Some d \<Rightarrow> scan_digits b (acc * b + d) s | None \<Rightarrow> (acc, c # s))"

text \<open>
  \<open>strtoul\<close> in base 0 or 16, of 64 bits: white space, a sign, the prefix \<open>0x\<close> if a hexadecimal digit follows it; no digit gives 0 and
  consumes nothing, too large a number gives the maximum.
\<close>

definition hex_prefix :: "string \<Rightarrow> bool" where
  "hex_prefix s = (case s of z # x # d # r \<Rightarrow> z = CHR ''0'' \<and> (x = CHR ''x'' \<or> x = CHR ''X'') \<and> is_xdigit d | _ \<Rightarrow> False)"

definition strtoul :: "nat \<Rightarrow> string \<Rightarrow> nat \<times> string" where
  "strtoul base s =
     (let s1 = dropWhile c_isspace s;
          neg = (s1 \<noteq> [] \<and> hd s1 = CHR ''-'');
          s2 = (if s1 \<noteq> [] \<and> (hd s1 = CHR ''-'' \<or> hd s1 = CHR ''+'') then tl s1 else s1);
          b = (if base \<noteq> 0 then base else if hex_prefix s2 then 16 else if s2 \<noteq> [] \<and> hd s2 = CHR ''0'' then 8 else 10);
          s3 = (if b = 16 \<and> hex_prefix s2 then drop 2 s2 else s2)
      in if s3 = [] \<or> digit_value b (hd s3) = None then (0, s)
         else
           (case scan_digits b 0 s3 of
              (v, r) \<Rightarrow> (if 2 ^ 64 \<le> v then 2 ^ 64 - 1 else if neg then (2 ^ 64 - v) mod 2 ^ 64 else v, r)))"

text \<open>The lines \<open>strtok\<close> cuts a reply into: the runs of other characters.\<close>

fun strtok_from :: "string \<Rightarrow> string \<Rightarrow> string list" where
  "strtok_from acc [] = (if acc = [] then [] else [rev acc])"
| "strtok_from acc (c # s) =
     (if c = CHR 0x0D \<or> c = CHR 0x0A then (if acc = [] then [] else [rev acc]) @ strtok_from [] s
      else strtok_from (c # acc) s)"

definition strtok_lines :: "string \<Rightarrow> string list" where "strtok_lines s = strtok_from [] s"

text \<open>\<open>%x\<close> and \<open>%u\<close>.\<close>

definition hexs :: "nat \<Rightarrow> string" where "hexs n = map lower_ch (digits 16 (int n))"

section \<open>The channel\<close>

text \<open>What reaches the socket: data, a receive timeout, or the end of the connection.\<close>

datatype recv_event = Data string | Timeout | Closed

text \<open>
  One \<open>recv\<close> of at most \<open>n\<close> bytes: \<open>None\<close> is an error, the timeout of 200 ms included, which is also what an empty
  queue ends in; the empty string is the end of the connection.
\<close>

fun recv :: "nat \<Rightarrow> recv_event list \<Rightarrow> string option \<times> recv_event list" where
  "recv n [] = (None, [])"
| "recv n (Timeout # es) = (None, es)"
| "recv n (Closed # es) = (Some [], Closed # es)"
| "recv n (Data d # es) =
     (if d = [] then recv n es else if length d \<le> n then (Some d, es) else (Some (take n d), Data (drop n d) # es))"

record 's openocd =
  oc_in :: "recv_event list"
  oc_server :: 's
  oc_bank :: "(nat \<times> nat) option"

text \<open>
  The server, with the file system it shares: the events a command causes, where \<open>None\<close> is a failed \<open>send\<close>, and the temporary
  files through which flash images are handed over, where \<open>None\<close> is a failure of the call.
\<close>

record 's tcl_env =
  tcl_serve :: "'s \<Rightarrow> string \<Rightarrow> (recv_event list \<times> 's) option"
  tcl_mkstemp :: "'s \<Rightarrow> (string \<times> 's) option"
  tcl_write_file :: "'s \<Rightarrow> string \<Rightarrow> byte list \<Rightarrow> bool \<times> 's"
  tcl_unlink :: "'s \<Rightarrow> string \<Rightarrow> 's"

definition TCL_TERMINATOR :: char where "TCL_TERMINATOR = CHR 0x1A"

text \<open>The receive loop of \<open>openocd_tcl_exec\<close>, with its buffer of 1024 bytes.\<close>

function exec_loop :: "recv_event list \<Rightarrow> string \<Rightarrow> string option \<times> recv_event list" where
  "exec_loop es buf =
     (if length buf < 1023 then
        (case recv (1023 - length buf) es of
           (None, es) \<Rightarrow> (None, es)
         | (Some d, es) \<Rightarrow>
             (if d = [] then (None, es)
              else if TCL_TERMINATOR \<in> set (buf @ d) then (Some (buf @ d), es)
              else exec_loop es (buf @ d)))
      else (Some buf, es))"
  by pat_completeness auto
termination by (relation "measure (\<lambda>(es, buf). 1023 - length buf)") (auto simp: diff_less_mono2)

declare exec_loop.simps [simp del]

definition openocd_tcl_exec :: "'s tcl_env \<Rightarrow> 's openocd \<Rightarrow> string \<Rightarrow> nat \<Rightarrow> string option \<times> 's openocd" where
  "openocd_tcl_exec env st cmd response_len =
     (case tcl_serve env (oc_server st) cmd of
        None \<Rightarrow> (None, st)
      | Some (evs, srv) \<Rightarrow>
          (case exec_loop (oc_in st @ evs) [] of
             (r, es) \<Rightarrow>
               (map_option (\<lambda>buf. take (response_len - 1) (c_string (takeWhile (\<lambda>c. c \<noteq> TCL_TERMINATOR) buf))) r,
                st\<lparr>oc_in := es, oc_server := srv\<rparr>)))"

text \<open>The loop of \<open>openocd_tcl_exec_alloc\<close>, whose buffer grows; it ends as there is only so much to receive.\<close>

fun pending :: "recv_event list \<Rightarrow> nat" where
  "pending [] = 0"
| "pending (Data d # es) = length d + pending es"
| "pending (e # es) = pending es"

lemma recv_pending: "recv n es = (Some d, es') \<Longrightarrow> d \<noteq> [] \<Longrightarrow> pending es' < pending es"
  by (induction n es rule: recv.induct) (auto split: if_splits)

function alloc_loop :: "recv_event list \<Rightarrow> string \<Rightarrow> nat \<Rightarrow> string option \<times> recv_event list" where
  "alloc_loop es buf cap0 =
     (let cap = (if cap0 \<le> length buf + 1 then cap0 * 2 else cap0)
      in case recv (cap - length buf - 1) es of
           (None, es) \<Rightarrow> (None, es)
         | (Some d, es) \<Rightarrow>
             (if d = [] then (None, es)
              else if TCL_TERMINATOR \<in> set (buf @ d) then (Some (takeWhile (\<lambda>c. c \<noteq> TCL_TERMINATOR) (buf @ d)), es)
              else alloc_loop es (buf @ d) cap))"
  by pat_completeness auto
termination by (relation "measure (\<lambda>(es, buf, cap). pending es)") (auto dest: recv_pending [OF sym])

declare alloc_loop.simps [simp del]

definition openocd_tcl_exec_alloc :: "'s tcl_env \<Rightarrow> 's openocd \<Rightarrow> string \<Rightarrow> string option \<times> 's openocd" where
  "openocd_tcl_exec_alloc env st cmd =
     (case tcl_serve env (oc_server st) cmd of
        None \<Rightarrow> (None, st)
      | Some (evs, srv) \<Rightarrow>
          (case alloc_loop (oc_in st @ evs) [] 4096 of
             (r, es) \<Rightarrow> (map_option c_string r, st\<lparr>oc_in := es, oc_server := srv\<rparr>)))"

section \<open>Operations\<close>

text \<open>A command of which only the arrival of a reply matters.\<close>

definition exec_ok :: "'s tcl_env \<Rightarrow> 's openocd \<Rightarrow> string \<Rightarrow> nat \<Rightarrow> bool \<times> 's openocd" where
  "exec_ok env st cmd n = (case openocd_tcl_exec env st cmd n of (r, st) \<Rightarrow> (r \<noteq> None, st))"

definition openocd_connect :: "'s tcl_env \<Rightarrow> 's \<Rightarrow> 's openocd option" where
  "openocd_connect env srv =
     (case exec_ok env \<lparr>oc_in = [], oc_server = srv, oc_bank = None\<rparr> ''halt'' 256 of (ok, st) \<Rightarrow> if ok then Some st else None)"

definition openocd_close :: "'s tcl_env \<Rightarrow> 's openocd \<Rightarrow> 's" where
  "openocd_close env st = oc_server (snd (exec_ok env st ''resume'' 16))"

definition openocd_write32 :: "'s tcl_env \<Rightarrow> 's openocd \<Rightarrow> nat \<Rightarrow> nat \<Rightarrow> bool \<times> 's openocd" where
  "openocd_write32 env st addr v = exec_ok env st (''mww 0x'' @ hexs addr @ '' 0x'' @ hexs v) 128"

definition openocd_read32 :: "'s tcl_env \<Rightarrow> 's openocd \<Rightarrow> nat \<Rightarrow> nat option \<times> 's openocd" where
  "openocd_read32 env st addr =
     (case openocd_tcl_exec env st (''mrw 0x'' @ hexs addr) 128 of
        (r, st) \<Rightarrow> (map_option (\<lambda>reply. fst (strtoul 0 reply) mod 2 ^ 32) r, st))"

definition openocd_write8 :: "'s tcl_env \<Rightarrow> 's openocd \<Rightarrow> nat \<Rightarrow> byte \<Rightarrow> bool \<times> 's openocd" where
  "openocd_write8 env st addr v = exec_ok env st (''mwb 0x'' @ hexs addr @ '' 0x'' @ hexs (unat v)) 128"

definition openocd_read8 :: "'s tcl_env \<Rightarrow> 's openocd \<Rightarrow> nat \<Rightarrow> byte option \<times> 's openocd" where
  "openocd_read8 env st addr =
     (case openocd_tcl_exec env st (''mrb 0x'' @ hexs addr) 128 of
        (r, st) \<Rightarrow> (map_option (\<lambda>reply. word_of_nat (fst (strtoul 0 reply))) r, st))"

definition openocd_board_run :: "'s tcl_env \<Rightarrow> 's openocd \<Rightarrow> bool \<times> 's openocd" where
  "openocd_board_run env st = exec_ok env st ''resume'' 128"

definition openocd_board_halted :: "'s tcl_env \<Rightarrow> 's openocd \<Rightarrow> bool \<times> 's openocd" where
  "openocd_board_halted env st =
     (case openocd_tcl_exec env st ''targets'' 256 of
        (None, st) \<Rightarrow> (False, st) | (Some reply, st) \<Rightarrow> (strstr reply ''halted'' \<noteq> None, st))"

text \<open>The wait for a halt goes on as long as the server answers something else: \<open>None\<close> is a wait without end.\<close>

partial_function (option) block_until_halted :: "'s tcl_env \<Rightarrow> 's openocd \<Rightarrow> 's openocd option" where
  "block_until_halted env st =
     (case openocd_tcl_exec env st ''targets'' 256 of
        (None, st) \<Rightarrow> Some st
      | (Some reply, st) \<Rightarrow> (if strstr reply ''halted'' \<noteq> None then Some st else block_until_halted env st))"

definition reg_value :: "string \<Rightarrow> nat" where
  "reg_value reply =
     (case strchr reply (CHR '':'') of None \<Rightarrow> 0 | Some p \<Rightarrow> fst (strtoul 0 (dropWhile (\<lambda>c. c = CHR '' '') (tl p))))"

definition openocd_read_reg :: "'s tcl_env \<Rightarrow> 's openocd \<Rightarrow> int \<Rightarrow> (nat \<times> 's openocd) option" where
  "openocd_read_reg env st reg =
     (case block_until_halted env (snd (openocd_tcl_exec env st ''halt'' 128)) of
        None \<Rightarrow> None
      | Some st \<Rightarrow>
          (case openocd_tcl_exec env st (''reg '' @ str_int reg) 128 of
             (None, st) \<Rightarrow> Some (0, st) | (Some reply, st) \<Rightarrow> Some (reg_value reply, st)))"

definition openocd_write_reg :: "'s tcl_env \<Rightarrow> 's openocd \<Rightarrow> int \<Rightarrow> nat \<Rightarrow> 's openocd option" where
  "openocd_write_reg env st reg v =
     map_option (\<lambda>st. snd (openocd_tcl_exec env st (''reg '' @ str_int reg @ '' 0x'' @ hexs v) 128))
       (block_until_halted env (snd (openocd_tcl_exec env st ''halt'' 128)))"

text \<open>Failure is read off the text of a reply.\<close>

definition c_tolower :: "char \<Rightarrow> char" where
  "c_tolower c = (if between 65 90 c then char_of (cp c + 32) else c)"

definition failure_markers :: "string list" where
  "failure_markers = [''error'', ''fail'', ''invalid'', ''not found'']"

fun openocd_reply_failed :: "string \<Rightarrow> bool" where
  "openocd_reply_failed [] = False"
| "openocd_reply_failed (c # s) =
     (list_ex (starts_with (map c_tolower (c # s))) failure_markers \<or> openocd_reply_failed s)"

text \<open>A command whose reply is searched for a failure.\<close>

definition exec_checked :: "'s tcl_env \<Rightarrow> 's openocd \<Rightarrow> string \<Rightarrow> nat \<Rightarrow> bool \<times> 's openocd" where
  "exec_checked env st cmd n =
     (case openocd_tcl_exec env st cmd n of
        (None, st) \<Rightarrow> (False, st) | (Some reply, st) \<Rightarrow> (\<not> openocd_reply_failed reply, st))"

definition openocd_board_reset :: "'s tcl_env \<Rightarrow> 's openocd \<Rightarrow> (bool \<times> 's openocd) option" where
  "openocd_board_reset env st =
     (case exec_checked env st ''reset halt'' 256 of
        (False, st) \<Rightarrow> Some (False, st) | (True, st) \<Rightarrow> map_option (Pair True) (block_until_halted env st))"

section \<open>Flash\<close>

definition parse_bank :: "string \<Rightarrow> (nat \<times> nat) option" where
  "parse_bank reply =
     (case (strstr reply '' at 0x'', strstr reply ''size 0x'') of
        (Some at, Some sz_at) \<Rightarrow>
          (let base = fst (strtoul 0 (drop 4 at)) mod 2 ^ 32; sz = fst (strtoul 0 (drop 5 sz_at)) mod 2 ^ 32
           in if sz = 0 then None else Some (base, sz))
      | _ \<Rightarrow> None)"

definition openocd_flash_bank :: "'s tcl_env \<Rightarrow> 's openocd \<Rightarrow> (nat \<times> nat) option \<times> 's openocd" where
  "openocd_flash_bank env st =
     (case oc_bank st of
        Some b \<Rightarrow> (Some b, st)
      | None \<Rightarrow>
          (case openocd_tcl_exec_alloc env st ''flash banks'' of
             (None, st) \<Rightarrow> (None, st)
           | (Some reply, st) \<Rightarrow> (parse_bank reply, st\<lparr>oc_bank := parse_bank reply\<rparr>)))"

text \<open>The offset and the size of a sector line; a line that is none, such as the header of the bank, has no value.\<close>

definition sector_line :: "string \<Rightarrow> (nat \<times> nat) option" where
  "sector_line line =
     (case (strchr line (CHR '':''), strchr line (CHR ''#'')) of
        (Some colon, Some h) \<Rightarrow>
          (case strstr colon ''0x'' of
             None \<Rightarrow> None
           | Some off \<Rightarrow>
               (case strchr off (CHR ''('') of
                  None \<Rightarrow> None
                | Some paren \<Rightarrow>
                    (case strstr paren ''0x'' of
                       None \<Rightarrow> None
                     | Some sz \<Rightarrow>
                         (let z = fst (strtoul 0 sz) mod 2 ^ 32
                          in if z = 0 then None else Some (fst (strtoul 0 off) mod 2 ^ 32, z)))))
      | _ \<Rightarrow> None)"

fun covering_sector :: "nat \<Rightarrow> string list \<Rightarrow> (nat \<times> nat) option" where
  "covering_sector x [] = None"
| "covering_sector x (l # ls) =
     (case sector_line l of
        Some (off, z) \<Rightarrow> (if off \<le> x \<and> x - off < z then Some (off, z) else covering_sector x ls)
      | None \<Rightarrow> covering_sector x ls)"

definition openocd_flash_sector :: "'s tcl_env \<Rightarrow> 's openocd \<Rightarrow> nat \<Rightarrow> (nat \<times> nat) option \<times> 's openocd" where
  "openocd_flash_sector env st addr =
     (case openocd_flash_bank env st of
        (None, st) \<Rightarrow> (None, st)
      | (Some (base, bank), st) \<Rightarrow>
          (if addr < base \<or> bank \<le> addr - base then (None, st)
           else
             (case openocd_tcl_exec_alloc env st ''flash info 0'' of
                (None, st) \<Rightarrow> (None, st)
              | (Some reply, st) \<Rightarrow>
                  (map_option (\<lambda>(off, z). (add32 base off, z)) (covering_sector (addr - base) (strtok_lines reply)), st))))"

definition openocd_flash_info :: "'s tcl_env \<Rightarrow> 's openocd \<Rightarrow> flash_info option \<times> 's openocd" where
  "openocd_flash_info env st =
     (case openocd_flash_bank env st of
        (None, st) \<Rightarrow> (None, st)
      | (Some (base, bank), st) \<Rightarrow>
          (case openocd_flash_sector env st base of
             (None, st) \<Rightarrow> (None, st)
           | (Some (sb, ss), st) \<Rightarrow> (Some \<lparr>fi_base = base, fi_size = bank, fi_page_size = ss, fi_write_align = ss\<rparr>, st)))"

text \<open>The words of a reply to \<open>mdw\<close>: after the colon of each line, separated by blanks, until there are enough.\<close>

fun line_words :: "nat \<Rightarrow> string \<Rightarrow> nat list" where
  "line_words 0 p = []"
| "line_words (Suc n) p =
     (let q = dropWhile (\<lambda>c. c = CHR '' '' \<or> c = CHR 0x09) p
      in if q = [] \<or> \<not> is_xdigit (hd q) then []
         else (case strtoul 16 q of (w, q) \<Rightarrow> w mod 2 ^ 32 # line_words n q))"

fun reply_words :: "nat \<Rightarrow> string list \<Rightarrow> nat list" where
  "reply_words n [] = []"
| "reply_words n (l # ls) =
     (if n = 0 then []
      else
        (case strchr l (CHR '':'') of
           None \<Rightarrow> reply_words n ls
         | Some p \<Rightarrow> (let ws = line_words n (tl p) in ws @ reply_words (n - length ws) ls)))"

definition OPENOCD_READ_WORDS :: nat where "OPENOCD_READ_WORDS = 256"

function openocd_read_loop ::
  "'s tcl_env \<Rightarrow> nat \<Rightarrow> nat \<Rightarrow> nat \<Rightarrow> 's openocd \<Rightarrow> byte list option \<times> 's openocd" where
  "openocd_read_loop env addr len k st =
     (if k < len then
        (case read_window (OPENOCD_READ_WORDS * 4) addr len k of
           (a, skip, chunk) \<Rightarrow>
             (case openocd_tcl_exec_alloc env st (''mdw 0x'' @ hexs a @ '' '' @ str_nat (chunk div 4)) of
                (None, st) \<Rightarrow> (None, st)
              | (Some reply, st) \<Rightarrow>
                  (let ws = reply_words (chunk div 4) (strtok_lines reply)
                   in if length ws < chunk div 4 then (None, st)
                      else
                        (let copy = min (chunk - skip) (len - k); part = take copy (drop skip (concat (map word_bytes ws)))
                         in case openocd_read_loop env addr len (k + copy) st of
                              (r, st) \<Rightarrow> (map_option ((@) part) r, st)))))
      else (Some [], st))"
  by pat_completeness auto
termination
  by (relation "measure (\<lambda>(env, addr, len, k, st). len - k)")
    (auto simp: diff_less_mono2 OPENOCD_READ_WORDS_def dest!: read_window_grows [OF sym])

declare openocd_read_loop.simps [simp del]

definition openocd_flash_read :: "'s tcl_env \<Rightarrow> 's openocd \<Rightarrow> nat \<Rightarrow> nat \<Rightarrow> byte list option \<times> 's openocd" where
  "openocd_flash_read env st addr len = openocd_read_loop env addr len 0 st"

text \<open>The image goes through a temporary file, which is removed on every way out.\<close>

definition openocd_flash_write :: "'s tcl_env \<Rightarrow> 's openocd \<Rightarrow> nat \<Rightarrow> byte list \<Rightarrow> bool \<times> 's openocd" where
  "openocd_flash_write env st addr buf =
     (if buf = [] then (True, st)
      else
        (case tcl_mkstemp env (oc_server st) of
           None \<Rightarrow> (False, st)
         | Some (path, srv) \<Rightarrow>
             (case tcl_write_file env srv path buf of
                (written, srv) \<Rightarrow>
                  (case (if written
                         then exec_checked env (st\<lparr>oc_server := srv\<rparr>) (''flash write_image '' @ path @ '' 0x'' @ hexs addr @ '' bin'') 512
                         else (False, st\<lparr>oc_server := srv\<rparr>)) of
                     (ok, st) \<Rightarrow> (ok, st\<lparr>oc_server := tcl_unlink env (oc_server st) path\<rparr>)))))"

definition openocd_flash_erase :: "'s tcl_env \<Rightarrow> 's openocd \<Rightarrow> nat \<Rightarrow> nat \<Rightarrow> bool \<times> 's openocd" where
  "openocd_flash_erase env st addr len =
     (if len = 0 then (True, st)
      else exec_checked env st (''flash erase_address 0x'' @ hexs addr @ '' '' @ str_nat len) 512)"

definition openocd_mass_erase :: "'s tcl_env \<Rightarrow> 's openocd \<Rightarrow> bool \<times> 's openocd" where
  "openocd_mass_erase env st = exec_checked env st ''flash erase_sector 0 0 last'' 512"

end
