(* ===== verification/OpenocdSpec.thy ===== *)
theory OpenocdSpec
  imports Openocd
begin

text \<open>
  The TCL channel of the OpenOCD backend: replies arrive whole however they are cut up, bulk reads return the memory, sectors are found in
  the listing of the server; and what happens when a reply comes late or is an error message.
\<close>

section \<open>The channel in step\<close>

text \<open>A reply that arrives in pieces, cut anywhere.\<close>

definition delivers :: "recv_event list \<Rightarrow> string \<Rightarrow> bool" where
  "delivers evs text \<longleftrightarrow> TCL_TERMINATOR \<notin> set text \<and> CHR 0x00 \<notin> set text \<and>
     (\<exists>frags. evs = map Data frags \<and> [] \<notin> set frags \<and> concat frags = text @ [TCL_TERMINATOR])"

lemma recv_piece:
  assumes "[] \<notin> set frags" "concat frags \<noteq> []" "0 < n"
  obtains d rest where "recv n (map Data frags @ es) = (Some d, map Data rest @ es)" "d \<noteq> []" "length d \<le> n"
    "concat frags = d @ concat rest" "[] \<notin> set rest"
proof (cases frags)
  case Nil
  with assms show thesis by simp
next
  case (Cons f fs)
  show thesis
  proof (cases "length f \<le> n")
    case True
    with Cons assms show thesis by (intro that [of f fs]) auto
  next
    case False
    then have "concat frags = take n f @ concat (drop n f # fs)" using Cons by simp
    with False Cons assms show thesis by (intro that [of "take n f" "drop n f # fs"]) auto
  qed
qed

text \<open>The last piece: the terminator comes once, at the end.\<close>

lemma last_piece:
  assumes "buf @ d @ r = text @ [t]" "t \<notin> set text"
  shows "t \<in> set (buf @ d) \<longleftrightarrow> r = []" and "r = [] \<Longrightarrow> buf @ d = text @ [t]"
proof -
  show "r = [] \<Longrightarrow> buf @ d = text @ [t]" using assms(1) by simp
  show "t \<in> set (buf @ d) \<longleftrightarrow> r = []"
  proof (cases r rule: rev_cases)
    case Nil
    with assms(1) have "buf @ d = text @ [t]" by simp
    then have "t \<in> set (buf @ d)" by (metis in_set_conv_decomp)
    with Nil show ?thesis by simp
  next
    case (snoc r' x)
    then have "buf @ d @ r' = text" using assms(1) by (metis append_assoc butlast_snoc)
    with assms(2) snoc show ?thesis by auto
  qed
qed

lemma terminator_left:
  assumes "buf @ concat frags = text @ [t]" "t \<notin> set buf" shows "concat frags \<noteq> []"
  using assms by (metis append_Nil2 in_set_conv_decomp)

lemma exec_loop_exact:
  assumes "buf @ concat frags = text @ [TCL_TERMINATOR]" "TCL_TERMINATOR \<notin> set text" "TCL_TERMINATOR \<notin> set buf"
    "[] \<notin> set frags" "length text < 1023"
  shows "exec_loop (map Data frags @ es) buf = (Some (text @ [TCL_TERMINATOR]), es)"
  using assms
proof (induction "length (concat frags)" arbitrary: frags buf rule: less_induct)
  case less
  note ne = terminator_left [OF less.prems(1,3)]
  have "length buf + length (concat frags) = length text + 1" using less.prems(1) by (metis length_append length_append_singleton Suc_eq_plus1)
  then have lt: "length buf < 1023" using less.prems(5) ne by (cases "concat frags") auto
  then have pos: "0 < 1023 - length buf" by simp
  obtain d rest where r: "recv (1023 - length buf) (map Data frags @ es) = (Some d, map Data rest @ es)" "d \<noteq> []"
    "length d \<le> 1023 - length buf" "concat frags = d @ concat rest" "[] \<notin> set rest"
    by (rule recv_piece [OF less.prems(4) ne pos, of es])
  have eq: "buf @ d @ concat rest = text @ [TCL_TERMINATOR]" using less.prems(1) r(4) by simp
  note lp = last_piece [OF eq less.prems(2)]
  show ?case
  proof (cases "concat rest = []")
    case True
    then have "rest = []" using r(5) by (cases rest) auto
    with True lp lt r(1,2) show ?thesis by (subst exec_loop.simps) simp
  next
    case False
    have "length (concat rest) < length (concat frags)" "(buf @ d) @ concat rest = text @ [TCL_TERMINATOR]" using r(2,4) eq by simp_all
    moreover have no: "TCL_TERMINATOR \<notin> set (buf @ d)" using lp(1) False by blast
    ultimately have "exec_loop (map Data rest @ es) (buf @ d) = (Some (text @ [TCL_TERMINATOR]), es)"
      using less.hyps less.prems(2,5) r(5) by blast
    with no lt r(1,2) show ?thesis by (subst exec_loop.simps) simp
  qed
qed

lemma alloc_loop_exact:
  assumes "buf @ concat frags = text @ [TCL_TERMINATOR]" "TCL_TERMINATOR \<notin> set text" "TCL_TERMINATOR \<notin> set buf"
    "[] \<notin> set frags" "length buf < cap"
  shows "alloc_loop (map Data frags @ es) buf cap = (Some text, es)"
  using assms
proof (induction "length (concat frags)" arbitrary: frags buf cap rule: less_induct)
  case less
  note ne = terminator_left [OF less.prems(1,3)]
  define cap' where "cap' = (if cap \<le> length buf + 1 then cap * 2 else cap)"
  have pos: "0 < cap' - length buf - 1" using less.prems(5) by (simp add: cap'_def)
  obtain d rest where r: "recv (cap' - length buf - 1) (map Data frags @ es) = (Some d, map Data rest @ es)" "d \<noteq> []"
    "length d \<le> cap' - length buf - 1" "concat frags = d @ concat rest" "[] \<notin> set rest"
    by (rule recv_piece [OF less.prems(4) ne pos, of es])
  have eq: "buf @ d @ concat rest = text @ [TCL_TERMINATOR]" using less.prems(1) r(4) by simp
  note lp = last_piece [OF eq less.prems(2)]
  have step: "alloc_loop (map Data frags @ es) buf cap =
      (if TCL_TERMINATOR \<in> set (buf @ d) then (Some (takeWhile (\<lambda>c. c \<noteq> TCL_TERMINATOR) (buf @ d)), map Data rest @ es)
       else alloc_loop (map Data rest @ es) (buf @ d) cap')"
    using r(2) by (subst alloc_loop.simps) (simp only: Let_def cap'_def [symmetric] r(1) prod.case option.case if_False)
  show ?case
  proof (cases "concat rest = []")
    case True
    then have "rest = []" using r(5) by (cases rest) auto
    moreover have "takeWhile (\<lambda>c. c \<noteq> TCL_TERMINATOR) (text @ [TCL_TERMINATOR]) = text"
      using less.prems(2) by (subst takeWhile_append2) auto
    ultimately show ?thesis using True lp r(2) by (simp add: step)
  next
    case False
    have "length (concat rest) < length (concat frags)" "(buf @ d) @ concat rest = text @ [TCL_TERMINATOR]" using r(2,4) eq by simp_all
    moreover have no: "TCL_TERMINATOR \<notin> set (buf @ d)" using lp(1) False by blast
    moreover have "length (buf @ d) < cap'" using r(3) pos by simp
    ultimately have "alloc_loop (map Data rest @ es) (buf @ d) cap' = (Some text, es)"
      using less.hyps less.prems(2) r(5) by blast
    with no show ?thesis by (simp only: step if_False)
  qed
qed

lemma c_string_id: "CHR 0x00 \<notin> set s \<Longrightarrow> c_string s = s"
  by (auto simp: c_string_def takeWhile_eq_all_conv)

text \<open>
  However a reply is cut up, a command that finds the channel empty gets exactly that reply, up to the room of the caller, and leaves the
  channel empty; what follows the reply stays.
\<close>

lemma tcl_exec_exact:
  assumes "oc_in st @ evs = evs1 @ es" "delivers evs1 text" "tcl_serve env (oc_server st) cmd = Some (evs, srv)" "length text < 1023"
  shows "openocd_tcl_exec env st cmd n = (Some (take (n - 1) text), st\<lparr>oc_in := es, oc_server := srv\<rparr>)"
proof -
  obtain frags where f: "evs1 = map Data frags" "[] \<notin> set frags" "concat frags = text @ [TCL_TERMINATOR]"
    and t: "TCL_TERMINATOR \<notin> set text" "CHR 0x00 \<notin> set text" using assms(2) by (auto simp: delivers_def)
  have "exec_loop (oc_in st @ evs) [] = (Some (text @ [TCL_TERMINATOR]), es)"
    unfolding assms(1) f(1) by (rule exec_loop_exact) (use f t assms(4) in auto)
  moreover have "takeWhile (\<lambda>c. c \<noteq> TCL_TERMINATOR) (text @ [TCL_TERMINATOR]) = text" using t(1) by (subst takeWhile_append2) auto
  ultimately show ?thesis using assms(3) t(2) by (simp add: openocd_tcl_exec_def c_string_id)
qed

lemma tcl_exec_alloc_exact:
  assumes "oc_in st @ evs = evs1 @ es" "delivers evs1 text" "tcl_serve env (oc_server st) cmd = Some (evs, srv)"
  shows "openocd_tcl_exec_alloc env st cmd = (Some text, st\<lparr>oc_in := es, oc_server := srv\<rparr>)"
proof -
  obtain frags where f: "evs1 = map Data frags" "[] \<notin> set frags" "concat frags = text @ [TCL_TERMINATOR]"
    and t: "TCL_TERMINATOR \<notin> set text" "CHR 0x00 \<notin> set text" using assms(2) by (auto simp: delivers_def)
  have "alloc_loop (oc_in st @ evs) [] 4096 = (Some text, es)"
    unfolding assms(1) f(1) by (rule alloc_loop_exact) (use f t in auto)
  with assms(3) t(2) show ?thesis by (simp add: openocd_tcl_exec_alloc_def c_string_id)
qed

section \<open>Reading what was printed\<close>

definition hex_char :: "nat \<Rightarrow> char" where "hex_char d = lower_ch (digit_char d)"

lemma hex_char_value:
  assumes "d < 16" shows "digit_value 16 (hex_char d) = Some d"
proof -
  have "\<forall>e \<in> set [0..<16]. digit_value 16 (hex_char e) = Some e" by code_simp
  with assms show ?thesis by simp
qed

lemma hex_char_xdigit: "d < 16 \<Longrightarrow> is_xdigit (hex_char d)"
  by (simp add: is_xdigit_def hex_char_value)

text \<open>The digits of a number are its value; the characters that end them.\<close>

definition ends_number :: "nat \<Rightarrow> string \<Rightarrow> bool" where
  "ends_number b r \<longleftrightarrow> r = [] \<or> digit_value b (hd r) = None"

lemma scan_digits_end: "ends_number b r \<Longrightarrow> scan_digits b acc r = (acc, r)"
  by (cases r) (auto simp: ends_number_def)

lemma scan_digits_map:
  assumes "\<forall>d \<in> set ds. digit_value b (f d) = Some d" "ends_number b r"
  shows "scan_digits b acc (map f ds @ r) = (foldl (\<lambda>a d. a * b + d) acc ds, r)"
  using assms(1) by (induction ds arbitrary: acc) (simp_all add: scan_digits_end [OF assms(2)])

lemma foldl_zeros: "foldl (\<lambda>a d. a * b + d) 0 (replicate k 0 @ ds) = foldl (\<lambda>a d. a * b + d) (0::nat) ds"
  by (induction k) simp_all

lemma foldl_digits_nat:
  assumes "2 \<le> b" shows "foldl (\<lambda>a d. a * b + d) 0 (rev (digits_rev b (int n))) = n"
proof -
  have "int (foldl (\<lambda>a d. a * b + d) acc ds) = foldl (\<lambda>a d. a * int b + int d) (int acc) ds" for acc ds
    by (induction ds arbitrary: acc) simp_all
  from this [of 0 "rev (digits_rev b (int n))"] have "int (foldl (\<lambda>a d. a * b + d) 0 (rev (digits_rev b (int n)))) = int n"
    using assms by (simp add: foldl_digits digits_rev_value)
  then show ?thesis by (simp only: of_nat_eq_iff)
qed

text \<open>\<open>strtoul\<close> on digits that no sign, blank or prefix comes before.\<close>

lemma is_xdigit_not:
  "\<not> is_xdigit (CHR '' '')" "\<not> is_xdigit (CHR 0x09)" "\<not> is_xdigit (CHR 0x0A)" "\<not> is_xdigit (CHR 0x0D)" "\<not> is_xdigit (CHR ''-'')"
  "\<not> is_xdigit (CHR ''+'')" "\<not> is_xdigit (CHR ''x'')" "\<not> is_xdigit (CHR ''X'')" "\<not> is_xdigit (CHR '':'')" "\<not> is_xdigit (CHR ''('')"
  "\<not> is_xdigit (CHR 0x1A)" "\<not> is_xdigit (CHR 0x00)"
  by code_simp+

lemma is_xdigit_not_space: "is_xdigit c \<Longrightarrow> \<not> c_isspace c"
proof -
  have "\<forall>n \<in> set [9..13]. \<not> is_xdigit (char_of n)" by code_simp
  then have "\<not> is_xdigit c" if "between 9 13 c"
    using that by (metis between_def atLeastAtMost_iff char_of_cp set_upto)
  then show "is_xdigit c \<Longrightarrow> \<not> c_isspace c" using is_xdigit_not(1) by (auto simp: c_isspace_def)
qed

lemma digit_value_le: "digit_value b c = Some d \<Longrightarrow> b \<le> 16 \<Longrightarrow> is_xdigit c"
  by (auto simp: is_xdigit_def digit_value_def Let_def split: if_splits)

lemma strtoul_plain:
  assumes "s \<noteq> []" "digit_value b (hd s) \<noteq> None" "b \<le> 16" "0 < b" "b = 16 \<longrightarrow> \<not> hex_prefix s"
    and "scan_digits b 0 s = (v, r)" "v < 2 ^ 64"
  shows "strtoul b s = (v, r)"
proof -
  obtain c s' where s: "s = c # s'" using assms(1) by (cases s) auto
  have x: "is_xdigit c" using assms(2,3) digit_value_le by (auto simp: s)
  then have d: "dropWhile c_isspace s = s" using is_xdigit_not_space by (simp add: s)
  have "c \<noteq> CHR ''-''" "c \<noteq> CHR ''+''" using x is_xdigit_not by blast+
  then have sign: "(s \<noteq> [] \<and> hd s = CHR ''-'') = False" "(s \<noteq> [] \<and> (hd s = CHR ''-'' \<or> hd s = CHR ''+'')) = False"
    by (simp_all add: s)
  have "(b = 16 \<and> hex_prefix s) = False" "(b \<noteq> 0) = True" "(2 ^ 64 \<le> v) = False" "(s = [] \<or> digit_value b (hd s) = None) = False"
    using assms by simp_all
  then show ?thesis unfolding strtoul_def Let_def d by (simp only: sign if_False if_True assms(6) prod.case)
qed

text \<open>A word of \<open>mdw\<close>: eight digits.\<close>

definition hex8 :: "nat \<Rightarrow> string" where "hex8 w = map lower_ch (zfill 8 (digits 16 (int w)))"

lemma hex8_chars: obtains ds where "hex8 w = map hex_char ds" "\<forall>d \<in> set ds. d < 16" "8 \<le> length ds" "foldl (\<lambda>a d. a * 16 + d) 0 ds = w"
proof -
  let ?r = "rev (digits_rev 16 (int w))"
  let ?ds = "replicate (8 - length ?r) 0 @ ?r"
  have z: "hex_char 0 = CHR ''0''" "lower_ch (CHR ''0'') = CHR ''0''" by code_simp+
  have "hex8 w = map hex_char ?ds"
    by (simp add: hex8_def zfill_def digits_def map_replicate z(2) z(1) [unfolded hex_char_def] hex_char_def)
  moreover have "\<forall>d \<in> set ?ds. d < 16" using digits_rev_bound [of 16 "int w"] by auto
  moreover have "foldl (\<lambda>a d. a * 16 + d) 0 ?ds = w"
    using foldl_digits_nat [of 16 w] by (simp only: foldl_zeros)
  ultimately show thesis using that [of ?ds] by simp
qed

lemma hex8_xdigit: "c \<in> set (hex8 w) \<Longrightarrow> is_xdigit c"
  using hex8_chars [of w] hex_char_xdigit by (metis (no_types, lifting) imageE list.set_map)

lemma hexs_chars: obtains ds where "hexs w = map hex_char ds" "\<forall>d \<in> set ds. d < 16" "ds \<noteq> []" "foldl (\<lambda>a d. a * 16 + d) 0 ds = w"
proof -
  let ?ds = "rev (digits_rev 16 (int w))"
  have "hexs w = map hex_char ?ds" by (simp add: hexs_def digits_def hex_char_def)
  moreover have "\<forall>d \<in> set ?ds. d < 16" using digits_rev_bound [of 16 "int w"] by auto
  ultimately show thesis using that [of ?ds] foldl_digits_nat [of 16 w] by simp
qed

text \<open>Hexadecimal digits up to a character that is neither one of them nor an x, with and without the prefix.\<close>

definition ends_hex :: "string \<Rightarrow> bool" where
  "ends_hex r \<longleftrightarrow> r = [] \<or> \<not> is_xdigit (hd r) \<and> hd r \<noteq> CHR ''x'' \<and> hd r \<noteq> CHR ''X''"

lemma not_prefix: "ds \<noteq> [] \<Longrightarrow> \<forall>d \<in> set ds. d < 16 \<Longrightarrow> ends_hex r \<Longrightarrow> \<not> hex_prefix (map hex_char ds @ r)"
proof -
  assume h: "ds \<noteq> []" "\<forall>d \<in> set ds. d < 16" "ends_hex r"
  then obtain d0 ds' where d: "ds = d0 # ds'" by (cases ds) auto
  show ?thesis
  proof (cases ds')
    case Nil
    with h(3) d show ?thesis by (auto simp: hex_prefix_def ends_hex_def split: list.splits)
  next
    case (Cons d1 ds'')
    with h(2) d have "hex_char d1 \<noteq> CHR ''x''" "hex_char d1 \<noteq> CHR ''X''" using hex_char_xdigit [of d1] is_xdigit_not by auto
    with d Cons show ?thesis by (auto simp: hex_prefix_def split: list.splits)
  qed
qed

lemma strtoul_0x:
  assumes "strtoul 16 s = (v, r)" "s \<noteq> []" "is_xdigit (hd s)" "\<not> hex_prefix s"
  shows "fst (strtoul 0 (''0x'' @ s)) = v"
proof -
  obtain c s' where s: "s = c # s'" using assms(2) by (cases s) auto
  have c: "\<not> c_isspace c" "c \<noteq> CHR ''-''" "c \<noteq> CHR ''+''" "digit_value 16 c \<noteq> None"
    using assms(3) is_xdigit_not_space is_xdigit_not by (auto simp: s is_xdigit_def)
  have zero: "\<not> c_isspace (CHR ''0'')" by code_simp
  have p: "hex_prefix (''0x'' @ s)" using assms(3) by (simp add: hex_prefix_def s)
  have d: "dropWhile c_isspace (''0x'' @ s) = ''0x'' @ s" "dropWhile c_isspace s = s" using zero c(1) by (simp_all add: s)
  have n: "(s \<noteq> [] \<and> hd s = CHR ''-'') = False" "(''0x'' @ s \<noteq> [] \<and> hd (''0x'' @ s) = CHR ''-'') = False" using c by (simp_all add: s)
  have "fst (strtoul 16 s) = fst (strtoul 0 (''0x'' @ s))"
    unfolding strtoul_def Let_def d n using p assms(4) c by (simp add: s)
  with assms(1) show ?thesis by simp
qed

lemma strtoul_hex:
  assumes "ds \<noteq> []" "\<forall>d \<in> set ds. d < 16" "ends_hex r" "foldl (\<lambda>a d. a * 16 + d) 0 ds = v" "v < 2 ^ 64"
  shows "strtoul 16 (map hex_char ds @ r) = (v, r)" "fst (strtoul 0 (''0x'' @ map hex_char ds @ r)) = v"
proof -
  obtain d ds' where d: "ds = d # ds'" using assms(1) by (cases ds) auto
  note np = not_prefix [OF assms(1-3)]
  have "scan_digits 16 0 (map hex_char ds @ r) = (v, r)"
    using scan_digits_map [of ds 16 hex_char r 0] assms(2-4) hex_char_value by (auto simp: ends_number_def ends_hex_def is_xdigit_def)
  then show s: "strtoul 16 (map hex_char ds @ r) = (v, r)"
    using assms(2,5) np by (intro strtoul_plain) (auto simp: d hex_char_value)
  show "fst (strtoul 0 (''0x'' @ map hex_char ds @ r)) = v"
    by (rule strtoul_0x [OF s]) (use np assms(2) hex_char_xdigit in \<open>auto simp: d\<close>)
qed

lemma strtoul_hex8:
  assumes "w < 2 ^ 32" "ends_hex r" shows "strtoul 16 (hex8 w @ r) = (w, r)" "fst (strtoul 0 (''0x'' @ hex8 w @ r)) = w"
proof -
  obtain ds where ds: "hex8 w = map hex_char ds" "\<forall>d \<in> set ds. d < 16" "8 \<le> length ds" "foldl (\<lambda>a d. a * 16 + d) 0 ds = w"
    by (rule hex8_chars)
  then have "ds \<noteq> []" by auto
  note strtoul_hex [OF this ds(2) assms(2) ds(4)]
  with assms(1) ds(1) show "strtoul 16 (hex8 w @ r) = (w, r)" "fst (strtoul 0 (''0x'' @ hex8 w @ r)) = w" by simp_all
qed

lemma strtoul_hexs:
  assumes "w < 2 ^ 64" "ends_hex r" shows "strtoul 16 (hexs w @ r) = (w, r)" "fst (strtoul 0 (''0x'' @ hexs w @ r)) = w"
proof -
  obtain ds where ds: "hexs w = map hex_char ds" "\<forall>d \<in> set ds. d < 16" "ds \<noteq> []" "foldl (\<lambda>a d. a * 16 + d) 0 ds = w"
    by (rule hexs_chars)
  note strtoul_hex [OF ds(3,2) assms(2) ds(4)]
  with assms(1) ds(1) show "strtoul 16 (hexs w @ r) = (w, r)" "fst (strtoul 0 (''0x'' @ hexs w @ r)) = w" by simp_all
qed

section \<open>The replies to mdw\<close>

text \<open>A line: anything without a colon or a line break, the colon, the words, and perhaps trailing blanks.\<close>

definition words_text :: "nat list \<Rightarrow> nat \<Rightarrow> string" where
  "words_text ws k = concat (map (\<lambda>w. CHR '' '' # hex8 w) ws) @ replicate k (CHR '' '')"

definition mdw_line :: "string \<times> nat list \<times> nat \<Rightarrow> string" where
  "mdw_line l = (case l of (h, ws, k) \<Rightarrow> h @ CHR '':'' # words_text ws k)"

definition mdw_text :: "nat list \<Rightarrow> string \<Rightarrow> bool" where
  "mdw_text ws text \<longleftrightarrow>
     (\<exists>ls. concat (map (\<lambda>l. fst (snd l)) ls) = ws \<and> text = concat (map (\<lambda>l. mdw_line l @ [CHR 0x0A]) ls) \<and>
        (\<forall>l \<in> set ls. \<forall>c \<in> set (fst l). c \<noteq> CHR '':'' \<and> c \<noteq> CHR 0x0A \<and> c \<noteq> CHR 0x0D))"

lemma words_text_end: "ends_hex (words_text ws k)"
  by (cases ws; cases k) (simp_all add: words_text_def ends_hex_def is_xdigit_not)

lemma line_words_text: "\<forall>w \<in> set ws. w < 2 ^ 32 \<Longrightarrow> line_words n (words_text ws k) = take n ws"
proof (induction ws arbitrary: n)
  case Nil
  have "dropWhile (\<lambda>c. c = CHR '' '' \<or> c = CHR 0x09) (replicate k (CHR '' '')) = []" by simp
  then show ?case by (cases n) (simp_all add: words_text_def)
next
  case (Cons w ws)
  show ?case
  proof (cases n)
    case 0
    then show ?thesis by simp
  next
    case (Suc m)
    obtain ds where ds: "hex8 w = map hex_char ds" "\<forall>d \<in> set ds. d < 16" "8 \<le> length ds" by (rule hex8_chars)
    then obtain c r where c: "hex8 w = c # r" by (cases ds) auto
    have x: "is_xdigit c" using hex8_xdigit [of c w] c by simp
    have tail: "words_text (w # ws) k = CHR '' '' # hex8 w @ words_text ws k" by (simp add: words_text_def)
    have "c \<noteq> CHR '' ''" "c \<noteq> CHR 0x09" using x is_xdigit_not by blast+
    then have d: "dropWhile (\<lambda>c. c = CHR '' '' \<or> c = CHR 0x09) (words_text (w # ws) k) = hex8 w @ words_text ws k"
      unfolding tail by (simp add: c)
    have "strtoul 16 (hex8 w @ words_text ws k) = (w, words_text ws k)"
      using Cons.prems words_text_end by (intro strtoul_hex8) auto
    moreover have "w mod 2 ^ 32 = w" using Cons.prems by simp
    moreover have "(hex8 w @ words_text ws k = [] \<or> \<not> is_xdigit (hd (hex8 w @ words_text ws k))) = False" using x by (simp add: c)
    ultimately have "line_words (Suc m) (words_text (w # ws) k) = w # line_words m (words_text ws k)"
      unfolding line_words.simps d Let_def by (simp only: if_False prod.case)
    with Cons Suc show ?thesis by simp
  qed
qed

lemma strchr_found: "c \<notin> set h \<Longrightarrow> strchr (h @ c # r) c = Some (c # r)"
  by (induction h) (auto simp: strchr_def)

lemma reply_words_lines:
  assumes "\<forall>l \<in> set ls. CHR '':'' \<notin> set (fst l) \<and> (\<forall>w \<in> set (fst (snd l)). w < 2 ^ 32)"
  shows "reply_words n (map mdw_line ls) = take n (concat (map (\<lambda>l. fst (snd l)) ls))"
  using assms
proof (induction ls arbitrary: n)
  case (Cons l ls)
  obtain h ws k where l: "l = (h, ws, k)" by (cases l)
  have "strchr (mdw_line l) (CHR '':'') = Some (CHR '':'' # words_text ws k)"
    using Cons.prems strchr_found by (simp add: l mdw_line_def)
  moreover have "line_words n (words_text ws k) = take n ws" using Cons.prems line_words_text by (simp add: l)
  moreover have "reply_words (n - length (take n ws)) (map mdw_line ls) = take (n - length (take n ws)) (concat (map (\<lambda>l. fst (snd l)) ls))"
    using Cons by simp
  ultimately show ?case by (cases "n = 0"; cases "length ws \<le> n") (simp_all add: l Let_def min_def)
qed simp

text \<open>Cutting the lines.\<close>

lemma strtok_from_line:
  "\<forall>c \<in> set l. c \<noteq> CHR 0x0D \<and> c \<noteq> CHR 0x0A \<Longrightarrow>
     strtok_from acc (l @ CHR 0x0A # s) = (if rev acc @ l = [] then [] else [rev acc @ l]) @ strtok_from [] s"
  by (induction l arbitrary: acc) auto

lemma strtok_lines_text:
  assumes "\<forall>l \<in> set ls. l \<noteq> [] \<and> (\<forall>c \<in> set l. c \<noteq> CHR 0x0D \<and> c \<noteq> CHR 0x0A)"
  shows "strtok_lines (concat (map (\<lambda>l. l @ [CHR 0x0A]) ls)) = ls"
  using assms
proof (induction ls)
  case (Cons l ls)
  then have "strtok_from [] (l @ CHR 0x0A # concat (map (\<lambda>l. l @ [CHR 0x0A]) ls)) = l # strtok_from [] (concat (map (\<lambda>l. l @ [CHR 0x0A]) ls))"
    by (subst strtok_from_line) simp_all
  with Cons show ?case by (simp add: strtok_lines_def)
qed (simp add: strtok_lines_def)

lemma words_text_chars: "c \<in> set (words_text ws k) \<Longrightarrow> c = CHR '' '' \<or> is_xdigit c"
  using hex8_xdigit by (auto simp: words_text_def split: if_splits)

lemma reply_words_text:
  assumes "mdw_text ws text" "\<forall>w \<in> set ws. w < 2 ^ 32"
  shows "reply_words (length ws) (strtok_lines text) = ws"
proof -
  obtain ls where ls: "concat (map (\<lambda>l. fst (snd l)) ls) = ws" "text = concat (map (\<lambda>l. mdw_line l @ [CHR 0x0A]) ls)"
    "\<forall>l \<in> set ls. \<forall>c \<in> set (fst l). c \<noteq> CHR '':'' \<and> c \<noteq> CHR 0x0A \<and> c \<noteq> CHR 0x0D"
    using assms(1) unfolding mdw_text_def by blast
  have eq: "text = concat (map (\<lambda>l. l @ [CHR 0x0A]) (map mdw_line ls))" unfolding ls(2) by (simp add: comp_def)
  have "c \<noteq> CHR 0x0D \<and> c \<noteq> CHR 0x0A" if "l \<in> set ls" "c \<in> set (mdw_line l)" for l c
  proof -
    obtain h ws' k where l: "l = (h, ws', k)" by (cases l)
    with that(2) have "c \<in> set h \<or> c = CHR '':'' \<or> c = CHR '' '' \<or> is_xdigit c"
      using words_text_chars [of c ws' k] by (auto simp: mdw_line_def)
    then show ?thesis using ls(3) that(1) l is_xdigit_not by fastforce
  qed
  then have "strtok_lines text = map mdw_line ls" unfolding eq by (intro strtok_lines_text) (auto simp: mdw_line_def split: prod.splits)
  moreover have "\<forall>l \<in> set ls. CHR '':'' \<notin> set (fst l) \<and> (\<forall>w \<in> set (fst (snd l)). w < 2 ^ 32)"
    using ls(1,3) assms(2) by fastforce
  note reply_words_lines [OF this, of "length ws"]
  ultimately show ?thesis using ls(1) by simp
qed

section \<open>Bulk reads\<close>

text \<open>The word at an address, least significant byte first, and its bytes.\<close>

definition word_at :: "(nat \<Rightarrow> byte) \<Rightarrow> nat \<Rightarrow> nat" where
  "word_at M a = unat (M a) + 256 * unat (M (a + 1)) + 256 ^ 2 * unat (M (a + 2)) + 256 ^ 3 * unat (M (a + 3))"

lemma byte_less: "unat (b :: byte) < 256"
  using unsigned_less [of b] by simp

lemma word_at_less: "word_at M a < 2 ^ 32"
  using byte_less [of "M a"] byte_less [of "M (a + 1)"] byte_less [of "M (a + 2)"] byte_less [of "M (a + 3)"]
  by (simp add: word_at_def)

lemma digit_256:
  assumes "b < (256::nat)" shows "(b + 256 * r) div 256 ^ 0 mod 256 = b" "(b + 256 * r) div 256 ^ Suc k = r div 256 ^ k"
  using assms by (simp_all add: div_mult2_eq)

lemma byte_of: "n mod 256 = unat (b :: byte) \<Longrightarrow> word_of_nat n = b"
  by (simp add: word_unat_eq_iff unat_of_nat take_bit_eq_mod)

lemma word_bytes_at: "word_bytes (word_at M a) = map M [a..<a + 4]"
proof -
  let ?b = "\<lambda>i. unat (M (a + i))"
  have w: "word_at M a = ?b 0 + 256 * (?b 1 + 256 * (?b 2 + 256 * (?b 3 + 256 * 0)))" by (simp add: word_at_def)
  note d = digit_256 [OF byte_less]
  have "word_at M a div 256 ^ k mod 256 = ?b k" if "k < 4" for k
  proof -
    consider "k = 0" | "k = Suc 0" | "k = Suc (Suc 0)" | "k = Suc (Suc (Suc 0))" using \<open>k < 4\<close> by linarith
    then show ?thesis unfolding w by cases (simp_all only: d One_nat_def numeral_2_eq_2 numeral_3_eq_3)
  qed
  then have "map (\<lambda>k. word_of_nat (word_at M a div 256 ^ k)) [0..<4] = map (\<lambda>k. M (a + k)) [0..<4]"
    by (intro map_cong refl byte_of) auto
  also have "\<dots> = map M [a..<a + 4]" by (simp add: upt_rec)
  finally show ?thesis by (simp add: word_bytes_def)
qed

definition words_at :: "(nat \<Rightarrow> byte) \<Rightarrow> nat \<Rightarrow> nat \<Rightarrow> nat list" where
  "words_at M a n = map (\<lambda>i. word_at M (a + 4 * i)) [0..<n]"

lemma words_at_bytes: "concat (map word_bytes (words_at M a n)) = map M [a..<a + 4 * n]"
proof (induction n)
  case (Suc n)
  have "a + 4 * Suc n = a + 4 * n + 4" by simp
  then have upt: "[a..<a + 4 * Suc n] = [a..<a + 4 * n] @ [a + 4 * n..<a + 4 * n + 4]"
    by (simp only:) (rule upt_add_eq_append, simp)
  have "words_at M a (Suc n) = words_at M a n @ [word_at M (a + 4 * n)]" by (simp add: words_at_def)
  then show ?case unfolding upt map_append Suc [symmetric] word_bytes_at [symmetric] by simp
qed (simp add: words_at_def)

text \<open>
  A server that answers \<open>mdw\<close> with the words of its memory, in lines of any length, cut into any pieces, and stays able to: the
  format the code describes.
\<close>

definition mdw_command :: "nat \<Rightarrow> nat \<Rightarrow> string" where
  "mdw_command a n = ''mdw 0x'' @ hexs a @ '' '' @ str_nat n"

definition mdw_server :: "'s tcl_env \<Rightarrow> ('s \<Rightarrow> bool) \<Rightarrow> ('s \<Rightarrow> nat \<Rightarrow> byte) \<Rightarrow> bool" where
  "mdw_server env ok mem \<longleftrightarrow>
     (\<forall>srv a n. ok srv \<and> 4 dvd a \<and> a + 4 * n \<le> 2 ^ 32 \<and> n \<le> 256 \<longrightarrow>
        (\<exists>evs srv' text. tcl_serve env srv (mdw_command a n) = Some (evs, srv') \<and> ok srv' \<and> mem srv' = mem srv \<and>
           delivers evs text \<and> mdw_text (words_at (mem srv) a n) text))"

lemma openocd_read_loop_exact:
  assumes env: "mdw_server env ok mem" and top: "addr + len \<le> 2 ^ 32"
  shows "ok (oc_server st) \<Longrightarrow> oc_in st = [] \<Longrightarrow> k \<le> len \<Longrightarrow>
    \<exists>srv. openocd_read_loop env addr len k st = (Some (map (mem (oc_server st)) [addr + k..<addr + len]), st\<lparr>oc_server := srv\<rparr>) \<and>
      ok srv \<and> mem srv = mem (oc_server st)"
proof (induction "len - k" arbitrary: k st rule: less_induct)
  case less
  show ?case
  proof (cases "k < len")
    case True
    let ?M = "mem (oc_server st)"
    obtain a skip chunk where w: "read_window (OPENOCD_READ_WORDS * 4) addr len k = (a, skip, chunk)"
      by (cases "read_window (OPENOCD_READ_WORDS * 4) addr len k")
    have room: "4 \<le> OPENOCD_READ_WORDS * 4" "4 dvd OPENOCD_READ_WORDS * 4" "OPENOCD_READ_WORDS * 4 = 1024"
      by (simp_all add: OPENOCD_READ_WORDS_def)
    have win: "a + chunk \<le> 2 ^ 32 \<and> 4 dvd a \<and> 4 dvd chunk \<and> chunk \<le> 1024 \<and> a + skip = addr + k"
      using read_window_inside [OF w True, of 0 "2 ^ 32"] top room(2,3) by simp
    note grow = read_window_grows [OF w True room(1)]
    define n where "n = chunk div 4"
    have n: "4 * n = chunk" "n \<le> 256" using win div_le_mono [of chunk 1024 4] by (simp_all add: n_def)
    let ?c = "min (chunk - skip) (len - k)"
    have "ok (oc_server st) \<and> 4 dvd a \<and> a + 4 * n \<le> 2 ^ 32 \<and> n \<le> 256" using less.prems(1) win n by simp
    from env [unfolded mdw_server_def, rule_format, OF this] obtain evs srv reply where
      s: "tcl_serve env (oc_server st) (mdw_command a n) = Some (evs, srv)" "ok srv" "mem srv = ?M"
      "delivers evs reply" "mdw_text (words_at ?M a n) reply" by blast
    have "oc_in st @ evs = evs @ []" using less.prems(2) by simp
    from tcl_exec_alloc_exact [OF this s(4,1)] less.prems(2) have
      ex: "openocd_tcl_exec_alloc env st (mdw_command a n) = (Some reply, st\<lparr>oc_server := srv\<rparr>)" by simp
    have ws: "reply_words n (strtok_lines reply) = words_at ?M a n"
      using reply_words_text [OF s(5)] word_at_less by (simp add: words_at_def)
    have len_ws: "\<not> length (words_at ?M a n) < n" by (simp add: words_at_def)
    have "skip + ?c \<le> 4 * n" using grow n(1) by linarith
    then have part: "take ?c (drop skip (concat (map word_bytes (words_at ?M a n)))) = map ?M [addr + k..<addr + k + ?c]"
      using take_part [of "4 * n" "map ?M [a..<a + 4 * n]" ?M a skip ?c] win by (simp add: words_at_bytes)
    have kc: "len - (k + ?c) < len - k" "k + ?c \<le> len" using grow True by linarith+
    have st: "ok (oc_server (st\<lparr>oc_server := srv\<rparr>))" "oc_in (st\<lparr>oc_server := srv\<rparr>) = []" using s(2) less.prems(2) by simp_all
    from less.hyps [OF kc(1) st kc(2)] obtain srv' where
      r: "openocd_read_loop env addr len (k + ?c) (st\<lparr>oc_server := srv\<rparr>) = (Some (map ?M [addr + (k + ?c)..<addr + len]), st\<lparr>oc_server := srv'\<rparr>)"
      "ok srv'" "mem srv' = ?M" using s(3) by auto
    have "openocd_read_loop env addr len k st = (Some (map ?M [addr + k..<addr + len]), st\<lparr>oc_server := srv'\<rparr>)"
      unfolding openocd_read_loop.simps [of env addr len k st] upt_part [OF kc(2), of addr] map_append
      using True w ex ws len_ws r(1) part by (simp only: if_True if_False prod.case option.case option.map Let_def n_def [symmetric] mdw_command_def)
    with r show ?thesis by blast
  next
    case False
    with less.prems show ?thesis by (intro exI [of _ "oc_server st"]) (simp add: openocd_read_loop.simps)
  qed
qed

text \<open>
  C26. A bulk read over the TCL channel is exact.  Whatever the alignment and the length of the region, and however the server lays out and
  the network cuts up the replies, the read returns the bytes of the memory, and leaves the channel empty for the next
  command.
\<close>

theorem openocd_read_exact:
  assumes "mdw_server env ok mem" "ok (oc_server st)" "oc_in st = []" "addr + len \<le> 2 ^ 32"
  shows "\<exists>srv. openocd_flash_read env st addr len = (Some (map (mem (oc_server st)) [addr..<addr + len]), st\<lparr>oc_server := srv\<rparr>) \<and>
    ok srv \<and> mem srv = mem (oc_server st)"
  using openocd_read_loop_exact [OF assms(1,4,2,3) le0] by (simp add: openocd_flash_read_def)

section \<open>Sector listings\<close>

text \<open>
  A line of the reply to \<open>flash info 0\<close>, as the comment in the code shows it: after any indentation a number sign, the
  padded index, a colon, the offset in eight hexadecimal digits, in parentheses the size in hexadecimal and in kilobytes,
  and the protection.  The header, which has no parenthesis after its address, is none.
\<close>

definition sector_entry :: "string \<Rightarrow> string \<Rightarrow> string \<Rightarrow> nat \<times> nat \<Rightarrow> string" where
  "sector_entry pre post state oz =
     pre @ CHR ''#'' # post @ '': 0x'' @ hex8 (fst oz) @ '' (0x'' @ hexs (snd oz) @ '' '' @ str_nat (snd oz div 1024) @ ''kB) '' @ state"

lemma documented_sector_line:
  "sector_entry [] ''  3'' ''not protected'' (0xC00, 0x400) = ''#  3: 0x00000c00 (0x400 1kB) not protected''"
  by code_simp

lemma strstr_here: "starts_with s p \<Longrightarrow> s \<noteq> [] \<Longrightarrow> strstr s p = Some s"
  by (cases s) auto

lemma strchr_some: "c \<in> set s \<Longrightarrow> \<exists>r. strchr s c = Some r"
  by (induction s) (auto simp: strchr_def)

lemma sector_line_entry:
  assumes "CHR '':'' \<notin> set pre" "CHR '':'' \<notin> set post" "off < 2 ^ 32" "z < 2 ^ 32" "z \<noteq> 0"
  shows "sector_line (sector_entry pre post state (off, z)) = Some (off, z)"
proof -
  let ?kb = "'' '' @ str_nat (z div 1024) @ ''kB) '' @ state"
  let ?size = "''0x'' @ hexs z @ ?kb"
  let ?off = "''0x'' @ hex8 off @ '' ('' @ ?size"
  let ?l = "sector_entry pre post state (off, z)"
  have l: "?l = (pre @ CHR ''#'' # post) @ CHR '':'' # CHR '' '' # ?off" by (simp add: sector_entry_def)
  have "CHR '':'' \<notin> set (pre @ CHR ''#'' # post)" using assms(1,2) by simp
  then have colon: "strchr ?l (CHR '':'') = Some (CHR '':'' # CHR '' '' # ?off)" unfolding l by (rule strchr_found)
  have "CHR ''#'' \<in> set ?l" by (simp add: sector_entry_def)
  then obtain h where hash: "strchr ?l (CHR ''#'') = Some h" using strchr_some by blast
  have o1: "strstr (CHR '':'' # CHR '' '' # ?off) ''0x'' = Some ?off" by simp
  have "CHR ''('' \<notin> set (''0x'' @ hex8 off @ '' '')" using hex8_xdigit is_xdigit_not by auto
  from strchr_found [OF this, of ?size] have par: "strchr ?off (CHR ''('') = Some (CHR ''('' # ?size)" by simp
  have s1: "strstr (CHR ''('' # ?size) ''0x'' = Some ?size" by simp
  have ends: "ends_hex ('' ('' @ ?size)" "ends_hex ?kb" by (simp_all add: ends_hex_def is_xdigit_not)
  have "fst (strtoul 0 ?off) = off" "fst (strtoul 0 ?size) = z"
    using strtoul_hex8(2) [OF assms(3) ends(1)] strtoul_hexs(2) [OF _ ends(2), of z] assms(4) by simp_all
  then show ?thesis unfolding sector_line_def colon hash prod.case option.case o1 par s1 Let_def using assms(3-5) by simp
qed

lemma covering_sector_find:
  assumes "\<forall>x \<in> set ls. sector_line (f x) = g x"
  shows "covering_sector p (map f ls) = find (\<lambda>(off, z). off \<le> p \<and> p - off < z) (filter_map g ls)"
  using assms by (induction ls) (auto split: option.splits)

lemma strchr_sub: "strchr s c = Some r \<Longrightarrow> set r \<subseteq> set s"
  by (auto simp: strchr_def split: list.splits) (metis set_dropWhileD list.set_intros)+

lemma strstr_sub: "strstr s p = Some r \<Longrightarrow> set r \<subseteq> set s"
  by (induction s p rule: strstr.induct) (auto split: if_splits)

lemma sector_line_header:
  assumes "CHR ''('' \<notin> set l" shows "sector_line l = None"
proof -
  have "strchr off (CHR ''('') = None" if "strchr l (CHR '':'') = Some c" "strstr c ''0x'' = Some off" for c off
  proof -
    have "CHR ''('' \<notin> set off" using strchr_sub [OF that(1)] strstr_sub [OF that(2)] assms by auto
    then show ?thesis by (induction off) (auto simp: strchr_def)
  qed
  then show ?thesis by (auto simp: sector_line_def split: option.splits)
qed

lemma hexs_xdigit: "c \<in> set (hexs w) \<Longrightarrow> is_xdigit c"
  using hexs_chars [of w] hex_char_xdigit by (metis (no_types, lifting) imageE list.set_map)

lemma str_nat_chars: "c \<in> set (str_nat n) \<Longrightarrow> is_xdigit c"
proof -
  have b: "\<forall>d \<in> set (digits_rev 10 (int n)). digit_value 10 (digit_char d) = Some d"
    using digits_rev_bound [of 10 "int n"] by (auto intro!: digit_value_char)
  assume "c \<in> set (str_nat n)"
  then obtain d where "c = digit_char d" "digit_value 10 c = Some d" using b by (auto simp: str_nat_def digits_def)
  then show ?thesis using digit_value_le [of 10 c d] by simp
qed

lemma sector_entry_chars:
  assumes "c \<in> set (sector_entry pre post state oz)"
  shows "c \<in> set pre \<or> c \<in> set post \<or> c \<in> set state \<or> is_xdigit c \<or> c \<in> set ''#: 0x(kB)''"
proof -
  define A B C D X where "A = set '': 0x''" and "B = set '' (0x''" and "C = set ''kB) ''" and "D = set '' ''" and X: "X = set ''#: 0x(kB)''"
  note lits = this
  have "set (sector_entry pre post state oz) = set pre \<union> insert (CHR ''#'') (set post \<union> (A \<union> (set (hex8 (fst oz)) \<union> (B \<union>
      (set (hexs (snd oz)) \<union> (D \<union> (set (str_nat (snd oz div 1024)) \<union> (C \<union> set state))))))))"
    unfolding sector_entry_def set_append list.set(2) lits by (rule refl)
  moreover have "CHR ''#'' \<in> X" "A \<subseteq> X" "B \<subseteq> X" "C \<subseteq> X" "D \<subseteq> X" by (simp_all add: lits)
  ultimately have "c \<in> set pre \<or> c \<in> set post \<or> c \<in> set state \<or> c \<in> set (hex8 (fst oz)) \<or> c \<in> set (hexs (snd oz)) \<or>
      c \<in> set (str_nat (snd oz div 1024)) \<or> c \<in> X" using assms by blast
  then show ?thesis using hex8_xdigit hexs_xdigit str_nat_chars unfolding X by metis
qed

definition plain_chars :: "string \<Rightarrow> bool" where
  "plain_chars s \<longleftrightarrow> (\<forall>c \<in> set s. c \<noteq> CHR '':'' \<and> c \<noteq> CHR 0x0A \<and> c \<noteq> CHR 0x0D \<and> c \<noteq> TCL_TERMINATOR \<and> c \<noteq> CHR 0x00)"

lemma listing_lines:
  assumes "header \<noteq> []" "\<forall>c \<in> set header. c \<noteq> CHR ''('' \<and> c \<noteq> CHR 0x0A \<and> c \<noteq> CHR 0x0D"
    and "\<forall>(pre, post, state, oz) \<in> set tbl. plain_chars pre \<and> plain_chars post \<and> plain_chars state"
  shows "strtok_lines (concat (map (\<lambda>l. l @ [CHR 0x0A]) (header # map (\<lambda>(pre, post, state, oz). sector_entry pre post state oz) tbl))) =
    header # map (\<lambda>(pre, post, state, oz). sector_entry pre post state oz) tbl"
proof -
  have "c \<noteq> CHR 0x0D \<and> c \<noteq> CHR 0x0A" if "(pre, post, state, oz) \<in> set tbl" "c \<in> set (sector_entry pre post state oz)" for pre post state oz c
    using sector_entry_chars [OF that(2)]
  proof (elim disjE)
    assume "is_xdigit c"
    then show ?thesis using is_xdigit_not by blast
  qed (use bspec [OF assms(3) that(1)] in \<open>auto simp: plain_chars_def\<close>)
  moreover have "sector_entry pre post state oz \<noteq> []" for pre post state oz by (simp add: sector_entry_def)
  ultimately have "\<forall>x \<in> set tbl. (\<lambda>(pre, post, state, oz). sector_entry pre post state oz) x \<noteq> [] \<and>
      (\<forall>c \<in> set ((\<lambda>(pre, post, state, oz). sector_entry pre post state oz) x). c \<noteq> CHR 0x0D \<and> c \<noteq> CHR 0x0A)" by fast
  with assms(1,2) show ?thesis by (intro strtok_lines_text) simp
qed

text \<open>
  C27. The sector of an address is looked up in the listing of the server, whose lines have the format that the code
  documents (\<open>documented_sector_line\<close>): of the entries, whose offsets and sizes are read back as printed, the first that covers
  the address, and nothing if none does; a header without a parenthesis is not mistaken for an entry, and the channel is
  left empty.
\<close>

theorem openocd_sector_exact:
  assumes "oc_bank st = Some (base, bank)" "base \<le> addr" "addr - base < bank" "oc_in st = []"
    and "tcl_serve env (oc_server st) ''flash info 0'' = Some (evs, srv)" "delivers evs listing"
    and "listing = concat (map (\<lambda>l. l @ [CHR 0x0A]) (header # map (\<lambda>(pre, post, state, oz). sector_entry pre post state oz) tbl))"
    and "header \<noteq> []" "\<forall>c \<in> set header. c \<noteq> CHR ''('' \<and> c \<noteq> CHR 0x0A \<and> c \<noteq> CHR 0x0D"
    and "\<forall>(pre, post, state, off, z) \<in> set tbl. plain_chars pre \<and> plain_chars post \<and> plain_chars state \<and> off < 2 ^ 32 \<and> z < 2 ^ 32 \<and> z \<noteq> 0"
  shows "openocd_flash_sector env st addr =
    (map_option (\<lambda>(off, z). (add32 base off, z))
       (find (\<lambda>(off, z). off \<le> addr - base \<and> addr - base - off < z) (map (\<lambda>(pre, post, state, oz). oz) tbl)), st\<lparr>oc_server := srv\<rparr>)"
proof -
  let ?e = "\<lambda>(pre, post, state, oz). sector_entry pre post state oz"
  have "oc_in st @ evs = evs @ []" using assms(4) by simp
  from tcl_exec_alloc_exact [OF this assms(6,5)] assms(4) have
    ex: "openocd_tcl_exec_alloc env st ''flash info 0'' = (Some listing, st\<lparr>oc_server := srv\<rparr>)" by simp
  have "\<forall>(pre, post, state, oz) \<in> set tbl. plain_chars pre \<and> plain_chars post \<and> plain_chars state" using assms(10) by auto
  then have "strtok_lines listing = header # map ?e tbl" unfolding assms(7) by (rule listing_lines [OF assms(8,9)])
  moreover have "\<forall>x \<in> set tbl. sector_line (?e x) = Some ((\<lambda>(pre, post, state, oz). oz) x)"
  proof
    fix x assume "x \<in> set tbl"
    obtain pre post state off z where x: "x = (pre, post, state, off, z)" by (cases x)
    from bspec [OF assms(10) \<open>x \<in> set tbl\<close>] show "sector_line (?e x) = Some ((\<lambda>(pre, post, state, oz). oz) x)"
      using sector_line_entry [of pre post off z state] by (auto simp: x plain_chars_def)
  qed
  note covering_sector_find [OF this, of "addr - base"]
  moreover have "sector_line header = None" using assms(9) by (intro sector_line_header) auto
  moreover have "filter_map (\<lambda>x. Some (f x)) xs = map f xs" for f :: "string \<times> string \<times> string \<times> nat \<times> nat \<Rightarrow> nat \<times> nat" and xs by (induction xs) simp_all
  ultimately have "covering_sector (addr - base) (strtok_lines listing) =
      find (\<lambda>(off, z). off \<le> addr - base \<and> addr - base - off < z) (map (\<lambda>(pre, post, state, oz). oz) tbl)" by simp
  with ex assms(1-3) show ?thesis by (simp add: openocd_flash_sector_def openocd_flash_bank_def)
qed

section \<open>Replies out of step\<close>

text \<open>
  A reply that arrives after the time-out is not thrown away: the command fails, and the next one, whatever it reads, gets the
  value of the first and succeeds, with its own reply left over for the command after it.
\<close>

lemma openocd_late_reply:
  assumes "oc_in st = []" "tcl_serve env (oc_server st) (''mrw 0x'' @ hexs a) = Some (Timeout # evs1, srv1)" "delivers evs1 t1" "length t1 < 127"
    and "tcl_serve env srv1 (''mrw 0x'' @ hexs b) = Some (evs2, srv2)"
  shows "openocd_read32 env st a = (None, st\<lparr>oc_in := evs1, oc_server := srv1\<rparr>)"
    and "openocd_read32 env (st\<lparr>oc_in := evs1, oc_server := srv1\<rparr>) b =
      (Some (fst (strtoul 0 t1) mod 2 ^ 32), st\<lparr>oc_in := evs2, oc_server := srv2\<rparr>)"
proof -
  have "exec_loop (Timeout # evs1) [] = (None, evs1)" by (simp add: exec_loop.simps)
  then show "openocd_read32 env st a = (None, st\<lparr>oc_in := evs1, oc_server := srv1\<rparr>)"
    using assms(1,2) by (simp add: openocd_read32_def openocd_tcl_exec_def)
  let ?st = "st\<lparr>oc_in := evs1, oc_server := srv1\<rparr>"
  have "openocd_tcl_exec env ?st (''mrw 0x'' @ hexs b) 128 = (Some (take (128 - 1) t1), ?st\<lparr>oc_in := evs2, oc_server := srv2\<rparr>)"
    by (rule tcl_exec_exact [of _ evs2 evs1]) (use assms in simp_all)
  then show "openocd_read32 env ?st b = (Some (fst (strtoul 0 t1) mod 2 ^ 32), st\<lparr>oc_in := evs2, oc_server := srv2\<rparr>)"
    using assms(4) by (simp add: openocd_read32_def)
qed

text \<open>An error message in place of a value is read as 0, and the read succeeds.\<close>

lemma openocd_error_reads_zero:
  assumes "oc_in st = []" "tcl_serve env (oc_server st) (''mrw 0x'' @ hexs a) = Some (evs, srv)" "delivers evs (c # t)" "length t < 126"
    and "\<not> c_isspace c" "c \<noteq> CHR ''-''" "c \<noteq> CHR ''+''" "digit_value 10 c = None"
  shows "openocd_read32 env st a = (Some 0, st\<lparr>oc_server := srv\<rparr>)"
proof -
  have "c \<noteq> CHR ''0''" using assms(8) by (auto simp: digit_value_def is_digit_def between_def cp_def)
  then have "strtoul 0 (c # t) = (0, c # t)" using assms(5-8) by (simp add: strtoul_def hex_prefix_def split: list.splits)
  moreover have "openocd_tcl_exec env st (''mrw 0x'' @ hexs a) 128 = (Some (take (128 - 1) (c # t)), st\<lparr>oc_in := [], oc_server := srv\<rparr>)"
    by (rule tcl_exec_exact [of _ evs evs]) (use assms in simp_all)
  ultimately show ?thesis using assms(1,4) by (simp add: openocd_read32_def)
qed

section \<open>A server\<close>

text \<open>A memory behind a server that answers every \<open>mdw\<close> on one line, in two pieces.\<close>

definition plain_reply :: "(nat \<Rightarrow> byte) \<Rightarrow> nat \<Rightarrow> nat \<Rightarrow> string" where
  "plain_reply M a n = mdw_line (''0x'' @ hex8 a, words_at M a n, 0) @ [CHR 0x0A]"

definition plain_server :: "(nat \<Rightarrow> byte) tcl_env" where
  "plain_server =
     \<lparr>tcl_serve = (\<lambda>M cmd. case strtoul 16 (drop 6 cmd) of (a, r) \<Rightarrow>
        (let s = plain_reply M a (fst (strtoul 10 (drop 1 r))) @ [TCL_TERMINATOR] in Some ([Data (take 3 s), Data (drop 3 s)], M))),
      tcl_mkstemp = (\<lambda>M. None), tcl_write_file = (\<lambda>M p d. (False, M)), tcl_unlink = (\<lambda>M p. M)\<rparr>"

lemma strtoul_str_nat:
  assumes "n < 2 ^ 64" shows "strtoul 10 (str_nat n) = (n, [])"
proof -
  let ?ds = "rev (digits_rev 10 (int n))"
  have b: "\<forall>d \<in> set ?ds. digit_value 10 (digit_char d) = Some d"
    using digits_rev_bound [of 10 "int n"] by (auto intro!: digit_value_char)
  have s: "str_nat n = map digit_char ?ds" by (simp add: str_nat_def digits_def)
  have "scan_digits 10 0 (map digit_char ?ds @ []) = (foldl (\<lambda>a d. a * 10 + d) 0 ?ds, [])"
    by (rule scan_digits_map [OF b]) (simp add: ends_number_def)
  then have "scan_digits 10 0 (str_nat n) = (n, [])" using foldl_digits_nat [of 10 n] by (simp add: s)
  moreover have "str_nat n \<noteq> []" by (simp add: s)
  moreover have "digit_value 10 (hd (str_nat n)) \<noteq> None"
    using b hd_in_set [of ?ds] by (simp add: s hd_map)
  ultimately show ?thesis using assms by (intro strtoul_plain) auto
qed

lemma plain_reply_chars: "c \<in> set (plain_reply M a n) \<Longrightarrow> is_xdigit c \<or> c \<in> {CHR ''x'', CHR '':'', CHR '' '', CHR 0x0A}"
proof -
  assume "c \<in> set (plain_reply M a n)"
  then have "c = CHR ''0'' \<or> c \<in> set (hex8 a) \<or> c \<in> set (words_text (words_at M a n) 0) \<or> c \<in> {CHR ''x'', CHR '':'', CHR 0x0A}"
    by (auto simp: plain_reply_def mdw_line_def)
  moreover have "is_xdigit (CHR ''0'')" by code_simp
  ultimately show ?thesis using hex8_xdigit words_text_chars by blast
qed

lemma plain_reply_text: "mdw_text (words_at M a n) (plain_reply M a n)"
  unfolding mdw_text_def
proof (intro exI [of _ "[(''0x'' @ hex8 a, words_at M a n, 0)]"] conjI ballI)
  fix l c assume "l \<in> set [(''0x'' @ hex8 a, words_at M a n, 0 :: nat)]" "c \<in> set (fst l)"
  then have "c = CHR ''0'' \<or> c = CHR ''x'' \<or> is_xdigit c" using hex8_xdigit by auto
  then show "c \<noteq> CHR '':''" "c \<noteq> CHR 0x0A" "c \<noteq> CHR 0x0D" using is_xdigit_not by auto
qed (simp_all add: plain_reply_def)

lemma plain_mdw_server: "mdw_server plain_server (\<lambda>M. True) (\<lambda>M. M)"
  unfolding mdw_server_def
proof (intro allI impI)
  fix M :: "nat \<Rightarrow> byte" and a n :: nat
  assume h: "True \<and> 4 dvd a \<and> a + 4 * n \<le> 2 ^ 32 \<and> n \<le> 256"
  let ?s = "plain_reply M a n @ [TCL_TERMINATOR]"
  let ?e = "[Data (take 3 ?s), Data (drop 3 ?s)]"
  have ends: "ends_hex (CHR '' '' # str_nat n)" by (simp add: ends_hex_def is_xdigit_not)
  have "drop 6 (mdw_command a n) = hexs a @ CHR '' '' # str_nat n" by (simp add: mdw_command_def)
  moreover have "strtoul 16 (hexs a @ CHR '' '' # str_nat n) = (a, CHR '' '' # str_nat n)"
    by (rule strtoul_hexs [OF _ ends]) (use h in simp)
  moreover have "strtoul 10 (str_nat n) = (n, [])" using h by (intro strtoul_str_nat) simp
  ultimately have srv: "tcl_serve plain_server M (mdw_command a n) = Some (?e, M)" by (simp add: plain_server_def Let_def)
  have "TCL_TERMINATOR \<notin> set (plain_reply M a n)" "CHR 0x00 \<notin> set (plain_reply M a n)"
    using plain_reply_chars is_xdigit_not by (auto simp: TCL_TERMINATOR_def dest!: plain_reply_chars)
  moreover have "3 < length ?s" by (simp add: plain_reply_def mdw_line_def)
  then have "[] \<notin> set [take 3 ?s, drop 3 ?s]" by (cases ?s) auto
  moreover have "concat [take 3 ?s, drop 3 ?s] = ?s" by (simp only: concat.simps append_Nil2 append_take_drop_id)
  ultimately have "delivers ?e (plain_reply M a n)"
    unfolding delivers_def by (intro conjI exI [of _ "[take 3 ?s, drop 3 ?s]"]) (simp_all only: list.map not_False_eq_True)
  with srv plain_reply_text show "\<exists>evs srv' text. tcl_serve plain_server M (mdw_command a n) = Some (evs, srv') \<and> True \<and> srv' = M \<and>
      delivers evs text \<and> mdw_text (words_at M a n) text" by blast
qed

theorem openocd_read_exact_witness:
  "fst (openocd_flash_read plain_server \<lparr>oc_in = [], oc_server = word_of_nat, oc_bank = None\<rparr> 0x08000001 2000) =
     Some (map word_of_nat [0x08000001..<0x08000001 + 2000])"
proof -
  let ?st = "\<lparr>oc_in = [], oc_server = word_of_nat :: nat \<Rightarrow> byte, oc_bank = None\<rparr>"
  have "oc_in ?st = []" "(0x08000001 :: nat) + 2000 \<le> 2 ^ 32" by simp_all
  from openocd_read_exact [OF plain_mdw_server TrueI this] obtain srv where
    "openocd_flash_read plain_server ?st 0x08000001 2000 = (Some (map (oc_server ?st) [0x08000001..<0x08000001 + 2000]), ?st\<lparr>oc_server := srv\<rparr>)"
    by blast
  then show ?thesis by (simp only: fst_conv openocd.select_convs)
qed

definition tab :: string where "tab = [CHR 0x09]"

definition demo_listing :: string where
  "demo_listing = concat (map (\<lambda>l. l @ [CHR 0x0A]) (''#0 : stm32f1x at 0x08000000, size 0x00010000, buswidth 0, chipwidth 0'' #
     map (\<lambda>(pre, post, state, oz). sector_entry pre post state oz)
       [(tab, ''  2'', ''protected'', 0x800, 0x400), (tab, ''  3'', ''not protected'', 0xC00, 0x400)]))"

definition demo_server :: "unit tcl_env" where
  "demo_server =
     \<lparr>tcl_serve = (\<lambda>u cmd. Some ([Data (demo_listing @ [TCL_TERMINATOR])], ())),
      tcl_mkstemp = (\<lambda>u. None), tcl_write_file = (\<lambda>u p d. (False, u)), tcl_unlink = (\<lambda>u p. u)\<rparr>"

definition clean :: "string \<Rightarrow> bool" where
  "clean s \<longleftrightarrow> TCL_TERMINATOR \<notin> set s \<and> CHR 0x00 \<notin> set s"

lemma clean_lines: "\<forall>l \<in> set ls. clean l \<Longrightarrow> clean (concat (map (\<lambda>l. l @ [CHR 0x0A]) ls))"
  by (induction ls) (auto simp: clean_def TCL_TERMINATOR_def)

lemma clean_entry:
  assumes "plain_chars pre" "plain_chars post" "plain_chars state" shows "clean (sector_entry pre post state oz)"
proof -
  have "c \<noteq> TCL_TERMINATOR \<and> c \<noteq> CHR 0x00" if "c \<in> set (sector_entry pre post state oz)" for c
    using sector_entry_chars [OF that]
  proof (elim disjE)
    assume "is_xdigit c"
    then show ?thesis using is_xdigit_not unfolding TCL_TERMINATOR_def by blast
  next
    assume "c \<in> set ''#: 0x(kB)''"
    then show ?thesis by (auto simp: TCL_TERMINATOR_def)
  qed (use assms in \<open>auto simp: plain_chars_def\<close>)
  then show ?thesis by (auto simp: clean_def)
qed

lemma demo_delivers: "delivers [Data (demo_listing @ [TCL_TERMINATOR])] demo_listing"
proof -
  have "clean ''#0 : stm32f1x at 0x08000000, size 0x00010000, buswidth 0, chipwidth 0''" by (simp add: clean_def TCL_TERMINATOR_def)
  moreover have "plain_chars tab" "plain_chars ''  2''" "plain_chars ''protected''" "plain_chars ''  3''" "plain_chars ''not protected''"
    by (simp_all add: plain_chars_def TCL_TERMINATOR_def tab_def)
  note clean_entry [OF this(1-3), of "(0x800, 0x400)"] clean_entry [OF this(1,4,5), of "(0xC00, 0x400)"]
  ultimately have "clean demo_listing" unfolding demo_listing_def by (intro clean_lines) simp
  then show ?thesis unfolding delivers_def clean_def by (intro conjI exI [of _ "[demo_listing @ [TCL_TERMINATOR]]"]) simp_all
qed

theorem openocd_sector_exact_witness:
  "fst (openocd_flash_sector demo_server \<lparr>oc_in = [], oc_server = (), oc_bank = Some (0x08000000, 0x10000)\<rparr> 0x08000C01) =
     Some (0x08000C00, 0x400)"
proof -
  let ?st = "\<lparr>oc_in = [], oc_server = (), oc_bank = Some (0x08000000, 0x10000)\<rparr>" and ?a = "0x08000C01 :: nat"
  have "oc_bank ?st = Some (0x08000000, 0x10000)" "0x08000000 \<le> ?a" "?a - 0x08000000 < 0x10000" "oc_in ?st = []"
    "tcl_serve demo_server (oc_server ?st) ''flash info 0'' = Some ([Data (demo_listing @ [TCL_TERMINATOR])], ())"
    by (simp_all add: demo_server_def)
  from openocd_sector_exact [OF this demo_delivers demo_listing_def] show ?thesis
    by (simp add: plain_chars_def TCL_TERMINATOR_def add32_def tab_def)
qed

end
