(* ===== verification/Spec2Isabelle.thy ===== *)
theory Spec2Isabelle
  imports Sweep SourceDiff Tables Commands ProseReview Cmsis Loader Samples Stlink OpenocdSpec
begin

text \<open>
  A verification library for libhw.  The repository has two halves, and so has this library.

  The pipeline under \<open>src/tools\<close> turns Arm's reference manuals into manifests of architectural state and the
  manifests into the C tables of the library.  Its aim is completeness: no table row, caption, heading or
  prose construct that names state is dropped without a recorded decision.  The lemmas say how far the code gets: every
  record of a row parser becomes an entry and every caption gets a decision, while rows can be lost as the tail of a wrapped
  row and some constructs escape the patterns of the prose scan.

  \<^item> \<open>Prelude\<close>, \<open>PyStr\<close>, \<open>Regex\<close>: exceptions as a sum type with its loop combinators, dictionaries as
    association lists, Python's \<open>str\<close> and \<open>int\<close>, and the matcher of the \<open>re\<close> module (a backtracking
    matcher, related to a denotational semantics of patterns).
  \<^item> \<open>StateModel\<close> (\<open>tools/state/model.py\<close>): enumerations, entries, identifiers, the manifest row.
  \<^item> \<open>ArmPdf\<close> (\<open>armpdf.py\<close>): \<open>extract_tables\<close>, table bodies, register ranges.  Every caption gets a decision,
    and the row counts agree.
  \<^item> \<open>Profiles\<close> (\<open>profiles.py\<close>): the row parsers.  They share one contract, the locale of the parsers, which is
    interpreted for each of them; in a table that passes the balance check every address row has a record, except those
    consumed as the tail of an unfinished row above, at most one for each.
  \<^item> \<open>Sources\<close> (\<open>sources.py\<close>): the lock file, candidate paths, digests; a source is accepted if and only if the
    first existing candidate has the pinned hash and size.
  \<^item> \<open>Importer\<close> (\<open>importer.py\<close>): from the source that the lock pins and the tables extracted from it to entries.  The entries
    of a kept table are one for one the records of its parser, the statistics balance, state identifiers are distinct, and
    snapshot membership is stated from the fields of an entry alone.
  \<^item> \<open>Generate\<close> (\<open>generate.py\<close>): the lines of the \<open>.def\<close> file and the coverage report.
  \<^item> \<open>Tools\<close>, \<open>Commands\<close> (\<open>state_import.py\<close>, \<open>state_gen.py\<close>, \<open>state_encoding_check.py\<close>), \<open>Sweep\<close>
    (\<open>state_prose_sweep.py\<close>), \<open>SourceDiff\<close> (\<open>state_source_diff.py\<close>), \<open>Tables\<close> (\<open>state_tables.py\<close>): the
    commands as functions from what they read to exit status, printed lines and written files, with the exact
    condition under which each passes; the sweep also passes when it cannot read what it should check.
  \<^item> \<open>Prose\<close> (\<open>state/prose.py\<close>) and \<open>ProseReview\<close> (\<open>state_prose_candidates.py\<close>): the scan of the running text
    refines a specification without loops over the patterns of the code, and the review of its candidates exits by what it
    found.
  \<^item> \<open>Cmsis\<close> (\<open>state/cmsis.py\<close>, \<open>state_cmsis_diff.py\<close>): the registers of a CMSIS header by address, and their comparison
    with the manifests.  The layout of a struct is exact, and the comparison reports exactly the differences.

  The library itself, in C and Python, talks to a target through a table of backend operations.

  \<^item> \<open>FlashCore\<close> (\<open>core/hw.c\<close>): the table \<open>hw_ops\<close>, in which any operation may be missing, the wrappers, and the
    composite operations \<open>hw_flash_update\<close> and \<open>hw_flash_patch\<close>; addresses are \<open>unsigned int\<close>, with the
    wrap-around written out.
  \<^item> \<open>FlashSpec\<close>: the locale \<open>nor_flash\<close> states what the composite operations need of a backend: geometry below
    \<open>2^32\<close>, aligned erase blocks, reads that agree with a memory, writes that AND into it, erases that set a block.
    Under these laws an update is exactly an overlay of the region and a patch is an update that erases less.
    \<open>PatchCost\<close>: what a patch costs, from the memory and the new image alone; the locale \<open>nor_blocks\<close> adds that the blocks
    partition the flash, and under it the counters of a patch are exactly that cost.
  \<^item> \<open>Mock\<close> (\<open>backends/mock/hw_mock.c\<close>): the in-memory backend, and the interpretations of \<open>nor_flash\<close> and \<open>nor_blocks\<close> on it.
    \<open>MockMemory\<close>: its invariant, word accesses, and the rule that writes only clear flash bits.
  \<^item> \<open>Stlink\<close> (\<open>backends/stlink/hw_stlink.c\<close>): the operations over \<open>libstlink\<close>, a record of entry points, with the table of unequal
    sectors.  The sectors partition the flash on every family.  On the parts that program over cells which are not erased, F2/F4 and
    F7 (up to 1 MB), a library with the laws \<open>lib_reads\<close>, \<open>lib_programs\<close>, \<open>lib_erases\<close>, \<open>lib_halts\<close> gives the laws of \<open>nor_blocks\<close>, so
    update and patch are exact there too; what is erased is stated by the sectors of the reference manuals (\<open>doc_sector\<close>), written
    down apart from the tables of the code.
  \<^item> \<open>Openocd\<close> (\<open>backends/openocd/hw_openocd.c\<close>): the TCL channel, from commands to events on the socket and back, the operations, and
    the parsing of replies by the string functions of C.  \<open>OpenocdSpec\<close>: replies arrive whole however they are cut up, bulk
    reads return the memory, sectors are those of a listing in the documented line format; a late reply puts the channel out of
    step.
    \<open>ReadWindow\<close>: the aligned windows of the bulk reads of both backends.
  \<^item> \<open>StateCore\<close> (\<open>core/hw_state.c\<close>): lookups, reads (plain loads, or the transfer through DCRSR and DCRDR with its
    polling loop), identification, presence from evidence, queries.
  \<^item> \<open>Bindings\<close> (\<open>libhw/core.py\<close>, \<open>errors.py\<close>): the classes \<open>Hw\<close> and \<open>Flash\<close>; a connection is the backend's
    table with its state, or nothing once it is closed; \<open>ctypes\<close> conversions truncate.
    \<open>StateBindings\<close> (\<open>state.py\<close>, \<open>_ffi.py\<close>, the rest of \<open>core.py\<close>): database objects, identify, query and
    snapshot; \<open>query_run\<close> is a sequence of queries, each in the state the one before it left, and \<open>evidenced\<close> what counts as
    evidence, stated without the functions of the code.  \<open>Probe\<close> (\<open>cli.py\<close>): the command \<open>libhw-probe\<close> with its output.
  \<^item> \<open>Samples\<close> (\<open>examples/flash_patch.py\<close>, \<open>examples/state_dump.py\<close>): the two sample programs; on the mock target the first always
    prints the same cost, the second always reports.
  \<^item> \<open>Abi\<close> (\<open>_ffi.py\<close>, \<open>hw.h\<close>, \<open>hw_state.h\<close>): every structure and signature given to \<open>ctypes\<close> beside the C
    declaration it stands for; they have the same layout, whatever the size of a pointer.
  \<^item> \<open>Loader\<close> (\<open>_ffi.py\<close>, \<open>setup.py\<close>): the search for the shared library, its first use, and the build hook
    that bundles it, over a tree of files.  What the hook builds and bundles is what the package then loads.

  The lemmas of these theories show that update and patch have the effect they promise and nothing else, that a stale old
  image is found out, that refused regions leave the target alone; that presence never rests on a read, that a
  snapshot holds only evidenced state with the values that reads returned, and that the probe queries and counts every element.

  Bounds.  Loops are structural recursion or functions with a measure, so every operation returns; the polling loop
  has the hundred passes of the code.  The wait for a halt over OpenOCD is the exception: it goes on as long as the server
  answers otherwise, and is a partial function.  The mock target has 256 KB of flash and at most 256 pages, as in the code.

  Parameters.  Text extraction (\<open>pdftotext\<close>), the file system, \<open>make\<close>, \<open>dlopen\<close>, hash functions, YAML and JSON parsing, the cross-compiler of the
  encoding check, \<open>libstlink\<close>, the OpenOCD server with its socket and temporary files, Python expressions beyond sums and products of integers and the generated C tables are arguments of the definitions; text is Latin-1.  A read of a backend
  leaves its state alone in \<open>FlashCore\<close>, but may change it in \<open>StateCore\<close>; allocation in C succeeds.

  Not modelled.  Opening a socket, argument parsing, what \<open>setuptools\<close> does itself, the two clients that are not
  built (\<open>backends/openocd/hw.c\<close>, \<open>backends/jlink\<close>) and the tests.
\<close>

end
